(* ===== verification/Prelude.thy ===== *)
theory Prelude
  imports Complex_Main "HOL-Library.AList" "HOL-Library.Sublist"
begin

text \<open>
  Shared vocabulary of the development: Python text, Python dictionaries and the small
  generic facts the components use.

  Text. A HOL character is a byte, so a Python \<open>str\<close> is modelled by its UTF-8 encoding:
  concatenation, \<open>startswith\<close>, \<open>in\<close> and literal search are the same on both sides, and the
  operations that count or classify code points (\<open>len\<close>, slices, \<open>strip\<close>) go through
  \<open>cps\<close>, which splits the bytes into code points.

  Dictionaries. A Python \<open>dict\<close> (and an \<open>OrderedDict\<close>) is an association list in
  insertion order: \<open>map_of\<close> looks up, \<open>AList.update\<close> stores (in place, or at the end),
  \<open>AList.delete\<close> pops.
\<close>

section \<open>Collections of facts\<close>

named_theorems handler_defs \<open>definitions unfolded to run a request handler\<close>
named_theorems frame \<open>fields an operation leaves alone\<close>
named_theorems text_eval \<open>equations that evaluate the text operations on literals\<close>

section \<open>Text\<close>

subsection \<open>Code points\<close>

definition byte :: "char \<Rightarrow> nat" where
  "byte c = of_char c"

text \<open>The number of bytes of the code point that the given lead byte opens.\<close>

definition cp_width :: "char \<Rightarrow> nat" where
  "cp_width c = (let b = byte c in
     if b < 192 then 1 else if b < 224 then 2 else if b < 240 then 3 else 4)"

lemma cp_width_pos [simp]: "0 < cp_width c"
  by (simp add: cp_width_def Let_def)

function cps :: "string \<Rightarrow> string list" where
  "cps [] = []"
| "cps (c # s) = take (cp_width c) (c # s) # cps (drop (cp_width c) (c # s))"
  by pat_completeness auto
termination
  by (relation "measure length") (auto simp: Suc_le_eq)

lemma concat_cps [simp]: "concat (cps s) = s"
  by (induction s rule: cps.induct) auto

lemma cps_Nil_iff [simp]: "cps s = [] \<longleftrightarrow> s = []"
  by (cases s) auto

text \<open>\<open>len(s)\<close>, \<open>s[:n]\<close> and \<open>s[n:]\<close> of Python count code points.\<close>

definition py_len :: "string \<Rightarrow> nat" where
  "py_len s = length (cps s)"

definition py_take :: "nat \<Rightarrow> string \<Rightarrow> string" where
  "py_take n s = concat (take n (cps s))"

definition py_drop :: "nat \<Rightarrow> string \<Rightarrow> string" where
  "py_drop n s = concat (drop n (cps s))"

lemma py_take_drop: "py_take n s @ py_drop n s = s"
  by (simp add: py_take_def py_drop_def flip: concat_append)

definition ascii :: "string \<Rightarrow> bool" where
  "ascii s \<longleftrightarrow> list_all (\<lambda>c. byte c < 128) s"

lemma ascii_cps: "ascii s \<Longrightarrow> cps s = map (\<lambda>c. [c]) s"
  by (induction s) (auto simp: ascii_def cp_width_def)

lemma ascii_py_len: "ascii s \<Longrightarrow> py_len s = length s"
  by (simp add: py_len_def ascii_cps)

lemma py_len_0 [simp]: "py_len s = 0 \<longleftrightarrow> s = []"
  by (simp add: py_len_def)

lemma py_len_Nil [simp]: "py_len [] = 0"
  by simp

subsection \<open>Whitespace\<close>

text \<open>The code points Python's \<open>str.isspace\<close> accepts, in UTF-8.\<close>

definition bytes :: "nat list \<Rightarrow> string" where
  "bytes ns = map char_of ns"

definition is_ws :: "string \<Rightarrow> bool" where
  "is_ws p \<longleftrightarrow> map byte p \<in> set
     ([[9], [10], [11], [12], [13], [28], [29], [30], [31], [32],
       [194, 133], [194, 160], [225, 154, 128],
       [226, 128, 168], [226, 128, 169], [226, 128, 175], [226, 129, 159], [227, 128, 128]]
      @ map (\<lambda>k. [226, 128, k]) [128, 129, 130, 131, 132, 133, 134, 135, 136, 137, 138])"

definition py_lstrip :: "string \<Rightarrow> string" where
  "py_lstrip s = concat (dropWhile is_ws (cps s))"

definition py_rstrip :: "string \<Rightarrow> string" where
  "py_rstrip s = concat (rev (dropWhile is_ws (rev (cps s))))"

definition py_strip :: "string \<Rightarrow> string" where
  "py_strip s = py_rstrip (py_lstrip s)"

text \<open>The byte order mark U+FEFF and \<open>s.lstrip('\ufeff')\<close>.\<close>

definition bom :: string where
  "bom = bytes [239, 187, 191]"

definition lstrip_bom :: "string \<Rightarrow> string" where
  "lstrip_bom s = concat (dropWhile (\<lambda>p. p = bom) (cps s))"

definition starts_any :: "string list \<Rightarrow> string \<Rightarrow> bool" where
  "starts_any ps s \<longleftrightarrow> list_ex (\<lambda>p. prefix p s) ps"

lemma dropWhile_concat_suffix: "suffix (concat (dropWhile P xs)) (concat xs)"
  by (metis append.assoc concat_append suffixI takeWhile_dropWhile_id)

lemma py_lstrip_suffix: "suffix (py_lstrip s) s"
  using dropWhile_concat_suffix [of is_ws "cps s"] by (simp add: py_lstrip_def)

lemma lstrip_bom_suffix: "suffix (lstrip_bom s) s"
  using dropWhile_concat_suffix [of "\<lambda>p. p = bom" "cps s"] by (simp add: lstrip_bom_def)

lemma py_rstrip_prefix: "prefix (py_rstrip s) s"
proof -
  have "s = concat (rev (takeWhile is_ws (rev (cps s)) @ dropWhile is_ws (rev (cps s))))"
    by simp
  then have "s = py_rstrip s @ concat (rev (takeWhile is_ws (rev (cps s))))"
    by (simp add: py_rstrip_def del: takeWhile_dropWhile_id)
  then show ?thesis by (rule prefixI)
qed

lemma length_py_strip: "length (py_strip s) \<le> length s"
  using py_rstrip_prefix [of "py_lstrip s"] py_lstrip_suffix [of s]
  by (auto simp: py_strip_def dest!: prefix_length_le suffix_length_le)

subsection \<open>Numbers in text\<close>

definition digit :: "nat \<Rightarrow> char" where
  "digit d = char_of (48 + d)"

definition is_digit :: "char \<Rightarrow> bool" where
  "is_digit c \<longleftrightarrow> 48 \<le> byte c \<and> byte c \<le> 57"

fun dec :: "nat \<Rightarrow> string" where
  "dec n = (if n < 10 then [digit n] else dec (n div 10) @ [digit (n mod 10)])"

declare dec.simps [simp del]

definition undec :: "string \<Rightarrow> nat" where
  "undec s = foldl (\<lambda>a c. 10 * a + (byte c - 48)) 0 s"

text \<open>\<open>f'{n:06d}'\<close> and its kin: left padding with zeros.\<close>

definition zpad :: "nat \<Rightarrow> string \<Rightarrow> string" where
  "zpad w s = replicate (w - length s) (CHR ''0'') @ s"

lemma byte_char_of [simp]: "n < 256 \<Longrightarrow> byte (char_of n) = n"
  by (simp add: byte_def)

lemma byte_digit [simp]: "d < 10 \<Longrightarrow> byte (digit d) = 48 + d"
  by (simp add: digit_def)

lemma is_digit_digit [simp]: "d < 10 \<Longrightarrow> is_digit (digit d)"
  by (simp add: is_digit_def)

lemma digit_eval [text_eval]:
  "digit 0 = CHR ''0''" "digit 1 = CHR ''1''" "digit (Suc 0) = CHR ''1''" "digit 2 = CHR ''2''"
  "digit 3 = CHR ''3''" "digit 4 = CHR ''4''" "digit 5 = CHR ''5''" "digit 6 = CHR ''6''"
  "digit 7 = CHR ''7''" "digit 8 = CHR ''8''" "digit 9 = CHR ''9''"
  by (simp_all add: digit_def char_of_def bit_0)

lemma replicate_eval [text_eval]:
  "replicate 2 c = [c, c]" "replicate 3 c = [c, c, c]" "replicate 4 c = [c, c, c, c]"
  "replicate 5 c = [c, c, c, c, c]"
  by (simp_all add: eval_nat_numeral)

lemma dec_digits: "list_all is_digit (dec n)"
  by (induction n rule: dec.induct) (simp add: dec.simps)

lemma dec_nonempty [simp]: "dec n \<noteq> []"
  by (subst dec.simps) simp

lemma undec_snoc: "undec (s @ [c]) = 10 * undec s + (byte c - 48)"
  by (simp add: undec_def)

lemma undec_dec [simp]: "undec (dec n) = n"
proof (induction n rule: dec.induct)
  case (1 n)
  then show ?case
    by (cases "n < 10") (simp_all add: dec.simps [of n] undec_snoc, simp add: undec_def)
qed

lemma dec_inj: "dec m = dec n \<longleftrightarrow> m = n"
  by (metis undec_dec)

lemma undec_zeros: "undec (replicate k (CHR ''0'') @ s) = undec s"
  by (induction k) (simp_all add: undec_def byte_def)

lemma undec_zpad [simp]: "undec (zpad w (dec n)) = n"
  by (simp add: zpad_def undec_zeros)

lemma zpad_digits: "list_all is_digit (zpad w (dec n))"
  by (auto simp: zpad_def dec_digits list_all_iff is_digit_def byte_def
      dest: dec_digits [unfolded list_all_iff, rule_format])

lemma length_zpad: "w \<le> length (zpad w s)"
  by (simp add: zpad_def)

text \<open>\<open>str.lower()\<close> on the ASCII letters (the code lowers header names, hosts and tokens).\<close>

definition lower_char :: "char \<Rightarrow> char" where
  "lower_char c = (if 65 \<le> byte c \<and> byte c \<le> 90 then char_of (byte c + 32) else c)"

definition py_lower :: "string \<Rightarrow> string" where
  "py_lower s = map lower_char s"

section \<open>Dictionaries\<close>

type_synonym ('k, 'v) dict = "('k \<times> 'v) list"

abbreviation dget :: "('k, 'v) dict \<Rightarrow> 'k \<Rightarrow> 'v option" where
  "dget \<equiv> map_of"

abbreviation dset :: "'k \<Rightarrow> 'v \<Rightarrow> ('k, 'v) dict \<Rightarrow> ('k, 'v) dict" where
  "dset \<equiv> AList.update"

abbreviation ddel :: "'k \<Rightarrow> ('k, 'v) dict \<Rightarrow> ('k, 'v) dict" where
  "ddel \<equiv> AList.delete"

definition dget_or :: "('k, 'v) dict \<Rightarrow> 'k \<Rightarrow> 'v \<Rightarrow> 'v" where
  "dget_or d k x = (case dget d k of None \<Rightarrow> x | Some v \<Rightarrow> v)"

definition dhas :: "('k, 'v) dict \<Rightarrow> 'k \<Rightarrow> bool" where
  "dhas d k \<longleftrightarrow> dget d k \<noteq> None"

text \<open>\<open>OrderedDict.move_to_end\<close> (of a key that is present; the code always checks).\<close>

definition move_to_end :: "'k \<Rightarrow> ('k, 'v) dict \<Rightarrow> ('k, 'v) dict" where
  "move_to_end k d = (case dget d k of None \<Rightarrow> d | Some v \<Rightarrow> ddel k d @ [(k, v)])"

definition dict_ok :: "('k, 'v) dict \<Rightarrow> bool" where
  "dict_ok d \<longleftrightarrow> distinct (map fst d)"

lemma dget_dset [simp]: "dget (dset k v d) k' = (if k' = k then Some v else dget d k')"
  by (simp add: AList.update_conv')

lemma dget_ddel [simp]: "dget (ddel k d) k' = (if k' = k then None else dget d k')"
  by (simp add: AList.delete_conv')

lemma dict_ok_Nil [simp]: "dict_ok []"
  by (simp add: dict_ok_def)

lemma dict_ok_dset [simp]: "dict_ok d \<Longrightarrow> dict_ok (dset k v d)"
  by (simp add: dict_ok_def AList.distinct_update)

lemma dict_ok_ddel [simp]: "dict_ok d \<Longrightarrow> dict_ok (ddel k d)"
  by (simp add: dict_ok_def AList.distinct_delete)

lemma ddel_notin_keys [simp]: "k \<notin> fst ` set (ddel k d)"
  by (rule AList.delete_notin_dom)

lemma dict_ok_move_to_end [simp]: "dict_ok d \<Longrightarrow> dict_ok (move_to_end k d)"
  by (auto simp: move_to_end_def dict_ok_def AList.distinct_delete
      split: option.split dest: AList.delete_notin_dom [THEN notE, rotated])

lemma dget_move_to_end [simp]: "dget (move_to_end k d) = dget d"
  by (rule ext) (auto simp: move_to_end_def map_add_def split: option.split)

lemma dset_new: "dget d k = None \<Longrightarrow> dset k v d = d @ [(k, v)]"
  by (induction d) (auto split: if_splits)

lemma keys_dset: "fst ` set (dset k v d) = insert k (fst ` set d)"
  by (simp add: AList.dom_update)

lemma keys_ddel: "fst ` set (ddel k d) = fst ` set d - {k}"
  by (auto simp: AList.delete_eq image_iff)

lemma length_ddel: "dict_ok d \<Longrightarrow> dget d k \<noteq> None \<Longrightarrow> Suc (length (ddel k d)) = length d"
proof (induction d)
  case (Cons p d)
  then show ?case
    by (cases "fst p = k") (auto simp: dict_ok_def)
qed simp

lemma length_move_to_end [simp]: "dict_ok d \<Longrightarrow> length (move_to_end k d) = length d"
  using length_ddel [of d k] by (auto simp: move_to_end_def split: option.split)

lemma dget_set: "dict_ok d \<Longrightarrow> dget d k = Some v \<longleftrightarrow> (k, v) \<in> set d"
  by (simp add: dict_ok_def)

lemma dget_filter:
  "dict_ok d \<Longrightarrow> dget (filter P d) k
    = (case dget d k of None \<Rightarrow> None | Some v \<Rightarrow> if P (k, v) then Some v else None)"
proof (induction d)
  case (Cons p d)
  have "dget d (fst p) = None" using Cons.prems by (auto simp: dict_ok_def map_of_eq_None_iff)
  with Cons show ?case by (auto simp: dict_ok_def split: option.splits)
qed simp

lemma dget_Some_key: "dget d k = Some v \<Longrightarrow> k \<in> fst ` set d"
  by (force dest: map_of_SomeD)

lemma dget_None_key: "dget d k = None \<longleftrightarrow> k \<notin> fst ` set d"
  by (rule map_of_eq_None_iff)

text \<open>Two dictionaries that are each other's inverse.\<close>

definition paired :: "('k, 'v) dict \<Rightarrow> ('v, 'k) dict \<Rightarrow> bool" where
  "paired d e \<longleftrightarrow> (\<forall>k v. dget d k = Some v \<longleftrightarrow> dget e v = Some k)"

lemma paired_Nil [simp]: "paired [] []"
  by (simp add: paired_def)

lemma pairedD: "paired d e \<Longrightarrow> dget d k = Some v \<Longrightarrow> dget e v = Some k"
  by (simp add: paired_def)

lemma pairedD': "paired d e \<Longrightarrow> dget e v = Some k \<Longrightarrow> dget d k = Some v"
  by (simp add: paired_def)

lemma paired_Nil2: "paired d [] \<Longrightarrow> d = []"
proof (cases d)
  case (Cons p d')
  assume "paired d []"
  from pairedD [OF this, of "fst p" "snd p"] Cons show ?thesis by (cases p) simp
qed

lemma paired_cong: "dget d' = dget d \<Longrightarrow> dget e' = dget e \<Longrightarrow> paired d' e' = paired d e"
  by (simp add: paired_def)

lemma paired_dset:
  "paired d e \<Longrightarrow> dget d k = None \<Longrightarrow> dget e v = None \<Longrightarrow> paired (dset k v d) (dset v k e)"
  unfolding paired_def dget_dset by (metis option.distinct(1) option.inject)

lemma paired_ddel:
  assumes "paired d e" and "dget d k = Some v"
  shows "paired (ddel k d) (ddel v e)"
proof -
  have "dget d k' = Some v \<Longrightarrow> k' = k" for k'
    using pairedD [OF assms(1), of k' v] pairedD [OF assms] by simp
  moreover have "dget e v' = Some k \<Longrightarrow> v' = v" for v'
    using pairedD' [OF assms(1), of v' k] assms(2) by simp
  ultimately show ?thesis using assms(1) unfolding paired_def dget_ddel
    by (metis option.distinct(1))
qed

section \<open>Errors as values\<close>

text \<open>The exceptions the modelled code raises or catches.\<close>

datatype py_exn =
    ValueError
  | RuntimeError
  | KeyError
  | SystemExit
  | JSONDecodeError
  | OtherExn

type_synonym 'a py_result = "py_exn + 'a"

end
