(* ===== verification/Json.thy ===== *)
theory Json
  imports Prelude
begin

text \<open>
  JSON values as Python holds them after \<open>json.loads\<close> or \<open>orjson.loads\<close>: an object is a
  dictionary in insertion order.  The accessors follow \<open>d.get(k, default)\<close>.
\<close>

datatype json =
    JNull
  | JBool bool
  | JInt int
  | JFlt real
  | JStr string
  | JArr "json list"
  | JObj "(string \<times> json) list"

fun jget :: "json \<Rightarrow> string \<Rightarrow> json option" where
  "jget (JObj d) k = dget d k"
| "jget _ k = None"

fun jstr :: "json \<Rightarrow> string option" where
  "jstr (JStr s) = Some s"
| "jstr _ = None"

fun jbool :: "json \<Rightarrow> bool option" where
  "jbool (JBool b) = Some b"
| "jbool _ = None"

fun jnum :: "json \<Rightarrow> real option" where
  "jnum (JInt i) = Some (of_int i)"
| "jnum (JFlt r) = Some r"
| "jnum _ = None"

fun jarr :: "json \<Rightarrow> json list option" where
  "jarr (JArr xs) = Some xs"
| "jarr _ = None"

fun jobj :: "json \<Rightarrow> (string \<times> json) list option" where
  "jobj (JObj d) = Some d"
| "jobj _ = None"

text \<open>
  \<open>o.get(k, x)\<close> where the code goes on to use the value at one type: the value when the key
  holds one of that type, else the default.
\<close>

definition jget_as :: "(json \<Rightarrow> 'a option) \<Rightarrow> 'a \<Rightarrow> json \<Rightarrow> string \<Rightarrow> 'a" where
  "jget_as f x j k = (case Option.bind (jget j k) f of None \<Rightarrow> x | Some v \<Rightarrow> v)"

abbreviation jget_str :: "string \<Rightarrow> json \<Rightarrow> string \<Rightarrow> string" where
  "jget_str \<equiv> jget_as jstr"

text \<open>Python truth of a JSON value: empty and zero values are false.\<close>

fun jtruthy :: "json \<Rightarrow> bool" where
  "jtruthy JNull = False"
| "jtruthy (JBool b) = b"
| "jtruthy (JInt i) = (i \<noteq> 0)"
| "jtruthy (JFlt r) = (r \<noteq> 0)"
| "jtruthy (JStr s) = (s \<noteq> [])"
| "jtruthy (JArr xs) = (xs \<noteq> [])"
| "jtruthy (JObj d) = (d \<noteq> [])"

definition jstrs :: "json \<Rightarrow> string list" where
  "jstrs j = (case jarr j of None \<Rightarrow> [] | Some xs \<Rightarrow> List.map_filter jstr xs)"

lemma jget_as_hit: "dget d k = Some v \<Longrightarrow> f v = Some x \<Longrightarrow> jget_as f y (JObj d) k = x"
  by (simp add: jget_as_def)

lemma jstrs_arr [simp]: "jstrs (JArr (map JStr xs)) = xs"
  by (induction xs) (simp_all add: jstrs_def List.map_filter_simps)

end
