(* ===== verification/Rate_Limits.thy ===== *)
theory Rate_Limits
  imports Prelude
begin

text \<open>
  The contract of a minimum-interval limiter, which two components provide (the automatic
  approvals of each registration, the credential requests of the whole proxy): a request is
  granted when at least the interval has passed since the last grant; a grant records its time
  and a refusal leaves the record alone.
\<close>

text \<open>The times granted when a limiter is asked at the given times.\<close>

fun grants :: "(real \<Rightarrow> 's \<Rightarrow> 's \<times> bool) \<Rightarrow> real list \<Rightarrow> 's \<Rightarrow> real list" where
  "grants attempt [] s = []"
| "grants attempt (t # ts) s =
     (let r = attempt t s
      in if snd r then t # grants attempt ts (fst r) else grants attempt ts (fst r))"

locale interval_limiter =
  fixes attempt :: "real \<Rightarrow> 's \<Rightarrow> 's \<times> bool"
    and last_grant :: "'s \<Rightarrow> real"
    and gap :: real
  assumes granted_iff: "snd (attempt now s) \<longleftrightarrow> gap \<le> now - last_grant s"
    and grant_records: "snd (attempt now s) \<Longrightarrow> last_grant (fst (attempt now s)) = now"
    and refusal_keeps: "\<not> snd (attempt now s) \<Longrightarrow> last_grant (fst (attempt now s)) = last_grant s"
begin

lemma grants_after: "grants attempt ts s = g # gs \<Longrightarrow> last_grant s + gap \<le> g"
proof (induction ts arbitrary: s)
  case (Cons t ts)
  show ?case
  proof (cases "snd (attempt t s)")
    case True
    with Cons.prems show ?thesis by (simp add: granted_iff Let_def)
  next
    case False
    with Cons.prems have "grants attempt ts (fst (attempt t s)) = g # gs" by (simp add: Let_def)
    from Cons.IH [OF this] False show ?thesis by (simp add: refusal_keeps)
  qed
qed simp

lemma grants_spaced: "Suc i < length (grants attempt ts s) \<Longrightarrow> grants attempt ts s ! i + gap \<le> grants attempt ts s ! Suc i"
proof (induction ts arbitrary: s i)
  case (Cons t ts)
  let ?s = "fst (attempt t s)"
  show ?case
  proof (cases "snd (attempt t s)")
    case granted: True
    show ?thesis
    proof (cases i)
      case 0
      with Cons.prems granted obtain g gs where gs: "grants attempt ts ?s = g # gs"
        by (cases "grants attempt ts ?s") (auto simp: Let_def)
      from grants_after [OF gs] granted gs 0 show ?thesis
        by (simp add: grant_records Let_def)
    next
      case (Suc j)
      with Cons.prems Cons.IH [of j ?s] granted show ?thesis by (simp add: Let_def)
    qed
  next
    case False
    with Cons show ?thesis by (simp add: Let_def)
  qed
qed simp

text \<open>Hence \<open>n + 1\<close> grants span at least \<open>n\<close> intervals, whatever the request times.\<close>

lemma grants_rate: "n < length (grants attempt ts s) \<Longrightarrow> grants attempt ts s ! 0 + n * gap \<le> grants attempt ts s ! n"
proof (induction n)
  case (Suc n)
  then have "grants attempt ts s ! 0 + n * gap \<le> grants attempt ts s ! n" by simp
  moreover have "grants attempt ts s ! n + gap \<le> grants attempt ts s ! Suc n"
    using Suc.prems by (rule grants_spaced)
  ultimately show ?case by (simp add: algebra_simps)
qed simp

end

end
