(* ===== verification/Registry.thy ===== *)
theory Registry
  imports Json Rate_Limits
begin

text \<open>
  The caller registry (\<open>_registry.py\<close>): registered scripts bound to a file hash, their
  activation and revocation, the automatic-approval decision, the hash-change decision and the
  persisted file with its integrity digest.

  The registry dictionaries are fields of the proxy object; the operations are defined on the
  extensible record, so the credential component runs them on its larger state unchanged.
  Every operation runs inside one \<open>async with self._lock\<close> section, so each is one atomic
  function.  Random identifiers and clock readings are arguments; the digest
  (\<open>hashlib.sha256\<close> of the dumped file) is a parameter.
\<close>

section \<open>Data\<close>

record caller =
  rc_reg_id :: string
  rc_name :: string
  rc_script_path :: string
  rc_script_hash :: string
  rc_description :: string
  rc_script_hash_old :: string
  rc_hash_change_at :: real
  rc_hash_change_notified :: bool
  rc_entries :: "(string, string list) dict"
  rc_allow_mode :: string
  rc_can_auto_unlock :: bool
  rc_created_at :: string
  rc_enabled :: bool

definition AUTO_RATE_INTERVAL :: real where
  "AUTO_RATE_INTERVAL = 1"

definition GRACE_PERIOD_SECONDS :: real where
  "GRACE_PERIOD_SECONDS = 3600"

definition in_grace_period :: "real \<Rightarrow> caller \<Rightarrow> bool" where
  "in_grace_period now r =
     (if rc_hash_change_at r = 0 then False
      else now - rc_hash_change_at r < GRACE_PERIOD_SECONDS)"

text \<open>
  The three reactions of an approval message: the open lock (keep automatic approval), the
  check mark (ordinary approval) and the cross (reject).  Any other key is kept as it is.
\<close>

datatype reaction = Unlocked | Check | Cross | OtherKey string

record reg_pending =
  rp_reg_id :: string
  rp_name :: string
  rp_approved :: "reaction option"
  rp_event :: nat

record hash_pending =
  hp_reg_id :: string
  hp_new_hash :: string
  hp_result :: "reaction option"
  hp_event :: nat

record reg_state =
  caller_registry :: "(string, caller) dict"
  caller_registry_by_path :: "(string, string) dict"
  registrations_by_name :: "(string, string) dict"
  registration_pending :: "(string, reg_pending) dict"
  registration_msgs :: "(string, string) dict"
  hash_change_pending :: "(string, hash_pending) dict"
  hash_change_msgs :: "(string, string) dict"
  auto_rate_limits :: "(string, real) dict"
  registry_file :: "json option"

section \<open>Names\<close>

definition name_exists :: "('a) reg_state_scheme \<Rightarrow> string \<Rightarrow> bool" where
  "name_exists s n =
     (if dhas (registrations_by_name s) n then True
      else list_ex (\<lambda>p. rp_name (snd p) = n) (registration_pending s))"

definition lookup_by_name :: "('a) reg_state_scheme \<Rightarrow> string \<Rightarrow> caller option" where
  "lookup_by_name s n =
     (case dget (registrations_by_name s) n of
        None \<Rightarrow> None
      | Some rid \<Rightarrow> if rid \<noteq> [] then dget (caller_registry s) rid else None)"

section \<open>The persisted file\<close>

definition caller_json :: "caller \<Rightarrow> json" where
  "caller_json c = JObj
     [(''reg_id'', JStr (rc_reg_id c)),
      (''name'', JStr (rc_name c)),
      (''script_path'', JStr (rc_script_path c)),
      (''script_hash'', JStr (rc_script_hash c)),
      (''script_hash_old'', JStr (rc_script_hash_old c)),
      (''hash_change_at'', JFlt (rc_hash_change_at c)),
      (''hash_change_notified'', JBool (rc_hash_change_notified c)),
      (''allowed_entries'', JObj (map (\<lambda>(k, fs). (k, JArr (map JStr fs))) (rc_entries c))),
      (''allow_mode'', JStr (rc_allow_mode c)),
      (''can_auto_unlock'', JBool (rc_can_auto_unlock c)),
      (''created_at'', JStr (rc_created_at c)),
      (''enabled'', JBool (rc_enabled c))]"

definition registry_data :: "string \<Rightarrow> ('a) reg_state_scheme \<Rightarrow> (string \<times> json) list" where
  "registry_data updated_at s =
     [(''version'', JInt 3),
      (''updated_at'', JStr updated_at),
      (''callers'', JArr (map (\<lambda>p. caller_json (snd p)) (caller_registry s)))]"

text \<open>
  \<open>_save_caller_registry\<close> writes a temporary file, syncs and renames it over the registry
  file: the file holds the new data, whole.
\<close>

definition save_caller_registry ::
  "((string \<times> json) list \<Rightarrow> string) \<Rightarrow> string \<Rightarrow> ('a) reg_state_scheme \<Rightarrow> ('a) reg_state_scheme" where
  "save_caller_registry digest updated_at s =
     (let data = registry_data updated_at s
      in s\<lparr>registry_file := Some (JObj (dset ''integrity'' (JStr (digest data)) data))\<rparr>)"

definition json_entries :: "json \<Rightarrow> (string, string list) dict" where
  "json_entries j = (case jobj j of None \<Rightarrow> [] | Some d \<Rightarrow> map (\<lambda>(k, v). (k, jstrs v)) d)"

definition caller_of_json :: "json \<Rightarrow> caller" where
  "caller_of_json c = \<lparr>
     rc_reg_id = jget_str '''' c ''reg_id'',
     rc_name = jget_str '''' c ''name'',
     rc_script_path = jget_str '''' c ''script_path'',
     rc_script_hash = jget_str '''' c ''script_hash'',
     rc_description = '''',
     rc_script_hash_old = jget_str '''' c ''script_hash_old'',
     rc_hash_change_at = jget_as jnum 0 c ''hash_change_at'',
     rc_hash_change_notified = jget_as jbool False c ''hash_change_notified'',
     rc_entries = jget_as (\<lambda>j. Some (json_entries j)) [] c ''allowed_entries'',
     rc_allow_mode = jget_str ''manual'' c ''allow_mode'',
     rc_can_auto_unlock = jget_as jbool False c ''can_auto_unlock'',
     rc_created_at = jget_str '''' c ''created_at'',
     rc_enabled = jget_as jbool True c ''enabled''\<rparr>"

definition index_caller :: "caller \<Rightarrow> ('a) reg_state_scheme \<Rightarrow> ('a) reg_state_scheme" where
  "index_caller r s = s\<lparr>
     caller_registry := dset (rc_reg_id r) r (caller_registry s),
     caller_registry_by_path := dset (rc_script_path r) (rc_reg_id r) (caller_registry_by_path s),
     registrations_by_name := dset (rc_name r) (rc_reg_id r) (registrations_by_name s)\<rparr>"

fun load_callers :: "json list \<Rightarrow> ('a) reg_state_scheme \<Rightarrow> ('a) reg_state_scheme" where
  "load_callers [] s = s"
| "load_callers (c # cs) s =
     (let r = caller_of_json c
      in load_callers cs (if rc_reg_id r \<noteq> [] then index_caller r s else s))"

text \<open>
  Loading: \<open>None\<close> is a missing or unparsable file (the registry stays empty).  A stored digest
  that does not match leaves the registry empty; a file without one is accepted; a file whose
  top value is not an object makes \<open>data.pop\<close> raise.
\<close>

definition load_caller_registry ::
  "((string \<times> json) list \<Rightarrow> string) \<Rightarrow> json option \<Rightarrow> ('a) reg_state_scheme
    \<Rightarrow> ('a) reg_state_scheme py_result" where
  "load_caller_registry digest content s =
     (case content of
        None \<Rightarrow> Inr s
      | Some (JObj data0) \<Rightarrow>
          let stored = dget data0 ''integrity''; data = ddel ''integrity'' data0;
              callers = (case Option.bind (dget data ''callers'') jarr of None \<Rightarrow> [] | Some cs \<Rightarrow> cs)
          in if stored \<noteq> None \<and> stored \<noteq> Some JNull \<and> stored \<noteq> Some (JStr (digest data)) then Inr s
             else Inr (load_callers callers s)
      | Some _ \<Rightarrow> Inl OtherExn)"

section \<open>Registration, activation, revocation\<close>

definition register_caller ::
  "string \<Rightarrow> string \<Rightarrow> string \<Rightarrow> string \<Rightarrow> string \<Rightarrow> string \<Rightarrow> (string, string list) dict \<Rightarrow> string \<Rightarrow> bool
    \<Rightarrow> ('a) reg_state_scheme \<Rightarrow> ('a) reg_state_scheme \<times> string" where
  "register_caller rid now n path h desc entries mode auto s =
     (let reg = \<lparr>rc_reg_id = rid, rc_name = n, rc_script_path = path, rc_script_hash = h,
                 rc_description = desc, rc_script_hash_old = '''', rc_hash_change_at = 0,
                 rc_hash_change_notified = False, rc_entries = entries, rc_allow_mode = mode,
                 rc_can_auto_unlock = auto, rc_created_at = now, rc_enabled = False\<rparr>
      in (s\<lparr>caller_registry := dset rid reg (caller_registry s),
            caller_registry_by_path := dset path rid (caller_registry_by_path s),
            registrations_by_name := dset n rid (registrations_by_name s)\<rparr>, rid))"

definition activate_caller ::
  "((string \<times> json) list \<Rightarrow> string) \<Rightarrow> string \<Rightarrow> string \<Rightarrow> ('a) reg_state_scheme \<Rightarrow> ('a) reg_state_scheme"
  where
  "activate_caller digest now rid s =
     (case dget (caller_registry s) rid of
        None \<Rightarrow> s
      | Some reg \<Rightarrow> save_caller_registry digest now
          (s\<lparr>caller_registry := dset rid (reg\<lparr>rc_enabled := True\<rparr>) (caller_registry s)\<rparr>))"

definition revoke_caller ::
  "((string \<times> json) list \<Rightarrow> string) \<Rightarrow> string \<Rightarrow> string \<Rightarrow> ('a) reg_state_scheme
    \<Rightarrow> ('a) reg_state_scheme \<times> bool" where
  "revoke_caller digest now rid s =
     (case dget (caller_registry s) rid of
        None \<Rightarrow> (s, False)
      | Some reg \<Rightarrow>
          (save_caller_registry digest now
             (s\<lparr>caller_registry := ddel rid (caller_registry s),
                registrations_by_name := ddel (rc_name reg) (registrations_by_name s),
                caller_registry_by_path := ddel (rc_script_path reg) (caller_registry_by_path s)\<rparr>),
           True))"

section \<open>Automatic approval\<close>

text \<open>The loop of \<open>_find_caller_by_hash\<close> over the registrations, in insertion order.\<close>

fun find_by_hash_in :: "real \<Rightarrow> string \<Rightarrow> string \<Rightarrow> (string, caller) dict \<Rightarrow> caller option" where
  "find_by_hash_in now h path [] = None"
| "find_by_hash_in now h path ((k, reg) # rest) =
     (if \<not> rc_enabled reg then find_by_hash_in now h path rest
      else if rc_script_hash reg = h \<and> rc_script_path reg = path then Some reg
      else if in_grace_period now reg \<and> rc_script_hash_old reg = h \<and> rc_script_path reg = path
        then Some reg
      else find_by_hash_in now h path rest)"

definition find_caller_by_hash ::
  "real \<Rightarrow> ('a) reg_state_scheme \<Rightarrow> string \<Rightarrow> string \<Rightarrow> caller option" where
  "find_caller_by_hash now s h path = find_by_hash_in now h path (caller_registry s)"

definition find_caller_by_path :: "('a) reg_state_scheme \<Rightarrow> string \<Rightarrow> caller option" where
  "find_caller_by_path s path =
     (case dget (caller_registry_by_path s) path of
        None \<Rightarrow> None
      | Some rid \<Rightarrow> if rid \<noteq> [] then dget (caller_registry s) rid else None)"

definition check_entry_allowed_caller :: "caller \<Rightarrow> string \<Rightarrow> string option \<Rightarrow> bool" where
  "check_entry_allowed_caller reg entry fld =
     (if \<not> rc_enabled reg then False
      else case dget (rc_entries reg) entry of
        None \<Rightarrow> False
      | Some allowed \<Rightarrow>
          if allowed = [] then True
          else (case fld of None \<Rightarrow> True | Some f \<Rightarrow> f \<in> set allowed))"

text \<open>The reason string of the result: empty, the refusal message, or \<open>hash_mismatch\<close>.\<close>

datatype approve_reason = NoReason | NotAllowed string string | HashMismatch

record auth =
  get_binary_hash :: string
  get_binary_secret :: string
  caller_hash :: string
  caller_path :: string

definition check_auto_approve ::
  "real \<Rightarrow> string \<Rightarrow> string option \<Rightarrow> auth \<Rightarrow> ('a) reg_state_scheme
    \<Rightarrow> bool option \<times> caller option \<times> approve_reason" where
  "check_auto_approve now entry fld a s =
     (if caller_hash a \<noteq> [] then
        (case find_caller_by_hash now s (caller_hash a) (caller_path a) of
           Some reg \<Rightarrow>
             if \<not> check_entry_allowed_caller reg entry fld
             then (Some False, Some reg, NotAllowed (rc_name reg) entry)
             else (Some True, Some reg, NoReason)
         | None \<Rightarrow>
             (case find_caller_by_path s (caller_path a) of
                Some path_reg \<Rightarrow>
                  if rc_enabled path_reg then (None, Some path_reg, HashMismatch)
                  else (None, None, NoReason)
              | None \<Rightarrow> (None, None, NoReason)))
      else (None, None, NoReason))"

definition check_auto_rate_limit ::
  "real \<Rightarrow> string \<Rightarrow> ('a) reg_state_scheme \<Rightarrow> ('a) reg_state_scheme \<times> bool" where
  "check_auto_rate_limit now n s =
     (let last = dget_or (auto_rate_limits s) n 0
      in if now - last < AUTO_RATE_INTERVAL then (s, False)
         else (s\<lparr>auto_rate_limits := dset n now (auto_rate_limits s)\<rparr>, True))"

section \<open>Hash changes\<close>

text \<open>
  \<open>_notify_hash_change\<close> after its approval message was sent: \<open>None\<close> means Matrix did not take
  the message and nothing is recorded.
\<close>

definition notify_hash_change ::
  "caller \<Rightarrow> string \<Rightarrow> string option \<Rightarrow> nat \<Rightarrow> ('a) reg_state_scheme
    \<Rightarrow> ('a) reg_state_scheme \<times> string option" where
  "notify_hash_change reg new_hash msg_id ev s =
     (case msg_id of
        None \<Rightarrow> (s, None)
      | Some m \<Rightarrow>
          (s\<lparr>hash_change_pending := dset (rc_reg_id reg)
                \<lparr>hp_reg_id = rc_reg_id reg, hp_new_hash = new_hash, hp_result = None, hp_event = ev\<rparr>
                (hash_change_pending s),
             hash_change_msgs := dset m (rc_reg_id reg) (hash_change_msgs s)\<rparr>, Some m))"

definition resolve_caller :: "string \<Rightarrow> reaction \<Rightarrow> caller \<Rightarrow> caller" where
  "resolve_caller new_hash r reg =
     (if r = Unlocked then
        reg\<lparr>rc_script_hash_old := rc_script_hash reg, rc_script_hash := new_hash,
            rc_hash_change_at := 0, rc_hash_change_notified := False\<rparr>
      else if r = Check then
        reg\<lparr>rc_script_hash_old := rc_script_hash reg, rc_script_hash := new_hash,
            rc_hash_change_at := 0, rc_hash_change_notified := False, rc_allow_mode := ''manual''\<rparr>
      else reg\<lparr>rc_enabled := False\<rparr>)"

definition resolve_hash_change ::
  "((string \<times> json) list \<Rightarrow> string) \<Rightarrow> string \<Rightarrow> string \<Rightarrow> string \<Rightarrow> reaction
    \<Rightarrow> ('a) reg_state_scheme \<Rightarrow> ('a) reg_state_scheme" where
  "resolve_hash_change digest now rid new_hash r s =
     (case dget (caller_registry s) rid of
        None \<Rightarrow> s
      | Some reg \<Rightarrow>
          (let s1 = save_caller_registry digest now
                 (s\<lparr>caller_registry := dset rid (resolve_caller new_hash r reg) (caller_registry s)\<rparr>)
           in s1\<lparr>hash_change_pending := ddel rid (hash_change_pending s1)\<rparr>))"


text \<open>Two writes of the request handlers to a registration, each in its own locked section.\<close>

definition mark_hash_notified :: "string \<Rightarrow> ('a) reg_state_scheme \<Rightarrow> ('a) reg_state_scheme \<times> bool" where
  "mark_hash_notified rid s =
     (case dget (caller_registry s) rid of
        None \<Rightarrow> (s, False)
      | Some reg \<Rightarrow>
          if rc_hash_change_notified reg then (s, False)
          else (s\<lparr>caller_registry :=
                   dset rid (reg\<lparr>rc_hash_change_notified := True\<rparr>) (caller_registry s)\<rparr>, True))"

definition grant_auto ::
  "((string \<times> json) list \<Rightarrow> string) \<Rightarrow> string \<Rightarrow> string \<Rightarrow> ('a) reg_state_scheme \<Rightarrow> ('a) reg_state_scheme"
  where
  "grant_auto digest now rid s =
     (case dget (caller_registry s) rid of
        None \<Rightarrow> s
      | Some reg \<Rightarrow> save_caller_registry digest now
          (s\<lparr>caller_registry :=
               dset rid (reg\<lparr>rc_allow_mode := ''auto'', rc_can_auto_unlock := True\<rparr>)
                 (caller_registry s)\<rparr>))"

section \<open>The well-formed registry\<close>

text \<open>
  Registrations are stored under their own identifier, and the two indexes only lead to
  registrations of that name or path.  (They need not find every registration: see
  \<open>revoke_hides_other_path\<close>.)
\<close>

definition registry_wf :: "('a) reg_state_scheme \<Rightarrow> bool" where
  "registry_wf s \<longleftrightarrow>
     dict_ok (caller_registry s)
     \<and> (\<forall>rid r. dget (caller_registry s) rid = Some r \<longrightarrow> rc_reg_id r = rid)
     \<and> (\<forall>n rid. dget (registrations_by_name s) n = Some rid
          \<longrightarrow> (\<exists>r. dget (caller_registry s) rid = Some r \<and> rc_name r = n))
     \<and> (\<forall>p rid. dget (caller_registry_by_path s) p = Some rid
          \<longrightarrow> (\<exists>r. dget (caller_registry s) rid = Some r \<and> rc_script_path r = p))"

lemma save_frame [frame]:
  "caller_registry (save_caller_registry d t s) = caller_registry s"
  "caller_registry_by_path (save_caller_registry d t s) = caller_registry_by_path s"
  "registrations_by_name (save_caller_registry d t s) = registrations_by_name s"
  "registration_pending (save_caller_registry d t s) = registration_pending s"
  "registration_msgs (save_caller_registry d t s) = registration_msgs s"
  "hash_change_pending (save_caller_registry d t s) = hash_change_pending s"
  "hash_change_msgs (save_caller_registry d t s) = hash_change_msgs s"
  "auto_rate_limits (save_caller_registry d t s) = auto_rate_limits s"
  "reg_state.more (save_caller_registry d t s) = reg_state.more s"
  by (simp_all add: save_caller_registry_def Let_def)

lemma registry_wf_cong:
  "caller_registry t = caller_registry s \<Longrightarrow> registrations_by_name t = registrations_by_name s
    \<Longrightarrow> caller_registry_by_path t = caller_registry_by_path s \<Longrightarrow> registry_wf t = registry_wf s"
  by (simp add: registry_wf_def)

lemma registry_wf_save [simp]: "registry_wf (save_caller_registry d t s) = registry_wf s"
  by (rule registry_wf_cong) (simp_all add: frame)

lemma registry_wf_fields [simp]:
  "registry_wf (s\<lparr>hash_change_pending := hp\<rparr>) = registry_wf s"
  "registry_wf (s\<lparr>hash_change_msgs := hm\<rparr>) = registry_wf s"
  "registry_wf (s\<lparr>auto_rate_limits := rl\<rparr>) = registry_wf s"
  "registry_wf (s\<lparr>registration_pending := rp\<rparr>) = registry_wf s"
  "registry_wf (s\<lparr>registration_msgs := rm\<rparr>) = registry_wf s"
  by (rule registry_wf_cong; simp)+

text \<open>An update of one registration that keeps its identifier, name and path keeps the registry.\<close>

lemma registry_wf_upd [simp]:
  assumes "registry_wf s" and "dget (caller_registry s) rid = Some r"
    and "rc_reg_id r' = rc_reg_id r" "rc_name r' = rc_name r" "rc_script_path r' = rc_script_path r"
  shows "registry_wf (s\<lparr>caller_registry := dset rid r' (caller_registry s)\<rparr>)"
proof -
  have "rc_reg_id r = rid" using assms(1,2) by (simp add: registry_wf_def)
  with assms show ?thesis unfolding registry_wf_def by (auto split: if_splits) force+
qed

lemma registry_wf_activate: "registry_wf s \<Longrightarrow> registry_wf (activate_caller d t rid s)"
  by (auto simp: activate_caller_def split: option.split)

lemma resolve_caller_same [simp]:
  "rc_reg_id (resolve_caller h r c) = rc_reg_id c"
  "rc_name (resolve_caller h r c) = rc_name c"
  "rc_script_path (resolve_caller h r c) = rc_script_path c"
  "rc_entries (resolve_caller h r c) = rc_entries c"
  by (simp_all add: resolve_caller_def)

lemma registry_wf_resolve: "registry_wf s \<Longrightarrow> registry_wf (resolve_hash_change d t rid h r s)"
  by (auto simp: resolve_hash_change_def Let_def split: option.split)

lemma registry_wf_mark: "registry_wf s \<Longrightarrow> registry_wf (fst (mark_hash_notified rid s))"
  by (auto simp: mark_hash_notified_def split: option.split)

lemma registry_wf_grant: "registry_wf s \<Longrightarrow> registry_wf (grant_auto d t rid s)"
  by (auto simp: grant_auto_def split: option.split)

lemma registry_wf_notify: "registry_wf s \<Longrightarrow> registry_wf (fst (notify_hash_change reg h m ev s))"
  by (auto simp: notify_hash_change_def registry_wf_def split: option.split)

lemma registry_wf_rate: "registry_wf s \<Longrightarrow> registry_wf (fst (check_auto_rate_limit now n s))"
  by (auto simp: check_auto_rate_limit_def registry_wf_def Let_def)

lemma registry_wf_index:
  assumes "registry_wf s" and "dget (caller_registry s) (rc_reg_id r) = None"
  shows "registry_wf (index_caller r s)"
  using assms unfolding registry_wf_def index_caller_def
  by (auto split: if_splits) (metis option.distinct(1))+

lemma registry_wf_register:
  assumes "registry_wf s" and "dget (caller_registry s) rid = None"
  shows "registry_wf (fst (register_caller rid now n path h desc es mode auto s))"
proof -
  have "fst (register_caller rid now n path h desc es mode auto s) = index_caller
      \<lparr>rc_reg_id = rid, rc_name = n, rc_script_path = path, rc_script_hash = h,
       rc_description = desc, rc_script_hash_old = [], rc_hash_change_at = 0,
       rc_hash_change_notified = False, rc_entries = es, rc_allow_mode = mode,
       rc_can_auto_unlock = auto, rc_created_at = now, rc_enabled = False\<rparr> s"
    by (simp add: register_caller_def index_caller_def Let_def)
  with assms show ?thesis by (simp add: registry_wf_index)
qed

lemma registry_wf_revoke:
  assumes "registry_wf s"
  shows "registry_wf (fst (revoke_caller d t rid s))"
proof (cases "dget (caller_registry s) rid")
  case None
  with assms show ?thesis by (simp add: revoke_caller_def)
next
  case (Some reg)
  have name: "rid' \<noteq> rid" if "dget (registrations_by_name s) n = Some rid'" "n \<noteq> rc_name reg" for n rid'
    using assms that Some unfolding registry_wf_def by (metis option.inject)
  have path: "rid' \<noteq> rid" if "dget (caller_registry_by_path s) p = Some rid'" "p \<noteq> rc_script_path reg"
    for p rid' using assms that Some unfolding registry_wf_def by (metis option.inject)
  from assms Some name path show ?thesis
    unfolding registry_wf_def revoke_caller_def by (simp add: frame)
qed

section \<open>The automatic-approval decision\<close>

lemma find_by_hash_in_Some:
  "find_by_hash_in now h path d = Some reg \<Longrightarrow>
     (\<exists>k. (k, reg) \<in> set d) \<and> rc_enabled reg \<and> rc_script_path reg = path
     \<and> (rc_script_hash reg = h \<or> in_grace_period now reg \<and> rc_script_hash_old reg = h)"
  by (induction now h path d rule: find_by_hash_in.induct) (auto split: if_splits)

lemma find_by_hash_in_complete:
  "(k, reg) \<in> set d \<Longrightarrow> rc_enabled reg \<Longrightarrow> rc_script_hash reg = h \<Longrightarrow> rc_script_path reg = path
    \<Longrightarrow> find_by_hash_in now h path d \<noteq> None"
  by (induction now h path d rule: find_by_hash_in.induct) auto

lemma check_entry_allowed_iff:
  "check_entry_allowed_caller reg e f \<longleftrightarrow> rc_enabled reg
     \<and> (\<exists>fs. dget (rc_entries reg) e = Some fs \<and> (fs = [] \<or> f = None \<or> (\<exists>x. f = Some x \<and> x \<in> set fs)))"
  by (auto simp: check_entry_allowed_caller_def split: option.splits if_splits)

lemma check_auto_approve_True:
  "check_auto_approve now e f a s = (Some True, rg, rs) \<longleftrightarrow>
     caller_hash a \<noteq> [] \<and> rs = NoReason
     \<and> (\<exists>reg. rg = Some reg \<and> find_caller_by_hash now s (caller_hash a) (caller_path a) = Some reg
          \<and> check_entry_allowed_caller reg e f)"
  by (auto simp: check_auto_approve_def split: option.splits if_splits)

section \<open>Reachable registries\<close>

definition reg_init :: reg_state where
  "reg_init = \<lparr>caller_registry = [], caller_registry_by_path = [], registrations_by_name = [],
     registration_pending = [], registration_msgs = [], hash_change_pending = [],
     hash_change_msgs = [], auto_rate_limits = [], registry_file = None\<rparr>"

text \<open>
  The operations, and a restart of the process, which loads the file the last save left.
  A new identifier is \<open>'reg_' + token_hex(8)\<close>, taken to be unused.
\<close>

inductive reg_step ::
  "((string \<times> json) list \<Rightarrow> string) \<Rightarrow> reg_state \<Rightarrow> reg_state \<Rightarrow> bool" for digest where
  register: "dget (caller_registry s) (''reg_'' @ hex) = None \<Longrightarrow>
     reg_step digest s
       (fst (register_caller (''reg_'' @ hex) now n path h desc es mode auto s))"
| activate: "reg_step digest s (activate_caller digest now rid s)"
| revoke: "reg_step digest s (fst (revoke_caller digest now rid s))"
| rate: "reg_step digest s (fst (check_auto_rate_limit clk n s))"
| mark: "reg_step digest s (fst (mark_hash_notified rid s))"
| notify: "reg_step digest s (fst (notify_hash_change reg h msg ev s))"
| resolve: "reg_step digest s (resolve_hash_change digest now rid h r s)"
| grant: "reg_step digest s (grant_auto digest now rid s)"
| restart: "load_caller_registry digest (registry_file s) (reg_init\<lparr>registry_file := registry_file s\<rparr>) = Inr t
     \<Longrightarrow> reg_step digest s t"

inductive reg_reachable :: "((string \<times> json) list \<Rightarrow> string) \<Rightarrow> reg_state \<Rightarrow> bool" for digest where
  start: "reg_reachable digest reg_init"
| step: "reg_reachable digest s \<Longrightarrow> reg_step digest s t \<Longrightarrow> reg_reachable digest t"

subsection \<open>Saving and loading\<close>

definition forget_description :: "caller \<Rightarrow> caller" where
  "forget_description r = r\<lparr>rc_description := ''''\<rparr>"

lemma json_entries_map [simp]:
  "json_entries (JObj (map (\<lambda>(k, fs). (k, JArr (map JStr fs))) es)) = es"
  by (induction es) (auto simp: json_entries_def)

lemma caller_of_json_caller [simp]: "caller_of_json (caller_json c) = forget_description c"
  by (simp add: caller_of_json_def caller_json_def jget_as_def forget_description_def)

lemma forget_description_sel [simp]:
  "rc_reg_id (forget_description r) = rc_reg_id r"
  "rc_name (forget_description r) = rc_name r"
  "rc_script_path (forget_description r) = rc_script_path r"
  "rc_script_hash (forget_description r) = rc_script_hash r"
  "rc_script_hash_old (forget_description r) = rc_script_hash_old r"
  "rc_hash_change_at (forget_description r) = rc_hash_change_at r"
  "rc_entries (forget_description r) = rc_entries r"
  "rc_enabled (forget_description r) = rc_enabled r"
  by (simp_all add: forget_description_def)

text \<open>What a well-formed registry writes: nonempty identifiers, each under itself, no repetition.\<close>

definition saveable :: "(string, caller) dict \<Rightarrow> bool" where
  "saveable d \<longleftrightarrow> dict_ok d \<and> (\<forall>(k, r) \<in> set d. rc_reg_id r = k \<and> k \<noteq> [])"

lemma saveable_Cons:
  "saveable ((k, r) # d) \<longleftrightarrow> rc_reg_id r = k \<and> k \<noteq> [] \<and> dget d k = None \<and> saveable d"
  by (auto simp: saveable_def dict_ok_def dget_None_key)

lemma load_callers_registry:
  "saveable d \<Longrightarrow> \<forall>k \<in> fst ` set d. dget (caller_registry s) k = None \<Longrightarrow>
   caller_registry (load_callers (map (\<lambda>p. caller_json (snd p)) d) s)
     = caller_registry s @ map (\<lambda>(k, r). (k, forget_description r)) d"
proof (induction d arbitrary: s)
  case (Cons p d)
  obtain k r where p: "p = (k, r)" by (cases p)
  from Cons.prems p have sv: "rc_reg_id r = k" "k \<noteq> []" "saveable d" "dget d k = None"
    by (auto simp: saveable_Cons)
  let ?s = "index_caller (forget_description r) s"
  have reg: "caller_registry ?s = caller_registry s @ [(k, forget_description r)]"
    using Cons.prems p sv by (simp add: index_caller_def dset_new)
  have "\<forall>k' \<in> fst ` set d. dget (caller_registry ?s) k' = None"
  proof
    fix k' assume k': "k' \<in> fst ` set d"
    with sv(4) have "k' \<noteq> k" by (metis dget_None_key)
    moreover have "dget (caller_registry s) k' = None" using Cons.prems k' p by auto
    ultimately show "dget (caller_registry ?s) k' = None"
      using sv(1) by (simp add: index_caller_def)
  qed
  from Cons.IH [OF sv(3) this] reg p sv show ?case by (simp add: Let_def)
qed simp

lemma load_callers_wf:
  "registry_wf s \<Longrightarrow> saveable d \<Longrightarrow> \<forall>k \<in> fst ` set d. dget (caller_registry s) k = None \<Longrightarrow>
   registry_wf (load_callers (map (\<lambda>p. caller_json (snd p)) d) s)"
proof (induction d arbitrary: s)
  case (Cons p d)
  obtain k r where p: "p = (k, r)" by (cases p)
  from Cons.prems p have sv: "rc_reg_id r = k" "k \<noteq> []" "saveable d" "dget d k = None"
    by (auto simp: saveable_Cons)
  let ?s = "index_caller (forget_description r) s"
  have "registry_wf ?s" using Cons.prems p sv by (intro registry_wf_index) auto
  moreover have "\<forall>k' \<in> fst ` set d. dget (caller_registry ?s) k' = None"
  proof
    fix k' assume k': "k' \<in> fst ` set d"
    with sv(4) have "k' \<noteq> k" by (metis dget_None_key)
    moreover have "dget (caller_registry s) k' = None" using Cons.prems k' p by auto
    ultimately show "dget (caller_registry ?s) k' = None"
      using sv(1) by (simp add: index_caller_def)
  qed
  ultimately have "registry_wf (load_callers (map (\<lambda>p. caller_json (snd p)) d) ?s)"
    using Cons.IH sv(3) by blast
  with p sv show ?case by (simp add: Let_def)
qed simp

text \<open>The file a save leaves is accepted by the integrity check and loads all its callers.\<close>

lemma load_saved:
  "load_caller_registry digest (registry_file (save_caller_registry digest now s)) t
     = Inr (load_callers (map (\<lambda>p. caller_json (snd p)) (caller_registry s)) t)"
  by (simp add: load_caller_registry_def save_caller_registry_def registry_data_def Let_def)

subsection \<open>The invariant of the reachable registries\<close>

text \<open>Every stored registration can be saved, and no operation opens a grace period.\<close>

definition regs_ok :: "(string, caller) dict \<Rightarrow> bool" where
  "regs_ok d \<longleftrightarrow> saveable d \<and> (\<forall>(k, r) \<in> set d. rc_hash_change_at r = 0)"

definition file_ok :: "((string \<times> json) list \<Rightarrow> string) \<Rightarrow> json option \<Rightarrow> bool" where
  "file_ok digest f \<longleftrightarrow> f = None \<or>
     (\<exists>(s :: reg_state) now. f = registry_file (save_caller_registry digest now s)
        \<and> regs_ok (caller_registry s))"

definition reg_inv :: "((string \<times> json) list \<Rightarrow> string) \<Rightarrow> reg_state \<Rightarrow> bool" where
  "reg_inv digest s \<longleftrightarrow> registry_wf s \<and> regs_ok (caller_registry s) \<and> file_ok digest (registry_file s)"

lemma regs_ok_Nil [simp]: "regs_ok []"
  by (simp add: regs_ok_def saveable_def)

lemma regs_ok_dget:
  "regs_ok d \<Longrightarrow> dget d k = Some r \<Longrightarrow> rc_reg_id r = k \<and> k \<noteq> [] \<and> rc_hash_change_at r = 0"
  by (auto simp: regs_ok_def saveable_def dict_ok_def)

lemma set_dset: "set (dset k v d) \<subseteq> insert (k, v) (set d)"
  by (induction d) auto

lemma regs_ok_dset:
  assumes "regs_ok d" "rc_reg_id r = k" "k \<noteq> []" "rc_hash_change_at r = 0"
  shows "regs_ok (dset k r d)"
proof -
  have "dict_ok (dset k r d)" using assms(1) by (simp add: regs_ok_def saveable_def)
  moreover have "\<forall>(k', r') \<in> set (dset k r d). rc_reg_id r' = k' \<and> k' \<noteq> [] \<and> rc_hash_change_at r' = 0"
    using assms set_dset [of k r d] by (auto simp: regs_ok_def saveable_def)
  ultimately show ?thesis by (auto simp: regs_ok_def saveable_def)
qed

lemma regs_ok_ddel: "regs_ok d \<Longrightarrow> regs_ok (ddel k d)"
  by (auto simp: regs_ok_def saveable_def AList.delete_eq dict_ok_def
      intro: distinct_map_filter)

lemma regs_ok_upd:
  "regs_ok d \<Longrightarrow> dget d k = Some r \<Longrightarrow> rc_reg_id r' = rc_reg_id r \<Longrightarrow> rc_hash_change_at r' = 0
    \<Longrightarrow> regs_ok (dset k r' d)"
  using regs_ok_dget [of d k r] by (intro regs_ok_dset) auto

lemma regs_ok_map_forget: "regs_ok d \<Longrightarrow> regs_ok (map (\<lambda>(k, r). (k, forget_description r)) d)"
  by (auto simp: regs_ok_def saveable_def dict_ok_def comp_def case_prod_unfold)

lemma file_ok_save: "regs_ok (caller_registry s) \<Longrightarrow>
    file_ok digest (registry_file (save_caller_registry digest now (s :: reg_state)))"
  by (auto simp: file_ok_def)

lemmas reg_op_defs = register_caller_def activate_caller_def revoke_caller_def
  check_auto_rate_limit_def mark_hash_notified_def notify_hash_change_def
  resolve_hash_change_def grant_auto_def Let_def

lemma resolve_caller_hash_change_at:
  "rc_hash_change_at reg = 0 \<Longrightarrow> rc_hash_change_at (resolve_caller h r reg) = 0"
  by (simp add: resolve_caller_def)

lemma regs_ok_ops:
  assumes ok: "regs_ok (caller_registry s)"
  shows "regs_ok (caller_registry (activate_caller d t rid s))"
    and "regs_ok (caller_registry (fst (revoke_caller d t rid s)))"
    and "regs_ok (caller_registry (fst (mark_hash_notified rid s)))"
    and "regs_ok (caller_registry (resolve_hash_change d t rid h r s))"
    and "regs_ok (caller_registry (grant_auto d t rid s))"
  using ok regs_ok_dget [OF ok, of rid]
  by (auto simp: activate_caller_def revoke_caller_def mark_hash_notified_def
      resolve_hash_change_def grant_auto_def Let_def frame resolve_caller_hash_change_at
      split: option.splits intro!: regs_ok_dset regs_ok_ddel)

lemma file_ok_ops:
  assumes ok: "regs_ok (caller_registry s)" and f: "file_ok d (registry_file (s :: reg_state))"
  shows "file_ok d (registry_file (activate_caller d t rid s))"
    and "file_ok d (registry_file (fst (revoke_caller d t rid s)))"
    and "file_ok d (registry_file (fst (mark_hash_notified rid s)))"
    and "file_ok d (registry_file (resolve_hash_change d t rid h r s))"
    and "file_ok d (registry_file (grant_auto d t rid s))"
  using assms regs_ok_dget [OF ok, of rid]
  by (auto simp: activate_caller_def revoke_caller_def mark_hash_notified_def
      resolve_hash_change_def grant_auto_def Let_def frame resolve_caller_hash_change_at
      split: option.splits intro!: file_ok_save regs_ok_dset regs_ok_ddel)

lemma reg_inv_restart:
  assumes "file_ok digest f"
    and "load_caller_registry digest f (reg_init\<lparr>registry_file := f\<rparr>) = Inr t"
  shows "reg_inv digest t"
proof (cases "f = None")
  case True
  with assms show ?thesis
    by (auto simp: load_caller_registry_def reg_inv_def reg_init_def registry_wf_def file_ok_def)
next
  case False
  with assms(1) obtain s :: reg_state and now where
      f: "f = registry_file (save_caller_registry digest now s)" and ok: "regs_ok (caller_registry s)"
    by (auto simp: file_ok_def)
  let ?i = "reg_init\<lparr>registry_file := f\<rparr>"
  from assms(2) have t: "t = load_callers (map (\<lambda>p. caller_json (snd p)) (caller_registry s)) ?i"
    by (simp add: f load_saved)
  have empty: "caller_registry ?i = []" "registry_wf ?i"
    by (simp_all add: reg_init_def registry_wf_def)
  have same_file: "registry_file (load_callers cs u) = registry_file u" for cs and u :: reg_state
    by (induction cs u rule: load_callers.induct) (simp_all add: Let_def index_caller_def)
  have "registry_wf t" unfolding t
    using ok empty by (intro load_callers_wf) (auto simp: regs_ok_def)
  moreover have "regs_ok (caller_registry t)" unfolding t
    using ok empty regs_ok_map_forget [OF ok]
    by (subst load_callers_registry) (auto simp: regs_ok_def)
  ultimately show ?thesis using assms(1) by (simp add: reg_inv_def t same_file reg_init_def)
qed

lemma reg_step_inv: "reg_step digest s t \<Longrightarrow> reg_inv digest s \<Longrightarrow> reg_inv digest t"
proof (induction rule: reg_step.induct)
  case (register s hex now n path h desc es mode auto)
  let ?t = "fst (register_caller (''reg_'' @ hex) now n path h desc es mode auto s)"
  have "registry_wf ?t" using register by (intro registry_wf_register) (auto simp: reg_inv_def)
  moreover have "regs_ok (caller_registry ?t)"
    using register by (auto simp: register_caller_def Let_def reg_inv_def intro!: regs_ok_dset)
  moreover have "registry_file ?t = registry_file s" by (simp add: register_caller_def Let_def)
  ultimately show ?case using register by (simp add: reg_inv_def)
next
  case (activate s now rid)
  then show ?case by (simp add: reg_inv_def registry_wf_activate regs_ok_ops file_ok_ops)
next
  case (revoke s now rid)
  then show ?case by (simp add: reg_inv_def registry_wf_revoke regs_ok_ops file_ok_ops)
next
  case (rate s clk n)
  then show ?case
    by (auto simp: reg_inv_def registry_wf_rate check_auto_rate_limit_def Let_def)
next
  case (mark s rid)
  then show ?case by (simp add: reg_inv_def registry_wf_mark regs_ok_ops file_ok_ops)
next
  case (notify s reg h msg ev)
  then show ?case
    by (auto simp: reg_inv_def registry_wf_notify notify_hash_change_def split: option.splits)
next
  case (resolve s now rid h r)
  then show ?case by (simp add: reg_inv_def registry_wf_resolve regs_ok_ops file_ok_ops)
next
  case (grant s now rid)
  then show ?case by (simp add: reg_inv_def registry_wf_grant regs_ok_ops file_ok_ops)
next
  case (restart s t)
  then show ?case by (intro reg_inv_restart) (auto simp: reg_inv_def)
qed

lemma reg_reachable_inv: "reg_reachable digest s \<Longrightarrow> reg_inv digest s"
proof (induction rule: reg_reachable.induct)
  case start
  show ?case by (simp add: reg_inv_def reg_init_def registry_wf_def file_ok_def)
next
  case (step s t)
  then show ?case by (blast intro: reg_step_inv)
qed

section \<open>The limiter of automatic approvals\<close>

interpretation auto_rate: interval_limiter
  "\<lambda>now. check_auto_rate_limit now n" "\<lambda>s. dget_or (auto_rate_limits s) n 0" AUTO_RATE_INTERVAL
  for n
  by unfold_locales (auto simp: check_auto_rate_limit_def Let_def dget_or_def split: if_splits)

section \<open>Properties\<close>

text \<open>
  C29. Whatever sequence of registrations, activations, revocations, hash-change decisions and
  restarts the registry goes through, every registration is stored under its own identifier and
  the name and path indexes lead only to live registrations of that name or path.
\<close>

theorem reachable_registry_wf: "reg_reachable digest s \<Longrightarrow> registry_wf s"
  by (drule reg_reachable_inv) (simp add: reg_inv_def)

definition reg_example :: reg_state where
  "reg_example = fst (register_caller ''reg_1'' ''t0'' ''mail'' ''/a'' ''h1'' ''d''
     [(''E'', [])] ''manual'' False reg_init)"

lemma reg_example_reachable: "reg_reachable digest reg_example"
  using reg_step.register [of reg_init "''1''" digest "''t0''" "''mail''" "''/a''" "''h1''" "''d''"
      "[(''E'', [])]" "''manual''" False]
  by (auto simp: reg_example_def reg_init_def intro: reg_reachable.intros [unfolded reg_init_def])

theorem reachable_registry_wf_witness: "registry_wf reg_example"
  by (rule reachable_registry_wf [OF reg_example_reachable])

text \<open>What an automatic approval rests on, in any state whose registrations keep the invariant.\<close>

lemma check_auto_approve_current:
  assumes inv: "regs_ok (caller_registry s)"
    and "check_auto_approve now e f a s = (Some True, rg, rs)"
  shows "\<exists>rid reg. dget (caller_registry s) rid = Some reg \<and> rg = Some reg \<and> rc_enabled reg
     \<and> caller_hash a \<noteq> [] \<and> rc_script_hash reg = caller_hash a \<and> rc_script_path reg = caller_path a
     \<and> (\<exists>fs. dget (rc_entries reg) e = Some fs
          \<and> (fs = [] \<or> f = None \<or> (\<exists>x. f = Some x \<and> x \<in> set fs)))"
proof -
  from assms(2) obtain reg where reg: "rg = Some reg" "caller_hash a \<noteq> []"
      "find_by_hash_in now (caller_hash a) (caller_path a) (caller_registry s) = Some reg"
      "check_entry_allowed_caller reg e f"
    by (auto simp: check_auto_approve_True find_caller_by_hash_def)
  from find_by_hash_in_Some [OF reg(3)] obtain rid where mem: "(rid, reg) \<in> set (caller_registry s)"
      and m: "rc_enabled reg" "rc_script_path reg = caller_path a"
      "rc_script_hash reg = caller_hash a \<or> in_grace_period now reg" by auto
  have "\<not> in_grace_period now reg" using inv mem by (auto simp: regs_ok_def in_grace_period_def)
  with m reg mem inv show ?thesis
    by (auto simp: dget_set check_entry_allowed_iff regs_ok_def saveable_def)
qed

text \<open>
  C5. An automatic approval needs a nonempty caller hash that equals the current hash of an
  enabled registration for the caller's own path, whose entry list contains the entry and, when
  it lists fields, the field.  In particular no reachable registry is ever in a grace period:
  the superseded hash of a registration never approves.
\<close>

theorem auto_approve_only_current_hash:
  assumes "reg_reachable digest s"
    and "check_auto_approve now e f a s = (Some True, rg, rs)"
  shows "\<exists>rid reg. dget (caller_registry s) rid = Some reg \<and> rg = Some reg \<and> rc_enabled reg
     \<and> caller_hash a \<noteq> [] \<and> rc_script_hash reg = caller_hash a \<and> rc_script_path reg = caller_path a
     \<and> (\<exists>fs. dget (rc_entries reg) e = Some fs
          \<and> (fs = [] \<or> f = None \<or> (\<exists>x. f = Some x \<and> x \<in> set fs)))"
  using reg_reachable_inv [OF assms(1)] check_auto_approve_current [OF _ assms(2)]
  by (simp add: reg_inv_def)

definition reg_active_example :: reg_state where
  "reg_active_example = activate_caller (\<lambda>_. ''sum'') ''t1'' ''reg_1'' reg_example"

lemma reg_active_example_reachable: "reg_reachable (\<lambda>_. ''sum'') reg_active_example"
  unfolding reg_active_example_def
  by (rule reg_reachable.step [OF reg_example_reachable]) (rule reg_step.activate)

definition auth_example :: auth where
  "auth_example = \<lparr>get_binary_hash = ''gh'', get_binary_secret = ''gs'', caller_hash = ''h1'',
     caller_path = ''/a''\<rparr>"

lemmas reg_example_eval = reg_active_example_def reg_example_def reg_init_def activate_caller_def
  register_caller_def save_caller_registry_def registry_data_def auth_example_def Let_def
  check_auto_approve_def find_caller_by_hash_def find_caller_by_path_def
  check_entry_allowed_caller_def dget_or_def

lemma reg_active_example_approves:
  "check_auto_approve 5 ''E'' (Some ''pw'') auth_example reg_active_example
     = (Some True, dget (caller_registry reg_active_example) ''reg_1'', NoReason)"
  by (simp add: reg_example_eval)

theorem auto_approve_only_current_hash_witness:
  "\<exists>rid reg. dget (caller_registry reg_active_example) rid = Some reg
     \<and> rc_script_hash reg = ''h1'' \<and> rc_script_path reg = ''/a''"
  using auto_approve_only_current_hash
    [OF reg_active_example_reachable reg_active_example_approves]
  by (auto simp: auth_example_def)

text \<open>The registry with the approval modes of all registrations replaced.\<close>

definition with_modes :: "(caller \<Rightarrow> string) \<Rightarrow> ('a) reg_state_scheme \<Rightarrow> ('a) reg_state_scheme" where
  "with_modes m s = s\<lparr>caller_registry :=
     map (\<lambda>(k, r). (k, r\<lparr>rc_allow_mode := m r\<rparr>)) (caller_registry s)\<rparr>"

lemma find_by_hash_in_modes:
  "find_by_hash_in now h p (map (\<lambda>(k, r). (k, r\<lparr>rc_allow_mode := m r\<rparr>)) d)
     = map_option (\<lambda>r. r\<lparr>rc_allow_mode := m r\<rparr>) (find_by_hash_in now h p d)"
  by (induction now h p d rule: find_by_hash_in.induct) (auto simp: in_grace_period_def)

lemma dget_map_snd: "dget (map (\<lambda>(k, r). (k, g r)) d) k = map_option g (dget d k)"
  by (induction d) auto

lemma find_caller_by_path_modes:
  "find_caller_by_path (with_modes m s) p
     = map_option (\<lambda>r. r\<lparr>rc_allow_mode := m r\<rparr>) (find_caller_by_path s p)"
  by (simp add: find_caller_by_path_def with_modes_def dget_map_snd split: option.split)

text \<open>
  The approval mode of a registration never enters the automatic-approval decision: changing
  the mode of every registration to anything changes neither the verdict nor the reason.  A
  registration granted or downgraded to \<open>manual\<close> (the ordinary, per-request approval of the
  documentation) is approved automatically like one in mode \<open>auto\<close>.
\<close>

theorem allow_mode_never_consulted:
  "(case check_auto_approve now e f a (with_modes m s) of (v, r, rs) \<Rightarrow> (v, rs))
     = (case check_auto_approve now e f a s of (v, r, rs) \<Rightarrow> (v, rs))"
proof -
  have "find_caller_by_hash now (with_modes m s) h p
      = map_option (\<lambda>r. r\<lparr>rc_allow_mode := m r\<rparr>) (find_caller_by_hash now s h p)" for h p
    by (simp add: find_caller_by_hash_def with_modes_def find_by_hash_in_modes)
  then show ?thesis
    by (auto simp: check_auto_approve_def find_caller_by_path_modes check_entry_allowed_caller_def
        split: option.split)
qed

text \<open>The approval of a downgraded registration, run: the check-mark reaction, then a request.\<close>

lemma downgraded_example_approves:
  "fst (check_auto_approve 5 ''E'' (Some ''pw'') (auth_example\<lparr>caller_hash := ''h2''\<rparr>)
     (resolve_hash_change (\<lambda>_. ''sum'') ''t2'' ''reg_1'' ''h2'' Check reg_active_example)) = Some True"
  by (simp add: reg_example_eval resolve_hash_change_def resolve_caller_def)

lemma find_by_hash_in_forget:
  "find_by_hash_in now h p (map (\<lambda>(k, r). (k, forget_description r)) d)
     = map_option forget_description (find_by_hash_in now h p d)"
  by (induction now h p d rule: find_by_hash_in.induct) (auto simp: in_grace_period_def)

text \<open>
  C28. Saving a reachable registry and loading the file at the next start gives back every
  registration, in order, with all its fields but the description, which the file does not
  hold; the loaded registry is well formed and finds the same caller for every hash and path.
\<close>

theorem registry_file_roundtrip:
  assumes "reg_reachable digest s"
  shows "\<exists>t. load_caller_registry digest (registry_file (save_caller_registry digest now s)) reg_init = Inr t
     \<and> caller_registry t = map (\<lambda>(k, r). (k, forget_description r)) (caller_registry s)
     \<and> registry_wf t
     \<and> find_caller_by_hash tm t h p = map_option forget_description (find_caller_by_hash tm s h p)"
proof -
  have sv: "saveable (caller_registry s)"
    using reg_reachable_inv [OF assms] by (simp add: reg_inv_def regs_ok_def)
  let ?t = "load_callers (map (\<lambda>p. caller_json (snd p)) (caller_registry s)) reg_init"
  have emp: "caller_registry reg_init = []" "registry_wf reg_init"
    by (simp_all add: reg_init_def registry_wf_def)
  have reg: "caller_registry ?t = map (\<lambda>(k, r). (k, forget_description r)) (caller_registry s)"
    using load_callers_registry [OF sv, of reg_init] emp by simp
  have "registry_wf ?t" using load_callers_wf [OF emp(2) sv] emp by simp
  with reg show ?thesis
    by (simp add: load_saved find_caller_by_hash_def find_by_hash_in_forget)
qed

theorem registry_file_roundtrip_witness:
  "\<exists>t. load_caller_registry (\<lambda>_. ''sum'')
         (registry_file (save_caller_registry (\<lambda>_. ''sum'') ''t9'' reg_active_example)) reg_init = Inr t
     \<and> find_caller_by_hash 0 t ''h1'' ''/a'' \<noteq> None"
proof -
  have "find_caller_by_hash 0 reg_active_example ''h1'' ''/a'' \<noteq> None"
    by (simp add: reg_example_eval)
  with registry_file_roundtrip [OF reg_active_example_reachable, of "''t9''" 0 "''h1''" "''/a''"]
  show ?thesis by force
qed

text \<open>
  After a registration is revoked, no caller is approved through it, at any time.
\<close>

theorem revoked_never_approves:
  assumes "registry_wf s"
    and "check_auto_approve now e f a (fst (revoke_caller digest t rid s)) = (Some True, Some reg, rs)"
  shows "rc_reg_id reg \<noteq> rid"
proof -
  let ?s = "fst (revoke_caller digest t rid s)"
  have none: "dget (caller_registry ?s) rid = None"
    by (simp add: revoke_caller_def frame split: option.split)
  have wf: "registry_wf ?s" using assms(1) by (rule registry_wf_revoke)
  from assms(2) obtain k where "(k, reg) \<in> set (caller_registry ?s)"
    by (auto simp: check_auto_approve_True find_caller_by_hash_def dest!: find_by_hash_in_Some)
  then have "dget (caller_registry ?s) k = Some reg" "rc_reg_id reg = k"
    using wf by (auto simp: registry_wf_def dget_set)
  with none show ?thesis by auto
qed

definition reg_two_example :: reg_state where
  "reg_two_example = activate_caller (\<lambda>_. ''sum'') ''t2'' ''reg_2''
     (fst (register_caller ''reg_2'' ''t2'' ''copy'' ''/a'' ''h1'' '''' [(''E'', [])] ''manual'' False
        reg_active_example))"

lemma reg_two_example_reachable: "reg_reachable (\<lambda>_. ''sum'') reg_two_example"
proof -
  have "reg_step (\<lambda>_. ''sum'') reg_active_example
      (fst (register_caller (''reg_'' @ ''2'') ''t2'' ''copy'' ''/a'' ''h1'' '''' [(''E'', [])]
         ''manual'' False reg_active_example))"
    by (rule reg_step.register) (simp add: reg_example_eval)
  then show ?thesis unfolding reg_two_example_def
    by (intro reg_reachable.step [OF _ reg_step.activate]
        reg_reachable.step [OF reg_active_example_reachable]) simp
qed

theorem revoked_never_approves_witness:
  "\<exists>reg. check_auto_approve 0 ''E'' None auth_example
       (fst (revoke_caller (\<lambda>_. ''sum'') ''t3'' ''reg_1'' reg_two_example)) = (Some True, Some reg, NoReason)
     \<and> rc_reg_id reg \<noteq> ''reg_1''"
proof -
  have wf: "registry_wf reg_two_example"
    using reg_reachable_inv [OF reg_two_example_reachable] by (simp add: reg_inv_def)
  have "\<exists>reg. check_auto_approve 0 ''E'' None auth_example
       (fst (revoke_caller (\<lambda>_. ''sum'') ''t3'' ''reg_1'' reg_two_example)) = (Some True, Some reg, NoReason)"
    by (simp add: reg_two_example_def reg_example_eval revoke_caller_def)
  with revoked_never_approves [OF wf] show ?thesis by blast
qed

text \<open>
  Revoking one registration (or having it rejected) removes the path index entry of another
  enabled registration of the same script path: there is a reachable registry in which a caller
  presents a changed hash for the path of an enabled registration and no hash change is detected.
\<close>

theorem revoke_hides_other_path:
  "\<exists>s reg a. reg_reachable (\<lambda>_. ''sum'') s \<and> dget (caller_registry s) ''reg_1'' = Some reg
     \<and> rc_enabled reg \<and> rc_script_path reg = caller_path a \<and> caller_hash a \<noteq> []
     \<and> rc_script_hash reg \<noteq> caller_hash a
     \<and> check_auto_approve now e f a s = (None, None, NoReason)"
proof -
  let ?s = "fst (revoke_caller (\<lambda>_. ''sum'') ''t3'' ''reg_2'' reg_two_example)"
  have "reg_reachable (\<lambda>_. ''sum'') ?s"
    by (rule reg_reachable.step [OF reg_two_example_reachable]) (rule reg_step.revoke)
  then show ?thesis
    by (intro exI [of _ ?s] exI [of _ "the (dget (caller_registry ?s) ''reg_1'')"]
        exI [of _ "auth_example\<lparr>caller_hash := ''h9''\<rparr>"])
      (simp add: reg_two_example_def reg_example_eval revoke_caller_def in_grace_period_def)
qed

text \<open>
  However often it asks, a registration is granted automatic approvals at least one second
  apart, so \<open>n + 1\<close> grants take at least \<open>n\<close> seconds.
\<close>

theorem auto_approvals_spaced:
  assumes "n < length (grants (\<lambda>now. check_auto_rate_limit now name) ts s)"
  shows "grants (\<lambda>now. check_auto_rate_limit now name) ts s ! 0 + n * AUTO_RATE_INTERVAL
    \<le> grants (\<lambda>now. check_auto_rate_limit now name) ts s ! n"
  using assms by (rule auto_rate.grants_rate)

theorem auto_approvals_spaced_witness:
  "grants (\<lambda>now. check_auto_rate_limit now ''mail'') [10, 10.5, 11.5, 12, 13] reg_init ! 0
     + 2 * AUTO_RATE_INTERVAL
   \<le> grants (\<lambda>now. check_auto_rate_limit now ''mail'') [10, 10.5, 11.5, 12, 13] reg_init ! 2"
proof -
  have "2 < length (grants (\<lambda>now. check_auto_rate_limit now ''mail'') [10, 10.5, 11.5, 12, 13] reg_init)"
    by (simp add: check_auto_rate_limit_def reg_init_def AUTO_RATE_INTERVAL_def dget_or_def Let_def)
  from auto_approvals_spaced [OF this] show ?thesis by simp
qed

end
