(* ===== verification/Token_Text.thy ===== *)
theory Token_Text
  imports Prelude
begin

text \<open>
  Substitution in text, as \<open>pattern.sub(repl, text)\<close> does it: scan from the left, replace a
  match, go on after it, copy a character where nothing matches.  On top of it the interface
  \<open>token_vault\<close>, which the credential vault and the PII vault provide: what a vault must
  promise about the shape of its tokens so that restoring a redacted text gives the text back.
\<close>

section \<open>Scanning substitution\<close>

text \<open>A matcher tells the length of its match at the head of the text; empty matches do not occur.\<close>

type_synonym matcher = "string \<Rightarrow> nat option"

function scan_sub :: "matcher \<Rightarrow> (string \<Rightarrow> string) \<Rightarrow> string \<Rightarrow> string" where
  "scan_sub m f [] = []"
| "scan_sub m f (c # s) =
     (case m (c # s) of
        None \<Rightarrow> c # scan_sub m f s
      | Some n \<Rightarrow>
          if n = 0 then c # scan_sub m f s
          else f (take n (c # s)) @ scan_sub m f (drop n (c # s)))"
  by pat_completeness auto
termination
  by (relation "measure (\<lambda>(m, f, s). length s)") auto

text \<open>The matches the scan meets, in order: \<open>[m.group(0) for m in pattern.finditer(text)]\<close>.\<close>

function scan_all :: "matcher \<Rightarrow> string \<Rightarrow> string list" where
  "scan_all m [] = []"
| "scan_all m (c # s) =
     (case m (c # s) of
        None \<Rightarrow> scan_all m s
      | Some n \<Rightarrow>
          if n = 0 then scan_all m s
          else take n (c # s) # scan_all m (drop n (c # s)))"
  by pat_completeness auto
termination
  by (relation "measure (\<lambda>(m, s). length s)") auto

lemma scan_sub_id: "(\<And>t. t \<in> set (scan_all m s) \<Longrightarrow> f t = t) \<Longrightarrow> scan_sub m f s = s"
  by (induction m s rule: scan_all.induct) (auto split: option.splits)

lemma scan_sub_cong:
  "(\<And>t. t \<in> set (scan_all m s) \<Longrightarrow> f t = g t) \<Longrightarrow> scan_sub m f s = scan_sub m g s"
  by (induction m s rule: scan_all.induct) (auto split: option.splits)

lemma scan_sub_matcher_cong: "(\<And>s. m s = m' s) \<Longrightarrow> scan_sub m f s = scan_sub m' f s"
  by (subgoal_tac "m = m'") auto

text \<open>\<open>re.compile('|'.join(re.escape(p) ...))\<close>: the first alternative, in order, that matches here.\<close>

definition alt_match :: "string list \<Rightarrow> matcher" where
  "alt_match ps s = map_option length (find (\<lambda>p. p \<noteq> [] \<and> prefix p s) ps)"

lemma alt_match_Some:
  "alt_match ps s = Some n \<longleftrightarrow>
     (\<exists>p. find (\<lambda>p. p \<noteq> [] \<and> prefix p s) ps = Some p \<and> n = length p)"
  by (auto simp: alt_match_def)

lemma alt_match_take:
  "alt_match ps s = Some n \<Longrightarrow> take n s \<in> set ps \<and> n \<noteq> 0"
  by (auto simp: alt_match_def find_Some_iff prefix_def)

section \<open>Substitution with a state\<close>

text \<open>\<open>pattern.sub(f, text)\<close> with a replacement function that changes a state.\<close>

function scan_st :: "matcher \<Rightarrow> ('s \<Rightarrow> string \<Rightarrow> 's \<times> string) \<Rightarrow> 's \<Rightarrow> string \<Rightarrow> 's \<times> string" where
  "scan_st m f s [] = (s, [])"
| "scan_st m f s (c # x) =
     (case m (c # x) of
        None \<Rightarrow> (case scan_st m f s x of (s', y) \<Rightarrow> (s', c # y))
      | Some n \<Rightarrow>
          if n = 0 then (case scan_st m f s x of (s', y) \<Rightarrow> (s', c # y))
          else (case f s (take n (c # x)) of
                  (s1, t) \<Rightarrow> (case scan_st m f s1 (drop n (c # x)) of (s', y) \<Rightarrow> (s', t @ y))))"
  by pat_completeness auto
termination
  by (relation "measure (\<lambda>(m, f, s, x). length x)") auto

text \<open>When the replacement does not depend on the state, text and state can be told apart.\<close>

lemma scan_st_pure:
  "scan_st m (\<lambda>s t. (h s t, g t)) s x = (foldl h s (scan_all m x), scan_sub m g x)"
  by (induction m x arbitrary: s rule: scan_all.induct) (auto split: option.split)

lemma scan_st_split:
  assumes "\<And>s t. snd (f s t) = g t"
  shows "scan_st m f s x = (foldl (\<lambda>s t. fst (f s t)) s (scan_all m x), scan_sub m g x)"
proof -
  have "f = (\<lambda>s t. (fst (f s t), g t))" using assms by (auto simp: fun_eq_iff prod_eq_iff)
  then show ?thesis by (metis scan_st_pure)
qed

section \<open>Longest first\<close>

text \<open>Well-formed UTF-8, the type invariant of a Python \<open>str\<close>: no code point is cut off.\<close>

definition utf8 :: "string \<Rightarrow> bool" where
  "utf8 s \<longleftrightarrow> list_all (\<lambda>p. length p = cp_width (hd p)) (cps s)"

lemma utf8_Cons:
  "utf8 (c # s) \<longleftrightarrow> cp_width c \<le> Suc (length s) \<and> utf8 (drop (cp_width c) (c # s))"
proof -
  have "hd (take (cp_width c) (c # s)) = c"
    using cp_width_pos [of c] by (cases "cp_width c") (simp_all del: cp_width_pos)
  then show ?thesis by (auto simp add: utf8_def min_def simp del: drop_Cons' take_Cons')
qed

lemma cps_append: "utf8 s \<Longrightarrow> cps (s @ r) = cps s @ cps r"
proof (induction s rule: cps.induct)
  case (2 c s)
  from 2(2) have le: "cp_width c \<le> length (c # s)"
    and u: "utf8 (drop (cp_width c) (c # s))"
    by (simp_all only: utf8_Cons list.size) simp
  have "cps ((c # s) @ r) = take (cp_width c) ((c # s) @ r) # cps (drop (cp_width c) ((c # s) @ r))"
    by simp
  also have "take (cp_width c) ((c # s) @ r) = take (cp_width c) (c # s)"
    using le by (simp only: take_append) simp
  also have "drop (cp_width c) ((c # s) @ r) = drop (cp_width c) (c # s) @ r"
    using le by (simp only: drop_append) simp
  finally show ?case using 2(1) [OF u] by simp
qed simp

lemma py_len_append: "utf8 s \<Longrightarrow> py_len (s @ r) = py_len s + py_len r"
  by (simp add: py_len_def cps_append)

lemma ascii_utf8: "ascii s \<Longrightarrow> utf8 s"
  by (auto simp: utf8_def ascii_cps list_all_iff ascii_def cp_width_def)

lemma strict_prefix_py_len: "utf8 p \<Longrightarrow> strict_prefix p q \<Longrightarrow> py_len p < py_len q"
  by (auto simp: strict_prefix_def prefix_def py_len_append)

text \<open>\<open>sorted(xs, key=len, reverse=True)\<close>: longest first, the order of equal lengths kept.\<close>

definition longest_first :: "string list \<Rightarrow> string list" where
  "longest_first ps = sort_key (\<lambda>p. - int (py_len p)) ps"

lemma set_longest_first [simp]: "set (longest_first ps) = set ps"
  by (simp add: longest_first_def)

lemma find_sorted_max:
  assumes "find P xs = Some x" and "sorted (map k xs)" and "y \<in> set xs" and "P y"
  shows "k x \<le> (k y :: int)"
  using assms by (induction xs) (auto split: if_splits)

lemma longest_first_find:
  assumes u: "\<forall>p \<in> set ps. utf8 p"
    and f: "find (\<lambda>p. p \<noteq> [] \<and> prefix p s) (longest_first ps) = Some p"
    and q: "q \<in> set ps" "q \<noteq> []" "prefix q s"
  shows "prefix q p"
proof -
  have p: "p \<in> set ps" "prefix p s" using f by (auto simp: find_Some_iff dest!: nth_mem)
  have "sorted (map (\<lambda>p. - int (py_len p)) (longest_first ps))"
    by (simp add: longest_first_def)
  from find_sorted_max [OF f this] q have "py_len q \<le> py_len p" by simp
  with p q u strict_prefix_py_len [of p q] show ?thesis
    by (metis leD prefix_same_cases prefix_order.order_iff_strict)
qed

text \<open>Sorted longest first, the alternatives' own order does not matter, only their set.\<close>

lemma alt_match_longest_first:
  assumes "\<forall>p \<in> set ps. utf8 p" and "set qs = set ps"
  shows "alt_match (longest_first qs) s = alt_match (longest_first ps) s"
proof -
  let ?P = "\<lambda>p. p \<noteq> [] \<and> prefix p s"
  have none: "find ?P (longest_first qs) = None \<longleftrightarrow> find ?P (longest_first ps) = None"
    using assms(2) by (simp only: find_None_iff set_longest_first)
  have find_in: "p \<in> set xs \<and> p \<noteq> [] \<and> prefix p s" if "find ?P (longest_first xs) = Some p" for p xs
    using that nth_mem [of _ "longest_first xs"] by (auto simp: find_Some_iff)
  have u: "\<forall>p \<in> set qs. utf8 p" using assms by simp
  have "find ?P (longest_first qs) = find ?P (longest_first ps)"
  proof (cases "find ?P (longest_first qs)")
    case None
    with none show ?thesis by simp
  next
    case (Some q)
    with none obtain p where p: "find ?P (longest_first ps) = Some p" by fastforce
    have "prefix q p" using find_in [OF Some] assms(2)
      by (intro longest_first_find [OF assms(1) p]) auto
    moreover have "prefix p q" using find_in [OF p] assms(2)
      by (intro longest_first_find [OF u Some]) auto
    ultimately show ?thesis using p Some by (simp add: prefix_order.antisym)
  qed
  then show ?thesis by (simp only: alt_match_def)
qed

section \<open>The vault interface\<close>

text \<open>
  A redacted text as segments: characters copied and secrets replaced.  \<open>unmasked\<close> is the
  original, \<open>masked\<close> what is sent out.
\<close>

datatype segment = Copied char | Secret string

fun unmasked :: "segment list \<Rightarrow> string" where
  "unmasked [] = []"
| "unmasked (Copied c # xs) = c # unmasked xs"
| "unmasked (Secret p # xs) = p @ unmasked xs"

fun masked :: "(string \<Rightarrow> string) \<Rightarrow> segment list \<Rightarrow> string" where
  "masked tok [] = []"
| "masked tok (Copied c # xs) = c # masked tok xs"
| "masked tok (Secret p # xs) = tok p @ masked tok xs"

fun secrets_of :: "segment list \<Rightarrow> string list" where
  "secrets_of [] = []"
| "secrets_of (Copied c # xs) = secrets_of xs"
| "secrets_of (Secret p # xs) = p # secrets_of xs"

text \<open>
  A vault: \<open>holds s p t\<close> says that state \<open>s\<close> maps the secret \<open>p\<close> to the token \<open>t\<close>; tokens are
  recognised by \<open>recog\<close> and looked up by \<open>reveal\<close>.  Every token begins with a stem of fixed
  length; a match of the recogniser begins with one too; and no proper end of a stem is the
  beginning of a token, so a token cannot be forged across the edge of a real one.
\<close>

locale token_vault =
  fixes valid :: "'s \<Rightarrow> bool"
    and holds :: "'s \<Rightarrow> string \<Rightarrow> string \<Rightarrow> bool"
    and recog :: "'s \<Rightarrow> matcher"
    and reveal :: "'s \<Rightarrow> string \<Rightarrow> string"
    and is_stem :: "string \<Rightarrow> bool"
    and k :: nat
  assumes recog_token: "valid s \<Longrightarrow> holds s p t \<Longrightarrow> recog s (t @ r) = Some (length t)"
    and reveal_token: "valid s \<Longrightarrow> holds s p t \<Longrightarrow> reveal s t = p"
    and recog_stem: "valid s \<Longrightarrow> recog s x = Some n \<Longrightarrow> is_stem (take k x)"
    and token_stem: "valid s \<Longrightarrow> holds s p t \<Longrightarrow> is_stem (take k t)"
    and stem_length: "is_stem x \<Longrightarrow> length x = k"
    and stem_overlap: "valid s \<Longrightarrow> holds s p t \<Longrightarrow> is_stem (u @ v) \<Longrightarrow> u \<noteq> [] \<Longrightarrow> v \<noteq> [] \<Longrightarrow> \<not> prefix v t"
    and k_pos: "0 < k"
begin

lemma token_length: "valid s \<Longrightarrow> holds s p t \<Longrightarrow> k \<le> length t"
  using token_stem [of s p t] stem_length [of "take k t"] by simp

text \<open>A proper end of a stem that begins the masked text begins the original text.\<close>

lemma masked_prefix:
  assumes "valid s" and "\<forall>p \<in> set (secrets_of xs). holds s p (tok p)"
    and "is_stem (u @ w)" and "u \<noteq> []" and "prefix w (masked tok xs)"
  shows "prefix w (unmasked xs)"
  using assms(2-5)
proof (induction xs arbitrary: u w rule: unmasked.induct)
  case (2 c xs)
  show ?case
  proof (cases w)
    case (Cons x w')
    with "2.prems" have "x = c" "prefix w' (masked tok xs)" by auto
    with "2.IH" [of "u @ [x]" w'] "2.prems" Cons show ?thesis by simp
  qed simp
next
  case (3 p xs)
  show ?case
  proof (cases "w = []")
    case False
    have h: "holds s p (tok p)" using "3.prems" by simp
    have "length w < k" using stem_length [OF "3.prems"(2)] "3.prems"(3) by (cases u) auto
    with token_length [OF assms(1) h] "3.prems"(4) have "prefix w (tok p)"
      by (auto intro: prefix_length_prefix)
    with stem_overlap [OF assms(1) h "3.prems"(2,3) False] show ?thesis by simp
  qed simp
qed simp

text \<open>Restoring a masked text gives the original, when no stem occurs in the original.\<close>

theorem restore_masked:
  assumes "valid s" and "\<forall>p \<in> set (secrets_of xs). holds s p (tok p)"
    and "\<And>st. is_stem st \<Longrightarrow> \<not> sublist st (unmasked xs)"
  shows "scan_sub (recog s) (reveal s) (masked tok xs) = unmasked xs"
  using assms(2-)
proof (induction xs rule: unmasked.induct)
  case (2 c xs)
  have "recog s (c # masked tok xs) = None"
  proof (rule ccontr)
    assume "recog s (c # masked tok xs) \<noteq> None"
    then obtain n where "recog s (c # masked tok xs) = Some n" by auto
    from recog_stem [OF assms(1) this] k_pos
    have st: "is_stem (c # take (k - 1) (masked tok xs))" by (simp add: take_Cons')
    then have "is_stem ([c] @ take (k - 1) (masked tok xs))" by simp
    from masked_prefix [OF assms(1) _ this, of xs tok] "2.prems"(1)
    have "prefix (take (k - 1) (masked tok xs)) (unmasked xs)" by (simp add: take_is_prefix)
    then have "prefix (c # take (k - 1) (masked tok xs)) (unmasked (Copied c # xs))" by simp
    with "2.prems"(2) [OF st] show False by (blast intro: prefix_imp_sublist)
  qed
  moreover have "\<not> sublist st (unmasked xs)" if "is_stem st" for st
    using "2.prems"(2) [OF that] by (auto simp: sublist_Cons_right)
  ultimately show ?case using 2 by simp
next
  case (3 p xs)
  have h: "holds s p (tok p)" using "3.prems" by simp
  from token_length [OF assms(1) h] k_pos obtain c t where t: "tok p = c # t" by (cases "tok p") auto
  have r: "recog s (c # t @ masked tok xs) = Some (length (tok p))"
    using recog_token [OF assms(1) h, of "masked tok xs"] t by simp
  have "\<not> sublist st (unmasked xs)" if "is_stem st" for st
    using "3.prems"(2) [OF that] by (auto simp: sublist_append)
  with "3.IH" "3.prems"(1) have "scan_sub (recog s) (reveal s) (masked tok xs) = unmasked xs" by simp
  then show ?case using r t reveal_token [OF assms(1) h] by simp
qed simp

end

text \<open>The segments a scan with alternatives makes of a text.\<close>

function segments :: "matcher \<Rightarrow> string \<Rightarrow> segment list" where
  "segments m [] = []"
| "segments m (c # s) =
     (case m (c # s) of
        None \<Rightarrow> Copied c # segments m s
      | Some n \<Rightarrow>
          if n = 0 then Copied c # segments m s
          else Secret (take n (c # s)) # segments m (drop n (c # s)))"
  by pat_completeness auto
termination
  by (relation "measure (\<lambda>(m, s). length s)") auto

lemma unmasked_segments [simp]: "unmasked (segments m s) = s"
  by (induction m s rule: segments.induct) (auto split: option.split)

lemma masked_segments: "masked tok (segments m s) = scan_sub m tok s"
  by (induction m s rule: segments.induct) (auto split: option.split)

lemma secrets_segments: "secrets_of (segments m s) = scan_all m s"
  by (induction m s rule: segments.induct) (auto split: option.split)

end
