(* ===== verification/Cred_Vault.thy ===== *)
theory Cred_Vault
  imports Token_Text
begin

text \<open>
  The credential vault (\<open>TokenMixin\<close> of \<open>_token.py\<close>): passwords mapped to
  \<open>__VG_CRED_NNNNNN__\<close> tokens, with least-recently-used eviction at 5000 entries, and the
  redaction and restoration of text, with the version caches of the compiled patterns and the
  per-request cache of an explicit mapping.

  \<open>re.compile('|'.join(re.escape(p) ...))\<close> is the list of alternatives, longest first.  The
  metrics hooks count into a collector, which may be absent, and into the request context.
\<close>

section \<open>Tokens\<close>

definition TOKEN_PREFIX :: string where
  "TOKEN_PREFIX = ''__VG_CRED_''"

definition TOKEN_SUFFIX :: string where
  "TOKEN_SUFFIX = ''__''"

definition MAX_TOKEN_ENTRIES :: nat where
  "MAX_TOKEN_ENTRIES = 5000"

definition SECRET_MIN_LENGTH :: nat where
  "SECRET_MIN_LENGTH = 4"

definition make_token :: "nat \<Rightarrow> string" where
  "make_token n = TOKEN_PREFIX @ zpad 6 (dec n) @ TOKEN_SUFFIX"

text \<open>\<open>TOKEN_STR_RE.fullmatch\<close>: the prefix, at least four digits, the suffix, nothing else.\<close>

definition token_fullmatch :: "string \<Rightarrow> bool" where
  "token_fullmatch s \<longleftrightarrow> prefix TOKEN_PREFIX s \<and>
     (let r = drop (length TOKEN_PREFIX) s; ds = takeWhile is_digit r
      in 4 \<le> length ds \<and> drop (length ds) r = TOKEN_SUFFIX)"

section \<open>State\<close>

record cred_vault =
  pwd_to_token :: "(string, string) dict"
  token_to_pwd :: "(string, string) dict"
  token_seq :: nat
  redact_cache :: "(nat \<times> string list \<times> (string, string) dict) option"
  restore_cache :: "(nat \<times> string list \<times> (string, string) dict) option"
  restore_active_cache ::
    "((nat \<times> nat \<times> (string \<times> string) set) \<times> string list \<times> (string, string) dict) option"
  cred_collector :: "(nat \<times> nat \<times> nat) option"
  cred_ctx :: "(nat \<times> nat) option"

definition cred_vault_init :: cred_vault where
  "cred_vault_init = \<lparr>pwd_to_token = [], token_to_pwd = [], token_seq = 0, redact_cache = None,
     restore_cache = None, restore_active_cache = None, cred_collector = None, cred_ctx = None\<rparr>"

section \<open>Metrics hooks\<close>

definition metrics_cred_hit :: "cred_vault \<Rightarrow> cred_vault" where
  "metrics_cred_hit s = s\<lparr>
     cred_collector := map_option (\<lambda>(h, m, l). (h + 1, m, l)) (cred_collector s),
     cred_ctx := map_option (\<lambda>(h, m). (h + 1, m)) (cred_ctx s)\<rparr>"

definition metrics_cred_miss :: "cred_vault \<Rightarrow> cred_vault" where
  "metrics_cred_miss s = s\<lparr>
     cred_collector := map_option (\<lambda>(h, m, l). (h, m + 1, l)) (cred_collector s),
     cred_ctx := map_option (\<lambda>(h, m). (h, m + 1)) (cred_ctx s)\<rparr>"

definition metrics_cred_lru :: "nat \<Rightarrow> cred_vault \<Rightarrow> cred_vault" where
  "metrics_cred_lru n s = s\<lparr>
     cred_collector := map_option (\<lambda>(h, m, l). (h, m, l + n)) (cred_collector s)\<rparr>"

section \<open>Registration\<close>

text \<open>Making room: the oldest password and its token go.\<close>

definition evict_oldest :: "cred_vault \<Rightarrow> cred_vault" where
  "evict_oldest s =
     (case pwd_to_token s of
        [] \<Rightarrow> s
      | (oldest, old_token) # _ \<Rightarrow> metrics_cred_lru 1
          (s\<lparr>pwd_to_token := ddel oldest (pwd_to_token s),
             token_to_pwd := ddel old_token (token_to_pwd s)\<rparr>))"

definition register_secret :: "string \<Rightarrow> cred_vault \<Rightarrow> cred_vault \<times> string py_result" where
  "register_secret v s =
     (if v = [] \<or> py_len v < SECRET_MIN_LENGTH then (s, Inr v)
      else case dget (pwd_to_token s) v of
        Some t \<Rightarrow>
          (metrics_cred_hit (s\<lparr>pwd_to_token := move_to_end v (pwd_to_token s)\<rparr>), Inr t)
      | None \<Rightarrow>
          if token_fullmatch v \<or> prefix TOKEN_PREFIX v then (s, Inl ValueError)
          else
            let s1 = s\<lparr>token_seq := token_seq s + 1\<rparr>;
                token = make_token (token_seq s1);
                s2 = (if MAX_TOKEN_ENTRIES \<le> length (pwd_to_token s1) then evict_oldest s1 else s1);
                s3 = s2\<lparr>pwd_to_token := dset v token (pwd_to_token s2),
                        token_to_pwd := dset token v (token_to_pwd s2)\<rparr>
            in (metrics_cred_miss s3, Inr token))"

definition maybe_register :: "string \<Rightarrow> bool \<Rightarrow> cred_vault \<Rightarrow> cred_vault \<times> string py_result" where
  "maybe_register v use_token s = (if use_token then register_secret v s else (s, Inr v))"

text \<open>The \<open>forget secrets\<close> command clears both maps (and neither the counter nor the caches).\<close>

definition forget_secrets :: "cred_vault \<Rightarrow> cred_vault" where
  "forget_secrets s = s\<lparr>pwd_to_token := [], token_to_pwd := []\<rparr>"

section \<open>Redaction and restoration\<close>

text \<open>The substitution both directions use: compiled alternatives and a replacement table.\<close>

definition sub_table :: "string list \<Rightarrow> (string, string) dict \<Rightarrow> string \<Rightarrow> string" where
  "sub_table pat repl text = scan_sub (alt_match pat) (\<lambda>m. dget_or repl m m) text"

definition compile_pat :: "(string, string) dict \<Rightarrow> string list" where
  "compile_pat mapping = longest_first (map fst mapping)"

definition redact_with :: "(string, string) dict \<Rightarrow> string \<Rightarrow> string" where
  "redact_with mapping text =
     (if mapping = [] then text else sub_table (compile_pat mapping) mapping text)"

definition refresh_redact_cache :: "cred_vault \<Rightarrow> cred_vault" where
  "refresh_redact_cache s =
     (case redact_cache s of
        Some (ver, _, _) \<Rightarrow>
          if ver = token_seq s then s
          else s\<lparr>redact_cache := Some (token_seq s, compile_pat (pwd_to_token s), pwd_to_token s)\<rparr>
      | None \<Rightarrow> s\<lparr>redact_cache := Some (token_seq s, compile_pat (pwd_to_token s), pwd_to_token s)\<rparr>)"

definition redact :: "string \<Rightarrow> (string, string) dict option \<Rightarrow> cred_vault \<Rightarrow> cred_vault \<times> string" where
  "redact text mapping s =
     (case mapping of
        Some m \<Rightarrow> (s, redact_with m text)
      | None \<Rightarrow>
          if pwd_to_token s = [] then (s, text)
          else
            let s1 = refresh_redact_cache s
            in case redact_cache s1 of
                 Some (_, pat, repl) \<Rightarrow> (s1, sub_table pat repl text)
               | None \<Rightarrow> (s1, text))"

definition refresh_restore_cache :: "cred_vault \<Rightarrow> cred_vault" where
  "refresh_restore_cache s =
     (case restore_cache s of
        Some (ver, _, _) \<Rightarrow>
          if ver = token_seq s then s
          else s\<lparr>restore_cache := Some (token_seq s, compile_pat (token_to_pwd s), token_to_pwd s)\<rparr>
      | None \<Rightarrow> s\<lparr>restore_cache := Some (token_seq s, compile_pat (token_to_pwd s), token_to_pwd s)\<rparr>)"

text \<open>
  The per-request cache of an explicit mapping: its key is the mapping's identity, its size and
  its items (compared as a set: a dictionary's sorted item tuple).
\<close>

definition refresh_active_cache :: "nat \<Rightarrow> (string, string) dict \<Rightarrow> cred_vault \<Rightarrow> cred_vault" where
  "refresh_active_cache mid m s =
     (let key = (mid, length m, set m) in
      case restore_active_cache s of
        Some (key', _, _) \<Rightarrow>
          if key' = key then s else s\<lparr>restore_active_cache := Some (key, compile_pat m, m)\<rparr>
      | None \<Rightarrow> s\<lparr>restore_active_cache := Some (key, compile_pat m, m)\<rparr>)"

definition restore ::
  "string \<Rightarrow> (nat \<times> (string, string) dict) option \<Rightarrow> cred_vault \<Rightarrow> cred_vault \<times> string" where
  "restore text mapping s =
     (case mapping of
        Some (mid, m) \<Rightarrow>
          if m = [] then (s, text)
          else
            let s1 = refresh_active_cache mid m s
            in (case restore_active_cache s1 of
                  Some (_, pat, repl) \<Rightarrow> (s1, sub_table pat repl text)
                | None \<Rightarrow> (s1, text))
      | None \<Rightarrow>
          if token_to_pwd s = [] then (s, text)
          else
            let s1 = refresh_restore_cache s
            in (case restore_cache s1 of
                  Some (_, pat, repl) \<Rightarrow> (s1, sub_table pat repl text)
                | None \<Rightarrow> (s1, text)))"

section \<open>Token shape\<close>

lemma TOKEN_PREFIX_len [simp]: "length TOKEN_PREFIX = 10"
  by (simp add: TOKEN_PREFIX_def)

lemma not_digit_underscore [simp]: "\<not> is_digit (CHR ''_'')"
  by (simp add: is_digit_def byte_def)

text \<open>The digits between the prefix and the suffix are determined by any text the token begins.\<close>

lemma digits_prefix_eq:
  assumes "list_all is_digit a" "list_all is_digit b" "prefix (a @ ''__'') (b @ ''__'' @ r)"
  shows "a = b"
proof -
  have tw: "takeWhile is_digit (x @ CHR ''_'' # y) = x" if "list_all is_digit x" for x y
    using that by (simp add: list_all_iff takeWhile_append2)
  from assms(3) obtain y where "b @ CHR ''_'' # (CHR ''_'' # r) = a @ CHR ''_'' # (CHR ''_'' # y)"
    by (auto simp: prefix_def)
  then have "takeWhile is_digit (b @ CHR ''_'' # (CHR ''_'' # r))
      = takeWhile is_digit (a @ CHR ''_'' # (CHR ''_'' # y))" by (simp only:)
  with assms tw show ?thesis by metis
qed

lemma make_token_prefix_eq: "prefix (make_token m) (make_token n @ r) \<Longrightarrow> m = n"
  using digits_prefix_eq [of "zpad 6 (dec m)" "zpad 6 (dec n)" r] zpad_digits undec_zpad
  by (auto simp: make_token_def TOKEN_SUFFIX_def) (metis undec_zpad)

lemma make_token_inj [simp]: "make_token m = make_token n \<longleftrightarrow> m = n"
  using make_token_prefix_eq [of m n "[]"] by auto

lemma make_token_nonempty [simp]: "make_token n \<noteq> []"
  by (simp add: make_token_def TOKEN_PREFIX_def)

lemma make_token_first_digit:
  "\<exists>d r. is_digit d \<and> make_token n = TOKEN_PREFIX @ [d] @ r"
proof -
  have "zpad 6 (dec n) \<noteq> []" using length_zpad [of 6 "dec n"] by auto
  then obtain d ds where "zpad 6 (dec n) = d # ds" by (cases "zpad 6 (dec n)") auto
  with zpad_digits [of 6 n] show ?thesis by (auto simp: make_token_def)
qed

lemma ascii_digits: "list_all is_digit s \<Longrightarrow> ascii s"
  by (auto simp: ascii_def list_all_iff is_digit_def)

lemma make_token_ascii: "ascii (make_token n)"
  using ascii_digits [OF zpad_digits [of 6 n]]
  by (simp add: make_token_def ascii_def TOKEN_PREFIX_def TOKEN_SUFFIX_def byte_def)

text \<open>Every generated token is one the recogniser of whole tokens accepts.\<close>

lemma token_fullmatch_make: "token_fullmatch (make_token n)"
proof -
  have "list_all is_digit (zpad 6 (dec n))" by (rule zpad_digits)
  then have "takeWhile is_digit (zpad 6 (dec n) @ ''__'') = zpad 6 (dec n)"
    by (simp add: list_all_iff takeWhile_append2)
  then show ?thesis
    using length_zpad [of 6 "dec n"]
    by (simp add: token_fullmatch_def make_token_def TOKEN_SUFFIX_def Let_def)
qed

definition cred_stem :: "string \<Rightarrow> bool" where
  "cred_stem x \<longleftrightarrow> (\<exists>d. is_digit d \<and> x = TOKEN_PREFIX @ [d])"

lemma cred_stem_overlap:
  assumes "cred_stem (u @ v)" "u \<noteq> []" "v \<noteq> []"
  shows "\<not> prefix v (make_token n)"
proof -
  obtain d where d: "is_digit d" "u @ v = TOKEN_PREFIX @ [d]" using assms(1) by (auto simp: cred_stem_def)
  have u: "d \<noteq> CHR ''_''" using d(1) by auto
  have "v = drop (length u) (TOKEN_PREFIX @ [d])" using d(2) by (metis append_eq_conv_conj)
  moreover have "length (u @ v) = 11" by (simp add: d(2))
  then have "length u < 11" using assms(3) by (cases v) auto
  moreover have "0 < length u" using assms(2) by simp
  ultimately obtain n where v: "v = drop n (TOKEN_PREFIX @ [d])" and n: "0 < n" "n < 11"
    by blast
  from n have "n \<in> set [1, 2, 3, 4, 5, 6, 7, 8, 9, 10]" by simp presburger
  then have "drop n (TOKEN_PREFIX @ [d])
      \<in> set (map (\<lambda>j. drop j (TOKEN_PREFIX @ [d])) [1, 2, 3, 4, 5, 6, 7, 8, 9, 10])"
    unfolding set_map by (rule imageI)
  with v show ?thesis using u by (auto simp: TOKEN_PREFIX_def make_token_def)
qed

section \<open>The invariant\<close>

definition cache_ok ::
  "(string, string) dict \<Rightarrow> nat \<Rightarrow> (nat \<times> string list \<times> (string, string) dict) option \<Rightarrow> bool" where
  "cache_ok m seq c \<longleftrightarrow>
     (case c of
        None \<Rightarrow> True
      | Some (ver, pat, repl) \<Rightarrow> ver \<le> seq
          \<and> (ver = seq \<and> m \<noteq> [] \<longrightarrow> pat = compile_pat repl \<and> dget repl = dget m))"

definition entries_ok :: "nat \<Rightarrow> (string, string) dict \<Rightarrow> bool" where
  "entries_ok seq d \<longleftrightarrow> (\<forall>p t. dget d p = Some t \<longrightarrow>
     (\<exists>n. 1 \<le> n \<and> n \<le> seq \<and> t = make_token n)
     \<and> utf8 p \<and> SECRET_MIN_LENGTH \<le> py_len p \<and> \<not> prefix TOKEN_PREFIX p)"

definition vault_ok :: "cred_vault \<Rightarrow> bool" where
  "vault_ok s \<longleftrightarrow>
     dict_ok (pwd_to_token s) \<and> dict_ok (token_to_pwd s)
     \<and> length (pwd_to_token s) \<le> MAX_TOKEN_ENTRIES
     \<and> paired (pwd_to_token s) (token_to_pwd s)
     \<and> entries_ok (token_seq s) (pwd_to_token s)
     \<and> cache_ok (pwd_to_token s) (token_seq s) (redact_cache s)
     \<and> cache_ok (token_to_pwd s) (token_seq s) (restore_cache s)
     \<and> (case restore_active_cache s of
          None \<Rightarrow> True
        | Some ((_, _, items), pat, repl) \<Rightarrow> dict_ok repl \<and> items = set repl \<and> pat = compile_pat repl)"

lemma entries_ok_Nil [simp]: "entries_ok n []"
  by (simp add: entries_ok_def)

lemma entries_ok_move [simp]: "entries_ok n (move_to_end k d) = entries_ok n d"
  by (simp add: entries_ok_def)

lemma entries_ok_ddel: "entries_ok n d \<Longrightarrow> entries_ok n (ddel k d)"
  by (simp add: entries_ok_def)

lemma entries_ok_dset:
  "entries_ok n d \<Longrightarrow> utf8 v \<Longrightarrow> SECRET_MIN_LENGTH \<le> py_len v \<Longrightarrow> \<not> prefix TOKEN_PREFIX v
    \<Longrightarrow> entries_ok (Suc n) (dset v (make_token (Suc n)) d)"
  unfolding entries_ok_def dget_dset
proof (intro allI impI)
  fix p t
  assume ok: "\<forall>p t. dget d p = Some t \<longrightarrow> (\<exists>i. 1 \<le> i \<and> i \<le> n \<and> t = make_token i) \<and> utf8 p
      \<and> SECRET_MIN_LENGTH \<le> py_len p \<and> \<not> prefix TOKEN_PREFIX p"
    and v: "utf8 v" "SECRET_MIN_LENGTH \<le> py_len v" "\<not> prefix TOKEN_PREFIX v"
    and p: "(if p = v then Some (make_token (Suc n)) else dget d p) = Some t"
  show "(\<exists>i. 1 \<le> i \<and> i \<le> Suc n \<and> t = make_token i) \<and> utf8 p
      \<and> SECRET_MIN_LENGTH \<le> py_len p \<and> \<not> prefix TOKEN_PREFIX p"
  proof (cases "p = v")
    case True
    with p v show ?thesis by (auto intro!: exI [of _ "Suc n"])
  next
    case False
    with p have "dget d p = Some t" by simp
    with ok obtain i where "1 \<le> i" "i \<le> n" "t = make_token i" and
        "utf8 p \<and> SECRET_MIN_LENGTH \<le> py_len p \<and> \<not> prefix TOKEN_PREFIX p" by blast
    then show ?thesis by (blast intro: le_SucI)
  qed
qed

lemma entries_ok_fresh: "entries_ok n d \<Longrightarrow> dget d p \<noteq> Some (make_token (Suc n))"
  by (fastforce simp: entries_ok_def)

lemma paired_move [simp]: "paired (move_to_end k d) e = paired d e"
  by (simp add: paired_def)

lemma vault_ok_init: "vault_ok cred_vault_init"
  by (simp add: vault_ok_def cred_vault_init_def cache_ok_def)

lemma metrics_frame [simp]:
  "pwd_to_token (metrics_cred_hit s) = pwd_to_token s" "token_to_pwd (metrics_cred_hit s) = token_to_pwd s"
  "token_seq (metrics_cred_hit s) = token_seq s" "redact_cache (metrics_cred_hit s) = redact_cache s"
  "restore_cache (metrics_cred_hit s) = restore_cache s"
  "restore_active_cache (metrics_cred_hit s) = restore_active_cache s"
  "pwd_to_token (metrics_cred_miss s) = pwd_to_token s" "token_to_pwd (metrics_cred_miss s) = token_to_pwd s"
  "token_seq (metrics_cred_miss s) = token_seq s" "redact_cache (metrics_cred_miss s) = redact_cache s"
  "restore_cache (metrics_cred_miss s) = restore_cache s"
  "restore_active_cache (metrics_cred_miss s) = restore_active_cache s"
  "pwd_to_token (metrics_cred_lru n s) = pwd_to_token s" "token_to_pwd (metrics_cred_lru n s) = token_to_pwd s"
  "token_seq (metrics_cred_lru n s) = token_seq s" "redact_cache (metrics_cred_lru n s) = redact_cache s"
  "restore_cache (metrics_cred_lru n s) = restore_cache s"
  "restore_active_cache (metrics_cred_lru n s) = restore_active_cache s"
  by (simp_all add: metrics_cred_hit_def metrics_cred_miss_def metrics_cred_lru_def)

lemma vault_ok_metrics [simp]:
  "vault_ok (metrics_cred_hit s) = vault_ok s"
  "vault_ok (metrics_cred_miss s) = vault_ok s"
  "vault_ok (metrics_cred_lru n s) = vault_ok s"
  by (simp_all add: vault_ok_def)

lemma cache_ok_older: "cache_ok m seq c \<Longrightarrow> cache_ok m' (Suc seq) c"
  by (auto simp: cache_ok_def split: option.splits)

lemma cache_ok_same: "cache_ok m seq c \<Longrightarrow> m' = [] \<or> (m \<noteq> [] \<and> dget m' = dget m) \<Longrightarrow> cache_ok m' seq c"
  by (auto simp: cache_ok_def split: option.splits)

lemma move_to_end_Nil [simp]: "dict_ok d \<Longrightarrow> (move_to_end k d = []) = (d = [])"
  by (metis length_0_conv length_move_to_end)

subsection \<open>Every operation keeps it\<close>

lemma vault_ok_touch: "vault_ok s \<Longrightarrow> vault_ok (s\<lparr>pwd_to_token := move_to_end v (pwd_to_token s)\<rparr>)"
  by (auto simp: vault_ok_def intro: cache_ok_same)

lemma evict_oldest_facts:
  assumes "vault_ok s" and "pwd_to_token s \<noteq> []"
  shows "vault_ok (evict_oldest s\<lparr>redact_cache := None, restore_cache := None\<rparr>)"
    and "length (pwd_to_token (evict_oldest s)) < length (pwd_to_token s)"
    and "token_seq (evict_oldest s) = token_seq s"
    and "redact_cache (evict_oldest s) = redact_cache s"
    and "restore_cache (evict_oldest s) = restore_cache s"
    and "\<exists>oldest. \<forall>p. dget (pwd_to_token (evict_oldest s)) p
           = (if p = oldest then None else dget (pwd_to_token s) p)"
proof -
  obtain oldest tok rest where d: "pwd_to_token s = (oldest, tok) # rest"
    using assms(2) by (cases "pwd_to_token s") auto
  have e: "evict_oldest s = metrics_cred_lru 1 (s\<lparr>pwd_to_token := ddel oldest (pwd_to_token s),
             token_to_pwd := ddel tok (token_to_pwd s)\<rparr>)"
    by (simp add: evict_oldest_def d)
  have ot: "dget (pwd_to_token s) oldest = Some tok" by (simp add: d)
  have lt: "length (ddel oldest (pwd_to_token s)) < length (pwd_to_token s)"
    using assms(1) length_ddel [of "pwd_to_token s" oldest] ot by (simp add: vault_ok_def)
  show "length (pwd_to_token (evict_oldest s)) < length (pwd_to_token s)" using lt by (simp add: e)
  show "vault_ok (evict_oldest s\<lparr>redact_cache := None, restore_cache := None\<rparr>)"
    using assms(1) lt ot unfolding vault_ok_def e metrics_cred_lru_def
    by (simp add: cache_ok_def paired_ddel entries_ok_ddel)
  show "\<exists>oldest. \<forall>p. dget (pwd_to_token (evict_oldest s)) p
      = (if p = oldest then None else dget (pwd_to_token s) p)"
    by (auto simp: e)
qed (auto simp: evict_oldest_def split: list.split)

text \<open>Storing a new password under the next token.\<close>

lemma vault_ok_store:
  assumes ok: "vault_ok (s\<lparr>redact_cache := None, restore_cache := None\<rparr>)"
    and c: "cache_ok ma n (redact_cache s)" "cache_ok mb n (restore_cache s)" "token_seq s = n"
    and v: "dget (pwd_to_token s) v = None" "utf8 v" "SECRET_MIN_LENGTH \<le> py_len v"
      "\<not> prefix TOKEN_PREFIX v"
    and room: "length (pwd_to_token s) < MAX_TOKEN_ENTRIES"
  shows "vault_ok (s\<lparr>token_seq := Suc n, pwd_to_token := dset v (make_token (Suc n)) (pwd_to_token s),
           token_to_pwd := dset (make_token (Suc n)) v (token_to_pwd s)\<rparr>)"
proof -
  have core: "paired (pwd_to_token s) (token_to_pwd s)" "entries_ok n (pwd_to_token s)"
    using ok c(3) by (auto simp: vault_ok_def)
  have fresh: "dget (token_to_pwd s) (make_token (Suc n)) = None"
    using pairedD' [OF core(1)] entries_ok_fresh [OF core(2)] by (metis not_None_eq)
  have len: "length (dset v (make_token (Suc n)) (pwd_to_token s)) \<le> MAX_TOKEN_ENTRIES"
    using v(1) room by (simp add: dset_new)
  show ?thesis
    using ok len core fresh v paired_dset [OF core(1) v(1) fresh]
      entries_ok_dset [OF core(2) v(2-4)] c(1) [THEN cache_ok_older] c(2) [THEN cache_ok_older]
    unfolding vault_ok_def by simp
qed

lemma vault_ok_register:
  assumes ok: "vault_ok s" and u: "utf8 v"
  shows "vault_ok (fst (register_secret v s))"
proof (cases "dget (pwd_to_token s) v")
  case (Some t)
  with ok show ?thesis by (simp add: register_secret_def vault_ok_touch)
next
  case new: None
  show ?thesis
  proof (cases "v = [] \<or> py_len v < SECRET_MIN_LENGTH \<or> token_fullmatch v \<or> prefix TOKEN_PREFIX v")
    case True
    with new ok show ?thesis by (auto simp: register_secret_def)
  next
    case False
    define s1 where "s1 = s\<lparr>token_seq := token_seq s + 1\<rparr>"
    define s2 where "s2 = (if MAX_TOKEN_ENTRIES \<le> length (pwd_to_token s) then evict_oldest s else s)"
    have evict_seq: "evict_oldest (s\<lparr>token_seq := x\<rparr>) = evict_oldest s\<lparr>token_seq := x\<rparr>" for x
      by (simp add: evict_oldest_def metrics_cred_lru_def split: list.split)
    have reg: "fst (register_secret v s) = metrics_cred_miss
        (s2\<lparr>token_seq := Suc (token_seq s),
            pwd_to_token := dset v (make_token (Suc (token_seq s))) (pwd_to_token s2),
            token_to_pwd := dset (make_token (Suc (token_seq s))) v (token_to_pwd s2)\<rparr>)"
      using False new by (simp add: register_secret_def s2_def evict_seq Let_def)
    have "vault_ok (s2\<lparr>redact_cache := None, restore_cache := None\<rparr>)"
      "token_seq s2 = token_seq s" "redact_cache s2 = redact_cache s" "restore_cache s2 = restore_cache s"
      "dget (pwd_to_token s2) v = None" "length (pwd_to_token s2) < MAX_TOKEN_ENTRIES"
    proof -
      have full: "pwd_to_token s \<noteq> []" "length (pwd_to_token s) = MAX_TOKEN_ENTRIES"
        if "MAX_TOKEN_ENTRIES \<le> length (pwd_to_token s)"
        using that ok by (auto simp: vault_ok_def MAX_TOKEN_ENTRIES_def)
      note ev = evict_oldest_facts [OF ok]
      show "vault_ok (s2\<lparr>redact_cache := None, restore_cache := None\<rparr>)"
        using full ev(1) ok by (auto simp: s2_def vault_ok_def cache_ok_def)
      show "token_seq s2 = token_seq s" "redact_cache s2 = redact_cache s"
        "restore_cache s2 = restore_cache s"
        using full ev(3-5) by (auto simp: s2_def)
      show "dget (pwd_to_token s2) v = None" using full ev(6) new by (auto simp: s2_def)
      show "length (pwd_to_token s2) < MAX_TOKEN_ENTRIES" using full ev(2) by (auto simp: s2_def)
    qed
    moreover have "cache_ok (pwd_to_token s) (token_seq s) (redact_cache s)"
      "cache_ok (token_to_pwd s) (token_seq s) (restore_cache s)"
      using ok by (simp_all add: vault_ok_def)
    ultimately have "vault_ok (s2\<lparr>token_seq := Suc (token_seq s),
            pwd_to_token := dset v (make_token (Suc (token_seq s))) (pwd_to_token s2),
            token_to_pwd := dset (make_token (Suc (token_seq s))) v (token_to_pwd s2)\<rparr>)"
      using False u by (intro vault_ok_store [where ma = "pwd_to_token s" and mb = "token_to_pwd s"]) auto
    then show ?thesis by (simp add: reg)
  qed
qed

lemma vault_ok_forget: "vault_ok s \<Longrightarrow> vault_ok (forget_secrets s)"
  by (auto simp: vault_ok_def forget_secrets_def intro: cache_ok_same)

lemma vault_ok_redact_cache: "vault_ok s \<Longrightarrow> vault_ok (refresh_redact_cache s)"
  by (auto simp: vault_ok_def refresh_redact_cache_def cache_ok_def split: option.splits)

lemma vault_ok_restore_cache: "vault_ok s \<Longrightarrow> vault_ok (refresh_restore_cache s)"
  by (auto simp: vault_ok_def refresh_restore_cache_def cache_ok_def split: option.splits)

lemma vault_ok_active_cache: "vault_ok s \<Longrightarrow> dict_ok m \<Longrightarrow> vault_ok (refresh_active_cache mid m s)"
  by (auto simp: vault_ok_def refresh_active_cache_def Let_def split: option.splits)

lemma vault_ok_redact: "vault_ok s \<Longrightarrow> vault_ok (fst (redact text m s))"
  by (auto simp: redact_def Let_def vault_ok_redact_cache split: option.splits)

lemma vault_ok_restore:
  "vault_ok s \<Longrightarrow> (\<And>mid d. m = Some (mid, d) \<Longrightarrow> dict_ok d) \<Longrightarrow> vault_ok (fst (restore text m s))"
  by (auto simp: restore_def Let_def vault_ok_restore_cache vault_ok_active_cache split: option.splits)

section \<open>Reachable vaults\<close>

text \<open>
  The operations on the vault from an empty one; every \<open>str\<close> is well-formed UTF-8 and every
  explicit mapping a dictionary.
\<close>

inductive vault_step :: "cred_vault \<Rightarrow> cred_vault \<Rightarrow> bool" where
  register: "utf8 v \<Longrightarrow> vault_step s (fst (maybe_register v use_token s))"
| redact: "vault_step s (fst (redact text m s))"
| restore: "(\<And>mid d. m = Some (mid, d) \<Longrightarrow> dict_ok d) \<Longrightarrow> vault_step s (fst (restore text m s))"
| forget: "vault_step s (forget_secrets s)"
| attach: "vault_step s (s\<lparr>cred_collector := c\<rparr>)"
| request: "vault_step s (s\<lparr>cred_ctx := x\<rparr>)"

inductive vault_reachable :: "cred_vault \<Rightarrow> bool" where
  start: "vault_reachable cred_vault_init"
| step: "vault_reachable s \<Longrightarrow> vault_step s t \<Longrightarrow> vault_reachable t"

lemma vault_step_ok: "vault_step s t \<Longrightarrow> vault_ok s \<Longrightarrow> vault_ok t"
proof (induction rule: vault_step.induct)
  case (register v s use_token)
  then show ?case by (simp add: maybe_register_def vault_ok_register)
next
  case (redact s _ m)
  then show ?case by (simp add: vault_ok_redact)
next
  case (restore m s _)
  then show ?case by (intro vault_ok_restore) auto
next
  case (forget s)
  then show ?case by (rule vault_ok_forget)
qed (simp_all add: vault_ok_def)

lemma vault_reachable_inv: "vault_reachable s \<Longrightarrow> vault_ok s"
proof (induction rule: vault_reachable.induct)
  case start
  show ?case by (rule vault_ok_init)
next
  case (step s t)
  then show ?case by (blast intro: vault_step_ok)
qed

section \<open>Caches are transparent\<close>

lemma sub_table_same:
  assumes "dget repl = dget m" and "\<forall>p \<in> set (map fst m). utf8 p"
  shows "sub_table (compile_pat repl) repl text = sub_table (compile_pat m) m text"
proof -
  have "set (map fst repl) = set (map fst m)"
    using arg_cong [OF assms(1), of dom] by (simp add: dom_map_of_conv_image_fst)
  with assms(2) have "alt_match (compile_pat repl) s = alt_match (compile_pat m) s" for s
    unfolding compile_pat_def by (intro alt_match_longest_first) auto
  then show ?thesis
    unfolding sub_table_def dget_or_def assms(1) by (rule scan_sub_matcher_cong)
qed

lemma vault_keys_utf8:
  assumes "vault_ok s"
  shows "\<forall>p \<in> set (map fst (pwd_to_token s)). utf8 p"
    and "\<forall>t \<in> set (map fst (token_to_pwd s)). utf8 t"
proof -
  show "\<forall>p \<in> set (map fst (pwd_to_token s)). utf8 p"
  proof
    fix p assume "p \<in> set (map fst (pwd_to_token s))"
    then obtain t where "dget (pwd_to_token s) p = Some t"
      using dget_None_key [of "pwd_to_token s" p] by auto
    with assms show "utf8 p" by (auto simp: vault_ok_def entries_ok_def)
  qed
  show "\<forall>t \<in> set (map fst (token_to_pwd s)). utf8 t"
  proof
    fix t assume "t \<in> set (map fst (token_to_pwd s))"
    then obtain p where "dget (token_to_pwd s) t = Some p"
      using dget_None_key [of "token_to_pwd s" t] by auto
    with assms have "dget (pwd_to_token s) p = Some t" by (auto simp: vault_ok_def dest: pairedD')
    with assms show "utf8 t"
      by (auto simp: vault_ok_def entries_ok_def intro: ascii_utf8 make_token_ascii)
  qed
qed

lemma refreshed_caches:
  "\<exists>pat repl. redact_cache (refresh_redact_cache s) = Some (token_seq s, pat, repl)"
  "\<exists>pat repl. restore_cache (refresh_restore_cache s) = Some (token_seq s, pat, repl)"
  "\<exists>pat repl. restore_active_cache (refresh_active_cache mid m s)
     = Some ((mid, length m, set m), pat, repl)"
  by (auto simp: refresh_redact_cache_def refresh_restore_cache_def refresh_active_cache_def Let_def
      split: option.split prod.split)

lemma redact_fresh:
  assumes "vault_ok s"
  shows "snd (redact text None s) = redact_with (pwd_to_token s) text"
proof (cases "pwd_to_token s = []")
  case False
  let ?s = "refresh_redact_cache s"
  have ok: "vault_ok ?s" using assms by (rule vault_ok_redact_cache)
  have frame: "pwd_to_token ?s = pwd_to_token s" "token_seq ?s = token_seq s"
    by (auto simp: refresh_redact_cache_def split: option.split prod.split)
  obtain pat repl where c: "redact_cache ?s = Some (token_seq s, pat, repl)"
    using refreshed_caches(1) by blast
  from ok c frame False have pat: "pat = compile_pat repl" and dg: "dget repl = dget (pwd_to_token s)"
    by (auto simp: vault_ok_def cache_ok_def)
  have "sub_table pat repl text = sub_table (compile_pat (pwd_to_token s)) (pwd_to_token s) text"
    unfolding pat by (rule sub_table_same [OF dg vault_keys_utf8(1) [OF assms]])
  with False c show ?thesis by (simp add: redact_def redact_with_def Let_def)
qed (simp add: redact_def redact_with_def)

lemma restore_fresh:
  assumes "vault_ok s"
  shows "snd (restore text None s) = redact_with (token_to_pwd s) text"
proof (cases "token_to_pwd s = []")
  case False
  let ?s = "refresh_restore_cache s"
  have ok: "vault_ok ?s" using assms by (rule vault_ok_restore_cache)
  have frame: "token_to_pwd ?s = token_to_pwd s" "token_seq ?s = token_seq s"
    by (auto simp: refresh_restore_cache_def split: option.split prod.split)
  obtain pat repl where c: "restore_cache ?s = Some (token_seq s, pat, repl)"
    using refreshed_caches(2) by blast
  from ok c frame False have pat: "pat = compile_pat repl" and dg: "dget repl = dget (token_to_pwd s)"
    by (auto simp: vault_ok_def cache_ok_def)
  have "sub_table pat repl text = sub_table (compile_pat (token_to_pwd s)) (token_to_pwd s) text"
    unfolding pat by (rule sub_table_same [OF dg vault_keys_utf8(2) [OF assms]])
  with False c show ?thesis by (simp add: restore_def redact_with_def Let_def)
qed (simp add: restore_def redact_with_def)

lemma restore_explicit_fresh:
  assumes "vault_ok s" and "dict_ok m" and "\<forall>p \<in> set (map fst m). utf8 p"
  shows "snd (restore text (Some (mid, m)) s) = redact_with m text"
proof (cases "m = []")
  case False
  let ?s = "refresh_active_cache mid m s"
  have ok: "vault_ok ?s" using assms(1,2) by (rule vault_ok_active_cache)
  obtain pat repl where c: "restore_active_cache ?s = Some ((mid, length m, set m), pat, repl)"
    using refreshed_caches(3) by blast
  from ok c have r: "dict_ok repl" "set repl = set m" "pat = compile_pat repl"
    by (auto simp: vault_ok_def)
  have dg: "dget repl = dget m"
    using r(1,2) assms(2) by (simp add: dict_ok_def map_of_inject_set)
  have "sub_table pat repl text = sub_table (compile_pat m) m text"
    unfolding r(3) by (rule sub_table_same [OF dg assms(3)])
  with False c show ?thesis by (simp add: restore_def redact_with_def Let_def)
qed (simp add: restore_def redact_with_def)

section \<open>The vault as a \<open>token_vault\<close>\<close>

lemma cred_recog_token:
  assumes "vault_ok s" and "dget (pwd_to_token s) p = Some t"
  shows "alt_match (compile_pat (token_to_pwd s)) (t @ r) = Some (length t)"
proof -
  let ?ts = "compile_pat (token_to_pwd s)"
  have tok: "\<exists>n. q = make_token n" if "q \<in> set (map fst (token_to_pwd s))" for q
  proof -
    from that obtain p where "dget (token_to_pwd s) q = Some p"
      using dget_None_key [of "token_to_pwd s" q] by auto
    with assms(1) have "dget (pwd_to_token s) p = Some q" by (auto simp: vault_ok_def dest: pairedD')
    with assms(1) show ?thesis by (auto simp: vault_ok_def entries_ok_def)
  qed
  have "dget (token_to_pwd s) t = Some p" using assms by (auto simp: vault_ok_def dest: pairedD)
  then have t: "t \<in> set (map fst (token_to_pwd s))" by (auto dest: dget_Some_key)
  then obtain n where n: "t = make_token n" using tok by blast
  have "t \<in> set ?ts" "t \<noteq> [] \<and> prefix t (t @ r)" using t n by (simp_all add: compile_pat_def)
  then have "find (\<lambda>p. p \<noteq> [] \<and> prefix p (t @ r)) ?ts \<noteq> None" by (auto simp: find_None_iff)
  then obtain q where q: "find (\<lambda>p. p \<noteq> [] \<and> prefix p (t @ r)) ?ts = Some q" by blast
  then have "q \<in> set ?ts" "prefix q (t @ r)" by (auto simp: find_Some_iff)
  then obtain m where "q = make_token m" using tok by (auto simp: compile_pat_def)
  with \<open>prefix q (t @ r)\<close> n have "q = t" by (auto dest: make_token_prefix_eq)
  with q show ?thesis by (simp add: alt_match_def)
qed

lemma make_token_stem: "cred_stem (take 11 (make_token n @ r))"
  using make_token_first_digit [of n] by (auto simp: cred_stem_def)

lemma cred_recog_stem:
  assumes "vault_ok s" and "alt_match (compile_pat (token_to_pwd s)) x = Some n"
  shows "cred_stem (take 11 x)"
proof -
  obtain q where q: "q \<in> set (map fst (token_to_pwd s))" "prefix q x"
    using assms(2) by (auto simp: alt_match_def find_Some_iff compile_pat_def dest: nth_mem)
  from q(1) obtain p where "dget (token_to_pwd s) q = Some p"
    using dget_None_key [of "token_to_pwd s" q] by auto
  with assms(1) obtain m where "q = make_token m"
    by (fastforce simp: vault_ok_def entries_ok_def dest: pairedD')
  with q(2) show ?thesis by (auto simp: prefix_def intro: make_token_stem)
qed

interpretation cred: token_vault vault_ok
  "\<lambda>s p t. dget (pwd_to_token s) p = Some t"
  "\<lambda>s. alt_match (compile_pat (token_to_pwd s))"
  "\<lambda>s t. dget_or (token_to_pwd s) t t"
  cred_stem 11
proof unfold_locales
  show "dget_or (token_to_pwd s) t t = p" if "vault_ok s" "dget (pwd_to_token s) p = Some t" for s p t
    using that by (auto simp: vault_ok_def dget_or_def dest: pairedD)
  show "cred_stem (take 11 t)" if "vault_ok s" "dget (pwd_to_token s) p = Some t" for s p t
    using that make_token_stem [of _ "[]"] by (fastforce simp: vault_ok_def entries_ok_def)
  show "\<not> prefix v t" if "vault_ok s" "dget (pwd_to_token s) p = Some t" "cred_stem (u @ v)"
    "u \<noteq> []" "v \<noteq> []" for s p t u v
    using that cred_stem_overlap by (fastforce simp: vault_ok_def entries_ok_def)
  show "cred_stem (take 11 x)"
    if "vault_ok s" "alt_match (compile_pat (token_to_pwd s)) x = Some n" for s x n
    using that by (rule cred_recog_stem)
qed (auto simp: cred_recog_token cred_stem_def)

section \<open>Properties\<close>

text \<open>
  Through any sequence of registrations, redactions, restorations and \<open>forget secrets\<close>
  commands, the two maps of the vault stay each other's inverse, hold at most 5000 entries, only
  map passwords of at least four characters that do not begin like a token to tokens numbered up
  to the counter, and the caches are up to date with the maps.
\<close>

theorem vault_reachable_ok: "vault_reachable s \<Longrightarrow> vault_ok s"
  by (rule vault_reachable_inv)

definition vault_example :: cred_vault where
  "vault_example = fst (register_secret ''tiger12'' (fst (register_secret ''tiger'' cred_vault_init)))"

lemma vault_example_eval:
  "pwd_to_token vault_example = [(''tiger'', make_token 1), (''tiger12'', make_token 2)]"
  "token_to_pwd vault_example = [(make_token 1, ''tiger''), (make_token 2, ''tiger12'')]"
  "restore_cache vault_example = None" "redact_cache vault_example = None"
  by (simp_all add: vault_example_def register_secret_def cred_vault_init_def py_len_def cp_width_def
      byte_def SECRET_MIN_LENGTH_def token_fullmatch_def TOKEN_PREFIX_def Let_def
      MAX_TOKEN_ENTRIES_def metrics_cred_miss_def numeral_2_eq_2)

lemma vault_example_reachable: "vault_reachable vault_example"
proof -
  have u: "utf8 ''tiger''" "utf8 ''tiger12''"
    by (simp_all add: ascii_utf8 ascii_def byte_def)
  have r: "vault_reachable (fst (register_secret v s))" if "vault_reachable s" "utf8 v" for v s
    using vault_reachable.step [OF that(1) vault_step.register [OF that(2), where use_token = True]]
    by (simp add: maybe_register_def)
  show ?thesis unfolding vault_example_def
    by (intro r vault_reachable.start u)
qed

theorem vault_reachable_ok_witness: "vault_ok vault_example"
  by (rule vault_reachable_ok [OF vault_example_reachable])

text \<open>
  The version cache, the per-request cache and the reordering of the maps by use are
  invisible: in every reachable vault, redacting with the vault's own maps (cached pattern and
  table) gives what a pattern compiled from the current map gives, and so does restoring.
\<close>

theorem caches_transparent:
  assumes "vault_reachable s" and "dict_ok m" and "\<forall>p \<in> set (map fst m). utf8 p"
  shows "snd (redact text None s) = redact_with (pwd_to_token s) text
    \<and> snd (restore text None s) = redact_with (token_to_pwd s) text
    \<and> snd (restore text (Some (mid, m)) s) = redact_with m text"
  using vault_reachable_inv [OF assms(1)] redact_fresh restore_fresh
    restore_explicit_fresh [OF _ assms(2,3)] by simp

theorem caches_transparent_witness:
  "snd (redact ''x tiger12 y'' None vault_example) = redact_with (pwd_to_token vault_example) ''x tiger12 y''
   \<and> snd (restore ''a'' (Some (7, [(make_token 1, ''tiger'')])) vault_example)
       = redact_with [(make_token 1, ''tiger'')] ''a''"
proof -
  have "dict_ok [(make_token 1, ''tiger'')]"
    "\<forall>p \<in> set (map fst [(make_token 1, ''tiger'')]). utf8 p"
    by (simp_all add: dict_ok_def ascii_utf8 make_token_ascii)
  then show ?thesis
    using caches_transparent [OF vault_example_reachable, of "[(make_token 1, ''tiger'')]" "''x tiger12 y''" 7]
      caches_transparent [OF vault_example_reachable, of "[(make_token 1, ''tiger'')]" "''a''" 7] by simp
qed

lemma scan_all_alt: "t \<in> set (scan_all (alt_match ps) s) \<Longrightarrow> t \<in> set ps"
  by (induction "alt_match ps" s rule: scan_all.induct)
    (auto split: option.splits if_splits dest: alt_match_take)

lemma redact_segments:
  "redact_with d text = masked (\<lambda>p. dget_or d p p) (segments (alt_match (compile_pat d)) text)"
proof (cases "d = []")
  case True
  have "segments (alt_match []) x = map Copied x" for x
    by (induction x) (auto simp: alt_match_def)
  moreover have "masked f (map Copied x) = x" for f x by (induction x) auto
  ultimately show ?thesis by (simp add: True redact_with_def compile_pat_def longest_first_def)
next
  case False
  then show ?thesis by (simp add: redact_with_def sub_table_def masked_segments)
qed

lemma redact_with_roundtrip:
  assumes ok: "vault_ok s" and "\<forall>d. is_digit d \<longrightarrow> \<not> sublist (TOKEN_PREFIX @ [d]) text"
  shows "redact_with (token_to_pwd s) (redact_with (pwd_to_token s) text) = text"
proof (cases "token_to_pwd s = []")
  case True
  with ok have "pwd_to_token s = []" by (auto simp: vault_ok_def dest: paired_Nil2)
  with True show ?thesis by (simp add: redact_with_def)
next
  case False
  let ?m = "alt_match (compile_pat (pwd_to_token s))" and ?tok = "\<lambda>p. dget_or (pwd_to_token s) p p"
  have "\<forall>p \<in> set (secrets_of (segments ?m text)). dget (pwd_to_token s) p = Some (?tok p)"
  proof
    fix p assume "p \<in> set (secrets_of (segments ?m text))"
    then have "p \<in> set (map fst (pwd_to_token s))"
      by (auto simp: secrets_segments compile_pat_def dest: scan_all_alt)
    then show "dget (pwd_to_token s) p = Some (?tok p)"
      using dget_None_key [of "pwd_to_token s" p] by (auto simp: dget_or_def)
  qed
  moreover have "\<not> sublist st (unmasked (segments ?m text))" if "cred_stem st" for st
    using that assms(2) by (auto simp: cred_stem_def)
  ultimately have "scan_sub (alt_match (compile_pat (token_to_pwd s))) (\<lambda>t. dget_or (token_to_pwd s) t t)
      (masked ?tok (segments ?m text)) = text"
    using cred.restore_masked [OF ok] by simp
  then have "redact_with (token_to_pwd s) (masked ?tok (segments ?m text)) = text"
    using False by (simp add: redact_with_def sub_table_def)
  then show ?thesis unfolding redact_segments [of "pwd_to_token s"] .
qed

text \<open>
  C7. Restoring what was redacted gives the text back exactly, in every reachable vault, for
  every text that does not itself contain the beginning of a credential token (the token prefix
  followed by a digit).
\<close>

theorem redact_restore_roundtrip:
  assumes "vault_reachable s" and "\<forall>d. is_digit d \<longrightarrow> \<not> sublist (TOKEN_PREFIX @ [d]) text"
  shows "snd (restore (snd (redact text None s)) None (fst (redact text None s))) = text"
proof -
  have ok: "vault_ok s" using assms(1) by (rule vault_reachable_inv)
  have "token_to_pwd (fst (redact text None s)) = token_to_pwd s"
    by (auto simp: redact_def Let_def refresh_redact_cache_def split: option.split prod.split)
  then show ?thesis
    by (simp add: restore_fresh [OF vault_ok_redact [OF ok]] redact_fresh [OF ok]
        redact_with_roundtrip [OF ok assms(2)])
qed

lemma redact_restore_roundtrip_example:
  "snd (redact ''pw=tiger12;tiger'' None vault_example) = ''pw=__VG_CRED_000002__;__VG_CRED_000001__''"
  by (simp add: redact_fresh [OF vault_reachable_inv [OF vault_example_reachable]] vault_example_eval
      redact_with_def compile_pat_def longest_first_def sub_table_def alt_match_def py_len_def
      cp_width_def byte_def dget_or_def make_token_def TOKEN_PREFIX_def TOKEN_SUFFIX_def zpad_def
      dec.simps text_eval)

theorem redact_restore_roundtrip_witness:
  "snd (restore (snd (redact ''pw=tiger12;tiger'' None vault_example)) None
     (fst (redact ''pw=tiger12;tiger'' None vault_example))) = ''pw=tiger12;tiger''"
proof -
  have "\<forall>d. is_digit d \<longrightarrow> \<not> sublist (TOKEN_PREFIX @ [d]) ''pw=tiger12;tiger''"
    by (simp add: TOKEN_PREFIX_def sublist_code)
  with redact_restore_roundtrip [OF vault_example_reachable] show ?thesis by blast
qed

lemma alt_match_none: "alt_match ps s = None \<Longrightarrow> p \<in> set ps \<Longrightarrow> p \<noteq> [] \<Longrightarrow> \<not> prefix p s"
  by (auto simp: alt_match_def find_None_iff)

lemma segments_copied:
  "segments (alt_match ps) s = ys @ Copied c # zs \<Longrightarrow> p \<in> set ps \<Longrightarrow> p \<noteq> [] \<Longrightarrow>
     \<not> prefix p (c # unmasked zs)"
proof (induction "alt_match ps" s arbitrary: ys rule: segments.induct)
  case (2 a s)
  show ?case
  proof (cases "alt_match ps (a # s)")
    case None
    show ?thesis
    proof (cases ys)
      case Nil
      with 2 None have "a = c" "zs = segments (alt_match ps) s" by auto
      with alt_match_none [OF None 2(5,6)] show ?thesis by simp
    next
      case (Cons y ys')
      with 2 None show ?thesis by auto
    qed
  next
    case (Some n)
    then have "n \<noteq> 0" by (auto dest: alt_match_take)
    with 2 Some show ?thesis by (cases ys) auto
  qed
qed simp

lemma segments_secret:
  assumes "\<forall>p \<in> set ps. utf8 p"
  shows "segments (alt_match (longest_first ps)) s = ys @ Secret p # zs \<Longrightarrow> q \<in> set ps \<Longrightarrow> q \<noteq> []
    \<Longrightarrow> prefix q (p @ unmasked zs) \<Longrightarrow> prefix q p"
proof (induction "alt_match (longest_first ps)" s arbitrary: ys rule: segments.induct)
  case (2 a s)
  show ?case
  proof (cases "alt_match (longest_first ps) (a # s)")
    case None
    with 2 show ?thesis by (cases ys) auto
  next
    case (Some n)
    then obtain r where r: "find (\<lambda>p. p \<noteq> [] \<and> prefix p (a # s)) (longest_first ps) = Some r"
        "n = length r" by (auto simp: alt_match_Some)
    then have "prefix r (a # s)" "n \<noteq> 0" by (auto simp: find_Some_iff)
    then have tk: "take n (a # s) = r" using r(2) by (auto simp: prefix_def)
    show ?thesis
    proof (cases ys)
      case Nil
      with 2(4) Some \<open>n \<noteq> 0\<close> tk have p: "p = r" and "zs = segments (alt_match (longest_first ps)) (drop n (a # s))"
        by auto
      then have "p @ unmasked zs = a # s" using tk by (metis append_take_drop_id unmasked_segments)
      with longest_first_find [OF assms r(1) 2(5,6)] 2(7) p show ?thesis by simp
    next
      case (Cons y ys')
      with 2 Some \<open>n \<noteq> 0\<close> show ?thesis by auto
    qed
  qed
qed simp

text \<open>
  C13. Redaction is complete and picks the longest password: the redacted text is the original cut
  into segments where every secret segment is a registered password replaced by its token, no
  registered password begins at a character that is sent out as it is, and a replaced password is
  never a shorter one that hides a longer registered password at the same place.
\<close>

theorem redact_complete:
  assumes "vault_reachable s"
  shows "\<exists>segs. unmasked segs = text
     \<and> snd (redact text None s) = masked (\<lambda>p. dget_or (pwd_to_token s) p p) segs
     \<and> (\<forall>p \<in> set (secrets_of segs). dget (pwd_to_token s) p \<noteq> None)
     \<and> (\<forall>ys c zs p. segs = ys @ Copied c # zs \<and> dget (pwd_to_token s) p \<noteq> None
          \<longrightarrow> \<not> prefix p (c # unmasked zs))
     \<and> (\<forall>ys p zs q. segs = ys @ Secret p # zs \<and> dget (pwd_to_token s) q \<noteq> None
          \<and> prefix q (p @ unmasked zs) \<longrightarrow> prefix q p)"
proof -
  have ok: "vault_ok s" using assms by (rule vault_reachable_inv)
  let ?ps = "map fst (pwd_to_token s)"
  let ?segs = "segments (alt_match (longest_first ?ps)) text"
  have key: "p \<in> set ?ps \<and> p \<noteq> []" if "dget (pwd_to_token s) p \<noteq> None" for p
    using that ok by (fastforce simp: vault_ok_def entries_ok_def SECRET_MIN_LENGTH_def dest: dget_Some_key)
  have "\<forall>p \<in> set (secrets_of ?segs). dget (pwd_to_token s) p \<noteq> None"
    using dget_None_key [of "pwd_to_token s"] by (fastforce simp: secrets_segments dest: scan_all_alt)
  moreover have "\<not> prefix p (c # unmasked zs)"
    if "?segs = ys @ Copied c # zs" "dget (pwd_to_token s) p \<noteq> None" for ys c zs p
    using segments_copied [OF that(1)] key [OF that(2)] by auto
  moreover have "prefix q p" if "?segs = ys @ Secret p # zs" "dget (pwd_to_token s) q \<noteq> None"
    "prefix q (p @ unmasked zs)" for ys p zs q
    using segments_secret [OF vault_keys_utf8(1) [OF ok] that(1)] key [OF that(2)] that(3) by auto
  moreover have "snd (redact text None s) = masked (\<lambda>p. dget_or (pwd_to_token s) p p) ?segs"
    by (simp add: redact_fresh [OF ok] redact_segments compile_pat_def)
  ultimately show ?thesis by (intro exI [of _ ?segs]) auto
qed

theorem redact_complete_witness:
  "\<exists>segs. unmasked segs = ''pw=tiger12'' \<and>
     (\<forall>p \<in> set (secrets_of segs). dget (pwd_to_token vault_example) p \<noteq> None)"
  using redact_complete [OF vault_example_reachable, of "''pw=tiger12''"] by blast

text \<open>
  Registering a well-formed value of at least four characters that does not begin like a
  token succeeds, leaves the value mapped to the returned token and the token back to the value
  (even when an old entry had to be evicted), and registering it again returns the same token;
  a new value that begins with the token prefix is refused and changes nothing.
\<close>

theorem register_then_lookup:
  assumes "vault_reachable s" and "utf8 v" and "SECRET_MIN_LENGTH \<le> py_len v"
  shows "case register_secret v s of
     (t, Inl e) \<Rightarrow> e = ValueError \<and> prefix TOKEN_PREFIX v \<and> t = s
   | (t, Inr tok) \<Rightarrow> dget (pwd_to_token t) v = Some tok \<and> dget (token_to_pwd t) tok = Some v
       \<and> snd (register_secret v t) = Inr tok"
proof -
  have ok: "vault_ok s" using assms(1) by (rule vault_reachable_inv)
  obtain t r where tr: "register_secret v s = (t, r)" by fastforce
  have ok': "vault_ok t" using vault_ok_register [OF ok assms(2)] tr by simp
  have v: "v \<noteq> []" "\<not> py_len v < SECRET_MIN_LENGTH" using assms(3) by (auto simp: SECRET_MIN_LENGTH_def)
  show ?thesis
  proof (cases r)
    case (Inl e)
    with tr v show ?thesis
      by (auto simp: register_secret_def Let_def token_fullmatch_def split: option.splits if_splits)
  next
    case (Inr tok)
    with tr v have m: "dget (pwd_to_token t) v = Some tok"
      by (auto simp: register_secret_def Let_def split: option.splits if_splits)
    then have "snd (register_secret v t) = Inr tok" using v by (simp add: register_secret_def)
    with m ok' tr Inr show ?thesis by (auto simp: vault_ok_def dest: pairedD)
  qed
qed

theorem register_then_lookup_witness:
  "case register_secret ''lion'' vault_example of
     (t, Inl e) \<Rightarrow> e = ValueError \<and> prefix TOKEN_PREFIX ''lion'' \<and> t = vault_example
   | (t, Inr tok) \<Rightarrow> dget (pwd_to_token t) ''lion'' = Some tok \<and> dget (token_to_pwd t) tok = Some ''lion''
       \<and> snd (register_secret ''lion'' t) = Inr tok"
proof -
  have "utf8 ''lion''" "SECRET_MIN_LENGTH \<le> py_len ''lion''"
    by (simp_all add: ascii_utf8 ascii_def byte_def py_len_def cp_width_def SECRET_MIN_LENGTH_def)
  then show ?thesis by (rule register_then_lookup [OF vault_example_reachable])
qed

end
