(* ===== verification/Proxy_State.thy ===== *)
theory Proxy_State
  imports Registry Cred_Vault
begin

text \<open>
  The proxy object (\<open>CredentialProxy\<close> of \<open>proxy.py\<close>): the registry's fields extended by the
  unlock state, the approvals, the KeePass cache and the credential vault; its configuration and
  the KeePass library as parameters; the requests, and the points at which a handler waits.

  Concurrency.  The program is one event loop: a handler runs without interruption between two
  \<open>await\<close>s that suspend it.  Each stretch is one function of the following theories; where a
  handler is suspended is a value of type \<open>task\<close>.  An \<open>asyncio.Event\<close> is a number, set or not.
  The proxy's lock is only visible where a handler waits for an event while it holds it
  (\<open>lock_wait\<close>).
\<close>

section \<open>KeePass\<close>

text \<open>
  An opened database answers \<open>find_entries(title=..., first=True)\<close>; an exception is \<open>Inl\<close>.
  A custom property has a value and a protected flag.
\<close>

record kp_entry =
  e_title :: "string option"
  e_username :: "string option"
  e_password :: "string option"
  e_url :: "string option"
  e_props :: "(string, string option \<times> bool) dict"

type_synonym kp_db = "string \<Rightarrow> kp_entry option py_result"

section \<open>Configuration\<close>

text \<open>
  The environment and the libraries: the expected hash and secret of the \<open>get\<close> binary, the
  Matrix room, the bot's own user, the start time, the approvers' whitelist, the database file,
  \<open>PyKeePass\<close> (which may be missing, and may lack the custom-property functions), the admin
  token (from the environment or the file; empty when there is none) and the registry digest.
\<close>

record conf =
  cf_hash :: string
  cf_secret :: string
  cf_room :: string
  cf_bot :: string
  cf_start_ts :: int
  cf_whitelist :: "string list"
  cf_kdbx :: "string option"
  cf_has_keepass :: bool
  cf_open :: "string option \<Rightarrow> kp_db py_result"
  cf_has_protected :: bool
  cf_has_custom :: bool
  cf_admin_token :: string
  cf_digest :: "(string \<times> json) list \<Rightarrow> string"

section \<open>State\<close>

record req_pending =
  rq_entry :: string
  rq_field :: "string option"
  rq_use_token :: bool
  rq_approved :: "bool option"
  rq_event :: nat

record audit_pending =
  ap_name :: string
  ap_approved :: "bool option"
  ap_event :: nat

record proxy = reg_state +
  master_password :: "string option"
  kp_cache :: "kp_db option"
  unlock_event :: "nat option"
  unlock_msg_id :: "string option"
  unlock_in_progress :: bool
  unlock_generation :: nat
  auto_unlock_event :: "nat option"
  pending_requests :: "(string, req_pending) dict"
  approval_msgs :: "(string, string) dict"
  audit_approval_pending :: "(string, audit_pending) dict"
  audit_approval_msgs :: "(string, string) dict"
  last_credential_request :: real
  vault :: cred_vault
  shutting_down :: bool
  events_set :: "nat list"
  next_event :: nat
  lock_wait :: "nat option"

definition proxy_init :: proxy where
  "proxy_init = \<lparr>caller_registry = [], caller_registry_by_path = [], registrations_by_name = [],
     registration_pending = [], registration_msgs = [], hash_change_pending = [],
     hash_change_msgs = [], auto_rate_limits = [], registry_file = None,
     master_password = None, kp_cache = None, unlock_event = None, unlock_msg_id = None,
     unlock_in_progress = False, unlock_generation = 0, auto_unlock_event = None,
     pending_requests = [], approval_msgs = [], audit_approval_pending = [],
     audit_approval_msgs = [], last_credential_request = 0, vault = cred_vault_init,
     shutting_down = False, events_set = [], next_event = 0, lock_wait = None\<rparr>"

text \<open>\<open>if x\<close> for an optional string: \<open>None\<close> and the empty string are false.\<close>

definition truthy :: "string option \<Rightarrow> bool" where
  "truthy x \<longleftrightarrow> x \<noteq> None \<and> x \<noteq> Some []"

section \<open>Events\<close>

definition event_is_set :: "proxy \<Rightarrow> nat \<Rightarrow> bool" where
  "event_is_set s e \<longleftrightarrow> e \<in> set (events_set s)"

definition set_event :: "nat \<Rightarrow> proxy \<Rightarrow> proxy" where
  "set_event e s = s\<lparr>events_set := e # events_set s\<rparr>"

definition set_events :: "nat list \<Rightarrow> proxy \<Rightarrow> proxy" where
  "set_events es s = s\<lparr>events_set := es @ events_set s\<rparr>"

definition new_event :: "proxy \<Rightarrow> nat \<times> proxy" where
  "new_event s = (next_event s, s\<lparr>next_event := next_event s + 1\<rparr>)"

text \<open>\<open>if self.unlock_event and not self.unlock_event.is_set(): self.unlock_event.set()\<close>\<close>

definition set_unlock_event :: "proxy \<Rightarrow> proxy" where
  "set_unlock_event s =
     (case unlock_event s of
        None \<Rightarrow> s
      | Some e \<Rightarrow> if event_is_set s e then s else set_event e s)"

text \<open>The same, and the unlock request is over.\<close>

definition drop_unlock :: "proxy \<Rightarrow> proxy" where
  "drop_unlock s = (set_unlock_event s)\<lparr>unlock_event := None, unlock_msg_id := None\<rparr>"

section \<open>Replies and requests\<close>

text \<open>A reply is a status and a body; the error texts are named in English.\<close>

datatype reply = Err nat string | Ok json

text \<open>
  The \<open>auth\<close> value of a body: a dictionary (a key that is missing or holds no string reads as
  empty), \<open>null\<close>, or something without \<open>get\<close>.
\<close>

datatype auth_arg = Auth_Dict auth | Auth_Null | Auth_Bad

record cred_req =
  cq_entry :: string
  cq_field :: string
  cq_token :: bool
  cq_auth :: auth

record register_req =
  gq_name :: string
  gq_path :: string
  gq_hash :: string
  gq_description :: string
  gq_entries :: "(string, string list) dict"
  gq_mode :: string
  gq_auto :: bool

text \<open>
  Where a handler is suspended, or stands before its next locked section.  \<open>C_\<close> is the credential
  handler, \<open>V_\<close> the revocation, \<open>G_\<close> the registration, \<open>U_Unseal\<close> the unlock task of a reaction and
  \<open>H_Resolve\<close> the hash-change task of a reaction.  A credential query comes from an automatic
  approval of a registration or from the approval of a request identifier.
\<close>

datatype via = Via_Auto caller | Via_Approval string

datatype task =
    C_Check cred_req
  | C_AutoRate cred_req caller
  | C_AutoUnlock cred_req caller
  | C_LockWait cred_req caller nat
  | C_AutoSealed cred_req caller nat nat
  | C_Mark cred_req caller
  | C_NotifySend cred_req caller
  | C_Limit cred_req "caller option"
  | C_UnlockSend cred_req nat
  | C_UnlockWait cred_req nat
  | C_Approve cred_req
  | C_ApproveSend cred_req string nat
  | C_ApproveWait cred_req string nat
  | C_ApproveDone cred_req string
  | C_Query cred_req via
  | C_Open cred_req via
  | C_Store cred_req via kp_db
  | C_Found cred_req via kp_db
  | V_Send string
  | V_Wait string string nat
  | V_Revoke string
  | G_Store register_req
  | G_Send string string
  | G_Wait string string string nat
  | G_Decide string string reaction
  | U_Unseal nat
  | H_Resolve string string reaction

text \<open>What a stretch of a handler ends in.\<close>

datatype outcome = Done reply | Go task | Finished

lemma set_unlock_event_frame [frame]:
  "pending_requests (set_unlock_event s) = pending_requests s"
  "approval_msgs (set_unlock_event s) = approval_msgs s"
  "caller_registry (set_unlock_event s) = caller_registry s"
  "master_password (set_unlock_event s) = master_password s"
  "unlock_event (set_unlock_event s) = unlock_event s"
  "unlock_generation (set_unlock_event s) = unlock_generation s"
  "unlock_in_progress (set_unlock_event s) = unlock_in_progress s"
  "auto_unlock_event (set_unlock_event s) = auto_unlock_event s"
  "lock_wait (set_unlock_event s) = lock_wait s"
  "vault (set_unlock_event s) = vault s"
  "registration_pending (set_unlock_event s) = registration_pending s"
  "registration_msgs (set_unlock_event s) = registration_msgs s"
  "next_event (set_unlock_event s) = next_event s"
  by (simp_all add: set_unlock_event_def set_event_def split: option.split)

lemma drop_unlock_frame [frame]:
  "pending_requests (drop_unlock s) = pending_requests s"
  "approval_msgs (drop_unlock s) = approval_msgs s"
  "caller_registry (drop_unlock s) = caller_registry s"
  "master_password (drop_unlock s) = master_password s"
  "unlock_generation (drop_unlock s) = unlock_generation s"
  "unlock_in_progress (drop_unlock s) = unlock_in_progress s"
  "auto_unlock_event (drop_unlock s) = auto_unlock_event s"
  "lock_wait (drop_unlock s) = lock_wait s"
  "vault (drop_unlock s) = vault s"
  "registration_pending (drop_unlock s) = registration_pending s"
  "registration_msgs (drop_unlock s) = registration_msgs s"
  "next_event (drop_unlock s) = next_event s"
  by (simp_all add: drop_unlock_def frame)

end
