(* ===== verification/Approvals.thy ===== *)
theory Approvals
  imports Proxy_State
begin

text \<open>
  The Matrix side (\<open>_matrix.py\<close>): the text commands and the reactions that decide unlocks,
  registrations, hash changes, credential requests and audit approvals; the TPM side
  (\<open>_tpm.py\<close>): the unsealing of the master password and the unlock task; and the shutdown of
  \<open>proxy.py\<close>.  Notices to the room (\<open>_say\<close>) change no state and are left out.
\<close>

section \<open>Messages\<close>

text \<open>
  \<open>_ask\<close>: the outcome of \<open>room_send\<close> is an exception, or a response with or without an
  \<open>event_id\<close> attribute or key.  Adding the reactions only logs its failures.
\<close>

datatype send_result = Send_Raised | Send_Response "string option" "string option option"

definition ask :: "send_result \<Rightarrow> string option" where
  "ask r =
     (case r of
        Send_Raised \<Rightarrow> None
      | Send_Response attr d \<Rightarrow>
          if truthy attr then attr
          else (case d of None \<Rightarrow> None | Some eid \<Rightarrow> eid))"

text \<open>The reaction keys: U+2705, U+274E and U+1F513.\<close>

definition reaction_of_key :: "string \<Rightarrow> reaction" where
  "reaction_of_key key =
     (if key = bytes [226, 156, 133] then Check
      else if key = bytes [226, 157, 142] then Cross
      else if key = bytes [240, 159, 148, 147] then Unlocked
      else OtherKey key)"

fun is_known_reaction :: "reaction \<Rightarrow> bool" where
  "is_known_reaction (OtherKey k) = False"
| "is_known_reaction r = True"

section \<open>Text commands\<close>

datatype command = Lock | Status | Forget | NoCommand

definition command_of :: "string \<Rightarrow> command" where
  "command_of body =
     (let b = py_strip body in
      if b = ''lock proxy'' then Lock
      else if b = ''status'' then Status
      else if b = ''forget secrets'' then Forget
      else NoCommand)"

text \<open>
  The pending requests are refused, their events set, and the table is cleared: their handlers,
  which look the request up again, no longer find it.
\<close>

definition lock_proxy :: "proxy \<Rightarrow> proxy" where
  "lock_proxy s =
     (let s1 = set_unlock_event (s\<lparr>master_password := None\<rparr>);
          s2 = s1\<lparr>unlock_event := None, unlock_msg_id := None, unlock_in_progress := False,
                  kp_cache := None\<rparr>;
          s3 = set_events (map (\<lambda>p. rq_event (snd p)) (pending_requests s2)) s2
      in s3\<lparr>pending_requests := [], approval_msgs := []\<rparr>)"

definition on_text :: "conf \<Rightarrow> string \<Rightarrow> string \<Rightarrow> proxy \<Rightarrow> proxy" where
  "on_text cf room body s =
     (if room \<noteq> cf_room cf then s
      else case command_of body of
        Lock \<Rightarrow> lock_proxy s
      | Forget \<Rightarrow> s\<lparr>vault := forget_secrets (vault s)\<rparr>
      | _ \<Rightarrow> s)"

section \<open>Reactions\<close>

text \<open>The sender rule of branches 4 and 5: an empty whitelist admits everyone.\<close>

definition may_approve :: "conf \<Rightarrow> string \<Rightarrow> bool" where
  "may_approve cf sender \<longleftrightarrow> cf_whitelist cf = [] \<or> sender \<in> set (cf_whitelist cf)"

text \<open>Branch 1: the unlock request.\<close>

definition react_unlock :: "reaction \<Rightarrow> proxy \<Rightarrow> proxy \<times> task list" where
  "react_unlock key s =
     (if key = Check then
        (if \<not> unlock_in_progress s then
           (let gen = unlock_generation s + 1
            in (s\<lparr>unlock_in_progress := True, unlock_generation := gen\<rparr>, [U_Unseal gen]))
         else (s, []))
      else (drop_unlock s, []))"

text \<open>Branch 2: a registration; every known reaction counts, whatever was offered.\<close>

definition react_registration :: "string \<Rightarrow> reaction \<Rightarrow> proxy \<Rightarrow> proxy" where
  "react_registration rid key s =
     (case dget (registration_pending s) rid of
        Some p \<Rightarrow>
          if rp_approved p = None then
            set_event (rp_event p)
              (s\<lparr>registration_pending := dset rid (p\<lparr>rp_approved := Some key\<rparr>) (registration_pending s)\<rparr>)
          else s
      | None \<Rightarrow> s)"

text \<open>Branch 3: a hash change; the resolution is a task of its own.\<close>

definition react_hash_change :: "string \<Rightarrow> reaction \<Rightarrow> proxy \<Rightarrow> proxy \<times> task list" where
  "react_hash_change hid key s =
     (case dget (hash_change_pending s) hid of
        Some p \<Rightarrow>
          if hp_result p = None then
            (set_event (hp_event p)
               (s\<lparr>hash_change_pending := dset hid (p\<lparr>hp_result := Some key\<rparr>) (hash_change_pending s)\<rparr>),
             [H_Resolve (hp_reg_id p) (hp_new_hash p) key])
          else (s, [])
      | None \<Rightarrow> (s, []))"

text \<open>Branch 4: a credential or revocation request; branch 5: an audit approval.\<close>

definition react_credential :: "conf \<Rightarrow> string \<Rightarrow> string \<Rightarrow> req_pending \<Rightarrow> reaction \<Rightarrow> proxy \<Rightarrow> proxy" where
  "react_credential cf sender rid req key s =
     (if may_approve cf sender then
        set_event (rq_event req)
          (s\<lparr>pending_requests := dset rid (req\<lparr>rq_approved := Some (key = Check)\<rparr>) (pending_requests s)\<rparr>)
      else s)"

definition react_audit :: "conf \<Rightarrow> string \<Rightarrow> string \<Rightarrow> reaction \<Rightarrow> proxy \<Rightarrow> proxy" where
  "react_audit cf sender aid key s =
     (if may_approve cf sender then
        (case dget (audit_approval_pending s) aid of
           Some ap \<Rightarrow>
             if ap_approved ap = None then
               set_event (ap_event ap)
                 (s\<lparr>audit_approval_pending :=
                      dset aid (ap\<lparr>ap_approved := Some (key = Check)\<rparr>) (audit_approval_pending s)\<rparr>)
             else s
         | None \<Rightarrow> s)
      else s)"

text \<open>The request a message approves, when branch 4's condition holds.\<close>

definition credential_target :: "string \<Rightarrow> proxy \<Rightarrow> (string \<times> req_pending) option" where
  "credential_target orig s =
     (if dhas (audit_approval_msgs s) orig then None
      else case dget (approval_msgs s) orig of
        None \<Rightarrow> None
      | Some rid \<Rightarrow>
          (case dget (pending_requests s) rid of
             None \<Rightarrow> None
           | Some req \<Rightarrow> if rid \<noteq> [] \<and> rq_approved req = None then Some (rid, req) else None))"

definition react :: "conf \<Rightarrow> string \<Rightarrow> string \<Rightarrow> reaction \<Rightarrow> proxy \<Rightarrow> proxy \<times> task list" where
  "react cf sender orig key s =
     (if unlock_event s \<noteq> None \<and> master_password s = None \<and> unlock_msg_id s = Some orig
      then react_unlock key s
      else if truthy (dget (registration_msgs s) orig)
      then (react_registration (the (dget (registration_msgs s) orig)) key s, [])
      else if truthy (dget (hash_change_msgs s) orig)
      then react_hash_change (the (dget (hash_change_msgs s) orig)) key s
      else case credential_target orig s of
        Some (rid, req) \<Rightarrow> (react_credential cf sender rid req key s, [])
      | None \<Rightarrow>
          if truthy (dget (audit_approval_msgs s) orig)
          then (react_audit cf sender (the (dget (audit_approval_msgs s) orig)) key s, [])
          else (s, []))"

definition on_reaction ::
  "conf \<Rightarrow> string \<Rightarrow> int \<Rightarrow> string \<Rightarrow> string \<Rightarrow> string \<Rightarrow> proxy \<Rightarrow> proxy \<times> task list" where
  "on_reaction cf room ts sender orig key s =
     (if room \<noteq> cf_room cf then (s, [])
      else if 0 < ts \<and> ts < cf_start_ts cf then (s, [])
      else if sender = cf_bot cf then (s, [])
      else if orig = [] \<or> \<not> is_known_reaction (reaction_of_key key) then (s, [])
      else react cf sender orig (reaction_of_key key) s)"

section \<open>TPM\<close>

text \<open>The three commands, each an exception (a missing binary, a timeout) or its outcome.\<close>

record cmd_result =
  returncode :: int
  stdout_of :: string
  stderr_of :: string

definition rstrip_newlines :: "string \<Rightarrow> string" where
  "rstrip_newlines s = rev (dropWhile (\<lambda>c. byte c = 10 \<or> byte c = 13) (rev s))"

definition run_ok :: "cmd_result py_result \<Rightarrow> cmd_result py_result" where
  "run_ok r = (case r of Inl e \<Rightarrow> Inl e
     | Inr c \<Rightarrow> if returncode c \<noteq> 0 then Inl RuntimeError else Inr c)"

definition tpm_unseal ::
  "cmd_result py_result \<Rightarrow> cmd_result py_result \<Rightarrow> cmd_result py_result \<Rightarrow> string py_result" where
  "tpm_unseal createprimary load unseal =
     (case run_ok createprimary of
        Inl e \<Rightarrow> Inl e
      | Inr _ \<Rightarrow>
          (case run_ok load of
             Inl e \<Rightarrow> Inl e
           | Inr _ \<Rightarrow>
               (case run_ok unseal of
                  Inl e \<Rightarrow> Inl e
                | Inr c \<Rightarrow>
                    let pw = rstrip_newlines (stdout_of c)
                    in if pw = [] then Inl RuntimeError
                       else if py_len pw < 4 then Inl RuntimeError
                       else Inr pw)))"

text \<open>\<open>_do_unlock\<close> once the unsealing has returned.\<close>

definition do_unlock_ok :: "nat \<Rightarrow> string \<Rightarrow> proxy \<Rightarrow> proxy" where
  "do_unlock_ok generation pw s =
     (if unlock_generation s \<noteq> generation then s\<lparr>unlock_in_progress := False\<rparr>
      else set_unlock_event
        (s\<lparr>master_password := Some pw, kp_cache := None, unlock_in_progress := False,
           unlock_msg_id := None\<rparr>))"

definition unlock_failed :: "proxy \<Rightarrow> proxy" where
  "unlock_failed s = drop_unlock (s\<lparr>unlock_in_progress := False\<rparr>)"

definition do_unlock :: "nat \<Rightarrow> string py_result \<Rightarrow> proxy \<Rightarrow> proxy" where
  "do_unlock generation unsealed s =
     (case unsealed of
        Inl _ \<Rightarrow> unlock_failed s
      | Inr pw \<Rightarrow> if pw = [] then unlock_failed s else do_unlock_ok generation pw s)"

section \<open>Shutdown\<close>

text \<open>The locked section of the signal handler.\<close>

definition shutdown :: "proxy \<Rightarrow> proxy" where
  "shutdown s =
     (if shutting_down s then s
      else
        let s1 = set_unlock_event (s\<lparr>shutting_down := True, master_password := None, kp_cache := None\<rparr>)
        in set_events (map (\<lambda>p. rq_event (snd p)) (pending_requests s1)) s1)"

section \<open>Properties\<close>

text \<open>
  The unsealing returns a password only when all three TPM commands succeeded, and then it is
  the unseal output without trailing line ends, at least four characters long; nothing else about
  its form is checked (a control character inside it is accepted).
\<close>

theorem tpm_unseal_spec:
  "tpm_unseal createprimary load unseal = Inr pw \<longleftrightarrow>
     (\<exists>a b c. createprimary = Inr a \<and> load = Inr b \<and> unseal = Inr c
        \<and> returncode a = 0 \<and> returncode b = 0 \<and> returncode c = 0
        \<and> pw = rstrip_newlines (stdout_of c) \<and> 4 \<le> py_len pw)"
proof -
  have "4 \<le> py_len x \<Longrightarrow> x \<noteq> []" for x by auto
  then show ?thesis
    by (auto simp: tpm_unseal_def run_ok_def Let_def not_less split: sum.splits if_splits)
qed

end
