(* ===== verification/Credential_Api.thy ===== *)
theory Credential_Api
  imports Approvals
begin

text \<open>
  The credential API (\<open>_credential.py\<close>): the authentication of a request, the credential handler
  from its first check to the KeePass query, the registration, revocation and hash-change
  handlers, each cut where it is suspended.  \<open>Go t\<close> continues at \<open>t\<close>; \<open>Done\<close> replies.
\<close>

section \<open>Bodies\<close>

text \<open>\<open>data.get(k, '').strip()\<close>: only a string or a missing key works.\<close>

definition get_strip :: "json \<Rightarrow> string \<Rightarrow> string py_result" where
  "get_strip j k =
     (case j of
        JObj d \<Rightarrow>
          (case dget d k of
             None \<Rightarrow> Inr []
           | Some (JStr x) \<Rightarrow> Inr (py_strip x)
           | Some _ \<Rightarrow> Inl OtherExn)
      | _ \<Rightarrow> Inl OtherExn)"

definition no_auth :: auth where
  "no_auth = \<lparr>get_binary_hash = [], get_binary_secret = [], caller_hash = [], caller_path = []\<rparr>"

definition auth_of_json :: "json \<Rightarrow> auth" where
  "auth_of_json a = \<lparr>get_binary_hash = jget_str [] a ''get_binary_hash'',
     get_binary_secret = jget_str [] a ''get_binary_secret'',
     caller_hash = jget_str [] a ''caller_hash'', caller_path = jget_str [] a ''caller_path''\<rparr>"

definition auth_of :: "json \<Rightarrow> auth_arg" where
  "auth_of j =
     (case jget j ''auth'' of
        None \<Rightarrow> Auth_Dict no_auth
      | Some (JObj d) \<Rightarrow> Auth_Dict (auth_of_json (JObj d))
      | Some JNull \<Rightarrow> Auth_Null
      | Some _ \<Rightarrow> Auth_Bad)"

text \<open>
  The value under which the handler looks for a caller hash; a value that is no string but true
  passes for one, and then never equals the hash of a registration.  (The notice of a changed hash
  that the code sends when such a query names the path of a registration is not modelled.)
\<close>

definition hash_arg :: "json \<Rightarrow> json option" where
  "hash_arg data = Option.bind (jget data ''auth'') (\<lambda>a. jget a ''caller_hash'')"

definition hash_given :: "json \<Rightarrow> bool" where
  "hash_given data = (case hash_arg data of None \<Rightarrow> False | Some v \<Rightarrow> jtruthy v)"

section \<open>Authentication\<close>

text \<open>
  \<open>_require_auth\<close>: \<open>None\<close> lets the request pass.  \<open>headers\<close> are the four headers, read when the
  argument is \<open>None\<close> (\<open>Auth_Null\<close>).
\<close>

definition auth_error :: "conf \<Rightarrow> auth \<Rightarrow> reply option" where
  "auth_error cf a =
     (if get_binary_hash a = [] \<or> get_binary_hash a \<noteq> cf_hash cf
      then Some (Err 403 ''get_binary_hash mismatch'')
      else if get_binary_secret a = [] \<or> get_binary_secret a \<noteq> cf_secret cf
      then Some (Err 403 ''get_binary_secret mismatch'')
      else None)"

definition require_auth :: "conf \<Rightarrow> auth \<Rightarrow> auth_arg \<Rightarrow> (reply option) py_result" where
  "require_auth cf headers arg =
     (if cf_hash cf = [] \<and> cf_secret cf = [] then Inr None
      else case arg of
        Auth_Dict a \<Rightarrow> Inr (auth_error cf a)
      | Auth_Null \<Rightarrow> Inr (auth_error cf headers)
      | Auth_Bad \<Rightarrow> Inl OtherExn)"

text \<open>An exception a handler does not catch is the server's error 500.\<close>

definition crash :: reply where
  "crash = Err 500 ''internal server error''"

definition guard_auth :: "conf \<Rightarrow> auth \<Rightarrow> json \<Rightarrow> (unit \<Rightarrow> 'a) \<Rightarrow> (reply \<Rightarrow> 'a) \<Rightarrow> 'a" where
  "guard_auth cf headers data k err =
     (case require_auth cf headers (auth_of data) of
        Inl _ \<Rightarrow> err crash
      | Inr (Some r) \<Rightarrow> err r
      | Inr None \<Rightarrow> k ())"

section \<open>The credential handler\<close>

text \<open>
  Up to the automatic-approval check: no lock is taken and nothing is changed.  The body is
  \<open>None\<close> when it does not parse.
\<close>

definition credential_checks :: "conf \<Rightarrow> auth \<Rightarrow> json option \<Rightarrow> outcome" where
  "credential_checks cf headers body =
     (case body of
        None \<Rightarrow> Done (Err 400 ''bad JSON'')
      | Some data \<Rightarrow>
          (case get_strip data ''entry'' of
             Inl _ \<Rightarrow> Done crash
           | Inr entry \<Rightarrow>
               (case get_strip data ''field'' of
                  Inl _ \<Rightarrow> Done crash
                | Inr fld \<Rightarrow>
                    let use_token = (case jget data ''token'' of None \<Rightarrow> True | Some v \<Rightarrow> jtruthy v) in
                    if entry = [] then Done (Err 400 ''no entry'')
                    else guard_auth cf headers data
                      (\<lambda>_. case auth_of data of
                         Auth_Dict a \<Rightarrow>
                           if \<not> hash_given data then Done (Err 403 ''no caller_hash'')
                           else if \<not> use_token \<and> cf_hash cf \<noteq> [] \<and> caller_hash a = cf_hash cf
                           then Done (Err 403 ''raw value refused to a terminal'')
                           else Go (C_Check \<lparr>cq_entry = entry, cq_field = fld, cq_token = use_token,
                                             cq_auth = a\<rparr>)
                       | _ \<Rightarrow> Done crash)
                      Done)))"

text \<open>The verdict of the automatic-approval check; the field is passed as it is, empty or not.\<close>

definition credential_check :: "real \<Rightarrow> cred_req \<Rightarrow> proxy \<Rightarrow> outcome" where
  "credential_check now q s =
     (case check_auto_approve now (cq_entry q) (Some (cq_field q)) (cq_auth q) s of
        (Some True, Some reg, _) \<Rightarrow> Go (C_AutoRate q reg)
      | (Some False, _, _) \<Rightarrow> Done (Err 403 ''entry not allowed'')
      | (None, Some reg, HashMismatch) \<Rightarrow> Go (C_Mark q reg)
      | _ \<Rightarrow> Go (C_Limit q None))"

subsection \<open>Automatic approval\<close>

definition auto_rate :: "real \<Rightarrow> cred_req \<Rightarrow> caller \<Rightarrow> proxy \<Rightarrow> proxy \<times> outcome" where
  "auto_rate now q reg s =
     (case check_auto_rate_limit now (rc_name reg) s of
        (s1, False) \<Rightarrow> (s1, Done (Err 429 ''too many requests''))
      | (s1, True) \<Rightarrow>
          if master_password s1 = None then
            (if rc_can_auto_unlock reg then (s1, Go (C_AutoUnlock q reg))
             else (s1, Done (Err 403 ''locked'')))
          else (s1, Go (C_Query q (Via_Auto reg))))"

text \<open>
  The first locked section of \<open>_auto_unlock\<close>.  When an unlock is in progress it waits for that
  unlock's event without leaving the section: the lock stays taken.
\<close>

definition auto_unlock_begin :: "cred_req \<Rightarrow> caller \<Rightarrow> proxy \<Rightarrow> proxy \<times> outcome" where
  "auto_unlock_begin q reg s =
     (if unlock_in_progress s then
        (let (e, s1) =
               (case auto_unlock_event s of
                  Some e \<Rightarrow> (e, s)
                | None \<Rightarrow> (case unlock_event s of Some e \<Rightarrow> (e, s) | None \<Rightarrow> new_event s))
         in if event_is_set s1 e then (s1, Go (C_Query q (Via_Auto reg)))
            else (s1\<lparr>lock_wait := Some e\<rparr>, Go (C_LockWait q reg e)))
      else
        (let (done, s1) = new_event s; gen = unlock_generation s1 + 1
         in (s1\<lparr>unlock_in_progress := True, unlock_generation := gen, auto_unlock_event := Some done\<rparr>,
             Go (C_AutoSealed q reg gen done))))"

definition auto_unlock_end ::
  "cred_req \<Rightarrow> caller \<Rightarrow> nat \<Rightarrow> nat \<Rightarrow> string py_result \<Rightarrow> proxy \<Rightarrow> proxy \<times> outcome" where
  "auto_unlock_end q reg gen done unsealed s =
     (let failed =
            (set_event done
               (drop_unlock (s\<lparr>unlock_in_progress := False, auto_unlock_event := None\<rparr>)),
             Done (Err 500 ''automatic unlock failed''))
      in case unsealed of
        Inl _ \<Rightarrow> failed
      | Inr pw \<Rightarrow>
          if pw = [] then failed
          else if unlock_generation s \<noteq> gen then (s, Go (C_Query q (Via_Auto reg)))
          else
            (set_event done
               ((set_unlock_event (s\<lparr>master_password := Some pw, kp_cache := None\<rparr>))
                  \<lparr>unlock_in_progress := False, auto_unlock_event := None\<rparr>),
             Go (C_Query q (Via_Auto reg))))"

subsection \<open>Hash changes\<close>

definition credential_mark :: "cred_req \<Rightarrow> caller \<Rightarrow> proxy \<Rightarrow> proxy \<times> outcome" where
  "credential_mark q reg s =
     (case mark_hash_notified (rc_reg_id reg) s of
        (s1, True) \<Rightarrow> (s1, Go (C_NotifySend q reg))
      | (s1, False) \<Rightarrow> (s1, Go (C_Limit q (Some reg))))"

definition credential_notify :: "cred_req \<Rightarrow> caller \<Rightarrow> string option \<Rightarrow> proxy \<Rightarrow> proxy \<times> outcome" where
  "credential_notify q reg msg s =
     (let (e, s1) = new_event s
      in (fst (notify_hash_change reg (caller_hash (cq_auth q)) msg e s1), Go (C_Limit q (Some reg))))"

subsection \<open>Unlocking\<close>

definition RATE_LIMIT_INTERVAL :: real where
  "RATE_LIMIT_INTERVAL = 2"

definition credential_rate :: "real \<Rightarrow> proxy \<Rightarrow> proxy \<times> bool" where
  "credential_rate now s =
     (if now - last_credential_request s < RATE_LIMIT_INTERVAL then (s, False)
      else (s\<lparr>last_credential_request := now\<rparr>, True))"

definition credential_limit :: "real \<Rightarrow> cred_req \<Rightarrow> proxy \<Rightarrow> proxy \<times> outcome" where
  "credential_limit now q s =
     (case credential_rate now s of
        (s1, False) \<Rightarrow> (s1, Done (Err 429 ''too many requests''))
      | (s1, True) \<Rightarrow>
          if truthy (master_password s1) then (s1, Go (C_Approve q))
          else (case unlock_event s1 of
                  None \<Rightarrow>
                    (let (e, s2) = new_event s1
                     in (s2\<lparr>unlock_event := Some e\<rparr>, Go (C_UnlockSend q e)))
                | Some e \<Rightarrow> (s1, Go (C_UnlockWait q e))))"

definition unlock_sent :: "cred_req \<Rightarrow> nat \<Rightarrow> string option \<Rightarrow> proxy \<Rightarrow> proxy \<times> outcome" where
  "unlock_sent q e msg s =
     (case msg of
        None \<Rightarrow> (drop_unlock s, Done (Err 503 ''cannot send the unlock message''))
      | Some m \<Rightarrow> (s\<lparr>unlock_msg_id := Some m\<rparr>, Go (C_UnlockWait q e)))"

definition unlock_timeout :: "proxy \<Rightarrow> proxy \<times> outcome" where
  "unlock_timeout s = (drop_unlock s, Done (Err 408 ''unlock timed out''))"

subsection \<open>Approval\<close>

definition cleanup_request :: "string \<Rightarrow> proxy \<Rightarrow> proxy" where
  "cleanup_request rid s =
     s\<lparr>pending_requests := ddel rid (pending_requests s),
       approval_msgs := filter (\<lambda>p. snd p \<noteq> rid) (approval_msgs s)\<rparr>"

definition approve_begin :: "string \<Rightarrow> cred_req \<Rightarrow> proxy \<Rightarrow> proxy \<times> outcome" where
  "approve_begin rid q s =
     (if \<not> truthy (master_password s) then (s, Done (Err 403 ''unlock failed''))
      else
        let (e, s1) = new_event s
        in (s1\<lparr>pending_requests := dset rid
               \<lparr>rq_entry = cq_entry q, rq_field = Some (cq_field q), rq_use_token = cq_token q,
                rq_approved = None, rq_event = e\<rparr> (pending_requests s1)\<rparr>,
            Go (C_ApproveSend q rid e)))"

definition approve_sent :: "cred_req \<Rightarrow> string \<Rightarrow> nat \<Rightarrow> string option \<Rightarrow> proxy \<Rightarrow> proxy \<times> outcome" where
  "approve_sent q rid e msg s =
     (case msg of
        None \<Rightarrow> (cleanup_request rid s, Done (Err 503 ''cannot send the approval message''))
      | Some m \<Rightarrow> (s\<lparr>approval_msgs := dset m rid (approval_msgs s)\<rparr>, Go (C_ApproveWait q rid e)))"

definition approve_timeout :: "cred_req \<Rightarrow> string \<Rightarrow> proxy \<Rightarrow> proxy \<times> outcome" where
  "approve_timeout q rid s =
     (case Option.bind (dget (pending_requests s) rid) rq_approved of
        Some True \<Rightarrow> (s, Go (C_ApproveDone q rid))
      | Some False \<Rightarrow> (cleanup_request rid s, Done (Err 403 ''refused''))
      | None \<Rightarrow> (cleanup_request rid s, Done (Err 408 ''approval timed out'')))"

definition approve_end :: "cred_req \<Rightarrow> string \<Rightarrow> proxy \<Rightarrow> proxy \<times> outcome" where
  "approve_end q rid s =
     (let approved = Option.bind (dget (pending_requests s) rid) rq_approved; s1 = cleanup_request rid s
      in if approved \<noteq> Some True then (s1, Done (Err 403 ''refused''))
         else (s1, Go (C_Query q (Via_Approval rid))))"

section \<open>Properties\<close>

interpretation cred_rate: interval_limiter credential_rate last_credential_request RATE_LIMIT_INTERVAL
  by unfold_locales (auto simp: credential_rate_def split: if_splits)

text \<open>
  However many credential queries arrive, those that get past the rate limit to the unlock and
  approval stage are at least two seconds apart, so \<open>n + 1\<close> of them take at least \<open>2 * n\<close> seconds.
\<close>

theorem credential_queries_spaced:
  assumes "n < length (grants credential_rate ts s)"
  shows "grants credential_rate ts s ! 0 + n * 2 \<le> grants credential_rate ts s ! n"
  using cred_rate.grants_rate [OF assms] by (simp add: RATE_LIMIT_INTERVAL_def)

theorem credential_queries_spaced_witness:
  "grants credential_rate [5, 6, 7] proxy_init = [5, 7] \<and> (5 :: real) + 1 * 2 \<le> 7"
proof -
  have g: "grants credential_rate [5, 6, 7] proxy_init = [5, 7]"
    by (simp add: credential_rate_def RATE_LIMIT_INTERVAL_def proxy_init_def Let_def)
  with credential_queries_spaced [of 1 "[5, 6, 7]" proxy_init] show ?thesis by simp
qed

lemma hash_given_string:
  assumes "auth_of data = Auth_Dict a" and "hash_given data"
  shows "caller_hash a \<noteq> [] \<or> (\<exists>v. hash_arg data = Some v \<and> jtruthy v \<and> jstr v = None)"
proof -
  from assms(2) obtain v where v: "hash_arg data = Some v" "jtruthy v"
    by (auto simp: hash_given_def split: option.splits)
  then obtain d where d: "jget data ''auth'' = Some (JObj d)" "dget d ''caller_hash'' = Some v"
    by (auto simp: hash_arg_def bind_eq_Some_conv elim: jget.elims)
  with assms(1) have a: "a = auth_of_json (JObj d)" by (simp add: auth_of_def)
  show ?thesis
  proof (cases v)
    case (JStr x)
    with a d v(2) show ?thesis by (simp add: auth_of_json_def jget_as_def)
  qed (use v in auto)
qed

text \<open>
  C14. With a hash or a secret configured, a query gets past the checks only with the configured
  hash and the configured secret, both nonempty (so that with only one of the two configured
  every query is refused), with an entry and a caller hash (a nonempty string, or a value that is
  true and no string, which no registration matches), and, when it asks for raw values, with
  a caller hash other than the one of the \<open>get\<close> binary; nothing is changed before that.
\<close>

theorem query_needs_both_factors:
  assumes "credential_checks cf hdrs body = Go t" and "cf_hash cf \<noteq> [] \<or> cf_secret cf \<noteq> []"
  shows "\<exists>q data. t = C_Check q \<and> body = Some data \<and> cq_entry q \<noteq> []
    \<and> (caller_hash (cq_auth q) \<noteq> [] \<or> (\<exists>v. hash_arg data = Some v \<and> jtruthy v \<and> jstr v = None))
    \<and> cf_hash cf \<noteq> [] \<and> get_binary_hash (cq_auth q) = cf_hash cf
    \<and> cf_secret cf \<noteq> [] \<and> get_binary_secret (cq_auth q) = cf_secret cf
    \<and> (cq_token q \<or> caller_hash (cq_auth q) \<noteq> cf_hash cf)"
proof -
  from assms obtain q data where q: "t = C_Check q" "body = Some data" "hash_given data"
      "auth_of data = Auth_Dict (cq_auth q)" "cq_entry q \<noteq> []"
      "cf_hash cf \<noteq> [] \<and> get_binary_hash (cq_auth q) = cf_hash cf
       \<and> cf_secret cf \<noteq> [] \<and> get_binary_secret (cq_auth q) = cf_secret cf
       \<and> (cq_token q \<or> caller_hash (cq_auth q) \<noteq> cf_hash cf)"
    by (auto simp: credential_checks_def guard_auth_def require_auth_def auth_error_def Let_def
        split: option.splits sum.splits if_splits auth_arg.splits)
  then show ?thesis using hash_given_string [OF q(4,3)] by blast
qed

end
