(* ===== verification/Keepass_Query.thy ===== *)
theory Keepass_Query
  imports Credential_Api
begin

text \<open>
  The shared KeePass query (\<open>_query_and_return\<close> of \<open>_credential.py\<close>): opening the database with
  the cache, finding the entry, and the reply, whose protected values go through the credential
  vault when a token is asked for.  The registrations of one reply run in the order of the code.
\<close>

section \<open>Opening\<close>

text \<open>
  The handler is suspended up to three times: it reads the cache under the lock
  (\<open>query_open\<close>); without a cached database it opens one in the executor, with the master
  password of that moment, which may be gone by then (\<open>query_load\<close>), and in a second locked
  section keeps it, unless another one is cached by now (\<open>query_cache\<close>); and it looks the entry
  up in the executor.  A handler that found a cached database does not touch the cache again.
  The semaphore around the three only delays a handler; every order it admits is one of these.
\<close>

definition query_open :: "conf \<Rightarrow> cred_req \<Rightarrow> via \<Rightarrow> proxy \<Rightarrow> outcome" where
  "query_open cf q v s =
     (if cf_kdbx cf = None then Done (Err 503 ''no database'')
      else if \<not> cf_has_keepass cf then Done (Err 503 ''pykeepass missing'')
      else case kp_cache s of
        Some db \<Rightarrow> Go (C_Found q v db)
      | None \<Rightarrow> Go (C_Open q v))"

definition query_load :: "conf \<Rightarrow> cred_req \<Rightarrow> via \<Rightarrow> proxy \<Rightarrow> outcome" where
  "query_load cf q v s =
     (case cf_open cf (master_password s) of
        Inl _ \<Rightarrow> Done (Err 500 ''KeePass error'')
      | Inr db \<Rightarrow> Go (C_Store q v db))"

definition query_cache :: "cred_req \<Rightarrow> via \<Rightarrow> kp_db \<Rightarrow> proxy \<Rightarrow> proxy \<times> outcome" where
  "query_cache q v db s =
     (case kp_cache s of
        None \<Rightarrow> (s\<lparr>kp_cache := Some db\<rparr>, Go (C_Found q v db))
      | Some db' \<Rightarrow> (s, Go (C_Found q v db')))"

section \<open>Values\<close>

definition attr_str :: "string option \<Rightarrow> string" where
  "attr_str x = (case x of None \<Rightarrow> [] | Some v \<Rightarrow> v)"

definition std_field :: "string \<Rightarrow> kp_entry \<Rightarrow> string option" where
  "std_field f e =
     (if f = ''password'' then Some (attr_str (e_password e))
      else if f = ''username'' then Some (attr_str (e_username e))
      else if f = ''title'' then Some (attr_str (e_title e))
      else if f = ''url'' then Some (attr_str (e_url e))
      else None)"

definition custom_property :: "string \<Rightarrow> kp_entry \<Rightarrow> string option" where
  "custom_property k e = Option.bind (dget (e_props e) k) fst"

definition is_protected :: "string \<Rightarrow> kp_entry \<Rightarrow> bool" where
  "is_protected k e = (case dget (e_props e) k of None \<Rightarrow> False | Some p \<Rightarrow> snd p)"

definition optional_register ::
  "string option \<Rightarrow> bool \<Rightarrow> cred_vault \<Rightarrow> cred_vault \<times> string option py_result" where
  "optional_register x use_token s =
     (case x of
        None \<Rightarrow> (s, Inr None)
      | Some v \<Rightarrow>
          (case maybe_register v use_token s of
             (s1, Inl e) \<Rightarrow> (s1, Inl e)
           | (s1, Inr t) \<Rightarrow> (s1, Inr (Some t))))"

text \<open>The value of one field: the password and protected properties are registered.\<close>

definition field_value ::
  "conf \<Rightarrow> string \<Rightarrow> bool \<Rightarrow> kp_entry \<Rightarrow> cred_vault \<Rightarrow> cred_vault \<times> string option py_result" where
  "field_value cf f use_token e s =
     (case std_field f e of
        Some v \<Rightarrow> if f = ''password'' then optional_register (Some v) use_token s else (s, Inr (Some v))
      | None \<Rightarrow>
          if cf_has_protected cf then
            (if is_protected f e then optional_register (custom_property f e) use_token s
             else (s, Inr (custom_property f e)))
          else
            (let x = (if cf_has_custom cf then custom_property f e else None)
             in if truthy x then optional_register x use_token s else (s, Inr None)))"

text \<open>The custom properties of a whole entry, in order; empty ones are left out.\<close>

fun props_value ::
  "conf \<Rightarrow> bool \<Rightarrow> kp_entry \<Rightarrow> string list \<Rightarrow> cred_vault \<Rightarrow> cred_vault \<times> (string \<times> json) list py_result"
  where
  "props_value cf use_token e [] s = (s, Inr [])"
| "props_value cf use_token e (k # ks) s =
     (case custom_property k e of
        None \<Rightarrow> props_value cf use_token e ks s
      | Some v \<Rightarrow>
          if v = [] then props_value cf use_token e ks s
          else
            (case (if cf_has_protected cf \<and> \<not> is_protected k e then (s, Inr v)
                   else maybe_register v use_token s) of
               (s1, Inl x) \<Rightarrow> (s1, Inl x)
             | (s1, Inr t) \<Rightarrow>
                 (case props_value cf use_token e ks s1 of
                    (s2, Inl x) \<Rightarrow> (s2, Inl x)
                  | (s2, Inr ps) \<Rightarrow> (s2, Inr ((k, JStr t) # ps)))))"

definition entry_value ::
  "conf \<Rightarrow> bool \<Rightarrow> kp_entry \<Rightarrow> cred_vault \<Rightarrow> cred_vault \<times> json py_result" where
  "entry_value cf use_token e s =
     (let ks = (if cf_has_protected cf \<or> cf_has_custom cf then map fst (e_props e) else [])
      in case props_value cf use_token e ks s of
        (s1, Inl x) \<Rightarrow> (s1, Inl x)
      | (s1, Inr props) \<Rightarrow>
          (case maybe_register (attr_str (e_password e)) use_token s1 of
             (s2, Inl x) \<Rightarrow> (s2, Inl x)
           | (s2, Inr pw) \<Rightarrow>
               (s2, Inr (JObj
                  ([(''title'', JStr (attr_str (e_title e))),
                    (''username'', JStr (attr_str (e_username e))),
                    (''password'', JStr pw),
                    (''url'', JStr (attr_str (e_url e)))]
                   @ (if props = [] then [] else [(''custom_properties'', JObj props)]))))))"

section \<open>The reply\<close>

definition query_reply :: "conf \<Rightarrow> cred_req \<Rightarrow> kp_db \<Rightarrow> cred_vault \<Rightarrow> cred_vault \<times> reply" where
  "query_reply cf q db s =
     (case db (cq_entry q) of
        Inl _ \<Rightarrow> (s, Err 500 ''KeePass error'')
      | Inr None \<Rightarrow> (s, Err 404 ''no such entry'')
      | Inr (Some e) \<Rightarrow>
          if cq_field q \<noteq> [] then
            (case field_value cf (cq_field q) (cq_token q) e s of
               (s1, Inl _) \<Rightarrow> (s1, Err 500 ''KeePass error'')
             | (s1, Inr None) \<Rightarrow> (s1, Err 404 ''no such field'')
             | (s1, Inr (Some v)) \<Rightarrow> (s1, Ok (JObj [(''value'', JStr v)])))
          else
            (case entry_value cf (cq_token q) e s of
               (s1, Inl _) \<Rightarrow> (s1, Err 500 ''KeePass error'')
             | (s1, Inr j) \<Rightarrow> (s1, Ok j)))"

definition query_finish :: "conf \<Rightarrow> cred_req \<Rightarrow> kp_db \<Rightarrow> proxy \<Rightarrow> proxy \<times> outcome" where
  "query_finish cf q db s =
     (let (v, r) = query_reply cf q db (vault s) in (s\<lparr>vault := v\<rparr>, Done r))"

text \<open>
  Does the reply take the proxy's lock?  Only \<open>_register_secret\<close> does, for a value of four
  characters or more, and only when a token is asked for.
\<close>

definition is_secret :: "string option \<Rightarrow> bool" where
  "is_secret x = (case x of None \<Rightarrow> False | Some v \<Rightarrow> v \<noteq> [] \<and> \<not> py_len v < SECRET_MIN_LENGTH)"

definition field_locks :: "conf \<Rightarrow> string \<Rightarrow> kp_entry \<Rightarrow> bool" where
  "field_locks cf f e =
     (case std_field f e of
        Some v \<Rightarrow> f = ''password'' \<and> is_secret (Some v)
      | None \<Rightarrow>
          if cf_has_protected cf then is_protected f e \<and> is_secret (custom_property f e)
          else cf_has_custom cf \<and> is_secret (custom_property f e))"

definition entry_locks :: "conf \<Rightarrow> kp_entry \<Rightarrow> bool" where
  "entry_locks cf e \<longleftrightarrow>
     (cf_has_protected cf \<or> cf_has_custom cf)
       \<and> list_ex (\<lambda>k. (cf_has_protected cf \<longrightarrow> is_protected k e) \<and> is_secret (custom_property k e))
           (map fst (e_props e))
     \<or> is_secret (Some (attr_str (e_password e)))"

definition reply_locks :: "conf \<Rightarrow> cred_req \<Rightarrow> kp_db \<Rightarrow> bool" where
  "reply_locks cf q db \<longleftrightarrow> cq_token q \<and>
     (case db (cq_entry q) of
        Inr (Some e) \<Rightarrow> if cq_field q \<noteq> [] then field_locks cf (cq_field q) e else entry_locks cf e
      | _ \<Rightarrow> False)"

text \<open>A reply that does not take the lock leaves the vault as it was.\<close>

lemma maybe_register_unlocked:
  "\<not> u \<or> \<not> is_secret (Some v) \<Longrightarrow> maybe_register v u s = (s, Inr v)"
  by (auto simp: maybe_register_def register_secret_def is_secret_def)

lemma props_value_unlocked:
  "\<not> u \<or> \<not> list_ex (\<lambda>k. (cf_has_protected cf \<longrightarrow> is_protected k e) \<and> is_secret (custom_property k e)) ks
    \<Longrightarrow> \<exists>r. props_value cf u e ks s = (s, r)"
proof (induction ks)
  case (Cons k ks)
  then obtain r where r: "props_value cf u e ks s = (s, r)" by auto
  show ?case
  proof (cases "custom_property k e")
    case (Some v)
    with Cons.prems have "(if cf_has_protected cf \<and> \<not> is_protected k e then (s, Inr v) else maybe_register v u s) = (s, Inr v)"
      using maybe_register_unlocked [of u v s] by auto
    with Some r show ?thesis by (cases r) simp_all
  qed (use r in simp)
qed simp

lemma unlocked_reply_keeps_vault:
  assumes "\<not> reply_locks cf q db"
  shows "fst (query_reply cf q db s) = s"
proof (cases "\<exists>e. db (cq_entry q) = Inr (Some e)")
  case True
  then obtain e where e: "db (cq_entry q) = Inr (Some e)" by blast
  show ?thesis
  proof (cases "cq_field q = []")
    case True
    with assms e have n: "\<not> cq_token q \<or> \<not> entry_locks cf e" by (simp add: reply_locks_def)
    let ?ks = "if cf_has_protected cf \<or> cf_has_custom cf then map fst (e_props e) else []"
    from n have "\<not> cq_token q \<or> \<not> list_ex (\<lambda>k. (cf_has_protected cf \<longrightarrow> is_protected k e)
        \<and> is_secret (custom_property k e)) ?ks"
      by (cases "cf_has_protected cf \<or> cf_has_custom cf") (auto simp: entry_locks_def)
    then obtain r where r: "props_value cf (cq_token q) e ?ks s = (s, r)"
      using props_value_unlocked [of "cq_token q" cf e ?ks s] by blast
    from n have "maybe_register (attr_str (e_password e)) (cq_token q) s
        = (s, Inr (attr_str (e_password e)))"
      by (intro maybe_register_unlocked) (auto simp: entry_locks_def)
    with True e r show ?thesis by (simp add: query_reply_def entry_value_def split: sum.split)
  next
    case False
    with assms e have "\<not> cq_token q \<or> \<not> field_locks cf (cq_field q) e" by (simp add: reply_locks_def)
    then have "fst (field_value cf (cq_field q) (cq_token q) e s) = s"
      by (auto simp: field_value_def field_locks_def optional_register_def maybe_register_unlocked Let_def
          split: option.split if_splits)
    then obtain r where "field_value cf (cq_field q) (cq_token q) e s = (s, r)" by (metis prod.collapse)
    with False e show ?thesis by (simp add: query_reply_def split: sum.split option.split)
  qed
qed (auto simp: query_reply_def split: sum.split option.split)

section \<open>What a query gives away\<close>

text \<open>
  A value is masked in a vault: it is a token of the vault that stands for it, or it is too short
  to be registered.
\<close>

definition masked_in :: "cred_vault \<Rightarrow> string \<Rightarrow> string \<Rightarrow> bool" where
  "masked_in s v t \<longleftrightarrow> (if v = [] \<or> py_len v < SECRET_MIN_LENGTH then t = v
     else dget (pwd_to_token s) v = Some t \<and> (\<exists>n. t = make_token n))"

lemma register_masks:
  assumes "vault_ok s" and "utf8 v" and "register_secret v s = (s', Inr t)"
  shows "masked_in s' v t"
proof -
  have ok: "vault_ok s'" using vault_ok_register [OF assms(1,2)] assms(3) by simp
  show ?thesis
  proof (cases "v = [] \<or> py_len v < SECRET_MIN_LENGTH")
    case True
    with assms(3) show ?thesis by (auto simp: masked_in_def register_secret_def)
  next
    case False
    with assms(3) have "dget (pwd_to_token s') v = Some t"
      by (auto simp: register_secret_def Let_def split: option.splits if_splits)
    moreover from this ok have "\<exists>n. t = make_token n" by (auto simp: vault_ok_def entries_ok_def)
    ultimately show ?thesis using False by (auto simp: masked_in_def)
  qed
qed

text \<open>
  C4. A tokenised query for a password (or for a protected property) replies with the token the
  vault holds for it, never with the value, unless the value is shorter than four characters,
  which is given as it is; a value that itself looks like a token gives an error.
\<close>

theorem tokenised_field_masked:
  assumes "vault_reachable s" and "cq_token q" and "cq_field q \<noteq> []"
    and "db (cq_entry q) = Inr (Some e)"
    and "cq_field q = ''password'' \<and> attr_str (e_password e) = v
      \<or> std_field (cq_field q) e = None \<and> cf_has_protected cf \<and> is_protected (cq_field q) e
        \<and> custom_property (cq_field q) e = Some v"
    and "utf8 v"
  shows "case query_reply cf q db s of
      (s', Ok j) \<Rightarrow> \<exists>t. j = JObj [(''value'', JStr t)] \<and> masked_in s' v t
    | (s', Err n m) \<Rightarrow> n = 500 \<and> s' = s \<and> prefix TOKEN_PREFIX v"
proof -
  obtain s' r where r: "register_secret v s = (s', r)" by fastforce
  have f: "field_value cf (cq_field q) True e s = optional_register (Some v) True s"
    using assms(5) by (auto simp: field_value_def std_field_def)
  show ?thesis
  proof (cases r)
    case (Inl x)
    with r have "s' = s \<and> prefix TOKEN_PREFIX v"
      by (auto simp: register_secret_def Let_def token_fullmatch_def split: option.splits if_splits)
    with r f Inl assms show ?thesis
      by (simp add: query_reply_def optional_register_def maybe_register_def)
  next
    case (Inr t)
    with register_masks [OF vault_reachable_inv [OF assms(1)] assms(6)] r f assms show ?thesis
      by (simp add: query_reply_def optional_register_def maybe_register_def)
  qed
qed

definition demo_entry :: kp_entry where
  "demo_entry = \<lparr>e_title = Some ''db'', e_username = Some ''root'', e_password = Some ''tiger'',
     e_url = None, e_props = [(''pin'', Some ''123'', True), (''note'', Some ''hi there'', False)]\<rparr>"

definition demo_db :: kp_db where
  "demo_db t = (if t = ''db'' then Inr (Some demo_entry) else Inr None)"

definition demo_conf :: conf where
  "demo_conf = \<lparr>cf_hash = ''bin'', cf_secret = ''sec'', cf_room = ''!r'', cf_bot = ''@bot'', cf_start_ts = 0,
     cf_whitelist = [''@boss''], cf_kdbx = Some ''x.kdbx'', cf_has_keepass = True,
     cf_open = (\<lambda>p. case p of None \<Rightarrow> Inl OtherExn | Some _ \<Rightarrow> Inr demo_db), cf_has_protected = True,
     cf_has_custom = True, cf_admin_token = [], cf_digest = (\<lambda>_. ''sum'')\<rparr>"

definition demo_auth :: auth where
  "demo_auth = \<lparr>get_binary_hash = ''bin'', get_binary_secret = ''sec'', caller_hash = ''h1'',
     caller_path = ''/s''\<rparr>"

definition demo_req :: cred_req where
  "demo_req = \<lparr>cq_entry = ''db'', cq_field = ''password'', cq_token = True, cq_auth = demo_auth\<rparr>"

theorem tokenised_field_masked_witness:
  "case query_reply demo_conf demo_req demo_db vault_example of
      (s', Ok j) \<Rightarrow> \<exists>t. j = JObj [(''value'', JStr t)] \<and> masked_in s' ''tiger'' t
    | (s', Err n m) \<Rightarrow> n = 500 \<and> s' = vault_example \<and> prefix TOKEN_PREFIX ''tiger''"
proof (rule tokenised_field_masked [OF vault_example_reachable])
  show "demo_db (cq_entry demo_req) = Inr (Some demo_entry)"
    by (simp add: demo_db_def demo_req_def)
  show "utf8 ''tiger''" by (simp add: ascii_utf8 ascii_def byte_def)
qed (simp_all add: demo_req_def demo_entry_def attr_str_def)

end
