(* ===== verification/Caller_Api.thy ===== *)
theory Caller_Api
  imports Credential_Api
begin

text \<open>
  The handlers that read and change the caller registry (\<open>_credential.py\<close>): health, the listing,
  the revocation with and without approval, the registration and the hash-change decision.
\<close>

section \<open>Reading\<close>

definition handle_health :: "proxy \<Rightarrow> reply" where
  "handle_health s = Ok (JObj
     [(''status'', JStr ''ok''),
      (''unlocked'', JBool (master_password s \<noteq> None)),
      (''pending'', JInt (int (length (pending_requests s)))),
      (''llm_secrets'', JInt (int (length (pwd_to_token (vault s)))))])"

definition listing_item :: "caller \<Rightarrow> json" where
  "listing_item c = JObj
     [(''name'', JStr (rc_name c)),
      (''type'', JStr ''caller''),
      (''entries'', JObj (map (\<lambda>(k, fs). (k, JArr (map JStr fs))) (rc_entries c))),
      (''allow_mode'', JStr (rc_allow_mode c)),
      (''enabled'', JBool (rc_enabled c)),
      (''script_path'', JStr (rc_script_path c))]"

definition handle_registrations :: "conf \<Rightarrow> auth \<Rightarrow> proxy \<Rightarrow> reply" where
  "handle_registrations cf headers s =
     (case require_auth cf headers Auth_Null of
        Inl _ \<Rightarrow> crash
      | Inr (Some r) \<Rightarrow> r
      | Inr None \<Rightarrow>
          Ok (JObj [(''registrations'', JArr (map (\<lambda>p. listing_item (snd p)) (caller_registry s)))]))"

section \<open>Revocation with approval\<close>

definition with_name :: "json \<Rightarrow> (string \<Rightarrow> outcome) \<Rightarrow> outcome" where
  "with_name data k =
     (case get_strip data ''name'' of
        Inl _ \<Rightarrow> Done crash
      | Inr n \<Rightarrow> if n = [] then Done (Err 400 ''no name'') else k n)"

definition handle_revoke :: "conf \<Rightarrow> auth \<Rightarrow> json option \<Rightarrow> proxy \<Rightarrow> outcome" where
  "handle_revoke cf headers body s =
     (case body of
        None \<Rightarrow> Done (Err 400 ''bad JSON'')
      | Some data \<Rightarrow>
          (if jobj data = None then Done crash
           else guard_auth cf headers data
             (\<lambda>_. with_name data (\<lambda>n.
                if lookup_by_name s n = None then Done (Err 404 ''no such registration'') else Go (V_Send n)))
             Done))"

definition revoke_sent :: "string \<Rightarrow> string \<Rightarrow> string option \<Rightarrow> proxy \<Rightarrow> proxy \<times> outcome" where
  "revoke_sent rid n msg s =
     (case msg of
        None \<Rightarrow> (s, Done (Err 503 ''cannot send the approval message''))
      | Some m \<Rightarrow>
          (let (e, s1) = new_event s
           in (s1\<lparr>pending_requests := dset rid
                  \<lparr>rq_entry = ''revoke:'' @ n, rq_field = None, rq_use_token = True,
                   rq_approved = None, rq_event = e\<rparr> (pending_requests s1),
                  approval_msgs := dset m rid (approval_msgs s1)\<rparr>,
               Go (V_Wait n rid e))))"

definition revoke_timeout :: "string \<Rightarrow> proxy \<Rightarrow> proxy \<times> outcome" where
  "revoke_timeout rid s = (cleanup_request rid s, Done (Err 408 ''revocation timed out''))"

definition revoke_end :: "string \<Rightarrow> string \<Rightarrow> proxy \<Rightarrow> proxy \<times> outcome" where
  "revoke_end n rid s =
     (let approved = Option.bind (dget (pending_requests s) rid) rq_approved; s1 = cleanup_request rid s
      in if approved \<noteq> Some True then (s1, Done (Err 403 ''revocation cancelled''))
         else (s1, Go (V_Revoke n)))"

text \<open>The last lookup and the revocation; also the end of the emergency revocation.\<close>

definition revoke_by_name :: "conf \<Rightarrow> string \<Rightarrow> string \<Rightarrow> proxy \<Rightarrow> proxy \<times> outcome" where
  "revoke_by_name cf now n s =
     (case lookup_by_name s n of
        None \<Rightarrow> (s, Done (Err 404 ''no such registration''))
      | Some reg \<Rightarrow>
          ((if rc_reg_id reg \<noteq> [] then fst (revoke_caller (cf_digest cf) now (rc_reg_id reg) s) else s),
           Done (Ok (JObj [(''status'', JStr ''revoked''), (''name'', JStr n)]))))"

section \<open>Emergency revocation\<close>

definition is_internal :: "string \<Rightarrow> bool" where
  "is_internal peer \<longleftrightarrow> starts_any [''10.'', ''172.'', ''192.168.''] peer"

text \<open>\<open>data.get('admin_token', '') == admin_token\<close>: a value that is no string is never equal.\<close>

definition admin_token_matches :: "conf \<Rightarrow> json \<Rightarrow> bool" where
  "admin_token_matches cf data \<longleftrightarrow>
     (case jget data ''admin_token'' of
        None \<Rightarrow> cf_admin_token cf = []
      | Some v \<Rightarrow> v = JStr (cf_admin_token cf))"

definition handle_revoke_emergency ::
  "conf \<Rightarrow> auth \<Rightarrow> string \<Rightarrow> string \<Rightarrow> json option \<Rightarrow> proxy \<Rightarrow> proxy \<times> reply" where
  "handle_revoke_emergency cf headers peer now body s =
     (case body of
        None \<Rightarrow> (s, Err 400 ''bad JSON'')
      | Some data \<Rightarrow>
          (if jobj data = None then (s, crash)
           else guard_auth cf headers data
             (\<lambda>_. if \<not> (admin_token_matches cf data \<or> is_internal peer)
                  then (s, Err 403 ''admin token or internal address needed'')
                  else (case get_strip data ''name'' of
                          Inl _ \<Rightarrow> (s, crash)
                        | Inr n \<Rightarrow>
                            if n = [] then (s, Err 400 ''no name'')
                            else (case revoke_by_name cf now n s of
                                    (s1, Done r) \<Rightarrow> (s1, r)
                                  | (s1, _) \<Rightarrow> (s1, crash))))
             (\<lambda>r. (s, r))))"

section \<open>Registration\<close>

text \<open>The body's entries: a dictionary of string lists (other shapes are kept empty).\<close>

definition body_entries :: "json \<Rightarrow> (string, string list) dict" where
  "body_entries data = (case jget data ''entries'' of None \<Rightarrow> [] | Some j \<Rightarrow> json_entries j)"

definition register_args :: "json \<Rightarrow> string \<Rightarrow> (reply, register_req) sum" where
  "register_args data n =
     (case (get_strip data ''script_path'', get_strip data ''script_hash'') of
        (Inr path, Inr h) \<Rightarrow>
          if path = [] \<or> h = [] then Inl (Err 400 ''no script_path or script_hash'')
          else (case get_strip data ''description'' of
                  Inl _ \<Rightarrow> Inl crash
                | Inr desc \<Rightarrow> Inr \<lparr>gq_name = n, gq_path = path, gq_hash = h, gq_description = desc,
                    gq_entries = body_entries data,
                    gq_mode = jget_str ''manual'' data ''allow_mode'',
                    gq_auto = (case jget data ''can_auto_unlock'' of None \<Rightarrow> False | Some v \<Rightarrow> jtruthy v)\<rparr>)
      | _ \<Rightarrow> Inl crash)"

text \<open>
  Up to the section that stores the registration: the name is checked in a section of its own,
  so another registration can come in between.
\<close>

definition handle_register_caller :: "conf \<Rightarrow> auth \<Rightarrow> json option \<Rightarrow> proxy \<Rightarrow> outcome" where
  "handle_register_caller cf headers body s =
     (case body of
        None \<Rightarrow> Done (Err 400 ''bad JSON'')
      | Some data \<Rightarrow>
          (if jobj data = None then Done crash
           else guard_auth cf headers data
             (\<lambda>_. with_name data (\<lambda>n.
                if name_exists s n then Done (Err 409 ''name taken'')
                else (case register_args data n of
                        Inl r \<Rightarrow> Done r
                      | Inr g \<Rightarrow> Go (G_Store g))))
             Done))"

text \<open>The registration is stored, not enabled, before its approval message is sent.\<close>

definition register_store :: "string \<Rightarrow> string \<Rightarrow> register_req \<Rightarrow> proxy \<Rightarrow> proxy \<times> outcome" where
  "register_store rid now g s =
     (fst (register_caller rid now (gq_name g) (gq_path g) (gq_hash g) (gq_description g)
        (gq_entries g) (gq_mode g) (gq_auto g) s), Go (G_Send (gq_name g) rid))"

definition register_sent ::
  "conf \<Rightarrow> string \<Rightarrow> string \<Rightarrow> string \<Rightarrow> string option \<Rightarrow> proxy \<Rightarrow> proxy \<times> outcome" where
  "register_sent cf now n rid msg s =
     (case msg of
        None \<Rightarrow> (fst (revoke_caller (cf_digest cf) now rid s), Done (Err 503 ''cannot send the approval message''))
      | Some m \<Rightarrow>
          (let (e, s1) = new_event s
           in (s1\<lparr>registration_pending := dset rid
                  \<lparr>rp_reg_id = rid, rp_name = n, rp_approved = None, rp_event = e\<rparr> (registration_pending s1),
                  registration_msgs := dset m rid (registration_msgs s1)\<rparr>,
               Go (G_Wait n rid m e))))"

definition forget_registration_request :: "string \<Rightarrow> string \<Rightarrow> proxy \<Rightarrow> proxy" where
  "forget_registration_request rid m s =
     s\<lparr>registration_pending := ddel rid (registration_pending s),
       registration_msgs := ddel m (registration_msgs s)\<rparr>"

definition register_timeout :: "conf \<Rightarrow> string \<Rightarrow> string \<Rightarrow> string \<Rightarrow> proxy \<Rightarrow> proxy \<times> outcome" where
  "register_timeout cf now rid m s =
     (fst (revoke_caller (cf_digest cf) now rid (forget_registration_request rid m s)),
      Done (Err 408 ''approval timed out''))"

text \<open>
  The event was set: the pending entry, which the handler still holds, has the reaction.
\<close>

definition register_decided :: "string \<Rightarrow> string \<Rightarrow> string \<Rightarrow> proxy \<Rightarrow> proxy \<times> outcome" where
  "register_decided n rid m s =
     (let r = Option.bind (dget (registration_pending s) rid) rp_approved
      in (forget_registration_request rid m s,
          Go (G_Decide n rid (case r of None \<Rightarrow> OtherKey [] | Some x \<Rightarrow> x))))"

definition register_finish :: "conf \<Rightarrow> string \<Rightarrow> string \<Rightarrow> string \<Rightarrow> reaction \<Rightarrow> proxy \<Rightarrow> proxy \<times> outcome" where
  "register_finish cf now n rid r s =
     (if r = Cross then (fst (revoke_caller (cf_digest cf) now rid s), Done (Err 403 ''registration refused''))
      else
        (let s1 = activate_caller (cf_digest cf) now rid s;
             s2 = (if r = Unlocked then grant_auto (cf_digest cf) now rid s1 else s1)
         in (s2, Done (Ok (JObj [(''reg_id'', JStr rid), (''name'', JStr n), (''status'', JStr ''activated'')])))))"

section \<open>Hash-change decision\<close>

definition action_of :: "reaction \<Rightarrow> string" where
  "action_of r = (case r of Unlocked \<Rightarrow> ''keep automatic approval'' | Check \<Rightarrow> ''ordinary approval''
     | Cross \<Rightarrow> ''refused'' | OtherKey k \<Rightarrow> k)"

definition handle_approve_hash_change ::
  "conf \<Rightarrow> auth \<Rightarrow> string \<Rightarrow> json option \<Rightarrow> proxy \<Rightarrow> proxy \<times> reply" where
  "handle_approve_hash_change cf headers now body s =
     (case body of
        None \<Rightarrow> (s, Err 400 ''bad JSON'')
      | Some data \<Rightarrow>
          (if jobj data = None then (s, crash)
           else guard_auth cf headers data
             (\<lambda>_. case (get_strip data ''reg_id'', get_strip data ''reaction'', get_strip data ''new_hash'') of
                (Inr rid, Inr key, Inr h) \<Rightarrow>
                  if rid = [] \<or> key = [] \<or> h = [] then (s, Err 400 ''no reg_id, reaction or new_hash'')
                  else if \<not> is_known_reaction (reaction_of_key key) then (s, Err 400 ''bad reaction'')
                  else (case dget (caller_registry s) rid of
                          None \<Rightarrow> (s, Err 404 ''no such registration'')
                        | Some reg \<Rightarrow>
                            (resolve_hash_change (cf_digest cf) now rid h (reaction_of_key key) s,
                             Ok (JObj [(''status'', JStr ''resolved''), (''name'', JStr (rc_name reg)),
                                       (''action'', JStr (action_of (reaction_of_key key)))])))
              | _ \<Rightarrow> (s, crash))
             (\<lambda>r. (s, r))))"

section \<open>Properties\<close>

text \<open>
  The emergency revocation with no admin token configured: a request that names no admin token
  is authorised from any address, since the missing token equals the empty configured one.
\<close>

theorem emergency_open_without_token:
  assumes "cf_admin_token cf = []" and "jget data ''admin_token'' = None" and "jobj data \<noteq> None"
    and "require_auth cf hdrs (auth_of data) = Inr None"
    and "get_strip data ''name'' = Inr n" and "n \<noteq> []" and "lookup_by_name s n = Some reg"
    and "rc_reg_id reg \<noteq> []"
  shows "handle_revoke_emergency cf hdrs peer now (Some data) s
    = (fst (revoke_caller (cf_digest cf) now (rc_reg_id reg) s),
       Ok (JObj [(''status'', JStr ''revoked''), (''name'', JStr n)]))"
  using assms
  by (auto simp: handle_revoke_emergency_def guard_auth_def admin_token_matches_def revoke_by_name_def)

end
