(* ===== verification/Proxy_Steps.thy ===== *)
theory Proxy_Steps
  imports Keepass_Query Caller_Api
begin

text \<open>
  The proxy as a transition system: its state, the suspended handlers and the history of what was
  sent, decided and released.  A step starts a handler, continues a suspended one, or handles a
  Matrix event.  What is undetermined (clock, message identifiers, random identifiers, the TPM's
  answer, which handler runs next) is the step's choice.
\<close>

section \<open>Continuing a handler\<close>

text \<open>What a suspended handler is given to go on.\<close>

datatype input =
    Proceed
  | Clock real
  | Sent "string option"
  | SentId "string option" string
  | SentAt "string option" string
  | Timeout
  | Timeout_At string
  | Unsealed "string py_result"
  | Fresh string
  | FreshAt string string
  | Stamp string

text \<open>
  The history: an approval request opened for a credential query, a message sent for a request
  or a registration, a reaction as it arrived (room, time, sender, message, key), an automatic
  approval granted, a credential released.
\<close>

datatype label =
    Opened string cred_req
  | Opened_Revoke string string
  | Asked string string
  | Asked_Registration string string
  | Asked_Other string
  | Reacted string int string string string
  | Auto_Ok cred_req caller
  | Released via cred_req json

type_synonym continuation = "(proxy \<times> outcome \<times> label list) option"

definition plain :: "proxy \<times> outcome \<Rightarrow> continuation" where
  "plain r = Some (fst r, snd r, [])"

definition with_labels :: "label list \<Rightarrow> proxy \<times> outcome \<Rightarrow> continuation" where
  "with_labels ls r = Some (fst r, snd r, ls)"

definition auto_labels :: "outcome \<Rightarrow> label list" where
  "auto_labels out = (case out of Go (C_AutoRate q reg) \<Rightarrow> [Auto_Ok q reg] | _ \<Rightarrow> [])"

definition opened_labels :: "outcome \<Rightarrow> label list" where
  "opened_labels out = (case out of Go (C_ApproveSend q rid e) \<Rightarrow> [Opened rid q] | _ \<Rightarrow> [])"

definition asked_labels :: "string option \<Rightarrow> string \<Rightarrow> label list" where
  "asked_labels msg rid = (case msg of None \<Rightarrow> [] | Some m \<Rightarrow> [Asked m rid])"

definition other_labels :: "string option \<Rightarrow> label list" where
  "other_labels msg = (case msg of None \<Rightarrow> [] | Some m \<Rightarrow> [Asked_Other m])"

definition released_labels :: "via \<Rightarrow> cred_req \<Rightarrow> outcome \<Rightarrow> label list" where
  "released_labels v q out = (case out of Done (Ok j) \<Rightarrow> [Released v q j] | _ \<Rightarrow> [])"

text \<open>
  \<open>waiting e s\<close>: a handler suspended at \<open>e.wait()\<close> cannot go on.  Which
  continuations begin with a locked section, which the lock holder of \<open>lock_wait\<close> blocks, is
  \<open>needs_lock\<close>.
\<close>

fun task_step :: "conf \<Rightarrow> input \<Rightarrow> task \<Rightarrow> proxy \<Rightarrow> continuation" where
  "task_step cf i (C_Check q) s =
     (case i of Clock now \<Rightarrow>
        (let out = credential_check now q s in with_labels (auto_labels out) (s, out)) | _ \<Rightarrow> None)"
| "task_step cf i (C_AutoRate q reg) s =
     (case i of Clock now \<Rightarrow> plain (auto_rate now q reg s) | _ \<Rightarrow> None)"
| "task_step cf i (C_AutoUnlock q reg) s =
     (case i of Proceed \<Rightarrow> plain (auto_unlock_begin q reg s) | _ \<Rightarrow> None)"
| "task_step cf i (C_LockWait q reg e) s =
     (case i of Proceed \<Rightarrow>
        if event_is_set s e then plain (s\<lparr>lock_wait := None\<rparr>, Go (C_Query q (Via_Auto reg))) else None
      | _ \<Rightarrow> None)"
| "task_step cf i (C_AutoSealed q reg gen e) s =
     (case i of Unsealed r \<Rightarrow> plain (auto_unlock_end q reg gen e r s) | _ \<Rightarrow> None)"
| "task_step cf i (C_Mark q reg) s =
     (case i of Proceed \<Rightarrow> plain (credential_mark q reg s) | _ \<Rightarrow> None)"
| "task_step cf i (C_NotifySend q reg) s =
     (case i of Sent msg \<Rightarrow> with_labels (other_labels msg) (credential_notify q reg msg s) | _ \<Rightarrow> None)"
| "task_step cf i (C_Limit q reg) s =
     (case i of Clock now \<Rightarrow> plain (credential_limit now q s) | _ \<Rightarrow> None)"
| "task_step cf i (C_UnlockSend q e) s =
     (case i of Sent msg \<Rightarrow> with_labels (other_labels msg) (unlock_sent q e msg s) | _ \<Rightarrow> None)"
| "task_step cf i (C_UnlockWait q e) s =
     (case i of Proceed \<Rightarrow> if event_is_set s e then plain (s, Go (C_Approve q)) else None
      | Timeout \<Rightarrow> plain (unlock_timeout s) | _ \<Rightarrow> None)"
| "task_step cf i (C_Approve q) s =
     (case i of Fresh rid \<Rightarrow>
        (let r = approve_begin rid q s in with_labels (opened_labels (snd r)) r) | _ \<Rightarrow> None)"
| "task_step cf i (C_ApproveSend q rid e) s =
     (case i of Sent msg \<Rightarrow> with_labels (asked_labels msg rid) (approve_sent q rid e msg s) | _ \<Rightarrow> None)"
| "task_step cf i (C_ApproveWait q rid e) s =
     (case i of Proceed \<Rightarrow> if event_is_set s e then plain (s, Go (C_ApproveDone q rid)) else None
      | Timeout \<Rightarrow> plain (approve_timeout q rid s) | _ \<Rightarrow> None)"
| "task_step cf i (C_ApproveDone q rid) s =
     (case i of Proceed \<Rightarrow> plain (approve_end q rid s) | _ \<Rightarrow> None)"
| "task_step cf i (C_Query q v) s =
     (case i of Proceed \<Rightarrow> plain (s, query_open cf q v s) | _ \<Rightarrow> None)"
| "task_step cf i (C_Open q v) s =
     (case i of Proceed \<Rightarrow> plain (s, query_load cf q v s) | _ \<Rightarrow> None)"
| "task_step cf i (C_Store q v db) s =
     (case i of Proceed \<Rightarrow> plain (query_cache q v db s) | _ \<Rightarrow> None)"
| "task_step cf i (C_Found q v db) s =
     (case i of Proceed \<Rightarrow>
        (let r = query_finish cf q db s in with_labels (released_labels v q (snd r)) r) | _ \<Rightarrow> None)"
| "task_step cf i (V_Send n) s =
     (case i of SentId msg rid \<Rightarrow>
        with_labels (asked_labels msg rid @ [Opened_Revoke rid n]) (revoke_sent rid n msg s) | _ \<Rightarrow> None)"
| "task_step cf i (V_Wait n rid e) s =
     (case i of Proceed \<Rightarrow> if event_is_set s e then plain (revoke_end n rid s) else None
      | Timeout \<Rightarrow> plain (revoke_timeout rid s) | _ \<Rightarrow> None)"
| "task_step cf i (V_Revoke n) s =
     (case i of Stamp now \<Rightarrow> plain (revoke_by_name cf now n s) | _ \<Rightarrow> None)"
| "task_step cf i (G_Store g) s =
     (case i of FreshAt hex now \<Rightarrow> plain (register_store (''reg_'' @ hex) now g s) | _ \<Rightarrow> None)"
| "task_step cf i (G_Send n rid) s =
     (case i of SentAt msg now \<Rightarrow>
        with_labels (case msg of None \<Rightarrow> [] | Some m \<Rightarrow> [Asked_Registration m rid])
          (register_sent cf now n rid msg s) | _ \<Rightarrow> None)"
| "task_step cf i (G_Wait n rid m e) s =
     (case i of Proceed \<Rightarrow> if event_is_set s e then plain (register_decided n rid m s) else None
      | Timeout_At now \<Rightarrow> plain (register_timeout cf now rid m s) | _ \<Rightarrow> None)"
| "task_step cf i (G_Decide n rid r) s =
     (case i of Stamp now \<Rightarrow> plain (register_finish cf now n rid r s) | _ \<Rightarrow> None)"
| "task_step cf i (U_Unseal gen) s =
     (case i of Unsealed r \<Rightarrow> plain (do_unlock gen r s, Finished) | _ \<Rightarrow> None)"
| "task_step cf i (H_Resolve rid h r) s =
     (case i of Stamp now \<Rightarrow> plain (resolve_hash_change (cf_digest cf) now rid h r s, Finished) | _ \<Rightarrow> None)"

section \<open>The system\<close>

type_synonym sys = "proxy \<times> (nat, task) dict \<times> label list"

text \<open>
  Does a continuation take the lock?  Waking from an event, and waking as the lock's holder, do
  not; nor do the executor's steps of a KeePass query, a query without a database, and a reply
  that registers nothing.
\<close>

fun needs_lock :: "conf \<Rightarrow> task \<Rightarrow> input \<Rightarrow> bool" where
  "needs_lock cf (C_LockWait q reg e) i = False"
| "needs_lock cf (C_UnlockWait q e) i = (i \<noteq> Proceed)"
| "needs_lock cf (C_ApproveWait q rid e) i = (i \<noteq> Proceed)"
| "needs_lock cf (C_Query q v) i = (cf_kdbx cf \<noteq> None \<and> cf_has_keepass cf)"
| "needs_lock cf (C_Open q v) i = False"
| "needs_lock cf (C_Found q v db) i = reply_locks cf q db"
| "needs_lock cf t i = True"

definition lock_free :: "proxy \<Rightarrow> bool" where
  "lock_free s \<longleftrightarrow> lock_wait s = None"

definition proceed :: "nat \<Rightarrow> outcome \<Rightarrow> (nat, task) dict \<Rightarrow> (nat, task) dict" where
  "proceed tid out ts = (case out of Go t \<Rightarrow> dset tid t ts | _ \<Rightarrow> ddel tid ts)"

definition spawn :: "nat \<Rightarrow> task list \<Rightarrow> (nat, task) dict \<Rightarrow> (nat, task) dict" where
  "spawn tid new ts = (case new of [] \<Rightarrow> ts | t # _ \<Rightarrow> dset tid t ts)"

text \<open>
  Nothing is assumed of the identifiers: the code draws those of requests (\<open>uuid4\<close>, eight digits)
  and of registrations (\<open>token_hex\<close>) without looking whether they are in use, and takes the
  message identifiers as Matrix gives them.
\<close>

inductive sys_step :: "conf \<Rightarrow> sys \<Rightarrow> sys \<Rightarrow> bool" for cf where
  credential: "credential_checks cf hdrs body = Go t \<Longrightarrow> dget ts tid = None \<Longrightarrow>
     sys_step cf (s, ts, h) (s, dset tid t ts, h)"
| revoke: "lock_free s \<Longrightarrow> handle_revoke cf hdrs body s = Go t \<Longrightarrow> dget ts tid = None \<Longrightarrow>
     sys_step cf (s, ts, h) (s, dset tid t ts, h)"
| register: "lock_free s \<Longrightarrow> handle_register_caller cf hdrs body s = Go t \<Longrightarrow> dget ts tid = None \<Longrightarrow>
     sys_step cf (s, ts, h) (s, dset tid t ts, h)"
| emergency: "lock_free s \<Longrightarrow>
     sys_step cf (s, ts, h) (fst (handle_revoke_emergency cf hdrs peer now body s), ts, h)"
| hash_change: "lock_free s \<Longrightarrow>
     sys_step cf (s, ts, h) (fst (handle_approve_hash_change cf hdrs now body s), ts, h)"
| "text": "lock_free s \<Longrightarrow> sys_step cf (s, ts, h) (on_text cf room body s, ts, h)"
| reaction: "lock_free s \<Longrightarrow> on_reaction cf room t sender orig key s = (s', new) \<Longrightarrow>
     dget ts tid = None \<Longrightarrow>
     sys_step cf (s, ts, h) (s', spawn tid new ts, Reacted room t sender orig key # h)"
| shutdown: "lock_free s \<Longrightarrow> sys_step cf (s, ts, h) (shutdown s, ts, h)"
| resume: "dget ts tid = Some t \<Longrightarrow> needs_lock cf t i \<longrightarrow> lock_free s \<Longrightarrow>
     task_step cf i t s = Some (s', out, ls) \<Longrightarrow>
     sys_step cf (s, ts, h) (s', proceed tid out ts, ls @ h)"
| audit: "sys_step cf (s, ts, h)
     (s\<lparr>audit_approval_pending := ap, audit_approval_msgs := am\<rparr>, ts, h)"
| llm: "vault_step (vault s) v \<Longrightarrow> sys_step cf (s, ts, h) (s\<lparr>vault := v\<rparr>, ts, h)"

inductive sys_reachable :: "conf \<Rightarrow> sys \<Rightarrow> bool" for cf where
  start: "sys_reachable cf (proxy_init, [], [])"
| step: "sys_reachable cf x \<Longrightarrow> sys_step cf x y \<Longrightarrow> sys_reachable cf y"

end
