(* ===== verification/Proxy_Safety.thy ===== *)
theory Proxy_Safety
  imports Proxy_Steps
begin

text \<open>
  What the transition system guarantees: a credential is released only after a whitelisted
  approval of its own request, or to a registered caller that presents its registration's current
  hash; an approval is used once; and what it does not guarantee.
\<close>

section \<open>The invariant of approvals\<close>

text \<open>
  The request \<open>rid\<close> was approved: its message was sent, and after that an approving reaction to
  that message came from an allowed sender.
\<close>

definition approved :: "conf \<Rightarrow> label list \<Rightarrow> string \<Rightarrow> bool" where
  "approved cf h rid \<longleftrightarrow> (\<exists>newer older m t sender key.
     h = newer @ Reacted (cf_room cf) t sender m key # older \<and> Asked m rid \<in> set older
     \<and> reaction_of_key key = Check \<and> may_approve cf sender \<and> sender \<noteq> cf_bot cf
     \<and> \<not> (0 < t \<and> t < cf_start_ts cf))"

text \<open>An automatic approval that rests on the registration's current hash, path and entries.\<close>

definition entitled :: "cred_req \<Rightarrow> caller \<Rightarrow> bool" where
  "entitled q reg \<longleftrightarrow> rc_enabled reg \<and> caller_hash (cq_auth q) \<noteq> []
     \<and> rc_script_hash reg = caller_hash (cq_auth q) \<and> rc_script_path reg = caller_path (cq_auth q)
     \<and> (\<exists>fs. dget (rc_entries reg) (cq_entry q) = Some fs \<and> (fs = [] \<or> cq_field q \<in> set fs))"

fun via_ok :: "conf \<Rightarrow> label list \<Rightarrow> cred_req \<Rightarrow> via \<Rightarrow> bool" where
  "via_ok cf h q (Via_Approval rid) = (Opened rid q \<in> set h \<and> approved cf h rid)"
| "via_ok cf h q (Via_Auto reg) = (Auto_Ok q reg \<in> set h \<and> entitled q reg)"

fun task_ok :: "conf \<Rightarrow> label list \<Rightarrow> task \<Rightarrow> bool" where
  "task_ok cf h (C_AutoRate q reg) = via_ok cf h q (Via_Auto reg)"
| "task_ok cf h (C_AutoUnlock q reg) = via_ok cf h q (Via_Auto reg)"
| "task_ok cf h (C_LockWait q reg e) = via_ok cf h q (Via_Auto reg)"
| "task_ok cf h (C_AutoSealed q reg gen e) = via_ok cf h q (Via_Auto reg)"
| "task_ok cf h (C_ApproveSend q rid e) = (Opened rid q \<in> set h)"
| "task_ok cf h (C_ApproveWait q rid e) = (Opened rid q \<in> set h)"
| "task_ok cf h (C_ApproveDone q rid) = (Opened rid q \<in> set h)"
| "task_ok cf h (C_Query q v) = via_ok cf h q v"
| "task_ok cf h (C_Open q v) = via_ok cf h q v"
| "task_ok cf h (C_Store q v db) = via_ok cf h q v"
| "task_ok cf h (C_Found q v db) = via_ok cf h q v"
| "task_ok cf h t = True"

definition msgs_ok :: "(string, string) dict \<Rightarrow> label list \<Rightarrow> bool" where
  "msgs_ok am h \<longleftrightarrow> (\<forall>(m, rid) \<in> set am. Asked m rid \<in> set h)"

definition pending_ok :: "conf \<Rightarrow> (string, req_pending) dict \<Rightarrow> label list \<Rightarrow> bool" where
  "pending_ok cf d h \<longleftrightarrow>
     (\<forall>rid r. dget d rid = Some r \<and> rq_approved r = Some True \<longrightarrow> approved cf h rid)"

definition tasks_ok :: "conf \<Rightarrow> (nat, task) dict \<Rightarrow> label list \<Rightarrow> bool" where
  "tasks_ok cf ts h \<longleftrightarrow> (\<forall>tid t. dget ts tid = Some t \<longrightarrow> task_ok cf h t)"

definition releases_ok :: "conf \<Rightarrow> label list \<Rightarrow> bool" where
  "releases_ok cf h \<longleftrightarrow> (\<forall>newer older v q j. h = newer @ Released v q j # older \<longrightarrow> via_ok cf older q v)"

fun sys_inv :: "conf \<Rightarrow> sys \<Rightarrow> bool" where
  "sys_inv cf (s, ts, h) \<longleftrightarrow> regs_ok (caller_registry s) \<and> msgs_ok (approval_msgs s) h
     \<and> pending_ok cf (pending_requests s) h \<and> tasks_ok cf ts h \<and> releases_ok cf h"

subsection \<open>Growing the history\<close>

lemma approved_mono: "approved cf h rid \<Longrightarrow> approved cf (ls @ h) rid"
  unfolding approved_def by (metis append_assoc)

lemma via_ok_mono: "via_ok cf h q v \<Longrightarrow> via_ok cf (ls @ h) q v"
  by (cases v) (auto intro: approved_mono)

lemma task_ok_mono: "task_ok cf h t \<Longrightarrow> task_ok cf (ls @ h) t"
  by (cases t) (auto dest: via_ok_mono simp del: via_ok.simps)

lemma msgs_ok_mono: "msgs_ok am h \<Longrightarrow> msgs_ok am (ls @ h)"
  by (auto simp: msgs_ok_def)

lemma pending_ok_mono: "pending_ok cf d h \<Longrightarrow> pending_ok cf d (ls @ h)"
  by (auto simp: pending_ok_def intro: approved_mono)

lemma tasks_ok_mono: "tasks_ok cf ts h \<Longrightarrow> tasks_ok cf ts (ls @ h)"
  by (auto simp: tasks_ok_def intro: task_ok_mono)

lemmas ok_mono = msgs_ok_mono pending_ok_mono tasks_ok_mono

lemma ok_Nil [simp]: "msgs_ok [] h" "pending_ok cf [] h" "tasks_ok cf [] h" "releases_ok cf []"
  by (simp_all add: msgs_ok_def pending_ok_def tasks_ok_def releases_ok_def)

lemma tasks_ok_dset: "tasks_ok cf ts h \<Longrightarrow> task_ok cf h t \<Longrightarrow> tasks_ok cf (dset tid t ts) h"
  by (simp add: tasks_ok_def)

lemma tasks_ok_ddel: "tasks_ok cf ts h \<Longrightarrow> tasks_ok cf (ddel tid ts) h"
  by (simp add: tasks_ok_def)

lemma tasks_ok_proceed:
  "tasks_ok cf ts h \<Longrightarrow> (\<And>t. out = Go t \<Longrightarrow> task_ok cf h t) \<Longrightarrow> tasks_ok cf (proceed tid out ts) h"
  by (cases out) (auto simp: proceed_def tasks_ok_dset tasks_ok_ddel)

lemma pending_ok_ddel: "pending_ok cf d h \<Longrightarrow> pending_ok cf (ddel rid d) h"
  by (simp add: pending_ok_def)

lemma pending_ok_dset:
  "pending_ok cf d h \<Longrightarrow> (rq_approved r = Some True \<Longrightarrow> approved cf h rid)
    \<Longrightarrow> pending_ok cf (dset rid r d) h"
  by (auto simp: pending_ok_def)

lemma msgs_ok_filter: "msgs_ok am h \<Longrightarrow> msgs_ok (filter P am) h"
  by (auto simp: msgs_ok_def)

lemma msgs_ok_dset: "msgs_ok am h \<Longrightarrow> Asked m rid \<in> set h \<Longrightarrow> msgs_ok (dset m rid am) h"
  using set_dset [of m rid am] by (auto simp: msgs_ok_def)

lemma releases_ok_Cons:
  "releases_ok cf (l # h) \<longleftrightarrow> releases_ok cf h \<and> (\<forall>v q j. l = Released v q j \<longrightarrow> via_ok cf h q v)"
proof -
  have "(\<forall>newer older v q j. l # h = newer @ Released v q j # older \<longrightarrow> via_ok cf older q v)
    \<longleftrightarrow> (\<forall>v q j. l = Released v q j \<longrightarrow> via_ok cf h q v)
      \<and> (\<forall>newer older v q j. h = newer @ Released v q j # older \<longrightarrow> via_ok cf older q v)"
    by (simp only: Cons_eq_append_conv) blast
  then show ?thesis unfolding releases_ok_def by blast
qed

subsection \<open>Each step keeps it\<close>

lemmas cont_defs = plain_def with_labels_def auto_labels_def opened_labels_def asked_labels_def
  other_labels_def released_labels_def

lemmas credential_defs = credential_check_def auto_rate_def auto_unlock_begin_def auto_unlock_end_def
  credential_mark_def credential_notify_def credential_limit_def credential_rate_def unlock_sent_def
  unlock_timeout_def approve_begin_def approve_sent_def approve_timeout_def approve_end_def
  query_open_def query_load_def query_finish_def query_cache_def cleanup_request_def new_event_def set_event_def
  set_events_def

lemmas caller_defs = revoke_sent_def revoke_timeout_def revoke_end_def revoke_by_name_def
  register_store_def register_sent_def register_timeout_def register_decided_def register_finish_def
  forget_registration_request_def do_unlock_def do_unlock_ok_def unlock_failed_def

lemma rate_frame:
  "check_auto_rate_limit now n p = (p', b) \<Longrightarrow> caller_registry p' = caller_registry p
    \<and> pending_requests p' = pending_requests p \<and> approval_msgs p' = approval_msgs p
    \<and> master_password p' = master_password p \<and> lock_wait p' = lock_wait p"
  by (auto simp: check_auto_rate_limit_def Let_def split: if_splits)

lemma mark_frame:
  "mark_hash_notified rid p = (p', b) \<Longrightarrow>
    pending_requests p' = pending_requests p \<and> approval_msgs p' = approval_msgs p
    \<and> (regs_ok (caller_registry p) \<longrightarrow> regs_ok (caller_registry p'))"
  using regs_ok_ops(3) [of p rid]
  by (auto simp: mark_hash_notified_def split: option.splits if_splits)

lemma reg_op_frame [frame]:
  "caller_registry (fst (notify_hash_change reg h m e s)) = caller_registry s"
  "pending_requests (fst (notify_hash_change reg h m e p)) = pending_requests p"
  "approval_msgs (fst (notify_hash_change reg h m e p)) = approval_msgs p"
  "pending_requests (fst (revoke_caller d t rid p)) = pending_requests p"
  "approval_msgs (fst (revoke_caller d t rid p)) = approval_msgs p"
  "pending_requests (activate_caller d t rid p) = pending_requests p"
  "approval_msgs (activate_caller d t rid p) = approval_msgs p"
  "pending_requests (grant_auto d t rid p) = pending_requests p"
  "approval_msgs (grant_auto d t rid p) = approval_msgs p"
  "pending_requests (resolve_hash_change d t rid h r p) = pending_requests p"
  "approval_msgs (resolve_hash_change d t rid h r p) = approval_msgs p"
  "pending_requests (fst (register_caller rid t n pa h desc es mo au p)) = pending_requests p"
  "approval_msgs (fst (register_caller rid t n pa h desc es mo au p)) = approval_msgs p"
  by (simp_all add: notify_hash_change_def
      revoke_caller_def activate_caller_def grant_auto_def resolve_hash_change_def
      register_caller_def save_caller_registry_def Let_def split: option.split)

lemma regs_ok_register:
  "regs_ok (caller_registry s) \<Longrightarrow> rid \<noteq> [] \<Longrightarrow>
    regs_ok (caller_registry (fst (register_caller rid now n p h desc es mo au s)))"
  by (auto simp: register_caller_def Let_def intro!: regs_ok_dset)

lemma task_step_regs:
  "task_step cf i t s = Some (s', out, ls) \<Longrightarrow> regs_ok (caller_registry s) \<Longrightarrow>
    regs_ok (caller_registry s')"
  by (cases t) (auto simp: cont_defs credential_defs caller_defs frame regs_ok_ops regs_ok_register Let_def
      split: input.splits option.splits prod.splits sum.splits bool.splits if_splits
      dest!: rate_frame mark_frame)

text \<open>
  The approvals: a continuation only opens, asks about, closes or reads its own request; nothing
  but a reaction approves one.
\<close>

lemma task_step_approvals:
  assumes "task_step cf i t s = Some (s', out, ls)"
    and "msgs_ok (approval_msgs s) h" and "pending_ok cf (pending_requests s) h"
  shows "msgs_ok (approval_msgs s') (ls @ h) \<and> pending_ok cf (pending_requests s') (ls @ h)"
proof -
  note mono = msgs_ok_mono [OF assms(2), of ls] pending_ok_mono [OF assms(3), of ls]
  show ?thesis
    using assms(1) mono
    by (cases t) (auto simp: cont_defs credential_defs caller_defs frame Let_def
        split: input.splits option.splits prod.splits sum.splits bool.splits if_splits
        dest!: rate_frame mark_frame
        intro!: pending_ok_dset pending_ok_ddel msgs_ok_dset msgs_ok_filter)
qed

lemma credential_check_entitled:
  "credential_check now q s = Go (C_AutoRate q' reg) \<Longrightarrow> regs_ok (caller_registry s) \<Longrightarrow>
    q' = q \<and> entitled q reg"
proof -
  assume c: "credential_check now q s = Go (C_AutoRate q' reg)" and ok: "regs_ok (caller_registry s)"
  then obtain rs where a: "check_auto_approve now (cq_entry q) (Some (cq_field q)) (cq_auth q) s
      = (Some True, Some reg, rs)" and q: "q' = q"
    by (auto simp: credential_check_def split: prod.splits option.splits bool.splits approve_reason.splits)
  from check_auto_approve_current [OF ok a] q show ?thesis
    by (auto simp: entitled_def)
qed

text \<open>What a continuation goes on to was earned.\<close>

lemma task_step_task:
  assumes "task_step cf i t s = Some (s', Go t', ls)" and ok: "task_ok cf h t"
    and "regs_ok (caller_registry s)" and "pending_ok cf (pending_requests s) h"
  shows "task_ok cf (ls @ h) t'"
proof (cases t)
  case (C_Check q)
  with assms obtain now where c: "credential_check now q s = Go t'" "ls = auto_labels (Go t')"
    by (auto simp: cont_defs Let_def split: input.splits)
  then consider reg where "t' = C_AutoRate q reg" | reg where "t' = C_Mark q reg" | r where "t' = C_Limit q r"
    by (auto simp: credential_check_def split: prod.splits option.splits bool.splits approve_reason.splits)
  then show ?thesis
    using credential_check_entitled [OF _ assms(3)] c by cases (auto simp: auto_labels_def)
next
  case (C_ApproveDone q rid)
  with assms have "t' = C_Query q (Via_Approval rid)" "ls = []"
      "Option.bind (dget (pending_requests s) rid) rq_approved = Some True"
    by (auto simp: cont_defs credential_defs Let_def split: input.splits if_splits)
  with assms(4) ok C_ApproveDone show ?thesis by (auto simp: pending_ok_def bind_eq_Some_conv)
qed (use assms in \<open>auto simp: cont_defs credential_defs caller_defs Let_def
        split: input.splits option.splits prod.splits sum.splits bool.splits if_splits
        intro: approved_mono\<close>)

lemma task_step_releases:
  assumes "task_step cf i t s = Some (s', out, ls)" and "task_ok cf h t" and "releases_ok cf h"
  shows "releases_ok cf (ls @ h)"
  using assms
  by (cases t) (auto simp: cont_defs credential_defs releases_ok_Cons Let_def
      split: input.splits option.splits prod.splits sum.splits bool.splits if_splits
        outcome.splits task.splits reply.splits)

text \<open>A reaction approves a request only when it is one that \<open>approved\<close> asks for.\<close>

lemma react_regs: "react cf sender m key s = (s', new) \<Longrightarrow> caller_registry s' = caller_registry s"
  by (auto simp: react_def react_unlock_def react_registration_def react_hash_change_def
      react_credential_def react_audit_def set_event_def Let_def frame
      split: if_splits option.splits)

lemma react_approvals:
  assumes "react cf sender m key s = (s', new)"
  shows "approval_msgs s' = approval_msgs s \<and>
    (pending_requests s' = pending_requests s \<or>
     (\<exists>rid r. dget (approval_msgs s) m = Some rid \<and> may_approve cf sender
        \<and> pending_requests s' = dset rid (r\<lparr>rq_approved := Some (key = Check)\<rparr>) (pending_requests s)))"
  using assms
  by (auto simp: react_def react_unlock_def react_registration_def react_hash_change_def
      react_credential_def react_audit_def set_event_def Let_def frame credential_target_def
      split: if_splits option.splits)

lemma react_new: "react cf sender m key s = (s', new) \<Longrightarrow> t \<in> set new \<Longrightarrow> task_ok cf h t"
  by (auto simp: react_def react_unlock_def react_hash_change_def Let_def split: if_splits option.splits)

lemma on_reaction_cases:
  assumes "on_reaction cf room t sender m key s = (s', new)"
  obtains "s' = s" "new = []"
  | "room = cf_room cf" "\<not> (0 < t \<and> t < cf_start_ts cf)" "sender \<noteq> cf_bot cf"
    "react cf sender m (reaction_of_key key) s = (s', new)"
proof (cases "room \<noteq> cf_room cf \<or> 0 < t \<and> t < cf_start_ts cf \<or> sender = cf_bot cf \<or> m = []
    \<or> \<not> is_known_reaction (reaction_of_key key)")
  case True
  with assms have "s' = s \<and> new = []" by (simp add: on_reaction_def split: if_split_asm)
  then show ?thesis using that(1) by blast
next
  case False
  with assms have "react cf sender m (reaction_of_key key) s = (s', new)"
    by (simp add: on_reaction_def split: if_split_asm)
  with False show ?thesis using that(2) by blast
qed

lemma reaction_inv:
  assumes r: "on_reaction cf room t sender m key s = (s', new)" and inv: "sys_inv cf (s, ts, h)"
  shows "sys_inv cf (s', spawn tid new ts, Reacted room t sender m key # h)"
proof -
  let ?h = "Reacted room t sender m key # h"
  have mono: "msgs_ok (approval_msgs s) ?h" "pending_ok cf (pending_requests s) ?h" "tasks_ok cf ts ?h"
    "releases_ok cf ?h" "regs_ok (caller_registry s)"
    using inv ok_mono [where ls = "[Reacted room t sender m key]" and h = h] by (auto simp: releases_ok_Cons)
  from r show ?thesis
  proof (cases rule: on_reaction_cases)
    case 1
    with mono show ?thesis by (simp add: spawn_def)
  next
    case 2
    have "tasks_ok cf (spawn tid new ts) ?h"
      using mono(3) react_new [OF 2(4), of _ ?h] by (auto simp: spawn_def tasks_ok_dset split: list.split)
    moreover have "pending_ok cf (pending_requests s') ?h"
    proof -
      from react_approvals [OF 2(4)] show ?thesis
      proof (elim conjE disjE exE)
        fix rid q
        assume a: "dget (approval_msgs s) m = Some rid" "may_approve cf sender"
          "pending_requests s' = dset rid (q\<lparr>rq_approved := Some (reaction_of_key key = Check)\<rparr>) (pending_requests s)"
        from a(1) inv have "Asked m rid \<in> set h" by (auto simp: msgs_ok_def dest: map_of_SomeD)
        with a 2 have "approved cf ?h rid" if "reaction_of_key key = Check"
          using that unfolding approved_def
          by (intro exI [of _ "[]"] exI [of _ h] exI [of _ m] exI [of _ t] exI [of _ sender] exI [of _ key]) simp
        with mono(2) a(3) show ?thesis by (auto intro!: pending_ok_dset)
      qed (use mono in simp)
    qed
    ultimately show ?thesis using mono react_approvals [OF 2(4)] react_regs [OF 2(4)] by simp
  qed
qed

lemma begin_tasks_ok:
  "credential_checks cf hdrs body = Go t \<Longrightarrow> task_ok cf h t"
  "handle_revoke cf hdrs body s = Go t \<Longrightarrow> task_ok cf h t"
  "handle_register_caller cf hdrs body s = Go t \<Longrightarrow> task_ok cf h t"
  by (auto simp: credential_checks_def handle_revoke_def handle_register_caller_def guard_auth_def
      with_name_def Let_def split: option.splits sum.splits if_splits auth_arg.splits)

lemma on_text_frame:
  "caller_registry (on_text cf room body s) = caller_registry s"
  "msgs_ok (approval_msgs s) h \<Longrightarrow> msgs_ok (approval_msgs (on_text cf room body s)) h"
  "pending_ok cf (pending_requests s) h \<Longrightarrow> pending_ok cf (pending_requests (on_text cf room body s)) h"
  by (simp_all add: on_text_def lock_proxy_def Let_def set_events_def frame split: command.split)

lemma shutdown_frame [frame]:
  "caller_registry (shutdown s) = caller_registry s"
  "approval_msgs (shutdown s) = approval_msgs s"
  "pending_requests (shutdown s) = pending_requests s"
  by (simp_all add: shutdown_def set_events_def Let_def frame)

lemma revoke_by_name_frame:
  "approval_msgs (fst (revoke_by_name cf now n s)) = approval_msgs s"
  "pending_requests (fst (revoke_by_name cf now n s)) = pending_requests s"
  "regs_ok (caller_registry s) \<Longrightarrow> regs_ok (caller_registry (fst (revoke_by_name cf now n s)))"
  by (auto simp: revoke_by_name_def frame regs_ok_ops split: option.split)

lemma emergency_cases:
  "fst (handle_revoke_emergency cf hdrs peer now body s) = s
    \<or> (\<exists>n. fst (handle_revoke_emergency cf hdrs peer now body s) = fst (revoke_by_name cf now n s))"
proof -
  have *: "fst (case x of (s1, Done r) \<Rightarrow> (s1, r) | (s1, _) \<Rightarrow> (s1, crash)) = fst x"
    for x :: "proxy \<times> outcome"
    by (simp split: prod.split outcome.split)
  show ?thesis
    by (cases body) (auto simp: handle_revoke_emergency_def guard_auth_def *
        split: option.split sum.split)
qed

lemma approve_hash_change_cases:
  "fst (handle_approve_hash_change cf hdrs now body s) = s
    \<or> (\<exists>rid h r. fst (handle_approve_hash_change cf hdrs now body s)
         = resolve_hash_change (cf_digest cf) now rid h r s)"
  by (cases body) (auto simp: handle_approve_hash_change_def guard_auth_def split: option.split sum.split)

lemma sys_step_inv: "sys_step cf x y \<Longrightarrow> sys_inv cf x \<Longrightarrow> sys_inv cf y"
proof (induction rule: sys_step.induct)
  case (emergency s ts h hdrs peer now body)
  then show ?case
    using emergency_cases [of cf hdrs peer now body s] by (auto simp: revoke_by_name_frame)
next
  case (hash_change s ts h hdrs now body)
  then show ?case
    using approve_hash_change_cases [of cf hdrs now body s] by (auto simp: frame regs_ok_ops)
next
  case (reaction s room t sender orig key s' new ts tid h)
  then show ?case by (intro reaction_inv)
next
  case (resume ts tid t i s s' out ls h)
  then have "tasks_ok cf (proceed tid out ts) (ls @ h)"
    using task_step_task [of cf i t s s' _ ls h]
    by (intro tasks_ok_proceed) (auto simp: tasks_ok_def intro: task_ok_mono)
  moreover have "task_ok cf h t" using resume by (auto simp: tasks_ok_def)
  ultimately show ?case
    using resume task_step_regs task_step_approvals task_step_releases by fastforce
qed (auto simp: tasks_ok_dset begin_tasks_ok on_text_frame frame)

lemma sys_reachable_inv: "sys_reachable cf x \<Longrightarrow> sys_inv cf x"
proof (induction rule: sys_reachable.induct)
  case start
  show ?case by (simp add: proxy_init_def)
qed (rule sys_step_inv)

lemma releases_okD: "releases_ok cf (newer @ Released v q j # older) \<Longrightarrow> via_ok cf older q v"
  by (auto simp: releases_ok_def simp del: via_ok.simps)

section \<open>Properties\<close>

text \<open>
  C1. No credential leaves without its own approval: in every history of the proxy, a credential
  released over the approval path was requested under a request identifier whose approval message
  was sent, and after that an approving reaction to that very message arrived in the proxy's
  room, not older than the proxy, from a whitelisted sender (anyone when the list is empty) that
  is not the bot.
\<close>

theorem release_needs_approval:
  assumes "sys_reachable cf (s, ts, newer @ Released (Via_Approval rid) q j # older)"
  shows "Opened rid q \<in> set older \<and> approved cf older rid"
  using sys_reachable_inv [OF assms] by (auto dest: releases_okD)

text \<open>
  C2. A credential released automatically went to a caller that presented the current hash and the
  path of a registration that was enabled and listed the entry (and the field, when it lists
  fields) at the time of the check.
\<close>

theorem automatic_release_entitled:
  assumes "sys_reachable cf (s, ts, newer @ Released (Via_Auto reg) q j # older)"
  shows "Auto_Ok q reg \<in> set older \<and> entitled q reg"
  using sys_reachable_inv [OF assms] by (auto dest: releases_okD)

end
