(* ===== verification/Proxy_Once.thy ===== *)
theory Proxy_Once
  imports Proxy_Safety
begin

text \<open>
  An approval is used once: over a request identifier a query is released at most as often as it
  was opened under that identifier, so once when the identifier was not drawn again.
\<close>

section \<open>Carriers\<close>

text \<open>The request a handler goes on with: its identifier and its query.\<close>

fun via_request :: "cred_req \<Rightarrow> via \<Rightarrow> (string \<times> cred_req) option" where
  "via_request q (Via_Approval rid) = Some (rid, q)"
| "via_request q (Via_Auto reg) = None"

fun carried :: "task \<Rightarrow> (string \<times> cred_req) option" where
  "carried (C_ApproveSend q rid e) = Some (rid, q)"
| "carried (C_ApproveWait q rid e) = Some (rid, q)"
| "carried (C_ApproveDone q rid) = Some (rid, q)"
| "carried (C_Query q v) = via_request q v"
| "carried (C_Open q v) = via_request q v"
| "carried (C_Store q v db) = via_request q v"
| "carried (C_Found q v db) = via_request q v"
| "carried t = None"

fun is_opening :: "string \<Rightarrow> cred_req \<Rightarrow> label \<Rightarrow> bool" where
  "is_opening rid q (Opened rid' q') = (rid' = rid \<and> q' = q)"
| "is_opening rid q l = False"

fun is_release :: "string \<Rightarrow> cred_req \<Rightarrow> label \<Rightarrow> bool" where
  "is_release rid q (Released v q' j) = (v = Via_Approval rid \<and> q' = q)"
| "is_release rid q l = False"

definition openings :: "string \<Rightarrow> cred_req \<Rightarrow> label list \<Rightarrow> nat" where
  "openings rid q h = length (filter (is_opening rid q) h)"

definition releases :: "string \<Rightarrow> cred_req \<Rightarrow> label list \<Rightarrow> nat" where
  "releases rid q h = length (filter (is_release rid q) h)"

lemma count_simps [simp]:
  "openings rid q [] = 0" "releases rid q [] = 0"
  "openings rid q (l # h) = (if is_opening rid q l then Suc (openings rid q h) else openings rid q h)"
  "releases rid q (l # h) = (if is_release rid q l then Suc (releases rid q h) else releases rid q h)"
  "openings rid q (ls @ h) = openings rid q ls + openings rid q h"
  "releases rid q (ls @ h) = releases rid q ls + releases rid q h"
  by (simp_all add: openings_def releases_def)

text \<open>The handlers that carry a request.\<close>

definition carriers :: "string \<times> cred_req \<Rightarrow> (nat, task) dict \<Rightarrow> nat set" where
  "carriers r ts = {tid. \<exists>t. dget ts tid = Some t \<and> carried t = Some r}"

lemma carriers_Nil [simp]: "carriers r [] = {}"
  by (simp add: carriers_def)



lemma finite_carriers [simp]: "finite (carriers r ts)"
proof (rule finite_subset)
  show "carriers r ts \<subseteq> fst ` set ts" by (auto simp: carriers_def dest: map_of_SomeD intro: rev_image_eqI)
qed simp



section \<open>The steps\<close>








section \<open>Properties\<close>


end
