(* ===== verification/Proxy_Runs.thy ===== *)
theory Proxy_Runs
  imports Proxy_Once
begin

text \<open>
  Runs of the proxy: an executable driver for sequences of events, and three scenarios run with
  it: a query approved by the operator, a registration approved by a stranger, and two automatic
  queries that meet in the unlock.
\<close>

section \<open>The driver\<close>

datatype event =
    E_Credential nat json
  | E_Register nat json
  | E_Text string
  | E_React nat string string "nat list"
  | E_Resume nat input

definition begin_task :: "nat \<Rightarrow> outcome \<Rightarrow> sys \<Rightarrow> sys option" where
  "begin_task tid out x =
     (case x of (s, ts, h) \<Rightarrow>
        (case out of Go t \<Rightarrow> if dget ts tid = None then Some (s, dset tid t ts, h) else None | _ \<Rightarrow> None))"

fun exec :: "conf \<Rightarrow> event \<Rightarrow> sys \<Rightarrow> sys option" where
  "exec cf (E_Credential tid body) (s, ts, h) =
     begin_task tid (credential_checks cf no_auth (Some body)) (s, ts, h)"
| "exec cf (E_Register tid body) (s, ts, h) =
     (if lock_free s then begin_task tid (handle_register_caller cf no_auth (Some body) s) (s, ts, h) else None)"
| "exec cf (E_Text body) (s, ts, h) =
     (if lock_free s then Some (on_text cf (cf_room cf) body s, ts, h) else None)"
| "exec cf (E_React tid sender m key) (s, ts, h) =
     (if lock_free s \<and> dget ts tid = None then
        (case on_reaction cf (cf_room cf) 0 sender m (bytes key) s of
           (s', new) \<Rightarrow> Some (s', spawn tid new ts, Reacted (cf_room cf) 0 sender m (bytes key) # h))
      else None)"
| "exec cf (E_Resume tid i) (s, ts, h) =
     (case dget ts tid of
        None \<Rightarrow> None
      | Some t \<Rightarrow>
          if needs_lock cf t i \<longrightarrow> lock_free s then
            (case task_step cf i t s of
               None \<Rightarrow> None
             | Some (s', out, ls) \<Rightarrow> Some (s', proceed tid out ts, ls @ h))
          else None)"

lemma exec_sound: "exec cf e x = Some y \<Longrightarrow> sys_step cf x y"
proof (induction cf e x rule: exec.induct)
  case (1 cf tid body s ts h)
  then show ?case
    by (auto simp: begin_task_def split: outcome.splits if_splits intro: sys_step.credential)
next
  case (2 cf tid body s ts h)
  then show ?case
    by (auto simp: begin_task_def split: outcome.splits if_splits intro: sys_step.register)
next
  case (3 cf body s ts h)
  then show ?case by (auto split: if_splits intro: sys_step.text)
next
  case (4 cf tid sender m key s ts h)
  then show ?case by (auto split: if_splits prod.splits intro: sys_step.reaction)
next
  case (5 cf tid i s ts h)
  then obtain t s' out ls where "dget ts tid = Some t" "needs_lock cf t i \<longrightarrow> lock_free s"
      "task_step cf i t s = Some (s', out, ls)" "y = (s', proceed tid out ts, ls @ h)"
    by (auto split: option.splits if_splits)
  then show ?case by (auto intro: sys_step.resume)
qed

fun drive :: "conf \<Rightarrow> event list \<Rightarrow> sys \<Rightarrow> sys option" where
  "drive cf [] x = Some x"
| "drive cf (e # es) x = Option.bind (exec cf e x) (drive cf es)"

lemma drive_append: "drive cf (es @ es') x = Option.bind (drive cf es x) (drive cf es')"
  by (induction es arbitrary: x) (auto split: bind_splits)

lemma drive_reachable:
  "sys_reachable cf x \<Longrightarrow> drive cf es x = Some y \<Longrightarrow> sys_reachable cf y"
proof (induction es arbitrary: x)
  case (Cons e es)
  then obtain z where "exec cf e x = Some z" "drive cf es z = Some y" by (auto simp: bind_eq_Some_conv)
  with Cons show ?case by (blast intro: sys_reachable.step exec_sound)
qed simp

abbreviation check_key :: "nat list" where "check_key \<equiv> [226, 156, 133]"
abbreviation unlocked_key :: "nat list" where "unlocked_key \<equiv> [240, 159, 148, 147]"

lemma bytes_inj: "list_all (\<lambda>n. n < 256) xs \<Longrightarrow> list_all (\<lambda>n. n < 256) ys \<Longrightarrow> bytes xs = bytes ys \<longleftrightarrow> xs = ys"
proof -
  assume "list_all (\<lambda>n. n < 256) xs" "list_all (\<lambda>n. n < 256) ys"
  then have "map byte (bytes xs) = xs" "map byte (bytes ys) = ys"
    by (simp_all add: bytes_def list_all_iff map_idI comp_def)
  then show ?thesis by metis
qed

lemma key_reactions [simp]:
  "reaction_of_key (bytes check_key) = Check"
  "reaction_of_key (bytes unlocked_key) = Unlocked"
  by (simp_all add: reaction_of_key_def bytes_inj)

lemmas body_defs = credential_checks_def hash_given_def hash_arg_def get_strip_def guard_auth_def require_auth_def auth_error_def
  auth_of_def auth_of_json_def jget_as_def Let_def py_strip_def py_lstrip_def py_rstrip_def is_ws_def
  cp_width_def byte_def

lemmas run_defs = begin_task_def cont_defs credential_defs caller_defs proceed_def spawn_def
  lock_free_def Let_def check_auto_approve_def find_caller_by_hash_def find_caller_by_path_def
  on_reaction_def react_def react_unlock_def react_registration_def react_credential_def
  credential_target_def may_approve_def set_unlock_event_def event_is_set_def truthy_def dhas_def
  query_reply_def field_value_def std_field_def attr_str_def reply_locks_def field_locks_def

lemma demo_conf_simps [simp]:
  "cf_hash demo_conf = ''bin''" "cf_secret demo_conf = ''sec''" "cf_room demo_conf = ''!r''"
  "cf_bot demo_conf = ''@bot''" "cf_start_ts demo_conf = 0" "cf_whitelist demo_conf = [''@boss'']"
  "cf_kdbx demo_conf = Some ''x.kdbx''" "cf_has_keepass demo_conf" "cf_open demo_conf (Some p) = Inr demo_db"
  by (simp_all add: demo_conf_def)

lemma proxy_init_simps [simp]:
  "caller_registry proxy_init = []" "caller_registry_by_path proxy_init = []"
  "registration_msgs proxy_init = []" "registration_pending proxy_init = []"
  "hash_change_msgs proxy_init = []" "master_password proxy_init = None"
  "auto_rate_limits proxy_init = []" "registrations_by_name proxy_init = []"
  "kp_cache proxy_init = None" "unlock_event proxy_init = None" "unlock_msg_id proxy_init = None"
  "\<not> unlock_in_progress proxy_init" "unlock_generation proxy_init = 0"
  "auto_unlock_event proxy_init = None" "pending_requests proxy_init = []"
  "approval_msgs proxy_init = []" "audit_approval_msgs proxy_init = []"
  "last_credential_request proxy_init = 0" "events_set proxy_init = []" "next_event proxy_init = 0"
  "lock_wait proxy_init = None" "vault proxy_init = cred_vault_init"
  by (simp_all add: proxy_init_def)

definition demo_body :: json where
  "demo_body = JObj [(''entry'', JStr ''db''), (''field'', JStr ''username''),
     (''auth'', JObj [(''get_binary_hash'', JStr ''bin''), (''get_binary_secret'', JStr ''sec''),
        (''caller_hash'', JStr ''h1''), (''caller_path'', JStr ''/s'')])]"

definition demo_query :: cred_req where
  "demo_query = \<lparr>cq_entry = ''db'', cq_field = ''username'', cq_token = True, cq_auth = demo_auth\<rparr>"

lemma demo_query_simps [simp]:
  "cq_entry demo_query = ''db''" "cq_field demo_query = ''username''" "cq_token demo_query"
  "caller_hash (cq_auth demo_query) = ''h1''" "caller_path (cq_auth demo_query) = ''/s''"
  "demo_db ''db'' = Inr (Some demo_entry)" "e_username demo_entry = Some ''root''"
  by (simp_all add: demo_query_def demo_auth_def demo_db_def demo_entry_def)

lemma demo_body_checks:
  "credential_checks demo_conf no_auth (Some demo_body) = Go (C_Check demo_query)"
  by (simp add: body_defs demo_body_def demo_query_def demo_auth_def)

definition approval_run :: "event list" where
  "approval_run = [E_Credential 0 demo_body, E_Resume 0 (Clock 10), E_Resume 0 (Clock 10),
     E_Resume 0 (Sent (Some ''$u'')), E_React 1 ''@boss'' ''$u'' check_key,
     E_Resume 1 (Unsealed (Inr ''master'')), E_Resume 0 Proceed, E_Resume 0 (Fresh ''r1''),
     E_Resume 0 (Sent (Some ''$a'')), E_React 1 ''@boss'' ''$a'' check_key, E_Resume 0 Proceed,
     E_Resume 0 Proceed, E_Resume 0 Proceed, E_Resume 0 Proceed, E_Resume 0 Proceed, E_Resume 0 Proceed]"

text \<open>Its history, newest first, before the release.\<close>

definition approval_history :: "label list" where
  "approval_history = [Reacted ''!r'' 0 ''@boss'' ''$a'' (bytes check_key), Asked ''$a'' ''r1'',
     Opened ''r1'' demo_query, Reacted ''!r'' 0 ''@boss'' ''$u'' (bytes check_key), Asked_Other ''$u'']"

lemma approval_run_ends:
  "\<exists>s. drive demo_conf approval_run (proxy_init, [], [])
     = Some (s, [], Released (Via_Approval ''r1'') demo_query (JObj [(''value'', JStr ''root'')]) # approval_history)"
  by (simp add: approval_run_def approval_history_def run_defs demo_body_checks RATE_LIMIT_INTERVAL_def)

lemma approval_run_reachable:
  "\<exists>s. sys_reachable demo_conf (s, [], [] @
     Released (Via_Approval ''r1'') demo_query (JObj [(''value'', JStr ''root'')]) # approval_history)"
  using approval_run_ends drive_reachable [OF sys_reachable.start] by fastforce

section \<open>A stranger approves a registration\<close>

definition register_body :: json where
  "register_body = JObj [(''name'', JStr ''tool''), (''script_path'', JStr ''/s''), (''script_hash'', JStr ''h1''),
     (''entries'', JObj [(''db'', JArr [])]),
     (''auth'', JObj [(''get_binary_hash'', JStr ''bin''), (''get_binary_secret'', JStr ''sec'')])]"

definition raw_body :: json where
  "raw_body = JObj [(''entry'', JStr ''db''), (''field'', JStr ''password''), (''token'', JBool False),
     (''auth'', JObj [(''get_binary_hash'', JStr ''bin''), (''get_binary_secret'', JStr ''sec''),
        (''caller_hash'', JStr ''h1''), (''caller_path'', JStr ''/s'')])]"

definition raw_query :: cred_req where
  "raw_query = \<lparr>cq_entry = ''db'', cq_field = ''password'', cq_token = False, cq_auth = demo_auth\<rparr>"

lemma raw_query_simps [simp]:
  "cq_entry raw_query = ''db''" "cq_field raw_query = ''password''" "\<not> cq_token raw_query"
  "caller_hash (cq_auth raw_query) = ''h1''" "caller_path (cq_auth raw_query) = ''/s''"
  "e_password demo_entry = Some ''tiger''"
  by (simp_all add: raw_query_def demo_auth_def demo_entry_def)

lemma raw_body_checks:
  "credential_checks demo_conf no_auth (Some raw_body) = Go (C_Check raw_query)"
  by (simp add: body_defs raw_body_def raw_query_def demo_auth_def)

definition tool_req :: register_req where
  "tool_req = \<lparr>gq_name = ''tool'', gq_path = ''/s'', gq_hash = ''h1'', gq_description = [],
     gq_entries = [(''db'', [])], gq_mode = ''manual'', gq_auto = False\<rparr>"

lemma register_body_checks:
  "handle_register_caller demo_conf no_auth (Some register_body) proxy_init = Go (G_Store tool_req)"
  by (simp add: body_defs handle_register_caller_def with_name_def register_args_def register_body_def
      name_exists_def dhas_def body_entries_def json_entries_def jstrs_def List.map_filter_def tool_req_def)

definition enrol :: "event list" where
  "enrol = [E_Register 0 register_body, E_Resume 0 (FreshAt ''1'' ''t0''),
     E_Resume 0 (SentAt (Some ''$g'') ''t1''), E_React 1 ''@stranger'' ''$g'' unlocked_key,
     E_Resume 0 Proceed, E_Resume 0 (Stamp ''t2'')]"

definition enrolled_tool :: caller where
  "enrolled_tool = \<lparr>rc_reg_id = ''reg_1'', rc_name = ''tool'', rc_script_path = ''/s'', rc_script_hash = ''h1'',
     rc_description = [], rc_script_hash_old = [], rc_hash_change_at = 0,
     rc_hash_change_notified = False, rc_entries = [(''db'', [])], rc_allow_mode = ''auto'',
     rc_can_auto_unlock = True, rc_created_at = ''t0'', rc_enabled = True\<rparr>"

lemma enrol_ends:
  "\<exists>s. drive demo_conf enrol (proxy_init, [], [])
     = Some (s, [], [Reacted ''!r'' 0 ''@stranger'' ''$g'' (bytes unlocked_key), Asked_Registration ''$g'' ''reg_1''])
     \<and> caller_registry s = [(''reg_1'', enrolled_tool)] \<and> master_password s = None
     \<and> \<not> unlock_in_progress s \<and> unlock_event s = None \<and> auto_unlock_event s = None
     \<and> auto_rate_limits s = [] \<and> lock_wait s = None \<and> next_event s = 1 \<and> events_set s = [0]
     \<and> kp_cache s = None \<and> unlock_generation s = 0"
  by (simp add: enrol_def run_defs register_body_checks tool_req_def register_caller_def
      activate_caller_def grant_auto_def save_caller_registry_def enrolled_tool_def)

text \<open>Two queries of the enrolled tool: the first unlocks, the second meets it there.\<close>

definition first_query :: "event list" where
  "first_query = [E_Credential 2 raw_body, E_Resume 2 (Clock 10), E_Resume 2 (Clock 10), E_Resume 2 Proceed]"

definition release_query :: "event list" where
  "release_query = [E_Resume 2 (Unsealed (Inr ''master'')), E_Resume 2 Proceed, E_Resume 2 Proceed,
     E_Resume 2 Proceed, E_Resume 2 Proceed]"

definition second_query :: "event list" where
  "second_query = [E_Credential 3 raw_body, E_Resume 3 (Clock 11), E_Resume 3 (Clock 11), E_Resume 3 Proceed]"

lemma enrolled_tool_simps [simp]:
  "rc_enabled enrolled_tool" "rc_script_hash enrolled_tool = ''h1''" "rc_script_path enrolled_tool = ''/s''"
  "rc_entries enrolled_tool = [(''db'', [])]" "rc_name enrolled_tool = ''tool''" "rc_can_auto_unlock enrolled_tool"
  by (simp_all add: enrolled_tool_def)

lemma check_enrolled:
  "caller_registry s = [(''reg_1'', enrolled_tool)] \<Longrightarrow>
    credential_check now raw_query s = Go (C_AutoRate raw_query enrolled_tool)"
  by (simp add: credential_check_def check_auto_approve_def find_caller_by_hash_def
      check_entry_allowed_caller_def)

lemmas enrolled_defs = run_defs raw_body_checks check_enrolled check_auto_rate_limit_def AUTO_RATE_INTERVAL_def
  dget_or_def maybe_register_def optional_register_def check_entry_allowed_caller_def

lemma stranger_run_ends:
  "\<exists>s. drive demo_conf (enrol @ first_query @ release_query) (proxy_init, [], [])
     = Some (s, [], Released (Via_Auto enrolled_tool) raw_query (JObj [(''value'', JStr ''tiger'')])
          # [Auto_Ok raw_query enrolled_tool, Reacted ''!r'' 0 ''@stranger'' ''$g'' (bytes unlocked_key),
             Asked_Registration ''$g'' ''reg_1''])"
proof -
  obtain s where s: "drive demo_conf enrol (proxy_init, [], [])
      = Some (s, [], [Reacted ''!r'' 0 ''@stranger'' ''$g'' (bytes unlocked_key), Asked_Registration ''$g'' ''reg_1''])"
    "caller_registry s = [(''reg_1'', enrolled_tool)]" "master_password s = None" "\<not> unlock_in_progress s"
    "unlock_event s = None" "auto_unlock_event s = None" "auto_rate_limits s = []" "lock_wait s = None"
    "kp_cache s = None"
    using enrol_ends by blast
  then show ?thesis
    by (simp add: drive_append first_query_def release_query_def enrolled_defs drop_unlock_def)
qed

lemma deadlock_run_ends:
  "\<exists>s h. drive demo_conf (enrol @ first_query @ second_query) (proxy_init, [], [])
     = Some (s, [(2, C_AutoSealed raw_query enrolled_tool 1 1), (3, C_LockWait raw_query enrolled_tool 1)], h)
     \<and> lock_wait s = Some 1 \<and> \<not> event_is_set s 1 \<and> unlock_in_progress s"
proof -
  obtain s where s: "drive demo_conf enrol (proxy_init, [], [])
      = Some (s, [], [Reacted ''!r'' 0 ''@stranger'' ''$g'' (bytes unlocked_key), Asked_Registration ''$g'' ''reg_1''])"
    "caller_registry s = [(''reg_1'', enrolled_tool)]" "master_password s = None" "\<not> unlock_in_progress s"
    "unlock_event s = None" "auto_unlock_event s = None" "auto_rate_limits s = []" "lock_wait s = None"
    "kp_cache s = None" "next_event s = 1" "events_set s = [0]" "unlock_generation s = 0"
    using enrol_ends by blast
  then show ?thesis
    by (simp add: drive_append first_query_def second_query_def enrolled_defs)
qed

section \<open>Properties\<close>

theorem release_needs_approval_witness:
  "Opened ''r1'' demo_query \<in> set approval_history \<and> approved demo_conf approval_history ''r1''"
  using release_needs_approval approval_run_reachable by blast


theorem automatic_release_entitled_witness: "entitled raw_query enrolled_tool"
proof -
  obtain s where "sys_reachable demo_conf (s, [], [] @
      Released (Via_Auto enrolled_tool) raw_query (JObj [(''value'', JStr ''tiger'')])
        # [Auto_Ok raw_query enrolled_tool, Reacted ''!r'' 0 ''@stranger'' ''$g'' (bytes unlocked_key),
           Asked_Registration ''$g'' ''reg_1''])"
    using stranger_run_ends drive_reachable [OF sys_reachable.start] by fastforce
  from automatic_release_entitled [OF this] show ?thesis by simp
qed

lemma unused_task: "\<exists>k. dget (ts :: (nat, task) dict) k = None"
proof -
  have "\<exists>k. k \<notin> fst ` set ts" by (rule ex_new_if_finite) (simp_all add: infinite_UNIV_nat)
  then show ?thesis by (auto simp: map_of_eq_None_iff)
qed

text \<open>
  C16. The whitelist does not protect registrations: whatever the whitelist holds, and whoever
  sends it (only not the bot), one open-lock reaction to the message of a registration that waits
  for its decision enables the registration, with automatic approval and automatic unlocking: three
  steps later its record is enabled in the registry.  (The run \<open>stranger_releases_password\<close> below
  goes on to a released password.)
\<close>

theorem anyone_enables_registration:
  assumes wait: "dget ts tid = Some (G_Wait n rid m (rp_event p))"
    and asked: "dget (registration_msgs s) m = Some rid" "dget (registration_pending s) rid = Some p"
      "rp_approved p = None" "rid \<noteq> []" "m \<noteq> []" "unlock_msg_id s \<noteq> Some m"
    and reg: "dget (caller_registry s) rid = Some reg"
    and react: "sender \<noteq> cf_bot cf" "reaction_of_key key = Unlocked" "\<not> (0 < t \<and> t < cf_start_ts cf)"
    and free: "lock_free s"
  shows "\<exists>s' ts'. (sys_step cf)\<^sup>*\<^sup>* (s, ts, h) (s', ts', Reacted (cf_room cf) t sender m key # h)
    \<and> dget (caller_registry s') rid
      = Some (reg\<lparr>rc_enabled := True, rc_allow_mode := ''auto'', rc_can_auto_unlock := True\<rparr>)"
proof -
  let ?h = "Reacted (cf_room cf) t sender m key # h"
  let ?s1 = "react_registration rid Unlocked s"
  let ?s2 = "forget_registration_request rid m ?s1"
  let ?s3 = "fst (register_finish cf now n rid Unlocked ?s2)"
  let ?t2 = "dset tid (G_Decide n rid Unlocked) ts"
  obtain k where k: "dget ts k = None" using unused_task by blast
  have "on_reaction cf (cf_room cf) t sender m key s = (?s1, [])"
    using asked react by (auto simp: on_reaction_def react_def truthy_def)
  from sys_step.reaction [OF free this k, of h]
  have 1: "sys_step cf (s, ts, h) (?s1, ts, ?h)" by (simp add: spawn_def)
  have s1: "lock_free ?s1" "event_is_set ?s1 (rp_event p)" "caller_registry ?s1 = caller_registry s"
      "dget (registration_pending ?s1) rid = Some (p\<lparr>rp_approved := Some Unlocked\<rparr>)"
    using asked free by (simp_all add: react_registration_def set_event_def event_is_set_def lock_free_def)
  have "task_step cf Proceed (G_Wait n rid m (rp_event p)) ?s1 = Some (?s2, Go (G_Decide n rid Unlocked), [])"
    using s1 by (simp add: plain_def register_decided_def)
  from sys_step.resume [OF wait _ this, of ?h] s1(1)
  have 2: "sys_step cf (?s1, ts, ?h) (?s2, ?t2, ?h)" by (simp add: proceed_def)
  have s2: "lock_free ?s2" "caller_registry ?s2 = caller_registry s"
    using s1 by (simp_all add: forget_registration_request_def lock_free_def)
  have "task_step cf (Stamp now) (G_Decide n rid Unlocked) ?s2
      = Some (?s3, snd (register_finish cf now n rid Unlocked ?s2), [])"
    by (simp add: plain_def)
  from sys_step.resume [OF _ _ this, of ?t2 tid ?h] s2(1)
  have "\<exists>ts'. sys_step cf (?s2, ?t2, ?h) (?s3, ts', ?h)" by auto
  with 1 2 have "\<exists>ts'. (sys_step cf)\<^sup>*\<^sup>* (s, ts, h) (?s3, ts', ?h)"
    by (blast intro: rtranclp.rtrancl_into_rtrancl)
  moreover have "dget (caller_registry ?s3) rid
      = Some (reg\<lparr>rc_enabled := True, rc_allow_mode := ''auto'', rc_can_auto_unlock := True\<rparr>)"
    using reg s2(2) by (simp add: register_finish_def activate_caller_def grant_auto_def
        save_caller_registry_def Let_def)
  ultimately show ?thesis by blast
qed

lemma asked_run_ends:
  "\<exists>s h. drive demo_conf (take 3 enrol) (proxy_init, [], []) = Some (s, [(0, G_Wait ''tool'' ''reg_1'' ''$g'' 0)], h)
     \<and> registration_msgs s = [(''$g'', ''reg_1'')] \<and> unlock_msg_id s = None \<and> lock_free s
     \<and> registration_pending s = [(''reg_1'', \<lparr>rp_reg_id = ''reg_1'', rp_name = ''tool'', rp_approved = None, rp_event = 0\<rparr>)]
     \<and> dget (caller_registry s) ''reg_1'' \<noteq> None"
  by (simp add: enrol_def run_defs register_body_checks tool_req_def register_caller_def)

theorem anyone_enables_registration_witness:
  "\<exists>x s' ts' reg. sys_reachable demo_conf x \<and> cf_whitelist demo_conf = [''@boss'']
     \<and> (sys_step demo_conf)\<^sup>*\<^sup>* x (s', ts', Reacted ''!r'' 0 ''@stranger'' ''$g'' (bytes unlocked_key) # snd (snd x))
     \<and> dget (caller_registry s') ''reg_1'' = Some reg \<and> rc_enabled reg \<and> rc_can_auto_unlock reg"
proof -
  obtain s h where d: "drive demo_conf (take 3 enrol) (proxy_init, [], [])
        = Some (s, [(0, G_Wait ''tool'' ''reg_1'' ''$g'' 0)], h)"
      "registration_msgs s = [(''$g'', ''reg_1'')]" "unlock_msg_id s = None" "lock_free s"
      "registration_pending s = [(''reg_1'', \<lparr>rp_reg_id = ''reg_1'', rp_name = ''tool'', rp_approved = None, rp_event = 0\<rparr>)]"
      "dget (caller_registry s) ''reg_1'' \<noteq> None"
    using asked_run_ends by blast
  let ?ts = "[(0, G_Wait ''tool'' ''reg_1'' ''$g'' 0)] :: (nat, task) dict"
  obtain reg where reg: "dget (caller_registry s) ''reg_1'' = Some reg" using d(6) by auto
  have "\<exists>s' ts'. (sys_step demo_conf)\<^sup>*\<^sup>* (s, ?ts, h)
        (s', ts', Reacted (cf_room demo_conf) 0 ''@stranger'' ''$g'' (bytes unlocked_key) # h)
      \<and> dget (caller_registry s') ''reg_1''
        = Some (reg\<lparr>rc_enabled := True, rc_allow_mode := ''auto'', rc_can_auto_unlock := True\<rparr>)"
    by (rule anyone_enables_registration
          [where tid = 0 and n = "''tool''" and p = "\<lparr>rp_reg_id = ''reg_1'', rp_name = ''tool'', rp_approved = None, rp_event = 0\<rparr>"])
      (use d reg in simp_all)
  then show ?thesis
    using drive_reachable [OF sys_reachable.start d(1)]
    by (intro exI [of _ "(s, ?ts, h)"]) fastforce
qed

text \<open>
  A run to the end: with a whitelist that holds one operator, a password is released although no
  whitelisted user ever reacted to anything.
\<close>

theorem stranger_releases_password:
  "\<exists>s ts h q j. sys_reachable demo_conf (s, ts, Released (Via_Auto enrolled_tool) q j # h)
     \<and> cf_whitelist demo_conf = [''@boss''] \<and> cq_field q = ''password'' \<and> \<not> cq_token q
     \<and> j = JObj [(''value'', JStr ''tiger'')]
     \<and> \<not> (\<exists>room t m key. Reacted room t ''@boss'' m key \<in> set h)"
proof -
  obtain s where "drive demo_conf (enrol @ first_query @ release_query) (proxy_init, [], [])
     = Some (s, [], Released (Via_Auto enrolled_tool) raw_query (JObj [(''value'', JStr ''tiger'')])
          # [Auto_Ok raw_query enrolled_tool, Reacted ''!r'' 0 ''@stranger'' ''$g'' (bytes unlocked_key),
             Asked_Registration ''$g'' ''reg_1''])"
    using stranger_run_ends by blast
  from drive_reachable [OF sys_reachable.start this] show ?thesis
    by (intro exI [of _ s] exI [of _ "[]"] exI conjI) (assumption | simp)+
qed

text \<open>The lock is held by a handler that waits for an event which is not set, as is every such handler.\<close>

fun stuck :: "sys \<Rightarrow> bool" where
  "stuck (s, ts, h) \<longleftrightarrow> lock_wait s \<noteq> None
     \<and> (\<forall>tid q reg e. dget ts tid = Some (C_LockWait q reg e) \<longrightarrow> \<not> event_is_set s e)"

text \<open>What stays, and the queries that have their entry and reply without the lock.\<close>

fun protected_part :: "sys \<Rightarrow> string option \<times> (string, req_pending) dict \<times> (string, caller) dict" where
  "protected_part (s, ts, h) = (master_password s, pending_requests s, caller_registry s)"

fun late :: "conf \<Rightarrow> sys \<Rightarrow> via \<Rightarrow> cred_req \<Rightarrow> bool" where
  "late cf (s, ts, h) v q \<longleftrightarrow> (\<exists>tid db. dget ts tid = Some (C_Found q v db) \<and> \<not> reply_locks cf q db)"

text \<open>The history grew only by replies of queries that were late in \<open>x\<close>.\<close>

definition only_late :: "conf \<Rightarrow> sys \<Rightarrow> sys \<Rightarrow> bool" where
  "only_late cf x y \<longleftrightarrow> (\<forall>v q. late cf y v q \<longrightarrow> late cf x v q)
     \<and> (\<exists>ls. snd (snd y) = ls @ snd (snd x) \<and> (\<forall>l \<in> set ls. \<exists>v q j. l = Released v q j \<and> late cf x v q))"

lemma only_late_refl: "only_late cf x x"
  by (simp add: only_late_def)

lemma only_late_trans: "only_late cf x y \<Longrightarrow> only_late cf y z \<Longrightarrow> only_late cf x z"
  unfolding only_late_def by (elim conjE exE, intro conjI)
    (blast, metis append_assoc UnE set_append)

lemma begin_not_waiting:
  "credential_checks cf hdrs body = Go t \<Longrightarrow> \<exists>q. t = C_Check q"
  by (auto simp: credential_checks_def guard_auth_def Let_def
      split: option.splits sum.splits if_splits auth_arg.splits)

lemma late_proceed:
  assumes "\<And>q v db. out \<noteq> Go (C_Found q v db)" and "late cf (s', proceed tid out ts, h') v q"
  shows "late cf (s, ts, h) v q"
proof -
  from assms obtain k db where "dget ts k = Some (C_Found q v db)" "\<not> reply_locks cf q db"
    by (cases out) (auto simp: proceed_def split: if_splits)
  then show ?thesis unfolding late.simps by blast
qed

lemma stuck_step:
  assumes "sys_step cf x y" and "stuck x"
  shows "stuck y \<and> protected_part y = protected_part x \<and> only_late cf x y"
  using assms
proof (induction rule: sys_step.induct)
  case (credential hdrs body t ts tid s h)
  from begin_not_waiting [OF credential(1)] obtain q where "t = C_Check q" by blast
  with credential show ?case by (auto simp: event_is_set_def only_late_def split: if_splits)
next
  case (resume ts tid t i s s' out ls h)
  then have "\<not> needs_lock cf t i" by (auto simp: lock_free_def)
  show ?case
  proof (cases "\<exists>q v db. t = C_Found q v db")
    case True
    then obtain q v db where t: "t = C_Found q v db" by blast
    with resume \<open>\<not> needs_lock cf t i\<close> have "late cf (s, ts, h) v q" by auto
    moreover have "\<forall>l \<in> set ls. \<exists>j. l = Released v q j"
      using resume t by (auto simp: cont_defs query_finish_def Let_def
          split: input.splits prod.splits outcome.splits reply.splits)
    moreover have "late cf (s, ts, h) v' q'" if "late cf (s', proceed tid out ts, ls @ h) v' q'" for v' q'
    proof -
      have "out \<noteq> Go (C_Found q'' v'' db'')" for q'' v'' db''
        using resume t by (auto simp: cont_defs query_finish_def Let_def split: input.splits prod.splits)
      from late_proceed [OF this that] show ?thesis .
    qed
    ultimately have "only_late cf (s, ts, h) (s', proceed tid out ts, ls @ h)"
      unfolding only_late_def by (metis snd_conv)
    with resume t show ?thesis
      by (auto simp: cont_defs query_finish_def proceed_def event_is_set_def Let_def
          split: if_splits input.splits prod.splits)
  next
    case False
    with resume \<open>\<not> needs_lock cf t i\<close> have d: "ls = []" "\<forall>q v db. out \<noteq> Go (C_Found q v db)"
        "stuck (s', proceed tid out ts, ls @ h)"
        "protected_part (s', proceed tid out ts, ls @ h) = protected_part (s, ts, h)"
      by (cases t; auto simp: cont_defs query_open_def query_load_def proceed_def event_is_set_def
          split: if_splits input.splits option.splits sum.splits)+
    then have "only_late cf (s, ts, h) (s', proceed tid out ts, ls @ h)"
      using late_proceed [of out cf s' tid ts "ls @ h" _ _ s h] unfolding only_late_def by simp
    with d show ?thesis by blast
  qed
qed (auto simp: lock_free_def event_is_set_def only_late_def)

text \<open>
  C15. A stuck proxy stays stuck: once a handler waits inside the locked section of the automatic
  unlock for an event that is not set, then whatever happens next, the lock is never given back:
  the master password, the pending requests and the registry never change again, no reaction is
  ever handled and no request is opened.  The only credentials that still leave are the replies of
  queries that had got past the lock and the opening of the database before, and that register
  nothing: raw values and unprotected fields.  (The witness reaches such a state.)
\<close>

theorem stuck_forever:
  assumes "(sys_step cf)\<^sup>*\<^sup>* x y" and "stuck x"
  shows "stuck y \<and> protected_part y = protected_part x \<and> only_late cf x y"
  using assms
proof (induction rule: rtranclp_induct)
  case base
  then show ?case by (simp add: only_late_refl)
next
  case (step y z)
  then show ?case using stuck_step [of cf y z] only_late_trans [of cf x y z] by simp
qed

theorem stuck_forever_witness:
  "\<exists>x. sys_reachable demo_conf x \<and> stuck x
     \<and> \<not> (\<exists>y. (sys_step demo_conf)\<^sup>*\<^sup>* x y \<and> protected_part y \<noteq> protected_part x)"
proof -
  obtain s h where d: "drive demo_conf (enrol @ first_query @ second_query) (proxy_init, [], [])
     = Some (s, [(2, C_AutoSealed raw_query enrolled_tool 1 1), (3, C_LockWait raw_query enrolled_tool 1)], h)"
    "lock_wait s = Some 1" "\<not> event_is_set s 1"
    using deadlock_run_ends by blast
  let ?x = "(s, [(2, C_AutoSealed raw_query enrolled_tool 1 1), (3, C_LockWait raw_query enrolled_tool 1)], h)"
  have "stuck ?x" using d by simp
  with drive_reachable [OF sys_reachable.start d(1)] stuck_forever [of demo_conf ?x] show ?thesis by blast
qed

theorem query_needs_both_factors_witness:
  "\<exists>q. C_Check demo_query = C_Check q \<and> get_binary_hash (cq_auth q) = ''bin''
     \<and> get_binary_secret (cq_auth q) = ''sec'' \<and> caller_hash (cq_auth q) \<noteq> []"
  using query_needs_both_factors [OF demo_body_checks] by auto

text \<open>
  Locking does not stop an unlock that is under way: when the unlock task of the current
  generation is still waiting for the TPM, the \<open>lock proxy\<close> command removes the master password,
  and the task's next step sets it again, without any further reaction.
\<close>

theorem lock_does_not_stop_unlock:
  assumes "dget ts tid = Some (U_Unseal (unlock_generation s))" and "lock_free s" and "pw \<noteq> []"
  shows "\<exists>locked unlocked ts'. locked = on_text cf (cf_room cf) ''lock proxy'' s
    \<and> master_password locked = None \<and> sys_step cf (s, ts, h) (locked, ts, h)
    \<and> sys_step cf (locked, ts, h) (unlocked, ts', h) \<and> master_password unlocked = Some pw"
proof -
  let ?l = "on_text cf (cf_room cf) ''lock proxy'' s" and ?g = "unlock_generation s"
  have c: "command_of ''lock proxy'' = Lock"
    by (simp add: command_of_def body_defs)
  have l: "master_password ?l = None" "unlock_generation ?l = ?g" "lock_free ?l" "unlock_event ?l = None"
    using assms(2) by (simp_all add: on_text_def c lock_proxy_def Let_def set_events_def lock_free_def frame)
  then have u: "master_password (do_unlock ?g (Inr pw) ?l) = Some pw"
    using assms(3) by (simp add: do_unlock_def do_unlock_ok_def frame)
  have t: "task_step cf (Unsealed (Inr pw)) (U_Unseal ?g) ?l = Some (do_unlock ?g (Inr pw) ?l, Finished, [])"
    by (simp add: plain_def)
  have "sys_step cf (s, ts, h) (?l, ts, h)" using assms(2) by (rule sys_step.text)
  moreover have "sys_step cf (?l, ts, h) (do_unlock ?g (Inr pw) ?l, proceed tid Finished ts, [] @ h)"
    using sys_step.resume [OF assms(1) _ t] l(3) by simp
  ultimately show ?thesis using l(1) u by auto
qed

lemma unlock_run_ends:
  "\<exists>s ts h. drive demo_conf (take 5 approval_run) (proxy_init, [], []) = Some (s, ts, h)
     \<and> dget ts 1 = Some (U_Unseal (unlock_generation s)) \<and> lock_free s"
  by (simp add: approval_run_def run_defs demo_body_checks RATE_LIMIT_INTERVAL_def)

theorem lock_does_not_stop_unlock_witness:
  "\<exists>s ts h locked unlocked ts'. sys_reachable demo_conf (s, ts, h)
     \<and> locked = on_text demo_conf ''!r'' ''lock proxy'' s \<and> master_password locked = None
     \<and> sys_step demo_conf (locked, ts, h) (unlocked, ts', h) \<and> master_password unlocked = Some ''master''"
proof -
  obtain s ts h where d: "drive demo_conf (take 5 approval_run) (proxy_init, [], []) = Some (s, ts, h)"
      "dget ts 1 = Some (U_Unseal (unlock_generation s))" "lock_free s"
    using unlock_run_ends by blast
  obtain locked unlocked ts' where "locked = on_text demo_conf ''!r'' ''lock proxy'' s"
      "master_password locked = None" "sys_step demo_conf (locked, ts, h) (unlocked, ts', h)"
      "master_password unlocked = Some ''master''"
    using lock_does_not_stop_unlock [OF d(2,3), of "''master''" demo_conf h] by auto
  with drive_reachable [OF sys_reachable.start d(1)] show ?thesis by blast
qed

definition tool_state :: proxy where
  "tool_state = proxy_init\<lparr>caller_registry := [(''reg_1'', enrolled_tool)],
     registrations_by_name := [(''tool'', ''reg_1'')]\<rparr>"

definition emergency_body :: json where
  "emergency_body = JObj [(''name'', JStr ''tool''),
     (''auth'', JObj [(''get_binary_hash'', JStr ''bin''), (''get_binary_secret'', JStr ''sec'')])]"

theorem emergency_open_without_token_witness:
  "handle_revoke_emergency demo_conf no_auth ''203.0.113.9'' ''t'' (Some emergency_body) tool_state
    = (fst (revoke_caller (cf_digest demo_conf) ''t'' ''reg_1'' tool_state),
       Ok (JObj [(''status'', JStr ''revoked''), (''name'', JStr ''tool'')]))"
proof -
  have "rc_reg_id enrolled_tool = ''reg_1''" by (simp add: enrolled_tool_def)
  moreover have "lookup_by_name tool_state ''tool'' = Some enrolled_tool"
    by (simp add: lookup_by_name_def tool_state_def)
  moreover have "get_strip emergency_body ''name'' = Inr ''tool''"
    "require_auth demo_conf no_auth (auth_of emergency_body) = Inr None"
    by (simp_all add: body_defs emergency_body_def)
  ultimately show ?thesis
    using emergency_open_without_token [of demo_conf emergency_body no_auth "''tool''" tool_state enrolled_tool]
    by (simp add: emergency_body_def demo_conf_def)
qed

end
