(* ===== verification/Json_Walk.thy ===== *)
theory Json_Walk
  imports Json Token_Text
begin

text \<open>
  The shared JSON walk (\<open>utils/json_walk.py\<close>): every string value of a JSON document is passed
  to a leaf function, a string that is itself JSON text is walked inside, and whatever fails
  falls back to the smallest unit that still works.

  The JSON library is a parameter: \<open>orjson\<close> when it is installed, else the standard \<open>json\<close>
  module, for \<open>_jloads\<close> and \<open>_jdumps\<close>; the standard module for the validation.  \<open>None\<close> is a
  raised exception.  The leaf function threads a state and may raise too.  Python's recursion
  limit is the argument \<open>stack\<close>: the number of nested calls left, and \<open>None\<close> as the walk's
  result is a \<open>RecursionError\<close> on its way out.
\<close>

section \<open>Parameters\<close>

record json_lib =
  jloads :: "string \<Rightarrow> json option"
  jdumps :: "json \<Rightarrow> string option"
  std_loads :: "string \<Rightarrow> json option"

type_synonym 's leaf_fn = "'s \<Rightarrow> string \<Rightarrow> 's \<times> string option"

text \<open>\<open>s.startswith(('{', '['))\<close>\<close>

definition looks_json :: "string \<Rightarrow> bool" where
  "looks_json s \<longleftrightarrow> starts_any [''{'', ''[''] s"

definition validate_json_roundtrip :: "json_lib \<Rightarrow> string \<Rightarrow> string \<Rightarrow> string" where
  "validate_json_roundtrip lib original output =
     (if \<not> looks_json (py_lstrip (lstrip_bom original)) then output
      else case std_loads lib (lstrip_bom original) of
        None \<Rightarrow> output
      | Some _ \<Rightarrow>
          (case std_loads lib (lstrip_bom output) of
             Some _ \<Rightarrow> output
           | None \<Rightarrow> original))"

section \<open>The walk\<close>

text \<open>A leaf: the leaf function's exception, or a result that cannot be dumped, keeps the string.\<close>

definition walk_leaf :: "json_lib \<Rightarrow> 's leaf_fn \<Rightarrow> 's \<Rightarrow> string \<Rightarrow> 's \<times> string" where
  "walk_leaf lib leaf s obj =
     (case leaf s obj of
        (s', None) \<Rightarrow> (s', obj)
      | (s', Some new_s) \<Rightarrow>
          if new_s \<noteq> obj then
            (case jdumps lib (JStr new_s) of
               None \<Rightarrow> (s', obj)
             | Some _ \<Rightarrow> (s', new_s))
          else (s', new_s))"

definition leaf_json :: "json_lib \<Rightarrow> 's leaf_fn \<Rightarrow> 's \<Rightarrow> string \<Rightarrow> 's \<times> json option" where
  "leaf_json lib leaf s str = (case walk_leaf lib leaf s str of (s', r) \<Rightarrow> (s', Some (JStr r)))"

text \<open>The comprehensions over values and elements, in order; an exception inside stops them.\<close>

fun walk_values ::
  "('s \<Rightarrow> json \<Rightarrow> 's \<times> json option) \<Rightarrow> 's \<Rightarrow> (string \<times> json) list \<Rightarrow> 's \<times> (string \<times> json) list option"
  where
  "walk_values f s [] = (s, Some [])"
| "walk_values f s ((k, v) # kvs) =
     (case f s v of
        (s', None) \<Rightarrow> (s', None)
      | (s', Some v') \<Rightarrow>
          (case walk_values f s' kvs of
             (s'', None) \<Rightarrow> (s'', None)
           | (s'', Some kvs') \<Rightarrow> (s'', Some ((k, v') # kvs'))))"

fun walk_elems :: "('s \<Rightarrow> json \<Rightarrow> 's \<times> json option) \<Rightarrow> 's \<Rightarrow> json list \<Rightarrow> 's \<times> json list option" where
  "walk_elems f s [] = (s, Some [])"
| "walk_elems f s (x # xs) =
     (case f s x of
        (s', None) \<Rightarrow> (s', None)
      | (s', Some x') \<Rightarrow>
          (case walk_elems f s' xs of
             (s'', None) \<Rightarrow> (s'', None)
           | (s'', Some xs') \<Rightarrow> (s'', Some (x' # xs'))))"

text \<open>
  \<open>_json_walk_impl\<close>.  \<open>depth\<close> counts only the string-inside-string nesting.  In a string that
  parses to an object or an array, any exception of the inner walk or of the dump (a
  \<open>RecursionError\<close> too) falls through to the leaf function on the string itself.
\<close>

definition inner_json :: "json_lib \<Rightarrow> string \<Rightarrow> json option" where
  "inner_json lib obj =
     (let inner_stripped = py_strip (lstrip_bom obj) in
      if looks_json inner_stripped then
        (case jloads lib inner_stripped of
           Some (JObj d) \<Rightarrow> Some (JObj d)
         | Some (JArr xs) \<Rightarrow> Some (JArr xs)
         | _ \<Rightarrow> None)
      else None)"

primrec json_walk_impl ::
  "nat \<Rightarrow> json_lib \<Rightarrow> 's leaf_fn \<Rightarrow> nat \<Rightarrow> nat \<Rightarrow> 's \<Rightarrow> json \<Rightarrow> 's \<times> json option" where
  "json_walk_impl 0 lib leaf limit depth s obj = (s, None)"
| "json_walk_impl (Suc stack) lib leaf limit depth s obj =
     (case obj of
        JStr str \<Rightarrow>
          if depth > limit then leaf_json lib leaf s str
          else
            (case inner_json lib str of
               Some inner \<Rightarrow>
                 (case json_walk_impl stack lib leaf limit (depth + 1) s inner of
                    (s', Some walked) \<Rightarrow>
                      (case jdumps lib walked of
                         Some out \<Rightarrow>
                           (s', Some (JStr (validate_json_roundtrip lib (py_strip (lstrip_bom str)) out)))
                       | None \<Rightarrow> leaf_json lib leaf s' str)
                  | (s', None) \<Rightarrow> leaf_json lib leaf s' str)
             | None \<Rightarrow> leaf_json lib leaf s str)
      | JObj d \<Rightarrow>
          map_prod id (map_option JObj) (walk_values (json_walk_impl stack lib leaf limit depth) s d)
      | JArr xs \<Rightarrow>
          map_prod id (map_option JArr) (walk_elems (json_walk_impl stack lib leaf limit depth) s xs)
      | _ \<Rightarrow> (s, Some obj))"

text \<open>The wrapper returns the original object when the recursion limit was hit.\<close>

definition json_walk ::
  "nat \<Rightarrow> json_lib \<Rightarrow> 's leaf_fn \<Rightarrow> nat \<Rightarrow> 's \<Rightarrow> json \<Rightarrow> 's \<times> json" where
  "json_walk stack lib leaf limit s obj =
     (case json_walk_impl stack lib leaf limit 0 s obj of
        (s', Some j) \<Rightarrow> (s', j)
      | (s', None) \<Rightarrow> (s', obj))"

subsection \<open>The asynchronous form\<close>

text \<open>
  \<open>_json_walk_async_impl\<close> awaits the leaf function and builds the dictionary and the list in
  loops.  A leaf function runs to completion before the walk goes on.
\<close>

fun async_dict_loop ::
  "('s \<Rightarrow> json \<Rightarrow> 's \<times> json option) \<Rightarrow> 's \<Rightarrow> (string \<times> json) list \<Rightarrow> (string, json) dict
     \<Rightarrow> 's \<times> (string, json) dict option" where
  "async_dict_loop f s [] out = (s, Some out)"
| "async_dict_loop f s ((k, v) # kvs) out =
     (case f s v of
        (s', None) \<Rightarrow> (s', None)
      | (s', Some v') \<Rightarrow> async_dict_loop f s' kvs (dset k v' out))"

fun async_list_loop ::
  "('s \<Rightarrow> json \<Rightarrow> 's \<times> json option) \<Rightarrow> 's \<Rightarrow> json list \<Rightarrow> json list \<Rightarrow> 's \<times> json list option" where
  "async_list_loop f s [] res = (s, Some res)"
| "async_list_loop f s (x # xs) res =
     (case f s x of
        (s', None) \<Rightarrow> (s', None)
      | (s', Some x') \<Rightarrow> async_list_loop f s' xs (res @ [x']))"

primrec json_walk_async_impl ::
  "nat \<Rightarrow> json_lib \<Rightarrow> 's leaf_fn \<Rightarrow> nat \<Rightarrow> nat \<Rightarrow> 's \<Rightarrow> json \<Rightarrow> 's \<times> json option" where
  "json_walk_async_impl 0 lib leaf limit depth s obj = (s, None)"
| "json_walk_async_impl (Suc stack) lib leaf limit depth s obj =
     (case obj of
        JStr str \<Rightarrow>
          if depth > limit then leaf_json lib leaf s str
          else
            (case inner_json lib str of
               Some inner \<Rightarrow>
                 (case json_walk_async_impl stack lib leaf limit (depth + 1) s inner of
                    (s', Some walked) \<Rightarrow>
                      (case jdumps lib walked of
                         Some out \<Rightarrow>
                           (s', Some (JStr (validate_json_roundtrip lib (py_strip (lstrip_bom str)) out)))
                       | None \<Rightarrow> leaf_json lib leaf s' str)
                  | (s', None) \<Rightarrow> leaf_json lib leaf s' str)
             | None \<Rightarrow> leaf_json lib leaf s str)
      | JObj d \<Rightarrow>
          map_prod id (map_option JObj)
            (async_dict_loop (json_walk_async_impl stack lib leaf limit depth) s d [])
      | JArr xs \<Rightarrow>
          map_prod id (map_option JArr)
            (async_list_loop (json_walk_async_impl stack lib leaf limit depth) s xs [])
      | _ \<Rightarrow> (s, Some obj))"

definition json_walk_async ::
  "nat \<Rightarrow> json_lib \<Rightarrow> 's leaf_fn \<Rightarrow> nat \<Rightarrow> 's \<Rightarrow> json \<Rightarrow> 's \<times> json" where
  "json_walk_async stack lib leaf limit s obj =
     (case json_walk_async_impl stack lib leaf limit 0 s obj of
        (s', Some j) \<Rightarrow> (s', j)
      | (s', None) \<Rightarrow> (s', obj))"

section \<open>What the walk keeps\<close>

text \<open>Same shape: the same keys in the same order, the same lengths, the same values but strings.\<close>

inductive same_shape :: "json \<Rightarrow> json \<Rightarrow> bool" where
  str: "same_shape (JStr a) (JStr b)"
| null: "same_shape JNull JNull"
| bool: "same_shape (JBool b) (JBool b)"
| int: "same_shape (JInt i) (JInt i)"
| flt: "same_shape (JFlt r) (JFlt r)"
| arr: "list_all2 same_shape xs ys \<Longrightarrow> same_shape (JArr xs) (JArr ys)"
| obj: "list_all2 (\<lambda>p q. fst p = fst q \<and> same_shape (snd p) (snd q)) d e
    \<Longrightarrow> same_shape (JObj d) (JObj e)"
monos list.rel_mono_strong

inductive_simps same_shape_simps [simp]:
  "same_shape (JStr a) j" "same_shape JNull j" "same_shape (JBool b) j" "same_shape (JInt i) j"
  "same_shape (JFlt r) j" "same_shape (JArr xs) j" "same_shape (JObj d) j"

lemma walk_values_shape:
  assumes "\<And>s v s' v'. f s v = (s', Some v') \<Longrightarrow> same_shape v v'"
  shows "walk_values f s d = (s', Some e) \<Longrightarrow>
    list_all2 (\<lambda>p q. fst p = fst q \<and> same_shape (snd p) (snd q)) d e"
proof (induction d arbitrary: s e)
  case (Cons p d)
  then show ?case by (cases p) (auto split: prod.splits option.splits dest: assms)
qed simp

lemma walk_elems_shape:
  assumes "\<And>s v s' v'. f s v = (s', Some v') \<Longrightarrow> same_shape v v'"
  shows "walk_elems f s xs = (s', Some ys) \<Longrightarrow> list_all2 same_shape xs ys"
proof (induction xs arbitrary: s ys)
  case (Cons x xs)
  then show ?case by (auto split: prod.splits option.splits dest: assms)
qed simp

lemma leaf_json_Str: "leaf_json lib leaf s str = (s', r) \<Longrightarrow> \<exists>b. r = Some (JStr b)"
  by (auto simp: leaf_json_def split: prod.splits)

lemma leaf_json_Some [simp]: "\<exists>j. snd (leaf_json lib leaf s str) = Some j"
  by (auto simp: leaf_json_def split: prod.splits)

lemma json_walk_impl_shape:
  "json_walk_impl stack lib leaf limit depth s j = (s', Some j') \<Longrightarrow> same_shape j j'"
proof (induction stack arbitrary: depth s j s' j')
  case (Suc stack)
  show ?case
  proof (cases j)
    case (JStr str)
    with Suc.prems show ?thesis by (auto split: if_splits option.splits prod.splits dest: leaf_json_Str)
  next
    case (JArr xs)
    with Suc.prems obtain ys where
      "walk_elems (json_walk_impl stack lib leaf limit depth) s xs = (s', Some ys)" "j' = JArr ys"
      by (cases "walk_elems (json_walk_impl stack lib leaf limit depth) s xs") auto
    with walk_elems_shape [OF Suc.IH] JArr show ?thesis by simp
  next
    case (JObj d)
    with Suc.prems obtain e where
      "walk_values (json_walk_impl stack lib leaf limit depth) s d = (s', Some e)" "j' = JObj e"
      by (cases "walk_values (json_walk_impl stack lib leaf limit depth) s d") auto
    with walk_values_shape [OF Suc.IH] JObj show ?thesis by simp
  qed (use Suc.prems in auto)
qed simp

lemma same_shape_refl: "same_shape j j"
proof (induction j)
  case (JArr xs)
  then show ?case by (simp add: list_all2_same)
next
  case (JObj d)
  then have "\<forall>p \<in> set d. same_shape (snd p) (snd p)" by (metis prod.collapse snds.intros)
  then show ?case by (simp add: list_all2_same)
qed simp_all

subsection \<open>Recursion depth\<close>

text \<open>Bare nesting of objects and arrays; a string counts nothing, whatever it holds.\<close>

fun json_nesting :: "json \<Rightarrow> nat" where
  "json_nesting (JArr xs) = Suc (foldr max (map json_nesting xs) 0)"
| "json_nesting (JObj d) = Suc (foldr max (map (\<lambda>p. json_nesting (snd p)) d) 0)"
| "json_nesting _ = 0"

lemma foldr_max_le: "foldr max ns (0 :: nat) \<le> n \<longleftrightarrow> (\<forall>m \<in> set ns. m \<le> n)"
  by (induction ns) auto

lemma walk_values_total:
  "(\<And>s p. p \<in> set d \<Longrightarrow> snd (f s (snd p)) \<noteq> None) \<Longrightarrow> snd (walk_values f s d) \<noteq> None"
proof (induction d arbitrary: s)
  case (Cons p d)
  obtain k v where p: "p = (k, v)" by (cases p)
  obtain s' v' where f: "f s v = (s', Some v')" using Cons.prems [of p s] p by (cases "f s v") auto
  have "snd (walk_values f s' d) \<noteq> None" using Cons by simp
  then obtain s'' d' where "walk_values f s' d = (s'', Some d')" by (cases "walk_values f s' d") auto
  with p f show ?case by simp
qed simp

lemma walk_elems_total:
  "(\<And>s x. x \<in> set xs \<Longrightarrow> snd (f s x) \<noteq> None) \<Longrightarrow> snd (walk_elems f s xs) \<noteq> None"
proof (induction xs arbitrary: s)
  case (Cons x xs)
  obtain s' x' where f: "f s x = (s', Some x')" using Cons.prems [of x s] by (cases "f s x") auto
  have "snd (walk_elems f s' xs) \<noteq> None" using Cons by simp
  then obtain s'' ys where "walk_elems f s' xs = (s'', Some ys)" by (cases "walk_elems f s' xs") auto
  with f show ?case by simp
qed simp

lemma nesting_member:
  "x \<in> set xs \<Longrightarrow> json_nesting (JArr xs) < Suc n \<Longrightarrow> json_nesting x < n"
  "p \<in> set d \<Longrightarrow> json_nesting (JObj d) < Suc n \<Longrightarrow> json_nesting (snd p) < n"
proof -
  show "x \<in> set xs \<Longrightarrow> json_nesting (JArr xs) < Suc n \<Longrightarrow> json_nesting x < n"
    using foldr_max_le [of "map json_nesting xs" "foldr max (map json_nesting xs) 0"] by fastforce
  show "p \<in> set d \<Longrightarrow> json_nesting (JObj d) < Suc n \<Longrightarrow> json_nesting (snd p) < n"
    using foldr_max_le [of "map (\<lambda>p. json_nesting (snd p)) d"
        "foldr max (map (\<lambda>p. json_nesting (snd p)) d) 0"] by fastforce
qed

lemma json_walk_impl_total:
  "json_nesting j < stack \<Longrightarrow> snd (json_walk_impl stack lib leaf limit depth s j) \<noteq> None"
proof (induction stack arbitrary: depth s j)
  case (Suc stack)
  let ?f = "json_walk_impl stack lib leaf limit depth"
  show ?case
  proof (cases j)
    case (JStr str)
    then show ?thesis by (auto split: option.split prod.split)
  next
    case (JArr xs)
    with Suc have "\<And>s x. x \<in> set xs \<Longrightarrow> snd (?f s x) \<noteq> None" by (blast dest: nesting_member)
    from walk_elems_total [OF this, where s = s] JArr show ?thesis by auto
  next
    case (JObj d)
    with Suc have "\<And>s p. p \<in> set d \<Longrightarrow> snd (?f s (snd p)) \<noteq> None" by (blast dest: nesting_member)
    from walk_values_total [where f = ?f and d = d and s = s, OF this] JObj show ?thesis by auto
  qed auto
qed simp

section \<open>Which strings the walk lets through\<close>

text \<open>
  A string passes a check when it satisfies it, or when it is the dump of a document all of
  whose strings pass; a document passes when its string values do (keys are not looked at).
\<close>

inductive passes :: "json_lib \<Rightarrow> (string \<Rightarrow> bool) \<Rightarrow> json \<Rightarrow> bool" for lib Q where
  leaf: "Q a \<Longrightarrow> passes lib Q (JStr a)"
| nested: "passes lib Q j \<Longrightarrow> jdumps lib j = Some a \<Longrightarrow> passes lib Q (JStr a)"
| null: "passes lib Q JNull"
| bool: "passes lib Q (JBool b)"
| int: "passes lib Q (JInt i)"
| flt: "passes lib Q (JFlt r)"
| arr: "(\<And>x. x \<in> set xs \<Longrightarrow> passes lib Q x) \<Longrightarrow> passes lib Q (JArr xs)"
| obj: "(\<And>p. p \<in> set d \<Longrightarrow> passes lib Q (snd p)) \<Longrightarrow> passes lib Q (JObj d)"

text \<open>
  What the code relies on in the JSON library: a dump is text the standard module parses, also
  after a leading byte order mark is stripped.
\<close>

definition dumps_parse :: "json_lib \<Rightarrow> bool" where
  "dumps_parse lib \<longleftrightarrow> (\<forall>j out. jdumps lib j = Some out \<longrightarrow> std_loads lib (lstrip_bom out) \<noteq> None)"

lemma validate_dump:
  "dumps_parse lib \<Longrightarrow> jdumps lib j = Some out \<Longrightarrow> validate_json_roundtrip lib x out = out"
  by (force simp: validate_json_roundtrip_def dumps_parse_def split: option.split)

text \<open>
  A leaf function that keeps an invariant of its state and enforces the check: what it returns
  passes, and a string it raises on, or whose replacement cannot be dumped, and which the walk
  therefore keeps, passes as it is.
\<close>

definition enforces :: "json_lib \<Rightarrow> ('s \<Rightarrow> bool) \<Rightarrow> (string \<Rightarrow> bool) \<Rightarrow> 's leaf_fn \<Rightarrow> bool" where
  "enforces lib I Q leaf \<longleftrightarrow> (\<forall>s x. I s \<longrightarrow>
     (case leaf s x of
        (s', None) \<Rightarrow> I s' \<and> Q x
      | (s', Some y) \<Rightarrow> I s' \<and> Q y \<and> (y \<noteq> x \<and> jdumps lib (JStr y) = None \<longrightarrow> Q x)))"

lemma leaf_json_passes:
  assumes "enforces lib I Q leaf" "I s" "leaf_json lib leaf s str = (s', r)"
  shows "I s' \<and> (\<exists>j. r = Some j \<and> passes lib Q j)"
proof -
  obtain s2 y where l: "leaf s str = (s2, y)" by fastforce
  with assms(1) [unfolded enforces_def, rule_format, OF assms(2), of str] have "case y of None \<Rightarrow> I s2 \<and> Q str
      | Some z \<Rightarrow> I s2 \<and> Q z \<and> (z \<noteq> str \<and> jdumps lib (JStr z) = None \<longrightarrow> Q str)"
    by (simp split: option.splits)
  with assms(3) l show ?thesis
    by (auto simp: leaf_json_def walk_leaf_def split: if_splits option.splits intro: passes.leaf)
qed

lemma walk_values_passes:
  assumes "\<And>s v s' r. I s \<Longrightarrow> f s v = (s', r) \<Longrightarrow> I s' \<and> (\<forall>j. r = Some j \<longrightarrow> P j)"
  shows "I s \<Longrightarrow> walk_values f s d = (s', r) \<Longrightarrow> I s' \<and> (\<forall>e. r = Some e \<longrightarrow> (\<forall>p \<in> set e. P (snd p)))"
proof (induction d arbitrary: s s' r)
  case (Cons p d)
  obtain k v where p: "p = (k, v)" by (cases p)
  obtain t x where f: "f s v = (t, x)" by fastforce
  note fx = assms [OF Cons.prems(1) f]
  show ?case
  proof (cases x)
    case None
    with Cons.prems p f fx show ?thesis by auto
  next
    case (Some v')
    obtain u y where w: "walk_values f t d = (u, y)" by fastforce
    with Cons.IH [OF _ w] fx Cons.prems p f Some show ?thesis by (auto split: option.splits)
  qed
qed auto

lemma walk_elems_passes:
  assumes "\<And>s v s' r. I s \<Longrightarrow> f s v = (s', r) \<Longrightarrow> I s' \<and> (\<forall>j. r = Some j \<longrightarrow> P j)"
  shows "I s \<Longrightarrow> walk_elems f s xs = (s', r) \<Longrightarrow> I s' \<and> (\<forall>ys. r = Some ys \<longrightarrow> (\<forall>x \<in> set ys. P x))"
proof (induction xs arbitrary: s s' r)
  case (Cons v xs)
  obtain t x where f: "f s v = (t, x)" by fastforce
  note fx = assms [OF Cons.prems(1) f]
  show ?case
  proof (cases x)
    case None
    with Cons.prems f fx show ?thesis by auto
  next
    case (Some v')
    obtain u y where w: "walk_elems f t xs = (u, y)" by fastforce
    with Cons.IH [OF _ w] fx Cons.prems f Some show ?thesis by (auto split: option.splits)
  qed
qed auto

lemma json_walk_impl_passes:
  assumes lib: "dumps_parse lib" and leaf: "enforces lib I Q leaf"
  shows "I s \<Longrightarrow> json_walk_impl stack lib leaf limit depth s j = (s', r) \<Longrightarrow>
    I s' \<and> (\<forall>j'. r = Some j' \<longrightarrow> passes lib Q j')"
proof (induction stack arbitrary: depth s j s' r)
  case (Suc stack)
  let ?f = "json_walk_impl stack lib leaf limit depth"
  have ih: "\<And>s v s' r. I s \<Longrightarrow> ?f s v = (s', r) \<Longrightarrow> I s' \<and> (\<forall>j. r = Some j \<longrightarrow> passes lib Q j)"
    using Suc.IH by blast
  note lp = leaf_json_passes [OF leaf]
  show ?case
  proof (cases j)
    case (JStr str)
    show ?thesis
    proof (cases "depth > limit \<or> inner_json lib str = None")
      case True
      with Suc.prems JStr have "leaf_json lib leaf s str = (s', r)" by (auto split: if_splits)
      from lp [OF Suc.prems(1) this] show ?thesis by auto
    next
      case False
      then obtain inner where i: "inner_json lib str = Some inner" "\<not> depth > limit" by auto
      obtain t x where w: "json_walk_impl stack lib leaf limit (Suc depth) s inner = (t, x)" by fastforce
      note ih = Suc.IH [OF Suc.prems(1) w]
      show ?thesis
      proof (cases "Option.bind x (jdumps lib)")
        case None
        with Suc.prems JStr i w have "leaf_json lib leaf t str = (s', r)" by (auto split: option.splits)
        with lp ih show ?thesis by blast
      next
        case (Some out)
        then obtain walked where x: "x = Some walked" "jdumps lib walked = Some out" by (cases x) auto
        with Suc.prems JStr i w validate_dump [OF lib x(2)] have "s' = t" "r = Some (JStr out)" by auto
        with ih x show ?thesis by (auto intro: passes.nested)
      qed
    qed
  next
    case (JArr xs)
    obtain t ys where w: "walk_elems ?f s xs = (t, ys)" by fastforce
    have "I t \<and> (\<forall>zs. ys = Some zs \<longrightarrow> (\<forall>x \<in> set zs. passes lib Q x))"
      by (rule walk_elems_passes [where I = I and f = ?f and P = "passes lib Q", OF _ Suc.prems(1) w]) (rule ih)
    with Suc.prems JArr w show ?thesis by (auto intro!: passes.arr)
  next
    case (JObj d)
    obtain t e where w: "walk_values ?f s d = (t, e)" by fastforce
    have "I t \<and> (\<forall>d'. e = Some d' \<longrightarrow> (\<forall>p \<in> set d'. passes lib Q (snd p)))"
      by (rule walk_values_passes [where I = I and f = ?f and P = "passes lib Q", OF _ Suc.prems(1) w]) (rule ih)
    with Suc.prems JObj w show ?thesis by (auto intro!: passes.obj)
  qed (use Suc.prems in \<open>auto intro: passes.intros\<close>)
qed auto

section \<open>The two forms agree\<close>

text \<open>The keys of every object are distinct, as in a Python dictionary.\<close>

inductive json_wf :: "json \<Rightarrow> bool" where
  atom: "(\<And>xs. j \<noteq> JArr xs) \<Longrightarrow> (\<And>d. j \<noteq> JObj d) \<Longrightarrow> json_wf j"
| arr: "(\<And>x. x \<in> set xs \<Longrightarrow> json_wf x) \<Longrightarrow> json_wf (JArr xs)"
| obj: "dict_ok d \<Longrightarrow> (\<And>p. p \<in> set d \<Longrightarrow> json_wf (snd p)) \<Longrightarrow> json_wf (JObj d)"

inductive_simps json_wf_simps [simp]:
  "json_wf (JArr xs)" "json_wf (JObj d)" "json_wf (JStr a)"

lemma async_list_loop_elems:
  "async_list_loop f s xs res = map_prod id (map_option ((@) res)) (walk_elems f s xs)"
proof (induction xs arbitrary: s res)
  case (Cons x xs)
  then show ?case
    by (auto split: prod.split option.split simp: fun_eq_iff option.map_comp comp_def)
qed simp

lemma async_dict_loop_values:
  "dict_ok (out @ d) \<Longrightarrow>
    async_dict_loop f s d out = map_prod id (map_option ((@) out)) (walk_values f s d)"
proof (induction d arbitrary: s out)
  case (Cons p d)
  obtain k v where p: "p = (k, v)" by (cases p)
  have new: "dset k v' out = out @ [(k, v')]" for v'
    using Cons.prems by (intro dset_new) (auto simp: dict_ok_def p dget_None_key)
  have ok: "dict_ok ((out @ [(k, v')]) @ d)" for v'
    using Cons.prems by (simp add: dict_ok_def p)
  show ?case
    using Cons.IH [OF ok]
    by (auto split: prod.split option.split simp: p new fun_eq_iff option.map_comp comp_def)
qed simp

lemma walk_values_cong:
  "(\<And>s p. p \<in> set d \<Longrightarrow> f s (snd p) = g s (snd p)) \<Longrightarrow> walk_values f s d = walk_values g s d"
proof (induction d arbitrary: s)
  case (Cons p d)
  have "walk_values f s d = walk_values g s d" for s using Cons by simp
  moreover have "f s (snd p) = g s (snd p)" using Cons.prems by simp
  ultimately show ?case by (cases p) (simp add: prod.case_distrib split: prod.split option.split)
qed simp

lemma walk_elems_cong:
  "(\<And>s x. x \<in> set xs \<Longrightarrow> f s x = g s x) \<Longrightarrow> walk_elems f s xs = walk_elems g s xs"
proof (induction xs arbitrary: s)
  case (Cons x xs)
  have "walk_elems f s xs = walk_elems g s xs" for s using Cons by simp
  moreover have "f s x = g s x" using Cons.prems by simp
  ultimately show ?case by (simp split: prod.split option.split)
qed simp

definition loads_wf :: "json_lib \<Rightarrow> bool" where
  "loads_wf lib \<longleftrightarrow> (\<forall>t j. jloads lib t = Some j \<longrightarrow> json_wf j)"

lemma inner_json_wf: "loads_wf lib \<Longrightarrow> inner_json lib str = Some j \<Longrightarrow> json_wf j"
  by (auto simp: inner_json_def loads_wf_def Let_def split: if_splits option.splits json.splits)

lemma append_Nil_id: "map_prod id (map_option ((@) [])) = id"
proof -
  have "map_option ((@) []) r = r" for r :: "'b list option" by (cases r) simp_all
  then show ?thesis by (auto simp: fun_eq_iff)
qed

lemma async_impl_eq:
  assumes "loads_wf lib"
  shows "json_wf j \<Longrightarrow>
    json_walk_async_impl stack lib leaf limit depth s j = json_walk_impl stack lib leaf limit depth s j"
proof (induction stack arbitrary: depth s j)
  case (Suc stack)
  let ?f = "json_walk_async_impl stack lib leaf limit depth"
  let ?g = "json_walk_impl stack lib leaf limit depth"
  show ?case
  proof (cases j)
    case (JStr str)
    have "json_walk_async_impl stack lib leaf limit (depth + 1) s i
        = json_walk_impl stack lib leaf limit (depth + 1) s i" if "inner_json lib str = Some i" for i
      using Suc.IH [OF inner_json_wf [OF assms that]] .
    with JStr show ?thesis by (cases "inner_json lib str") simp_all
  next
    case (JArr xs)
    with Suc have "walk_elems ?f s xs = walk_elems ?g s xs" by (intro walk_elems_cong) simp
    with JArr show ?thesis by (simp add: async_list_loop_elems append_Nil_id)
  next
    case (JObj d)
    with Suc have "walk_values ?f s d = walk_values ?g s d" by (intro walk_values_cong) auto
    with JObj Suc.prems show ?thesis by (simp add: async_dict_loop_values append_Nil_id)
  qed simp_all
qed simp

lemma json_walk_keeps_shape: "same_shape j (snd (json_walk stack lib leaf limit s j))"
proof -
  obtain s' r where w: "json_walk_impl stack lib leaf limit 0 s j = (s', r)" by fastforce
  with json_walk_impl_shape [of stack lib leaf limit 0 s j s'] same_shape_refl [of j] show ?thesis
    by (cases r) (auto simp: json_walk_def)
qed

lemma json_walk_passes:
  assumes "dumps_parse lib" and "enforces lib I Q leaf" and "I s" and "json_nesting j < stack"
  shows "I (fst (json_walk stack lib leaf limit s j)) \<and> passes lib Q (snd (json_walk stack lib leaf limit s j))"
proof -
  obtain s' r where w: "json_walk_impl stack lib leaf limit 0 s j = (s', r)" by fastforce
  with json_walk_impl_total [OF assms(4), of lib leaf limit 0 s]
  obtain j' where "r = Some j'" by auto
  with json_walk_impl_passes [OF assms(1-3) w] w show ?thesis by (simp add: json_walk_def)
qed

section \<open>Properties\<close>

text \<open>A document of nested arrays around a value: the shape of a depth bomb.\<close>

primrec nest :: "nat \<Rightarrow> json \<Rightarrow> json" where
  "nest 0 j = j"
| "nest (Suc n) j = JArr [nest n j]"

lemma nest_walk: "json_walk_impl stack lib leaf limit depth s (nest (stack + n) j) = (s, None)"
  by (induction stack arbitrary: depth) simp_all

text \<open>
  The walk never changes the structure: whatever the leaf function and the JSON library do,
  the result has the same keys in the same order, the same array lengths and the same numbers,
  booleans and nulls as the input, and a string where the input has one.  (So an object's keys
  are never redacted.)
\<close>

theorem json_walk_shape: "same_shape j (snd (json_walk stack lib leaf limit s j))"
  by (rule json_walk_keeps_shape)

text \<open>
  C18. Every string value is checked: when the leaf function only returns strings that pass (a
  string on which it raises, or whose replacement cannot be dumped, has to pass as it is), the
  library's dumps parse, and the objects and arrays are nested less deep than the recursion limit,
  every string value of the result passes, or is the dump of an inner document all of whose
  strings pass; the invariant of the leaf function's state is kept.  (Beyond the limit the document
  comes back as it is: \<open>json_walk_depth_bomb\<close>.)
\<close>

theorem json_walk_checked:
  assumes "dumps_parse lib" and "enforces lib I Q leaf" and "I s" and "json_nesting j < stack"
  shows "I (fst (json_walk stack lib leaf limit s j)) \<and> passes lib Q (snd (json_walk stack lib leaf limit s j))"
  by (rule json_walk_passes [OF assms])

text \<open>A library and a leaf function for the examples: only one document, whose dump is known.\<close>

definition demo_lib :: json_lib where
  "demo_lib = \<lparr>jloads = (\<lambda>t. if t = ''[]'' then Some (JArr []) else None),
     jdumps = (\<lambda>j. case j of JArr [] \<Rightarrow> Some ''[]'' | JStr _ \<Rightarrow> Some ''[]'' | _ \<Rightarrow> None),
     std_loads = (\<lambda>t. if t = ''[]'' then Some (JArr []) else None)\<rparr>"

definition demo_leaf :: "nat leaf_fn" where
  "demo_leaf n a = (Suc n, Some ''safe'')"

lemma demo_lib_ok: "dumps_parse demo_lib" "loads_wf demo_lib"
  "enforces demo_lib (\<lambda>_. True) (\<lambda>a. a = ''safe'') demo_leaf"
  by (auto simp: dumps_parse_def loads_wf_def demo_lib_def enforces_def demo_leaf_def lstrip_bom_def
      bom_def bytes_def cp_width_def byte_def split: json.splits list.splits if_splits)

theorem json_walk_checked_witness:
  "passes demo_lib (\<lambda>a. a = ''safe'')
     (snd (json_walk 9 demo_lib demo_leaf 5 0 (JObj [(''k'', JStr ''secret''), (''l'', JArr [JStr ''x''])])))"
  using json_walk_checked [OF demo_lib_ok(1,3),
      where j = "JObj [(''k'', JStr ''secret''), (''l'', JArr [JStr ''x''])]" and stack = 9] by simp

text \<open>
  Deep nesting switches the protection off: as soon as the arrays around a value are as deep as
  the calls left on the stack, the walk gives the document back as it came, with the leaf
  function never called, whatever the value holds.
\<close>

theorem json_walk_depth_bomb:
  "json_walk stack lib leaf limit s (nest (stack + n) (JStr secret)) = (s, nest (stack + n) (JStr secret))"
  by (simp add: json_walk_def nest_walk)

text \<open>
  The asynchronous walk is the synchronous one: on a document whose objects have distinct keys,
  with a parser that yields such documents, it makes the same leaf calls in the same order and
  returns the same document.
\<close>

theorem json_walk_async_eq:
  assumes "loads_wf lib" and "json_wf j"
  shows "json_walk_async stack lib leaf limit s j = json_walk stack lib leaf limit s j"
  by (simp add: json_walk_async_def json_walk_def async_impl_eq [OF assms])

theorem json_walk_async_eq_witness:
  "json_walk_async 9 demo_lib demo_leaf 5 0 (JObj [(''k'', JStr ''a''), (''l'', JStr ''b'')])
     = json_walk 9 demo_lib demo_leaf 5 0 (JObj [(''k'', JStr ''a''), (''l'', JStr ''b'')])"
  by (rule json_walk_async_eq [OF demo_lib_ok(2)]) (auto simp: dict_ok_def)

end
