(* ===== verification/Cred_Json.thy ===== *)
theory Cred_Json
  imports Cred_Vault Json_Walk
begin

text \<open>
  The JSON-aware redaction and restoration of credentials (\<open>_cred_json_walk\<close>,
  \<open>_redact_json_aware\<close> and \<open>_restore_json_aware\<close> of \<open>_token.py\<close>): a text that is a JSON document
  is redacted string by string, any other as plain text.  The walk is the shared one at depth
  limit five, or, when the shared module cannot be imported, a copy of its own.
\<close>

section \<open>The walk\<close>

definition CRED_DEPTH :: nat where "CRED_DEPTH = 5"

definition cred_validate_json_roundtrip :: "json_lib \<Rightarrow> string \<Rightarrow> string \<Rightarrow> string" where
  "cred_validate_json_roundtrip lib original output =
     (let stripped = py_lstrip (lstrip_bom original)
      in if \<not> (prefix ''{'' stripped \<or> prefix ''['' stripped) then output
         else if std_loads lib (lstrip_bom original) = None then output
         else if std_loads lib (lstrip_bom output) \<noteq> None then output
         else original)"

text \<open>The copy: no check of the inner dump, and the exceptions of an inner walk are caught.\<close>

primrec cred_walk_fallback ::
  "nat \<Rightarrow> json_lib \<Rightarrow> 's leaf_fn \<Rightarrow> nat \<Rightarrow> 's \<Rightarrow> json \<Rightarrow> 's \<times> json option" where
  "cred_walk_fallback 0 lib leaf depth s obj = (s, None)"
| "cred_walk_fallback (Suc stack) lib leaf depth s obj =
     (if depth > CRED_DEPTH then
        (case obj of
           JStr str \<Rightarrow> leaf_json lib leaf s str
         | _ \<Rightarrow> (s, Some obj))
      else
        (case obj of
           JStr str \<Rightarrow>
             (let inner_stripped = py_strip (lstrip_bom str);
                  plain = (\<lambda>s. leaf_json lib leaf s str);
                  go = (\<lambda>inner.
                    (case cred_walk_fallback stack lib leaf (depth + 1) s inner of
                       (s', Some walked) \<Rightarrow>
                         (case jdumps lib walked of
                            Some out \<Rightarrow> (s', Some (JStr out))
                          | None \<Rightarrow> plain s')
                     | (s', None) \<Rightarrow> plain s'))
              in if looks_json inner_stripped then
                   (case jloads lib inner_stripped of
                      Some (JObj d) \<Rightarrow> go (JObj d)
                    | Some (JArr xs) \<Rightarrow> go (JArr xs)
                    | _ \<Rightarrow> plain s)
                 else plain s)
         | JObj d \<Rightarrow>
             map_prod id (map_option JObj) (walk_values (cred_walk_fallback stack lib leaf depth) s d)
         | JArr xs \<Rightarrow>
             map_prod id (map_option JArr) (walk_elems (cred_walk_fallback stack lib leaf depth) s xs)
         | _ \<Rightarrow> (s, Some obj)))"

text \<open>\<open>_cred_json_walk\<close> with the shared module present, as the repository ships it.\<close>

definition cred_json_walk :: "nat \<Rightarrow> json_lib \<Rightarrow> 's leaf_fn \<Rightarrow> 's \<Rightarrow> json \<Rightarrow> 's \<times> json" where
  "cred_json_walk stack lib leaf s obj = json_walk stack lib leaf CRED_DEPTH s obj"

section \<open>Redaction and restoration\<close>

definition redact_str :: "(string, string) dict option \<Rightarrow> cred_vault leaf_fn" where
  "redact_str mapping s x =
     (case mapping of
        Some m \<Rightarrow> (s, Some (sub_table (compile_pat m) m x))
      | None \<Rightarrow> map_prod id Some (redact x None s))"

definition redact_json_aware ::
  "nat \<Rightarrow> json_lib \<Rightarrow> string \<Rightarrow> (string, string) dict option \<Rightarrow> cred_vault \<Rightarrow> cred_vault \<times> string" where
  "redact_json_aware stack lib text mapping s =
     (if (case mapping of Some m \<Rightarrow> m | None \<Rightarrow> pwd_to_token s) = [] then (s, text)
      else if \<not> looks_json (py_lstrip (lstrip_bom text)) then redact text mapping s
      else case jloads lib (lstrip_bom text) of
        None \<Rightarrow> redact text mapping s
      | Some obj \<Rightarrow>
          (case cred_json_walk stack lib (redact_str mapping) s obj of
             (s1, redacted) \<Rightarrow>
               (case jdumps lib redacted of
                  None \<Rightarrow> redact text mapping s1
                | Some out \<Rightarrow> (s1, cred_validate_json_roundtrip lib text out))))"

definition restore_str :: "(nat \<times> (string, string) dict) option \<Rightarrow> cred_vault leaf_fn" where
  "restore_str mapping s x =
     (case mapping of
        Some (_, m) \<Rightarrow> (s, Some (sub_table (compile_pat m) m x))
      | None \<Rightarrow> map_prod id Some (restore x None s))"

definition restore_json_aware ::
  "nat \<Rightarrow> json_lib \<Rightarrow> string \<Rightarrow> (nat \<times> (string, string) dict) option \<Rightarrow> cred_vault \<Rightarrow> cred_vault \<times> string"
  where
  "restore_json_aware stack lib text mapping s =
     (if (case mapping of Some (_, m) \<Rightarrow> m | None \<Rightarrow> token_to_pwd s) = [] then (s, text)
      else if \<not> looks_json (py_lstrip (lstrip_bom text)) then restore text mapping s
      else case jloads lib (lstrip_bom text) of
        None \<Rightarrow> restore text mapping s
      | Some obj \<Rightarrow>
          (case cred_json_walk stack lib (restore_str mapping) s obj of
             (s1, restored) \<Rightarrow>
               (case jdumps lib restored of
                  None \<Rightarrow> restore text mapping s1
                | Some out \<Rightarrow> (s1, cred_validate_json_roundtrip lib text out))))"

section \<open>The copy is the shared walk\<close>


text \<open>The strings of a document, and how deep JSON text is nested inside them.\<close>

fun json_strings :: "json \<Rightarrow> string list" where
  "json_strings (JStr a) = [a]"
| "json_strings (JArr xs) = concat (map json_strings xs)"
| "json_strings (JObj d) = concat (map (\<lambda>p. json_strings (snd p)) d)"
| "json_strings _ = []"

primrec shallow :: "json_lib \<Rightarrow> nat \<Rightarrow> json \<Rightarrow> bool" where
  "shallow lib 0 j = list_all (\<lambda>a. inner_json lib a = None) (json_strings j)"
| "shallow lib (Suc n) j =
     list_all (\<lambda>a. case inner_json lib a of None \<Rightarrow> True | Some i \<Rightarrow> shallow lib n i) (json_strings j)"

lemma shallow_member:
  "shallow lib n (JArr xs) \<Longrightarrow> x \<in> set xs \<Longrightarrow> shallow lib n x"
  "shallow lib n (JObj d) \<Longrightarrow> p \<in> set d \<Longrightarrow> shallow lib n (snd p)"
  by (cases n; fastforce simp: list_all_iff)+

lemma inner_json_cases:
  "inner_json lib a = Some i \<Longrightarrow> looks_json (py_strip (lstrip_bom a))
     \<and> jloads lib (py_strip (lstrip_bom a)) = Some i \<and> ((\<exists>d. i = JObj d) \<or> (\<exists>xs. i = JArr xs))"
  by (auto simp: inner_json_def Let_def split: if_splits option.splits json.splits)

text \<open>A step of the copy on a string, in the words of the shared walk.\<close>

lemma fallback_str:
  assumes "dumps_parse lib" and "\<not> depth > CRED_DEPTH"
  shows "cred_walk_fallback (Suc stack) lib leaf depth s (JStr str) =
    (case inner_json lib str of
       None \<Rightarrow> leaf_json lib leaf s str
     | Some inner \<Rightarrow>
         (case cred_walk_fallback stack lib leaf (depth + 1) s inner of
            (s', Some walked) \<Rightarrow>
              (case jdumps lib walked of
                 Some out \<Rightarrow>
                   (s', Some (JStr (validate_json_roundtrip lib (py_strip (lstrip_bom str)) out)))
               | None \<Rightarrow> leaf_json lib leaf s' str)
          | (s', None) \<Rightarrow> leaf_json lib leaf s' str))"
  using assms(2)
  by (auto simp: inner_json_def Let_def validate_dump [OF assms(1)]
      split: prod.split option.split json.split)

lemma fallback_eq:
  assumes "dumps_parse lib"
  shows "depth \<le> CRED_DEPTH \<Longrightarrow> shallow lib (CRED_DEPTH - depth) j \<Longrightarrow>
    cred_walk_fallback stack lib leaf depth s j = json_walk_impl stack lib leaf CRED_DEPTH depth s j"
proof (induction stack arbitrary: depth s j)
  case (Suc stack)
  let ?f = "cred_walk_fallback stack lib leaf depth" and ?g = "json_walk_impl stack lib leaf CRED_DEPTH depth"
  have le: "\<not> depth > CRED_DEPTH" using Suc.prems by simp
  show ?case
  proof (cases j)
    case (JStr str)
    have "cred_walk_fallback stack lib leaf (depth + 1) s i
        = json_walk_impl stack lib leaf CRED_DEPTH (depth + 1) s i" if "inner_json lib str = Some i" for i
    proof -
      from Suc.prems JStr that obtain n where "CRED_DEPTH - depth = Suc n" "shallow lib n i"
        by (cases "CRED_DEPTH - depth") auto
      then show ?thesis by (intro Suc.IH) (simp_all add: diff_Suc)
    qed
    with le show ?thesis unfolding JStr fallback_str [OF assms le]
      by (auto split: option.split)
  next
    case (JArr xs)
    with Suc have "walk_elems ?f s xs = walk_elems ?g s xs"
      by (intro walk_elems_cong) (blast dest: shallow_member)
    with JArr le show ?thesis by simp
  next
    case (JObj d)
    with Suc have "walk_values ?f s d = walk_values ?g s d"
      by (intro walk_values_cong) (blast dest: shallow_member)
    with JObj le show ?thesis by simp
  qed (use le in auto)
qed simp

text \<open>
  The copy of the walk that is used when the shared module cannot be imported is the shared walk:
  on documents whose strings nest JSON text at most five deep, with a library whose dumps parse,
  it makes the same leaf calls and returns the same document or the same exception.
\<close>

theorem cred_walk_copy_eq:
  assumes "dumps_parse lib" and "shallow lib CRED_DEPTH j"
  shows "cred_walk_fallback stack lib leaf 0 s j = json_walk_impl stack lib leaf CRED_DEPTH 0 s j"
  using fallback_eq [OF assms(1), of 0] assms(2) by simp

theorem cred_walk_copy_eq_witness:
  "cred_walk_fallback 9 demo_lib demo_leaf 0 0 (JArr [JStr ''[]'', JStr ''x''])
     = json_walk_impl 9 demo_lib demo_leaf CRED_DEPTH 0 0 (JArr [JStr ''[]'', JStr ''x''])"
proof -
  have "shallow demo_lib (Suc n) (JArr [JStr ''[]'', JStr ''x''])" for n
    by (cases n) (auto split: option.split dest!: inner_json_cases simp: demo_lib_def split: if_splits)
  then have "shallow demo_lib CRED_DEPTH (JArr [JStr ''[]'', JStr ''x''])"
    by (metis CRED_DEPTH_def numeral_eq_Suc)
  from cred_walk_copy_eq [OF demo_lib_ok(1) this] show ?thesis .
qed

section \<open>What redaction of a document sends out\<close>

definition active_map :: "(string, string) dict option \<Rightarrow> cred_vault \<Rightarrow> (string, string) dict" where
  "active_map mapping s = (case mapping of Some m \<Rightarrow> m | None \<Rightarrow> pwd_to_token s)"

lemma redact_frame [simp]:
  "pwd_to_token (fst (redact x m s)) = pwd_to_token s" "token_to_pwd (fst (redact x m s)) = token_to_pwd s"
  by (auto simp: redact_def Let_def refresh_redact_cache_def split: option.split prod.split)

lemma restore_frame [simp]:
  "pwd_to_token (fst (restore x m s)) = pwd_to_token s" "token_to_pwd (fst (restore x m s)) = token_to_pwd s"
  by (auto simp: restore_def Let_def refresh_restore_cache_def refresh_active_cache_def
      split: option.split prod.split)

text \<open>A vault in the same state up to its caches.\<close>

definition same_maps :: "cred_vault \<Rightarrow> cred_vault \<Rightarrow> bool" where
  "same_maps s u \<longleftrightarrow> vault_ok u \<and> pwd_to_token u = pwd_to_token s \<and> token_to_pwd u = token_to_pwd s"

lemma same_maps_refl: "vault_ok s \<Longrightarrow> same_maps s s"
  by (simp add: same_maps_def)

lemma redact_str_step:
  assumes "same_maps s u" and "active_map mapping s \<noteq> []"
  shows "\<exists>u'. redact_str mapping u x = (u', Some (redact_with (active_map mapping s) x)) \<and> same_maps s u'"
proof (cases mapping)
  case None
  have u: "vault_ok u" "pwd_to_token u = pwd_to_token s" "token_to_pwd u = token_to_pwd s"
    using assms(1) by (simp_all add: same_maps_def)
  have "same_maps s (fst (redact x None u))"
    using vault_ok_redact [OF u(1)] u(2,3) by (simp add: same_maps_def)
  moreover have "redact_str None u x = (fst (redact x None u), Some (redact_with (pwd_to_token s) x))"
    using redact_fresh [OF u(1), of x] u(2) by (simp add: redact_str_def prod_eq_iff)
  ultimately show ?thesis using None by (simp add: active_map_def)
next
  case (Some m)
  with assms show ?thesis by (simp add: redact_str_def active_map_def redact_with_def)
qed

lemma restore_str_step:
  assumes "same_maps s u" and "token_to_pwd s \<noteq> []"
  shows "\<exists>u'. restore_str None u x = (u', Some (redact_with (token_to_pwd s) x)) \<and> same_maps s u'"
proof -
  have u: "vault_ok u" "pwd_to_token u = pwd_to_token s" "token_to_pwd u = token_to_pwd s"
    using assms(1) by (simp_all add: same_maps_def)
  have "same_maps s (fst (restore x None u))"
    using vault_ok_restore [OF u(1), of None x] u(2,3) by (simp add: same_maps_def)
  moreover have "restore_str None u x = (fst (restore x None u), Some (redact_with (token_to_pwd s) x))"
    using restore_fresh [OF u(1), of x] u(3) by (simp add: restore_str_def prod_eq_iff)
  ultimately show ?thesis by blast
qed








text \<open>A library for the examples: documents are arrays of one string without escapes.\<close>

definition line_lib :: json_lib where
  "line_lib =
     (let loads = (\<lambda>t. if prefix ''[\"'' t \<and> suffix ''\"]'' t \<and> 4 \<le> length t
            then Some (JArr [JStr (take (length t - 4) (drop 2 t))]) else Some JNull)
      in \<lparr>jloads = loads,
          jdumps = (\<lambda>j. case j of JArr [JStr x] \<Rightarrow> Some (''[\"'' @ x @ ''\"]'') | _ \<Rightarrow> Some ''null''),
          std_loads = loads\<rparr>)"

lemma line_lib_ok: "dumps_parse line_lib" "jdumps line_lib j \<noteq> None"
  by (auto simp: dumps_parse_def line_lib_def Let_def split: json.split list.split)


section \<open>Round trip\<close>

fun json_map :: "(string \<Rightarrow> string) \<Rightarrow> json \<Rightarrow> json" where
  "json_map g (JStr a) = JStr (g a)"
| "json_map g (JArr xs) = JArr (map (json_map g) xs)"
| "json_map g (JObj d) = JObj (map (\<lambda>p. (fst p, json_map g (snd p))) d)"
| "json_map g j = j"

text \<open>No string of the document is itself JSON text.\<close>

definition no_inner :: "json_lib \<Rightarrow> json \<Rightarrow> bool" where
  "no_inner lib j \<longleftrightarrow> list_all (\<lambda>a. inner_json lib a = None) (json_strings j)"

lemma no_inner_member:
  "no_inner lib (JArr xs) \<Longrightarrow> x \<in> set xs \<Longrightarrow> no_inner lib x"
  "no_inner lib (JObj d) \<Longrightarrow> p \<in> set d \<Longrightarrow> no_inner lib (snd p)"
  by (fastforce simp: no_inner_def list_all_iff)+

lemma json_strings_map: "json_strings (json_map g j) = map g (json_strings j)"
proof (induction j)
  case (JObj d)
  have "json_strings (json_map g (snd p)) = map g (json_strings (snd p))" if "p \<in> set d" for p
    using that JObj.IH [of p "snd p"] by (simp add: snds.simps)
  then have "map (\<lambda>p. json_strings (json_map g (snd p))) d = map (\<lambda>p. map g (json_strings (snd p))) d" by simp
  then have "concat (map (\<lambda>p. json_strings (json_map g (snd p))) d) = concat (map (\<lambda>p. map g (json_strings (snd p))) d)"
    by (rule arg_cong)
  then show ?case by (simp only: json_map.simps json_strings.simps map_concat map_map comp_def snd_conv)
next
  case (JArr xs)
  then have "map (\<lambda>x. json_strings (json_map g x)) xs = map (\<lambda>x. map g (json_strings x)) xs" by simp
  then have "concat (map (\<lambda>x. json_strings (json_map g x)) xs) = concat (map (\<lambda>x. map g (json_strings x)) xs)"
    by (rule arg_cong)
  then show ?case by (simp only: json_map.simps json_strings.simps map_concat map_map comp_def)
qed simp_all

lemma json_map_id: "(\<And>a. a \<in> set (json_strings j) \<Longrightarrow> g (f a) = a) \<Longrightarrow> json_map g (json_map f j) = j"
proof (induction j)
  case (JObj d)
  have "json_map g (json_map f (snd p)) = snd p" if "p \<in> set d" for p
    using that JObj.IH [of p "snd p"] JObj.prems by (auto simp: snds.simps)
  then show ?case by (auto simp: map_idI)
next
  case (JArr xs)
  have "json_map g (json_map f x) = x" if "x \<in> set xs" for x
    using that JArr.IH [of x] JArr.prems by auto
  then show ?case by (auto simp: map_idI)
qed simp_all

lemma walk_values_map:
  assumes "\<And>s p. p \<in> set d \<Longrightarrow> I s \<Longrightarrow> \<exists>s'. f s (snd p) = (s', Some (h (snd p))) \<and> I s'"
  shows "I s \<Longrightarrow> \<exists>s'. walk_values f s d = (s', Some (map (\<lambda>p. (fst p, h (snd p))) d)) \<and> I s'"
  using assms
proof (induction d arbitrary: s)
  case (Cons p d)
  obtain s1 where 1: "f s (snd p) = (s1, Some (h (snd p)))" "I s1" using Cons.prems by fastforce
  obtain s2 where "walk_values f s1 d = (s2, Some (map (\<lambda>p. (fst p, h (snd p))) d))" "I s2"
    using Cons.IH [OF 1(2)] Cons.prems(2) by auto
  with 1 show ?case by (cases p) simp
qed simp

lemma walk_elems_map:
  assumes "\<And>s x. x \<in> set xs \<Longrightarrow> I s \<Longrightarrow> \<exists>s'. f s x = (s', Some (h x)) \<and> I s'"
  shows "I s \<Longrightarrow> \<exists>s'. walk_elems f s xs = (s', Some (map h xs)) \<and> I s'"
  using assms
proof (induction xs arbitrary: s)
  case (Cons x xs)
  obtain s1 where 1: "f s x = (s1, Some (h x))" "I s1" using Cons.prems by fastforce
  obtain s2 where "walk_elems f s1 xs = (s2, Some (map h xs))" "I s2"
    using Cons.IH [OF 1(2)] Cons.prems(2) by auto
  with 1 show ?case by simp
qed simp

text \<open>On such a document the walk maps the leaf function over the strings.\<close>

lemma json_walk_impl_map:
  assumes leaf: "\<And>s x. I s \<Longrightarrow> \<exists>s'. leaf s x = (s', Some (g x)) \<and> I s'"
  shows "I s \<Longrightarrow> no_inner lib j \<Longrightarrow> json_nesting j < stack \<Longrightarrow>
    (\<And>x. x \<in> set (json_strings j) \<Longrightarrow> jdumps lib (JStr (g x)) \<noteq> None) \<Longrightarrow>
    \<exists>s'. json_walk_impl stack lib leaf limit depth s j = (s', Some (json_map g j)) \<and> I s'"
proof (induction stack arbitrary: s j)
  case (Suc stack)
  let ?f = "json_walk_impl stack lib leaf limit depth"
  show ?case
  proof (cases j)
    case (JStr str)
    obtain s' where "leaf s str = (s', Some (g str))" "I s'" using leaf Suc.prems(1) by blast
    moreover have "inner_json lib str = None" using Suc.prems(2) JStr by (simp add: no_inner_def)
    ultimately show ?thesis using JStr Suc.prems(4) [of str]
      by (auto simp: leaf_json_def walk_leaf_def split: option.split)
  next
    case (JArr xs)
    have "\<exists>s'. ?f t x = (s', Some (json_map g x)) \<and> I s'" if "x \<in> set xs" "I t" for t x
      using Suc.prems that JArr
      by (intro Suc.IH) (auto intro: no_inner_member(1) nesting_member(1))
    from walk_elems_map [of xs I ?f "json_map g", OF this Suc.prems(1)] JArr show ?thesis by auto
  next
    case (JObj d)
    have "\<exists>s'. ?f t (snd p) = (s', Some (json_map g (snd p))) \<and> I s'" if "p \<in> set d" "I t" for t p
      using Suc.prems that JObj
      by (intro Suc.IH) (auto intro: no_inner_member(2) nesting_member(2))
    from walk_values_map [of d I ?f "json_map g", OF this Suc.prems(1)] JObj show ?thesis by auto
  qed (use Suc.prems in auto)
qed simp

text \<open>A document and its text, for the library and for the standard parser.\<close>

definition prints :: "json_lib \<Rightarrow> json \<Rightarrow> string \<Rightarrow> bool" where
  "prints lib j t \<longleftrightarrow> jdumps lib j = Some t \<and> jloads lib (lstrip_bom t) = Some j
     \<and> std_loads lib (lstrip_bom t) \<noteq> None \<and> looks_json (py_lstrip (lstrip_bom t))"

lemma json_nesting_map [simp]: "json_nesting (json_map g j) = json_nesting j"
proof (induction j)
  case (JObj d)
  then have "map (\<lambda>p. json_nesting (snd p)) (map (\<lambda>p. (fst p, json_map g (snd p))) d)
      = map (\<lambda>p. json_nesting (snd p)) d" by (auto simp: snds.simps)
  then show ?case by (simp only: json_map.simps json_nesting.simps)
next
  case (JArr xs)
  then have "map json_nesting (map (json_map g) xs) = map json_nesting xs" by auto
  then show ?case by (simp only: json_map.simps json_nesting.simps)
qed simp_all

lemma redact_json_aware_map:
  assumes "vault_ok s" and "pwd_to_token s \<noteq> []"
    and dump: "\<And>x. x \<in> set (json_strings j) \<Longrightarrow> jdumps lib (JStr (redact_with (pwd_to_token s) x)) \<noteq> None"
    and "prints lib j text" and "prints lib (json_map (redact_with (pwd_to_token s)) j) out"
    and "no_inner lib j" and "json_nesting j < stack"
  shows "\<exists>u. redact_json_aware stack lib text None s = (u, out) \<and> same_maps s u"
proof -
  have step: "\<exists>u'. redact_str None u x = (u', Some (redact_with (pwd_to_token s) x)) \<and> same_maps s u'"
    if "same_maps s u" for u x
    using redact_str_step [OF that, of None x] assms(2) by (simp add: active_map_def)
  obtain u where w: "json_walk_impl stack lib (redact_str None) CRED_DEPTH 0 s j
      = (u, Some (json_map (redact_with (pwd_to_token s)) j))" "same_maps s u"
    using json_walk_impl_map [where I = "same_maps s" and leaf = "redact_str None"
        and g = "redact_with (pwd_to_token s)", OF step same_maps_refl [OF assms(1)] assms(6,7) dump]
    by blast
  have "cred_validate_json_roundtrip lib text out = out"
    using assms(5) by (simp add: cred_validate_json_roundtrip_def prints_def)
  with w assms(2,4,5) show ?thesis
    by (simp add: redact_json_aware_def prints_def cred_json_walk_def json_walk_def)
qed

lemma restore_json_aware_map:
  assumes "vault_ok s" and "token_to_pwd s \<noteq> []"
    and dump: "\<And>x. x \<in> set (json_strings j) \<Longrightarrow> jdumps lib (JStr (redact_with (token_to_pwd s) x)) \<noteq> None"
    and "prints lib j text" and "prints lib (json_map (redact_with (token_to_pwd s)) j) out"
    and "no_inner lib j" and "json_nesting j < stack"
  shows "\<exists>u. restore_json_aware stack lib text None s = (u, out) \<and> same_maps s u"
proof -
  obtain u where w: "json_walk_impl stack lib (restore_str None) CRED_DEPTH 0 s j
      = (u, Some (json_map (redact_with (token_to_pwd s)) j))" "same_maps s u"
    using json_walk_impl_map [where I = "same_maps s" and leaf = "restore_str None"
        and g = "redact_with (token_to_pwd s)", OF restore_str_step [OF _ assms(2)]
        same_maps_refl [OF assms(1)] assms(6,7) dump]
    by blast
  have "cred_validate_json_roundtrip lib text out = out"
    using assms(5) by (simp add: cred_validate_json_roundtrip_def prints_def)
  with w assms(2,4,5) show ?thesis
    by (simp add: restore_json_aware_def prints_def cred_json_walk_def json_walk_def)
qed

text \<open>
  C17. Restoring a redacted JSON document gives back its very text: in every reachable vault, for a
  text that is the library's own dump of its document, nested less deep than the recursion limit,
  whose strings hold no beginning of a credential token and are, before and after the redaction,
  not JSON text themselves, when the library also dumps and parses the redacted document (and the
  strings of both) faithfully.
\<close>

theorem json_redact_restore_roundtrip:
  assumes "vault_reachable s" and "pwd_to_token s \<noteq> []"
    and "\<forall>a \<in> set (json_strings j). jdumps lib (JStr a) \<noteq> None
      \<and> jdumps lib (JStr (redact_with (pwd_to_token s) a)) \<noteq> None"
    and "prints lib j text" and "prints lib (json_map (redact_with (pwd_to_token s)) j) out"
    and "no_inner lib j" and "no_inner lib (json_map (redact_with (pwd_to_token s)) j)"
    and "json_nesting j < stack"
    and "\<forall>a \<in> set (json_strings j). \<forall>d. is_digit d \<longrightarrow> \<not> sublist (TOKEN_PREFIX @ [d]) a"
  shows "snd (restore_json_aware stack lib (snd (redact_json_aware stack lib text None s)) None
     (fst (redact_json_aware stack lib text None s))) = text"
proof -
  have ok: "vault_ok s" using assms(1) by (rule vault_reachable_inv)
  obtain u where u: "redact_json_aware stack lib text None s = (u, out)" "same_maps s u"
    using redact_json_aware_map [OF ok assms(2) _ assms(4,5,6,8)] assms(3) by blast
  then have m: "token_to_pwd u = token_to_pwd s" "vault_ok u" by (simp_all add: same_maps_def)
  have t2p: "token_to_pwd u \<noteq> []"
    using ok assms(2) m(1) by (auto simp: vault_ok_def dest: paired_Nil2)
  have bk: "redact_with (token_to_pwd s) (redact_with (pwd_to_token s) a) = a" if "a \<in> set (json_strings j)" for a
    using redact_with_roundtrip [OF ok] assms(9) that by blast
  then have "json_map (redact_with (token_to_pwd s)) (json_map (redact_with (pwd_to_token s)) j) = j"
    by (intro json_map_id)
  then have p: "prints lib (json_map (redact_with (token_to_pwd u)) (json_map (redact_with (pwd_to_token s)) j)) text"
    using assms(4) m(1) by simp
  have d: "jdumps lib (JStr (redact_with (token_to_pwd u) x)) \<noteq> None"
    if "x \<in> set (json_strings (json_map (redact_with (pwd_to_token s)) j))" for x
    using that bk assms(3) m(1) by (auto simp: json_strings_map)
  from restore_json_aware_map [OF m(2) t2p d assms(5) p assms(7)] assms(8)
  obtain u' where "restore_json_aware stack lib out None u = (u', text)" by auto
  with u(1) show ?thesis by simp
qed

theorem json_redact_restore_roundtrip_witness:
  "snd (restore_json_aware 9 line_lib (snd (redact_json_aware 9 line_lib ''[\"pw=tiger\"]'' None vault_example)) None
     (fst (redact_json_aware 9 line_lib ''[\"pw=tiger\"]'' None vault_example))) = ''[\"pw=tiger\"]''"
proof -
  let ?j = "JArr [JStr ''pw=tiger'']"
  have r: "redact_with (pwd_to_token vault_example) ''pw=tiger'' = ''pw=__VG_CRED_000001__''"
    by (simp add: vault_example_eval redact_with_def compile_pat_def longest_first_def sub_table_def
        alt_match_def py_len_def cp_width_def byte_def dget_or_def make_token_def TOKEN_PREFIX_def
        TOKEN_SUFFIX_def zpad_def dec.simps text_eval)
  have strip: "lstrip_bom ''[\"pw=tiger\"]'' = ''[\"pw=tiger\"]''" "py_lstrip ''[\"pw=tiger\"]'' = ''[\"pw=tiger\"]''"
    "lstrip_bom ''[\"pw=__VG_CRED_000001__\"]'' = ''[\"pw=__VG_CRED_000001__\"]''"
    "py_lstrip ''[\"pw=__VG_CRED_000001__\"]'' = ''[\"pw=__VG_CRED_000001__\"]''"
    "py_strip (lstrip_bom ''pw=tiger'') = ''pw=tiger''"
    "py_strip (lstrip_bom ''pw=__VG_CRED_000001__'') = ''pw=__VG_CRED_000001__''"
    by code_simp+
  have p: "prints line_lib ?j ''[\"pw=tiger\"]''"
    "prints line_lib (json_map (redact_with (pwd_to_token vault_example)) ?j) ''[\"pw=__VG_CRED_000001__\"]''"
    by (simp_all add: r prints_def strip line_lib_def Let_def suffix_def looks_json_def starts_any_def)
  have n: "no_inner line_lib ?j" "no_inner line_lib (json_map (redact_with (pwd_to_token vault_example)) ?j)"
    by (simp_all add: r no_inner_def inner_json_def strip looks_json_def starts_any_def)
  show ?thesis
    by (rule json_redact_restore_roundtrip [OF vault_example_reachable _ _ p n])
      (simp_all add: line_lib_ok(2) vault_example_eval TOKEN_PREFIX_def sublist_code)
qed

end
