(* ===== verification/Py_Text.thy ===== *)
theory Py_Text
  imports Prelude Unicode_Tab
begin

text \<open>
  More of Python's text operations, on the UTF-8 encoding of \<open>str\<close>: code point numbers, the
  decimal digits and word characters of Unicode, \<open>int(s)\<close>, \<open>split\<close>, \<open>strip\<close> with characters,
  \<open>replace\<close> and the search for a substring.
\<close>

section \<open>Code point classes\<close>

fun cp_code :: "string \<Rightarrow> nat" where
  "cp_code [a] = byte a"
| "cp_code [a, b] = (byte a - 192) * 64 + (byte b - 128)"
| "cp_code [a, b, c] = ((byte a - 224) * 64 + (byte b - 128)) * 64 + (byte c - 128)"
| "cp_code [a, b, c, d] =
     (((byte a - 240) * 64 + (byte b - 128)) * 64 + (byte c - 128)) * 64 + (byte d - 128)"
| "cp_code _ = 0"

text \<open>\<open>chr(n)\<close>, encoded (also for surrogates, which Python's \<open>str\<close> can hold).\<close>

definition utf8_chr :: "nat \<Rightarrow> string" where
  "utf8_chr n =
     (if n < 128 then bytes [n]
      else if n < 2048 then bytes [192 + n div 64, 128 + n mod 64]
      else if n < 65536 then bytes [224 + n div 4096, 128 + n div 64 mod 64, 128 + n mod 64]
      else bytes [240 + n div 262144, 128 + n div 4096 mod 64, 128 + n div 64 mod 64, 128 + n mod 64])"

text \<open>
  \<open>\d\<close> of a text pattern matches every Unicode decimal digit: blocks of ten code points, here by
  their zeros (Unicode 15).
\<close>

definition nd_zeros :: "nat list" where
  "nd_zeros = [48, 1632, 1776, 1984, 2406, 2534, 2662, 2790, 2918, 3046, 3174, 3302, 3430, 3558,
     3664, 3792, 3872, 4160, 4240, 6112, 6160, 6470, 6608, 6784, 6800, 6992, 7088, 7232, 7248,
     42528, 43216, 43264, 43472, 43504, 43600, 44016, 65296, 66720, 68912, 69734, 69872, 69942,
     70096, 70384, 70736, 70864, 71248, 71360, 71472, 71904, 72016, 72784, 73040, 73120, 73552,
     92768, 92864, 93008, 120782, 120792, 120802, 120812, 120822, 123200, 123632, 124144, 125264,
     130032]"

definition nd_value :: "string \<Rightarrow> nat option" where
  "nd_value p =
     (case find (\<lambda>z. z \<le> cp_code p \<and> cp_code p < z + 10) nd_zeros of
        None \<Rightarrow> None
      | Some z \<Rightarrow> Some (cp_code p - z))"

definition is_nd :: "string \<Rightarrow> bool" where
  "is_nd p \<longleftrightarrow> nd_value p \<noteq> None"

text \<open>\<open>str.isalnum\<close> of one code point, and \<open>\w\<close>.\<close>

definition is_alpha_ascii :: "char \<Rightarrow> bool" where
  "is_alpha_ascii c \<longleftrightarrow> 65 \<le> byte c \<and> byte c \<le> 90 \<or> 97 \<le> byte c \<and> byte c \<le> 122"

definition is_alnum :: "string \<Rightarrow> bool" where
  "is_alnum p \<longleftrightarrow>
     (if cp_code p < 128 then p \<noteq> [] \<and> (is_digit (hd p) \<or> is_alpha_ascii (hd p))
      else list_ex (\<lambda>(a, b). a \<le> cp_code p \<and> cp_code p \<le> b) alnum_ranges)"

definition is_wordc :: "string \<Rightarrow> bool" where
  "is_wordc p \<longleftrightarrow> is_alnum p \<or> p = ''_''"

section \<open>Numbers\<close>

definition digits_value :: "string list \<Rightarrow> nat" where
  "digits_value ps = foldl (\<lambda>a p. 10 * a + (case nd_value p of None \<Rightarrow> 0 | Some d \<Rightarrow> d)) 0 ps"

text \<open>
  \<open>int(s)\<close>: surrounding white space, a sign, digits of any script with single underscores between
  them; \<open>None\<close> is a \<open>ValueError\<close>.
\<close>

fun int_digits :: "string list \<Rightarrow> string list option" where
  "int_digits [p] = (if is_nd p then Some [p] else None)"
| "int_digits (p # q # ps) =
     (if \<not> is_nd p then None
      else if q = ''_'' then map_option ((#) p) (int_digits ps)
      else map_option ((#) p) (int_digits (q # ps)))"
| "int_digits [] = None"

definition py_int :: "string \<Rightarrow> int option" where
  "py_int s =
     (case cps (py_strip s) of
        [] \<Rightarrow> None
      | p # ps \<Rightarrow>
          if p = ''-'' then map_option (\<lambda>ds. - int (digits_value ds)) (int_digits ps)
          else if p = ''+'' then map_option (\<lambda>ds. int (digits_value ds)) (int_digits ps)
          else map_option (\<lambda>ds. int (digits_value ds)) (int_digits (p # ps)))"

text \<open>The value of an ASCII hexadecimal digit.\<close>

definition hex_digit :: "char \<Rightarrow> nat option" where
  "hex_digit c =
     (if is_digit c then Some (byte c - 48)
      else if 97 \<le> byte c \<and> byte c \<le> 102 then Some (byte c - 87)
      else if 65 \<le> byte c \<and> byte c \<le> 70 then Some (byte c - 55)
      else None)"

definition hex_value :: "string \<Rightarrow> nat" where
  "hex_value s = foldl (\<lambda>a c. 16 * a + (case hex_digit c of None \<Rightarrow> 0 | Some d \<Rightarrow> d)) 0 s"

section \<open>Splitting, stripping, replacing\<close>

text \<open>\<open>s.split(c)\<close> for a separator of one byte.\<close>

fun split_on :: "char \<Rightarrow> string \<Rightarrow> string list" where
  "split_on c [] = [[]]"
| "split_on c (x # s) =
     (if x = c then [] # split_on c s
      else case split_on c s of [] \<Rightarrow> [[x]] | w # ws \<Rightarrow> (x # w) # ws)"

text \<open>\<open>s.strip(cs)\<close>, \<open>s.rstrip(cs)\<close> for ASCII characters.\<close>

definition rstrip_chars :: "string \<Rightarrow> string \<Rightarrow> string" where
  "rstrip_chars cs s = rev (dropWhile (\<lambda>c. c \<in> set cs) (rev s))"

definition strip_chars :: "string \<Rightarrow> string \<Rightarrow> string" where
  "strip_chars cs s = rstrip_chars cs (dropWhile (\<lambda>c. c \<in> set cs) s)"

text \<open>\<open>s.find(p)\<close> from the beginning: the number of bytes before the first occurrence.\<close>

fun find_sub :: "string \<Rightarrow> string \<Rightarrow> nat option" where
  "find_sub p [] = (if p = [] then Some 0 else None)"
| "find_sub p (c # s) = (if prefix p (c # s) then Some 0 else map_option Suc (find_sub p s))"

lemma find_sub_Some: "find_sub p s = Some i \<Longrightarrow> i \<le> length s \<and> prefix p (drop i s)"
  by (induction p s arbitrary: i rule: find_sub.induct) (auto split: if_splits)

text \<open>\<open>s.replace(a, b)\<close> for a nonempty \<open>a\<close>.\<close>

function replace :: "string \<Rightarrow> string \<Rightarrow> string \<Rightarrow> string" where
  "replace a b [] = []"
| "replace a b (c # s) =
     (if a \<noteq> [] \<and> prefix a (c # s) then b @ replace a b (drop (length a) (c # s))
      else c # replace a b s)"
  by pat_completeness auto
termination
  by (relation "measure (\<lambda>(a, b, s). length s)") auto

text \<open>\<open>c in s\<close> and \<open>s.count(c)\<close> for one character.\<close>

definition count_char :: "char \<Rightarrow> string \<Rightarrow> nat" where
  "count_char c s = length (filter (\<lambda>x. x = c) s)"

lemma split_on_no_sep: "w \<in> set (split_on c s) \<Longrightarrow> c \<notin> set w"
  by (induction s arbitrary: w) (auto split: if_splits list.splits)

lemma split_on_join: "c \<notin> set w \<Longrightarrow> split_on c (w @ c # s) = w # split_on c s"
  by (induction w) auto

end
