(* ===== verification/Pii_Vault.thy ===== *)
theory Pii_Vault
  imports Token_Text Py_Text
begin

text \<open>
  The PII vault (\<open>GlobalPiiTokens\<close> of \<open>_token.py\<close>): personal data mapped to
  \<open>__PII_<seq>_<rand8>__\<close> tokens in two tables of at most 1000 entries, one for values seen in
  requests, whose tokens are restored, and one for values seen in answers, whose tokens are not.
  The random part is an argument, the audit callback's calls are recorded in the state, and the
  environment switch \<open>PII_FUZZY_RESTORE\<close> is an argument of the restoration.
\<close>

section \<open>Token shapes\<close>

definition PII_TOKEN_PREFIX :: string where "PII_TOKEN_PREFIX = ''__PII_''"
definition CRED_TOKEN_PREFIX :: string where "CRED_TOKEN_PREFIX = ''__VG_CRED_''"
definition PII_MAX_ENTRIES :: nat where "PII_MAX_ENTRIES = 1000"

text \<open>\<open>\d+\<close> at the head of a text.\<close>

definition digits_run :: "string \<Rightarrow> string list" where
  "digits_run s = takeWhile (\<lambda>p. nd_value p \<noteq> None) (cps s)"

text \<open>After a prefix of \<open>k\<close> bytes: digits and an underscore; the length so far.\<close>

definition seq_head :: "nat \<Rightarrow> string \<Rightarrow> nat option" where
  "seq_head k s =
     (let ds = digits_run (drop k s); n = k + length (concat ds)
      in if ds \<noteq> [] \<and> prefix ''_'' (drop n s) then Some (n + 1) else None)"

definition pii_head :: "string \<Rightarrow> nat option" where
  "pii_head s = (if prefix PII_TOKEN_PREFIX s then seq_head 6 s else None)"

text \<open>With \<open>re.IGNORECASE\<close> the letter \<open>I\<close> also matches the dotless and the dotted one.\<close>

definition ci_i :: "string \<Rightarrow> bool" where
  "ci_i p \<longleftrightarrow> p \<in> set [''I'', ''i'', bytes [196, 176], bytes [196, 177]]"

definition pii_head_ci :: "string \<Rightarrow> nat option" where
  "pii_head_ci s =
     (case take 6 (cps s) of
        [a, b, c, d, e, f] \<Rightarrow>
          if a = ''_'' \<and> b = ''_'' \<and> (c = ''P'' \<or> c = ''p'') \<and> ci_i d \<and> ci_i e \<and> f = ''_''
          then seq_head (length (concat [a, b, c, d, e, f])) s else None
      | _ \<Rightarrow> None)"

definition hex_lower :: "char \<Rightarrow> bool" where
  "hex_lower c \<longleftrightarrow> is_digit c \<or> 97 \<le> byte c \<and> byte c \<le> 102"

definition hex_any :: "char \<Rightarrow> bool" where
  "hex_any c \<longleftrightarrow> hex_lower c \<or> 65 \<le> byte c \<and> byte c \<le> 70"

text \<open>Eight hexadecimal digits and the closing underscores, after the head.\<close>

definition hex_tail :: "(char \<Rightarrow> bool) \<Rightarrow> string \<Rightarrow> nat \<Rightarrow> nat option" where
  "hex_tail hex s n =
     (if length (take 8 (drop n s)) = 8 \<and> list_all hex (take 8 (drop n s)) \<and> prefix ''__'' (drop (n + 8) s)
      then Some (n + 10) else None)"

text \<open>\<open>PII_TOKEN_STR_RE\<close>, its case-insensitive form, and \<open>PII_TOKEN_LOOSE_RE\<close>.\<close>

definition pii_match :: matcher where
  "pii_match s = Option.bind (pii_head s) (hex_tail hex_lower s)"

definition pii_match_fuzzy :: matcher where
  "pii_match_fuzzy s = Option.bind (pii_head_ci s) (hex_tail hex_any s)"

definition pii_loose :: matcher where
  "pii_loose s =
     Option.bind (pii_head s) (\<lambda>n.
       let w = takeWhile (\<lambda>p. p \<noteq> ''_'' \<and> \<not> is_ws p) (cps (drop n s)); k = n + length (concat w)
       in if 1 \<le> length w \<and> length w \<le> 16 \<and> prefix ''__'' (drop k s) then Some (k + 2) else None)"

definition make_pii_token :: "nat \<Rightarrow> string \<Rightarrow> string" where
  "make_pii_token n rand8 = PII_TOKEN_PREFIX @ dec n @ ''_'' @ rand8 @ ''__''"

section \<open>State\<close>

record pii_tokens =
  pii_p2t :: "(string, string) dict"
  pii_t2p :: "(string, string) dict"
  resp_p2t :: "(string, string) dict"
  resp_t2p :: "(string, string) dict"
  pii_seq :: nat
  audit_on :: bool
  audit_calls :: "(string \<times> string) list"
  malformed_counts :: "(string, nat) dict"
  pii_collector :: "nat option"
  pii_ctx :: "(nat \<times> nat) option"

definition pii_init :: "bool \<Rightarrow> pii_tokens" where
  "pii_init cb = \<lparr>pii_p2t = [], pii_t2p = [], resp_p2t = [], resp_t2p = [], pii_seq = 0,
     audit_on = cb, audit_calls = [], malformed_counts = [], pii_collector = None, pii_ctx = None\<rparr>"

definition set_pii_collector :: "pii_tokens \<Rightarrow> pii_tokens" where
  "set_pii_collector s = s\<lparr>pii_collector := Some 0\<rparr>"

section \<open>Registration\<close>

text \<open>\<open>re.compile(r'__PII_(\d+)_').search(tok)\<close> and the number it finds.\<close>

fun seq_search :: "string \<Rightarrow> nat option" where
  "seq_search [] = None"
| "seq_search (c # s) =
     (case pii_head (c # s) of
        Some _ \<Rightarrow> Some (digits_value (digits_run (drop 6 (c # s))))
      | None \<Rightarrow> seq_search s)"

definition used_seqs :: "pii_tokens \<Rightarrow> nat list" where
  "used_seqs s = List.map_filter seq_search (map fst (pii_t2p s) @ map fst (resp_t2p s))"

function next_from :: "nat list \<Rightarrow> nat \<Rightarrow> nat" where
  "next_from used nxt = (if nxt \<in> set used then next_from used (nxt + 1) else nxt)"
  by pat_completeness auto
termination
proof (relation "measure (\<lambda>(used, nxt). card {x \<in> set used. nxt \<le> x})")
  fix used :: "nat list" and nxt
  assume "nxt \<in> set used"
  then have "nxt \<in> {x \<in> set used. nxt \<le> x}" by simp
  moreover have "{x \<in> set used. nxt + 1 \<le> x} = {x \<in> set used. nxt \<le> x} - {nxt}"
    by (rule set_eqI) (auto simp only: mem_Collect_eq Diff_iff singleton_iff Suc_eq_plus1 [symmetric] Suc_le_eq le_less)
  moreover have "finite {x \<in> set used. nxt \<le> x}" by (rule finite_subset [OF _ finite_set]) blast
  ultimately have "card {x \<in> set used. nxt + 1 \<le> x} < card {x \<in> set used. nxt \<le> x}"
    using card_Diff1_less [of "{x \<in> set used. nxt \<le> x}" nxt] by (simp only:)
  then show "((used, nxt + 1), (used, nxt)) \<in> measure (\<lambda>(used, nxt). card {x \<in> set used. nxt \<le> x})"
    by (simp only: in_measure case_prod_conv)
qed (rule wf_measure)

declare next_from.simps [simp del]

definition next_available_index :: "pii_tokens \<Rightarrow> nat" where
  "next_available_index s = next_from (used_seqs s) 1"

text \<open>The values that are refused: whatever looks like a token or contains the beginning of one.\<close>

definition pii_refused :: "string \<Rightarrow> bool" where
  "pii_refused v \<longleftrightarrow> pii_match v = Some (length v) \<or> sublist PII_TOKEN_PREFIX v
     \<or> sublist CRED_TOKEN_PREFIX v"

text \<open>The oldest entries go until the table is small enough.\<close>

fun pii_evict ::
  "(string, string) dict \<Rightarrow> (string, string) dict \<Rightarrow> nat \<Rightarrow> (string, string) dict \<times> (string, string) dict \<times> nat"
  where
  "pii_evict [] t2p evicted = ([], t2p, evicted)"
| "pii_evict ((v, tok) # p2t) t2p evicted =
     (if length ((v, tok) # p2t) > PII_MAX_ENTRIES then pii_evict p2t (ddel tok t2p) (evicted + 1)
      else ((v, tok) # p2t, t2p, evicted))"

definition table_p2t :: "bool \<Rightarrow> pii_tokens \<Rightarrow> (string, string) dict" where
  "table_p2t response_side s = (if response_side then resp_p2t s else pii_p2t s)"

definition table_t2p :: "bool \<Rightarrow> pii_tokens \<Rightarrow> (string, string) dict" where
  "table_t2p response_side s = (if response_side then resp_t2p s else pii_t2p s)"

definition set_tables ::
  "bool \<Rightarrow> (string, string) dict \<Rightarrow> (string, string) dict \<Rightarrow> pii_tokens \<Rightarrow> pii_tokens" where
  "set_tables response_side p2t t2p s =
     (if response_side then s\<lparr>resp_p2t := p2t, resp_t2p := t2p\<rparr>
      else s\<lparr>pii_p2t := p2t, pii_t2p := t2p\<rparr>)"

definition pii_register ::
  "string \<Rightarrow> string \<Rightarrow> bool \<Rightarrow> pii_tokens \<Rightarrow> pii_tokens \<times> string py_result" where
  "pii_register rand8 v response_side s =
     (if v = [] then (s, Inr v)
      else if pii_refused v then (s, Inl ValueError)
      else case dget (table_p2t response_side s) v of
        Some tok \<Rightarrow>
          (set_tables response_side (move_to_end v (table_p2t response_side s))
             (move_to_end tok (table_t2p response_side s))
             (s\<lparr>pii_ctx := map_option (\<lambda>(h, m). (h + 1, m)) (pii_ctx s)\<rparr>), Inr tok)
      | None \<Rightarrow>
          let nxt = next_available_index s;
              token = make_pii_token nxt rand8;
              (p2t, t2p, evicted) = pii_evict (dset v token (table_p2t response_side s))
                 (dset token v (table_t2p response_side s)) 0;
              s1 = set_tables response_side p2t t2p
                (s\<lparr>pii_seq := max (pii_seq s) nxt,
                   pii_ctx := map_option (\<lambda>(h, m). (h, m + 1)) (pii_ctx s)\<rparr>)
          in (s1\<lparr>pii_collector := map_option (\<lambda>n. n + evicted) (pii_collector s1)\<rparr>, Inr token))"

section \<open>Restoration\<close>

text \<open>\<open>_audit_malformed\<close>: counted by category, reported to the callback the first time.\<close>

definition count_malformed :: "string \<Rightarrow> string \<Rightarrow> pii_tokens \<Rightarrow> pii_tokens" where
  "count_malformed cat tok s =
     (let cnt = dget_or (malformed_counts s) cat 0
      in s\<lparr>malformed_counts := dset cat (cnt + 1) (malformed_counts s),
           audit_calls := (if cnt = 0 then audit_calls s @ [(cat, tok)] else audit_calls s)\<rparr>)"

definition audit_malformed :: "string \<Rightarrow> pii_tokens \<Rightarrow> pii_tokens" where
  "audit_malformed tok s =
     (if \<not> audit_on s then s
      else count_malformed
        (case Option.bind (pii_head tok) (hex_tail hex_any tok) of
           Some n \<Rightarrow> if drop n tok = [] \<or> drop n tok = ''\<newline>'' then ''unregistered'' else ''malformed''
         | None \<Rightarrow> ''malformed'') tok s)"

definition touch_pii :: "string \<Rightarrow> string \<Rightarrow> pii_tokens \<Rightarrow> pii_tokens" where
  "touch_pii tok plain s =
     s\<lparr>pii_t2p := move_to_end tok (pii_t2p s), pii_p2t := move_to_end plain (pii_p2t s)\<rparr>"

definition touch_resp :: "string \<Rightarrow> string \<Rightarrow> pii_tokens \<Rightarrow> pii_tokens" where
  "touch_resp tok plain s =
     s\<lparr>resp_t2p := move_to_end tok (resp_t2p s), resp_p2t := move_to_end plain (resp_p2t s)\<rparr>"

definition pii_repl ::
  "(string, string) dict \<Rightarrow> (string, string) dict \<Rightarrow> pii_tokens \<Rightarrow> string \<Rightarrow> pii_tokens \<times> string" where
  "pii_repl pii_snap resp_snap s tok =
     (case dget pii_snap tok of
        Some plain \<Rightarrow> (touch_pii tok plain s, plain)
      | None \<Rightarrow>
          (case dget resp_snap tok of
             Some plain \<Rightarrow> (touch_resp tok plain s, tok)
           | None \<Rightarrow> (audit_malformed tok s, tok)))"

text \<open>\<open>{k.lower(): (k, v) for k, v in snapshot.items()}\<close>\<close>

definition lower_keys :: "(string, string) dict \<Rightarrow> (string, string \<times> string) dict" where
  "lower_keys d = foldl (\<lambda>e p. dset (py_lower (fst p)) p e) [] d"

definition pii_repl_fuzzy ::
  "(string, string) dict \<Rightarrow> (string, string) dict \<Rightarrow> pii_tokens \<Rightarrow> string \<Rightarrow> pii_tokens \<times> string" where
  "pii_repl_fuzzy pii_snap resp_snap s tok =
     (case dget (lower_keys pii_snap) (py_lower tok) of
        Some (orig, plain) \<Rightarrow>
          (let s1 = touch_pii orig plain s
           in (if tok \<noteq> orig \<and> audit_on s1 then count_malformed ''fuzzy'' tok s1 else s1, plain))
      | None \<Rightarrow>
          (case dget (lower_keys resp_snap) (py_lower tok) of
             Some (orig, plain) \<Rightarrow> (touch_resp orig plain s, tok)
           | None \<Rightarrow> (audit_malformed tok s, tok)))"

definition pii_restore :: "bool \<Rightarrow> string \<Rightarrow> pii_tokens \<Rightarrow> pii_tokens \<times> string" where
  "pii_restore fuzzy text s =
     (if text = [] then (s, text)
      else if pii_t2p s = [] \<and> resp_t2p s = [] then
        (if audit_on s then foldl (\<lambda>u t. audit_malformed t u) s (scan_all pii_loose text) else s, text)
      else
        let (s1, restored) =
              (if fuzzy then scan_st pii_match_fuzzy (pii_repl_fuzzy (pii_t2p s) (resp_t2p s)) s text
               else scan_st pii_match (pii_repl (pii_t2p s) (resp_t2p s)) s text);
            s2 = (if audit_on s1
              then foldl (\<lambda>u t. if \<not> dhas (pii_t2p s1) t \<and> \<not> dhas (resp_t2p s1) t
                     then audit_malformed t u else u) s1 (scan_all pii_loose restored)
              else s1)
        in (s2, restored))"

definition pii_clear :: "pii_tokens \<Rightarrow> pii_tokens" where
  "pii_clear s = s\<lparr>pii_p2t := [], pii_t2p := [], resp_p2t := [], resp_t2p := [], malformed_counts := []\<rparr>"

text \<open>
  At the end of a request (\<open>_pii_cleanup\<close> of \<open>_pii.py\<close>) the categories that were reported are
  forgotten, the tables are not.
\<close>

definition pii_cleanup :: "pii_tokens \<Rightarrow> pii_tokens" where
  "pii_cleanup s = s\<lparr>malformed_counts := []\<rparr>"

section \<open>The shape of the tokens\<close>

definition hex8 :: "string \<Rightarrow> bool" where
  "hex8 r \<longleftrightarrow> length r = 8 \<and> list_all hex_lower r"

lemma nd_zeros_ascii: "\<forall>z \<in> set nd_zeros. z = 48 \<or> 128 \<le> z"
  by (simp add: nd_zeros_def)

lemma nd_value_digit: "is_digit c \<Longrightarrow> nd_value [c] = Some (byte c - 48)"
  by (simp add: nd_value_def nd_zeros_def is_digit_def)

lemma nd_value_ascii:
  assumes "byte c < 128" and "nd_value [c] \<noteq> None"
  shows "is_digit c"
proof -
  obtain z where "z \<in> set nd_zeros" "z \<le> byte c" "byte c < z + 10"
    using assms(2) by (auto simp: nd_value_def find_Some_iff split: option.splits dest!: nth_mem)
  with assms(1) nd_zeros_ascii show ?thesis by (auto simp: is_digit_def)
qed

lemma nd_value_underscore [simp]: "nd_value ''_'' = None"
  using nd_value_ascii [of "CHR ''_''"] by (cases "nd_value ''_''") (auto simp: byte_def is_digit_def)

lemma dec_cps: "cps (dec n) = map (\<lambda>c. [c]) (dec n)"
  using dec_digits [of n] by (intro ascii_cps) (auto simp: ascii_def list_all_iff is_digit_def)

lemma dec_utf8: "utf8 (dec n)"
  using dec_digits [of n] by (intro ascii_utf8) (auto simp: ascii_def list_all_iff is_digit_def)

lemma concat_singles [simp]: "concat (map (\<lambda>c. [c]) s) = s"
  by (induction s) auto

lemma digits_run_dec: "digits_run (dec n @ ''_'' @ x) = map (\<lambda>c. [c]) (dec n)"
proof -
  have "cps (''_'' @ x) = ''_'' # cps x" by (simp add: cp_width_def byte_def)
  then have cps_eq: "cps (dec n @ ''_'' @ x) = map (\<lambda>c. [c]) (dec n) @ ''_'' # cps x"
    by (simp only: cps_append [OF dec_utf8] dec_cps)
  have "\<forall>p \<in> set (map (\<lambda>c. [c]) (dec n)). nd_value p \<noteq> None"
    using dec_digits [of n] by (simp add: list_all_iff nd_value_digit)
  then have "takeWhile (\<lambda>p. nd_value p \<noteq> None) (map (\<lambda>c. [c]) (dec n) @ ''_'' # cps x)
      = map (\<lambda>c. [c]) (dec n) @ takeWhile (\<lambda>p. nd_value p \<noteq> None) (''_'' # cps x)"
    by (intro takeWhile_append2) blast
  moreover have "takeWhile (\<lambda>p. nd_value p \<noteq> None) (''_'' # cps x) = []" by simp
  ultimately show ?thesis unfolding digits_run_def cps_eq by (simp only: append_Nil2)
qed

lemma digits_value_digits: "list_all is_digit s \<Longrightarrow> digits_value (map (\<lambda>c. [c]) s) = undec s"
proof (induction s rule: rev_induct)
  case (snoc c s)
  then show ?case by (simp add: digits_value_def undec_def nd_value_digit)
qed (simp add: digits_value_def undec_def)

lemma PII_TOKEN_PREFIX_len [simp]: "length PII_TOKEN_PREFIX = 6"
  by (simp add: PII_TOKEN_PREFIX_def)

lemma drop_prefix_6: "drop 6 (PII_TOKEN_PREFIX @ x) = x"
  by (simp add: PII_TOKEN_PREFIX_def)

lemma drop_prefix_add: "drop (6 + k) (PII_TOKEN_PREFIX @ x) = drop k x"
  by (metis add.commute drop_drop drop_prefix_6)

lemma pii_head_token: "pii_head (PII_TOKEN_PREFIX @ dec n @ ''_'' @ x) = Some (length (dec n) + 7)"
proof -
  have "seq_head 6 (PII_TOKEN_PREFIX @ dec n @ ''_'' @ x) = Some (6 + length (dec n) + 1)"
    unfolding seq_head_def drop_prefix_6 digits_run_dec Let_def concat_singles drop_prefix_add by simp
  then show ?thesis by (simp add: pii_head_def)
qed

lemma make_pii_token_length: "hex8 r \<Longrightarrow> length (make_pii_token n r) = length (dec n) + 17"
  by (simp add: make_pii_token_def hex8_def)

lemma pii_match_token: "hex8 r \<Longrightarrow> pii_match (make_pii_token n r @ x) = Some (length (make_pii_token n r))"
proof -
  assume r: "hex8 r"
  have t: "make_pii_token n r @ x = PII_TOKEN_PREFIX @ dec n @ ''_'' @ (r @ ''__'' @ x)"
    by (simp add: make_pii_token_def)
  have h: "pii_head (make_pii_token n r @ x) = Some (length (dec n) + 7)"
    unfolding t by (rule pii_head_token)
  have d: "drop (length (dec n) + 7) (make_pii_token n r @ x) = r @ ''__'' @ x"
  proof -
    have "length (dec n) + 7 = 6 + (length (dec n) + 1)" by simp
    then show ?thesis unfolding t by (simp only: drop_prefix_add) simp
  qed
  then have d8: "drop (length (dec n) + 7 + 8) (make_pii_token n r @ x) = ''__'' @ x"
    using r by (metis add.commute append_eq_conv_conj drop_drop hex8_def)
  have "take 8 (r @ ''__'' @ x) = r" using r by (simp add: hex8_def)
  then have "hex_tail hex_lower (make_pii_token n r @ x) (length (dec n) + 7) = Some (length (dec n) + 17)"
    using r unfolding hex_tail_def d d8 by (simp add: hex8_def)
  then show ?thesis using h make_pii_token_length [OF r] by (simp add: pii_match_def)
qed

lemma seq_search_token: "seq_search (make_pii_token n r) = Some n"
proof -
  obtain c s where cs: "make_pii_token n r = c # s"
    by (cases "make_pii_token n r") (simp_all add: make_pii_token_def PII_TOKEN_PREFIX_def)
  have h: "pii_head (c # s) = Some (length (dec n) + 7)"
    using pii_head_token [of n "r @ ''__''"] cs by (simp add: make_pii_token_def)
  have "drop 6 (c # s) = dec n @ ''_'' @ r @ ''__''"
    unfolding cs [symmetric] make_pii_token_def by (rule drop_prefix_6)
  then have "digits_run (drop 6 (c # s)) = map (\<lambda>c. [c]) (dec n)" by (simp only: digits_run_dec)
  then show ?thesis unfolding cs using h digits_value_digits [OF dec_digits, of n] by simp
qed

text \<open>The beginning of a token: the prefix and the first byte of a digit, ASCII or not.\<close>

definition pii_stem :: "string \<Rightarrow> bool" where
  "pii_stem x \<longleftrightarrow> (\<exists>d. (is_digit d \<or> 128 \<le> byte d) \<and> x = PII_TOKEN_PREFIX @ [d])"

lemma pii_head_stem:
  assumes "pii_head s = Some n"
  shows "pii_stem (take 7 s)"
proof -
  obtain x where s: "s = PII_TOKEN_PREFIX @ x" and ds: "digits_run x \<noteq> []"
    using assms by (auto simp: pii_head_def seq_head_def Let_def prefix_def drop_prefix_6 split: if_splits)
  then obtain c y where x: "x = c # y" by (cases x) (auto simp: digits_run_def)
  have nd: "nd_value (take (cp_width c) (c # y)) \<noteq> None"
    using ds x by (auto simp: digits_run_def split: if_splits)
  have "is_digit c \<or> 128 \<le> byte c"
  proof (cases "byte c < 128")
    case True
    then have "take (cp_width c) (c # y) = [c]" by (simp add: cp_width_def)
    with nd nd_value_ascii [OF True] show ?thesis by simp
  qed simp
  then show ?thesis using s x by (auto simp: pii_stem_def PII_TOKEN_PREFIX_def)
qed

lemma pii_token_stem: "pii_stem (take 7 (make_pii_token n r))"
  using pii_head_stem [OF pii_head_token [of n "r @ ''__''"]] by (simp add: make_pii_token_def)

lemma pii_stem_overlap:
  assumes "pii_stem (u @ v)" and "u \<noteq> []" and "v \<noteq> []"
  shows "\<not> prefix v (make_pii_token n r)"
proof
  assume pre: "prefix v (make_pii_token n r)"
  obtain d where d: "is_digit d \<or> 128 \<le> byte d" "u @ v = PII_TOKEN_PREFIX @ [d]"
    using assms(1) by (auto simp: pii_stem_def)
  have "length (u @ v) = 7" unfolding d(2) by simp
  then have len: "length u + length v = 7" by simp
  have last: "last v = d" using d(2) assms(3) by (metis last_appendR last_snoc)
  have "length v \<le> 6" using len assms(2) by (cases u) auto
  moreover have "v = take (length v) (make_pii_token n r)" using pre by (auto simp: prefix_def)
  ultimately have "v = take (length v) PII_TOKEN_PREFIX"
    by (simp add: make_pii_token_def)
  then have "d \<in> set PII_TOKEN_PREFIX" using last assms(3) by (metis in_set_takeD last_in_set)
  with d(1) show False by (auto simp: PII_TOKEN_PREFIX_def is_digit_def byte_def)
qed

section \<open>The next index\<close>

lemma next_from_spec:
  "nxt \<le> next_from used nxt \<and> next_from used nxt \<notin> set used
    \<and> (\<forall>k. nxt \<le> k \<and> k < next_from used nxt \<longrightarrow> k \<in> set used)"
proof (induction used nxt rule: next_from.induct)
  case (1 used nxt)
  show ?case
  proof (cases "nxt \<in> set used")
    case True
    then have "next_from used nxt = next_from used (nxt + 1)" by (subst next_from.simps) simp
    moreover have "k \<in> set used" if "nxt \<le> k" "k < next_from used (nxt + 1)" for k
    proof (cases "k = nxt")
      case False
      with that 1 [OF True] show ?thesis by simp
    qed (simp add: True)
    ultimately show ?thesis using 1 [OF True] by simp
  next
    case False
    then have "next_from used nxt = nxt" by (subst next_from.simps) simp
    with False show ?thesis by auto
  qed
qed

lemma next_from_bound: "next_from used 1 \<le> length used + 1"
proof -
  have "{1 ..< next_from used 1} \<subseteq> set used" using next_from_spec [of 1 used] by auto
  then have "card {1 ..< next_from used 1} \<le> card (set used)" by (rule card_mono [rotated]) simp
  also have "\<dots> \<le> length used" by (rule card_length)
  finally show ?thesis by simp
qed

lemma paired_length:
  assumes "dict_ok d" and "dict_ok e" and "paired d e"
  shows "length d = length e"
proof -
  have "(v, k) \<in> set e \<longleftrightarrow> (k, v) \<in> set d" for k v
    using assms by (simp add: paired_def dget_set)
  then have "set e = (\<lambda>(k, v). (v, k)) ` set d" by (auto simp: image_iff)
  moreover have "inj_on (\<lambda>(k, v). (v, k)) (set d)" by (auto simp: inj_on_def)
  ultimately have "card (set e) = card (set d)" by (simp add: card_image)
  moreover have "distinct d" "distinct e" using assms(1,2) by (simp_all add: dict_ok_def distinct_map)
  ultimately show ?thesis by (simp add: distinct_card)
qed

section \<open>The invariant\<close>

definition pii_entry_ok :: "string \<Rightarrow> string \<Rightarrow> bool" where
  "pii_entry_ok p t \<longleftrightarrow> p \<noteq> [] \<and> \<not> pii_refused p
     \<and> (\<exists>n r. hex8 r \<and> 1 \<le> n \<and> n \<le> 2 * PII_MAX_ENTRIES + 1 \<and> t = make_pii_token n r)"

definition pii_table_ok :: "(string, string) dict \<Rightarrow> (string, string) dict \<Rightarrow> bool" where
  "pii_table_ok d e \<longleftrightarrow> dict_ok d \<and> dict_ok e \<and> length d \<le> PII_MAX_ENTRIES \<and> paired d e
     \<and> (\<forall>p t. dget d p = Some t \<longrightarrow> pii_entry_ok p t)"

definition pii_seqs_ok :: "pii_tokens \<Rightarrow> bool" where
  "pii_seqs_ok s \<longleftrightarrow> (\<forall>a b p q t u. dget (table_p2t a s) p = Some t \<and> dget (table_p2t b s) q = Some u
     \<and> seq_search t = seq_search u \<longrightarrow> a = b \<and> p = q)"

definition pii_ok :: "pii_tokens \<Rightarrow> bool" where
  "pii_ok s \<longleftrightarrow> (\<forall>b. pii_table_ok (table_p2t b s) (table_t2p b s)) \<and> pii_seqs_ok s"

lemma table_set [simp]:
  "table_p2t a (set_tables b d e s) = (if a = b then d else table_p2t a s)"
  "table_t2p a (set_tables b d e s) = (if a = b then e else table_t2p a s)"
  by (auto simp: table_p2t_def table_t2p_def set_tables_def)

lemma table_frame [simp]:
  "table_p2t a (s\<lparr>pii_ctx := c\<rparr>) = table_p2t a s" "table_t2p a (s\<lparr>pii_ctx := c\<rparr>) = table_t2p a s"
  "table_p2t a (s\<lparr>pii_seq := n\<rparr>) = table_p2t a s" "table_t2p a (s\<lparr>pii_seq := n\<rparr>) = table_t2p a s"
  "table_p2t a (s\<lparr>audit_calls := ac\<rparr>) = table_p2t a s" "table_t2p a (s\<lparr>audit_calls := ac\<rparr>) = table_t2p a s"
  "table_p2t a (s\<lparr>pii_collector := m\<rparr>) = table_p2t a s" "table_t2p a (s\<lparr>pii_collector := m\<rparr>) = table_t2p a s"
  "table_p2t a (s\<lparr>malformed_counts := mc\<rparr>) = table_p2t a s"
  "table_t2p a (s\<lparr>malformed_counts := mc\<rparr>) = table_t2p a s"
  by (simp_all add: table_p2t_def table_t2p_def)

lemma pii_ok_cong:
  assumes "\<And>b. dget (table_p2t b u) = dget (table_p2t b s)" "\<And>b. dget (table_t2p b u) = dget (table_t2p b s)"
    and "\<And>b. dict_ok (table_p2t b u) \<and> dict_ok (table_t2p b u)"
    and "\<And>b. length (table_p2t b u) \<le> PII_MAX_ENTRIES"
  shows "pii_ok s \<Longrightarrow> pii_ok u"
  using assms by (simp add: pii_ok_def pii_table_ok_def pii_seqs_ok_def paired_def)

lemma pii_ok_move:
  assumes "pii_ok s"
  shows "pii_ok (set_tables b (move_to_end v (table_p2t b s)) (move_to_end t (table_t2p b s)) s)"
  by (rule pii_ok_cong [OF _ _ _ _ assms]) (use assms in \<open>auto simp: pii_ok_def pii_table_ok_def\<close>)

lemma pii_evict_facts:
  assumes "pii_evict d e k = (d', e', k')" and "dict_ok d" "dict_ok e" "paired d e"
  shows "dict_ok d' \<and> dict_ok e' \<and> paired d' e' \<and> length d' = min (length d) PII_MAX_ENTRIES
    \<and> (\<exists>a. d = a @ d') \<and> k' = k + (length d - length d')"
  using assms
proof (induction d e k rule: pii_evict.induct)
  case (2 v tok p2t t2p evicted)
  show ?case
  proof (cases "length ((v, tok) # p2t) > PII_MAX_ENTRIES")
    case True
    have "v \<notin> fst ` set p2t" using 2(3) by (simp add: dict_ok_def)
    then have "ddel v ((v, tok) # p2t) = p2t" by (simp add: AList.delete_idem)
    then have "paired p2t (ddel tok t2p)" using paired_ddel [OF 2(5), of v tok] by simp
    moreover have "dict_ok p2t" "dict_ok (ddel tok t2p)" using 2(3) dict_ok_ddel [OF 2(4)] by (simp_all add: dict_ok_def)
    ultimately show ?thesis using 2(1) [OF True] 2(2) True by auto
  qed (use 2 in auto)
qed auto

lemma pii_evict_suffix:
  assumes "d = a @ d'" and "dict_ok d" and "dget d' p = Some t"
  shows "dget d p = Some t"
proof -
  have "(p, t) \<in> set d'" using assms(3) by (rule map_of_SomeD)
  then have "(p, t) \<in> set d" using assms(1) by simp
  with assms(2) show ?thesis by (simp only: dget_set)
qed

lemma map_filter_mem: "x \<in> set xs \<Longrightarrow> f x = Some y \<Longrightarrow> y \<in> set (List.map_filter f xs)"
  by (induction xs) (auto simp: List.map_filter_simps split: option.split)

lemma used_seqs_member:
  assumes "pii_ok s" and "dget (table_p2t b s) p = Some t"
  shows "\<exists>n. seq_search t = Some n \<and> n \<in> set (used_seqs s)"
proof -
  have tab: "pii_table_ok (table_p2t b s) (table_t2p b s)" using assms(1) by (simp add: pii_ok_def)
  then have "pii_entry_ok p t" using assms(2) by (simp add: pii_table_ok_def)
  then obtain n r where t: "t = make_pii_token n r" by (auto simp: pii_entry_ok_def)
  have "dget (table_t2p b s) t = Some p" using tab assms(2) by (auto simp: pii_table_ok_def dest: pairedD)
  then have "t \<in> set (map fst (pii_t2p s) @ map fst (resp_t2p s))"
    by (cases b) (auto simp: table_t2p_def dest: dget_Some_key)
  then have "n \<in> set (used_seqs s)"
    unfolding t used_seqs_def by (rule map_filter_mem) (rule seq_search_token)
  with t show ?thesis by (simp add: seq_search_token)
qed

lemma next_available_bound:
  assumes "pii_ok s"
  shows "next_available_index s \<le> 2 * PII_MAX_ENTRIES + 1"
proof -
  have len: "length (table_t2p b s) \<le> PII_MAX_ENTRIES" for b
  proof -
    have "pii_table_ok (table_p2t b s) (table_t2p b s)" using assms by (simp add: pii_ok_def)
    then show ?thesis using paired_length [of "table_p2t b s" "table_t2p b s"] by (simp add: pii_table_ok_def)
  qed
  have "length (used_seqs s) \<le> length (pii_t2p s) + length (resp_t2p s)"
    by (simp add: used_seqs_def List.map_filter_def add_mono)
  then show ?thesis
    using next_from_bound [of "used_seqs s"] len [of False] len [of True]
    by (simp add: next_available_index_def table_t2p_def)
qed

text \<open>A new entry: fresh in both directions and by its number, then the oldest ones go.\<close>

lemma pii_register_new:
  assumes ok: "pii_ok s" and v: "v \<noteq> []" "\<not> pii_refused v" and r: "hex8 rand8"
    and new: "dget (table_p2t b s) v = None"
    and reg: "pii_register rand8 v b s = (s', res)"
  shows "pii_ok s' \<and> res = Inr (make_pii_token (next_available_index s) rand8)
    \<and> dget (table_p2t b s') v = Some (make_pii_token (next_available_index s) rand8)
    \<and> (\<forall>a. a \<noteq> b \<longrightarrow> table_p2t a s' = table_p2t a s \<and> table_t2p a s' = table_t2p a s)"
proof -
  let ?n = "next_available_index s" and ?d = "table_p2t b s" and ?e = "table_t2p b s"
  let ?tok = "make_pii_token ?n rand8"
  obtain d e k where ev: "pii_evict (dset v ?tok ?d) (dset ?tok v ?e) 0 = (d, e, k)" by (metis prod_cases3)
  have res: "res = Inr ?tok" and tabs: "table_p2t a s' = (if a = b then d else table_p2t a s)"
    "table_t2p a s' = (if a = b then e else table_t2p a s)" for a
    using reg v new by (auto simp: pii_register_def Let_def ev)
  have tab: "pii_table_ok ?d ?e" and seqs: "pii_seqs_ok s" using ok by (simp_all add: pii_ok_def)
  have used: "seq_search t \<noteq> Some ?n" if "dget (table_p2t a s) p = Some t" for a p t
    using used_seqs_member [OF ok that] next_from_spec [of 1 "used_seqs s"]
    by (auto simp: next_available_index_def)
  have fresh: "dget ?e ?tok = None"
  proof (rule ccontr)
    assume "dget ?e ?tok \<noteq> None"
    then obtain p where "dget ?d p = Some ?tok" using tab by (auto simp: pii_table_ok_def dest: pairedD')
    from used [OF this] show False by (simp add: seq_search_token)
  qed
  have big: "dict_ok (dset v ?tok ?d)" "dict_ok (dset ?tok v ?e)" "paired (dset v ?tok ?d) (dset ?tok v ?e)"
    using tab new fresh by (simp_all add: pii_table_ok_def paired_dset)
  note ev = pii_evict_facts [OF ev big]
  then obtain a where a: "dset v ?tok ?d = a @ d" by blast
  have sub: "dget (dset v ?tok ?d) p = Some t" if "dget d p = Some t" for p t
    by (rule pii_evict_suffix [OF a big(1) that])
  have "d \<noteq> []" using ev by (auto simp: dset_new [OF new] PII_MAX_ENTRIES_def)
  then have "last d = (v, ?tok)" using a by (metis dset_new [OF new] last_appendR last_snoc)
  then have "(v, ?tok) \<in> set d" using \<open>d \<noteq> []\<close> by (metis last_in_set)
  then have got: "dget d v = Some ?tok" using ev by (simp add: dget_set)
  have "pii_entry_ok v ?tok"
    using v r next_available_bound [OF ok] next_from_spec [of 1 "used_seqs s"]
    by (auto simp: pii_entry_ok_def next_available_index_def)
  then have "pii_entry_ok p t" if "dget d p = Some t" for p t
    using sub [OF that] tab by (auto simp: pii_table_ok_def split: if_splits)
  then have tab': "pii_table_ok d e" using ev by (simp add: pii_table_ok_def)
  have look: "p = v \<and> c = b \<and> t = ?tok \<or> dget (table_p2t c s) p = Some t \<and> (c = b \<longrightarrow> p \<noteq> v)"
    if "dget (table_p2t c s') p = Some t" for c p t
    using that sub [of p t] new by (auto simp: tabs split: if_splits)
  have "pii_seqs_ok s'"
    unfolding pii_seqs_ok_def
  proof (intro allI impI, elim conjE)
    fix x y p q t u
    assume "dget (table_p2t x s') p = Some t" "dget (table_p2t y s') q = Some u" "seq_search t = seq_search u"
    with look [of x p t] look [of y q u] seqs used [of x p t] used [of y q u]
    show "x = y \<and> p = q" unfolding pii_seqs_ok_def by (metis seq_search_token)
  qed
  with tab' tab ok have "pii_ok s'" by (auto simp: pii_ok_def tabs)
  with res got show ?thesis by (auto simp: tabs)
qed

lemma pii_register_known:
  assumes "pii_ok s" and "v \<noteq> []" "\<not> pii_refused v" and "dget (table_p2t b s) v = Some tok"
    and "pii_register rand8 v b s = (s', res)"
  shows "pii_ok s' \<and> res = Inr tok \<and> (\<forall>a. dget (table_p2t a s') = dget (table_p2t a s))
    \<and> (\<forall>a. dget (table_t2p a s') = dget (table_t2p a s))"
proof -
  let ?s = "s\<lparr>pii_ctx := map_option (\<lambda>(h, m). (h + 1, m)) (pii_ctx s)\<rparr>"
  have "s' = set_tables b (move_to_end v (table_p2t b s)) (move_to_end tok (table_t2p b s)) ?s" "res = Inr tok"
    using assms by (simp_all add: pii_register_def)
  moreover have "pii_ok ?s" by (rule pii_ok_cong [OF _ _ _ _ assms(1)])
    (use assms(1) in \<open>auto simp: pii_ok_def pii_table_ok_def\<close>)
  from pii_ok_move [OF this, of b v tok] have "pii_ok (set_tables b (move_to_end v (table_p2t b s))
      (move_to_end tok (table_t2p b s)) ?s)" by simp
  ultimately show ?thesis by simp
qed

lemma pii_register_rejects:
  "v = [] \<Longrightarrow> pii_register rand8 v b s = (s, Inr v)"
  "v \<noteq> [] \<Longrightarrow> pii_refused v \<Longrightarrow> pii_register rand8 v b s = (s, Inl ValueError)"
  by (simp_all add: pii_register_def)

lemma pii_register_ok: "pii_ok s \<Longrightarrow> hex8 rand8 \<Longrightarrow> pii_ok (fst (pii_register rand8 v b s))"
  using pii_register_new [of s v rand8 b] pii_register_known [of s v b] pii_register_rejects [of v rand8 b s]
  by (metis fst_conv not_None_eq prod.collapse)

section \<open>What restoration does to text and state\<close>

definition pii_scan :: "bool \<Rightarrow> matcher" where
  "pii_scan fuzzy = (if fuzzy then pii_match_fuzzy else pii_match)"

definition pii_reveal :: "bool \<Rightarrow> (string, string) dict \<Rightarrow> string \<Rightarrow> string" where
  "pii_reveal fuzzy d tok =
     (if fuzzy then (case dget (lower_keys d) (py_lower tok) of None \<Rightarrow> tok | Some (_, p) \<Rightarrow> p)
      else dget_or d tok tok)"

lemma pii_repl_text:
  "snd (pii_repl a b s tok) = pii_reveal False a tok"
  "snd (pii_repl_fuzzy a b s tok) = pii_reveal True a tok"
  by (auto simp: pii_repl_def pii_repl_fuzzy_def pii_reveal_def dget_or_def Let_def
      split: option.split)

lemma lower_keys_Nil [simp]: "lower_keys [] = []"
  by (simp add: lower_keys_def)

lemma pii_reveal_Nil [simp]: "pii_reveal fuzzy [] tok = tok"
  by (simp add: pii_reveal_def dget_or_def)

definition pii_hit :: "bool \<Rightarrow> pii_tokens \<Rightarrow> pii_tokens \<Rightarrow> string \<Rightarrow> pii_tokens" where
  "pii_hit fuzzy s u tok =
     fst (if fuzzy then pii_repl_fuzzy (pii_t2p s) (resp_t2p s) u tok
          else pii_repl (pii_t2p s) (resp_t2p s) u tok)"

lemma pii_restore_split:
  "pii_restore fuzzy text s =
     (let out = scan_sub (pii_scan fuzzy) (pii_reveal fuzzy (pii_t2p s)) text;
          s1 = foldl (pii_hit fuzzy s) s (scan_all (pii_scan fuzzy) text)
      in (if text = [] then s
          else if pii_t2p s = [] \<and> resp_t2p s = [] then
            (if audit_on s then foldl (\<lambda>u t. audit_malformed t u) s (scan_all pii_loose text) else s)
          else if audit_on s1
          then foldl (\<lambda>u t. if \<not> dhas (pii_t2p s1) t \<and> \<not> dhas (resp_t2p s1) t then audit_malformed t u else u)
            s1 (scan_all pii_loose out)
          else s1, out))"
proof -
  have 1: "scan_st pii_match_fuzzy (pii_repl_fuzzy (pii_t2p s) (resp_t2p s)) s text
      = (foldl (pii_hit True s) s (scan_all pii_match_fuzzy text),
         scan_sub pii_match_fuzzy (pii_reveal True (pii_t2p s)) text)"
    unfolding pii_hit_def if_True by (rule scan_st_split) (rule pii_repl_text)
  have 2: "scan_st pii_match (pii_repl (pii_t2p s) (resp_t2p s)) s text
      = (foldl (pii_hit False s) s (scan_all pii_match text),
         scan_sub pii_match (pii_reveal False (pii_t2p s)) text)"
    unfolding pii_hit_def if_False by (rule scan_st_split) (rule pii_repl_text)
  have 3: "scan_sub m (pii_reveal f []) text = text" for m f
    by (intro scan_sub_id) simp
  show ?thesis
    by (simp add: pii_restore_def 1 2 3 Let_def pii_scan_def)
qed

text \<open>A step that only reorders the tables and counts audits.\<close>

definition pii_quiet :: "pii_tokens \<Rightarrow> pii_tokens \<Rightarrow> bool" where
  "pii_quiet s u \<longleftrightarrow> (pii_ok s \<longrightarrow> pii_ok u) \<and> audit_on u = audit_on s
     \<and> (\<forall>b. dget (table_p2t b u) = dget (table_p2t b s) \<and> dget (table_t2p b u) = dget (table_t2p b s))"

lemma pii_quiet_refl: "pii_quiet s s"
  by (simp add: pii_quiet_def)

lemma pii_quiet_trans: "pii_quiet s t \<Longrightarrow> pii_quiet t u \<Longrightarrow> pii_quiet s u"
  by (simp add: pii_quiet_def)

lemma pii_quiet_foldl: "(\<And>u x. x \<in> set xs \<Longrightarrow> pii_quiet u (f u x)) \<Longrightarrow> pii_quiet s (foldl f s xs)"
  by (induction xs arbitrary: s) (auto intro: pii_quiet_refl pii_quiet_trans)

lemma touch_tables:
  "touch_pii tok plain s = set_tables False (move_to_end plain (table_p2t False s)) (move_to_end tok (table_t2p False s)) s"
  "touch_resp tok plain s = set_tables True (move_to_end plain (table_p2t True s)) (move_to_end tok (table_t2p True s)) s"
  by (simp_all add: touch_pii_def touch_resp_def set_tables_def table_p2t_def table_t2p_def)

lemma pii_quiet_touch: "pii_quiet s (touch_pii tok plain s)" "pii_quiet s (touch_resp tok plain s)"
proof -
  have "pii_quiet s (set_tables b (move_to_end p (table_p2t b s)) (move_to_end t (table_t2p b s)) s)" for b p t
  proof -
    have "audit_on (set_tables b d e s) = audit_on s" for d e by (simp add: set_tables_def)
    with pii_ok_move [of s b p t] show ?thesis by (simp add: pii_quiet_def)
  qed
  then show "pii_quiet s (touch_pii tok plain s)" "pii_quiet s (touch_resp tok plain s)"
    unfolding touch_tables by blast+
qed

lemma count_malformed_tables [simp]:
  "table_p2t b (count_malformed c t s) = table_p2t b s" "table_t2p b (count_malformed c t s) = table_t2p b s"
  "audit_on (count_malformed c t s) = audit_on s"
  by (simp_all add: count_malformed_def Let_def table_p2t_def table_t2p_def)

lemma pii_quiet_count: "pii_quiet s (count_malformed cat tok s)"
  by (simp add: pii_quiet_def pii_ok_def pii_seqs_ok_def)

lemma pii_quiet_audit: "pii_quiet s (audit_malformed tok s)"
  by (simp add: audit_malformed_def pii_quiet_refl pii_quiet_count)

lemma pii_quiet_hit: "pii_quiet u (pii_hit fuzzy s u tok)"
proof -
  have "pii_quiet u (if c then count_malformed cat tok (touch_pii o' p u) else touch_pii o' p u)" for c cat o' p
    using pii_quiet_trans [OF pii_quiet_touch(1) pii_quiet_count] pii_quiet_touch(1) by (cases c) simp_all
  then show ?thesis
    using pii_quiet_touch pii_quiet_audit
    by (auto simp: pii_hit_def pii_repl_def pii_repl_fuzzy_def Let_def split: option.split)
qed

lemma pii_quiet_restore: "pii_quiet s (fst (pii_restore fuzzy text s))"
proof -
  let ?s1 = "foldl (pii_hit fuzzy s) s (scan_all (pii_scan fuzzy) text)"
  have 1: "pii_quiet s ?s1" by (rule pii_quiet_foldl) (rule pii_quiet_hit)
  have 2: "pii_quiet u (foldl (\<lambda>u t. if P t then audit_malformed t u else u) u xs)" for u P xs
    by (rule pii_quiet_foldl) (simp add: pii_quiet_audit pii_quiet_refl)
  have 3: "pii_quiet u (foldl (\<lambda>u t. audit_malformed t u) u xs)" for u xs
    by (rule pii_quiet_foldl) (simp add: pii_quiet_audit)
  show ?thesis
    unfolding pii_restore_split Let_def using 1 pii_quiet_trans [OF 1 2] 3 pii_quiet_refl by auto
qed

section \<open>The vault as a \<open>token_vault\<close>\<close>

interpretation pii: token_vault pii_ok "\<lambda>s p t. dget (pii_p2t s) p = Some t" "\<lambda>s. pii_match"
  "\<lambda>s t. dget_or (pii_t2p s) t t" pii_stem 7
proof unfold_locales
  fix s p t r and x u v :: string and n
  have entry: "pii_entry_ok p t \<and> dget (pii_t2p s) t = Some p" if "pii_ok s" "dget (pii_p2t s) p = Some t"
  proof -
    have "pii_table_ok (table_p2t False s) (table_t2p False s)" using that(1) by (simp add: pii_ok_def)
    with that(2) show ?thesis by (auto simp: pii_table_ok_def table_p2t_def table_t2p_def dest: pairedD)
  qed
  show "pii_match (t @ r) = Some (length t)" if "pii_ok s" "dget (pii_p2t s) p = Some t"
    using entry [OF that] pii_match_token by (auto simp: pii_entry_ok_def)
  show "dget_or (pii_t2p s) t t = p" if "pii_ok s" "dget (pii_p2t s) p = Some t"
    using entry [OF that] by (simp add: dget_or_def)
  show "pii_stem (take 7 x)" if "pii_ok s" "pii_match x = Some n"
    using that(2) pii_head_stem by (auto simp: pii_match_def bind_eq_Some_conv)
  show "pii_stem (take 7 t)" if "pii_ok s" "dget (pii_p2t s) p = Some t"
    using entry [OF that] pii_token_stem by (auto simp: pii_entry_ok_def)
  show "length x = 7" if "pii_stem x"
    using that by (auto simp: pii_stem_def)
  show "\<not> prefix v t" if "pii_ok s" "dget (pii_p2t s) p = Some t" "pii_stem (u @ v)" "u \<noteq> []" "v \<noteq> []"
    using entry [OF that(1,2)] pii_stem_overlap [OF that(3-5)] by (auto simp: pii_entry_ok_def)
qed simp

section \<open>Runs\<close>

text \<open>
  The operations on the vault from an empty one, with any random part; \<open>cleared\<close> tells whether
  \<open>clear\<close> was called (the proxy never does) or a request ended.
\<close>

inductive pii_run :: "bool \<Rightarrow> bool \<Rightarrow> pii_tokens \<Rightarrow> bool" for cb where
  start: "pii_run cb False (pii_init cb)"
| register: "pii_run cb c s \<Longrightarrow> hex8 rand8 \<Longrightarrow> pii_run cb c (fst (pii_register rand8 v side s))"
| restore: "pii_run cb c s \<Longrightarrow> pii_run cb c (fst (pii_restore fuzzy text s))"
| clear: "pii_run cb c s \<Longrightarrow> pii_run cb True (pii_clear s)"
| cleanup: "pii_run cb c s \<Longrightarrow> pii_run cb True (pii_cleanup s)"
| collect: "pii_run cb c s \<Longrightarrow> pii_run cb c (set_pii_collector s)"
| request: "pii_run cb c s \<Longrightarrow> pii_run cb c (s\<lparr>pii_ctx := x\<rparr>)"

lemma pii_table_empty: "pii_table_ok [] []"
  by (simp add: pii_table_ok_def)

lemma pii_run_inv: "pii_run cb c s \<Longrightarrow> pii_ok s"
proof (induction rule: pii_run.induct)
  case start
  show ?case by (simp add: pii_ok_def pii_init_def table_p2t_def table_t2p_def pii_table_empty pii_seqs_ok_def)
next
  case (clear c s)
  show ?case by (simp add: pii_ok_def pii_clear_def table_p2t_def table_t2p_def pii_table_empty pii_seqs_ok_def)
next
  case (restore c s fuzzy x)
  with pii_quiet_restore show ?case by (auto simp: pii_quiet_def)
next
  case (register c s rand8 v side)
  then show ?case by (simp add: pii_register_ok)
qed (simp_all add: set_pii_collector_def pii_cleanup_def pii_ok_def pii_seqs_ok_def)

lemma pii_restore_out: "snd (pii_restore fuzzy text s) = scan_sub (pii_scan fuzzy) (pii_reveal fuzzy (pii_t2p s)) text"
  by (simp add: pii_restore_split Let_def)

text \<open>
  Through any sequence of registrations, restorations and clearings each of the two tables of the
  PII vault stays a bijection between at most 1000 values and their tokens, no value looks like
  or contains a token's beginning, every token carries an eight digit random part and a number up
  to 2001, and no two entries of the two tables share a number.
\<close>

theorem pii_run_ok: "pii_run cb cleared s \<Longrightarrow> pii_ok s"
  by (rule pii_run_inv)

definition pii_example :: pii_tokens where
  "pii_example = fst (pii_register ''0badcafe'' ''13800138000'' False (pii_init True))"

lemma pii_example_run: "pii_run True False pii_example"
  unfolding pii_example_def
  by (rule pii_run.register [OF pii_run.start]) (simp add: hex8_def hex_lower_def is_digit_def byte_def)

lemma pii_example_register:
  "pii_register ''0badcafe'' ''13800138000'' False (pii_init True)
     = (pii_example, Inr (make_pii_token 1 ''0badcafe''))"
  "pii_p2t pii_example = [(''13800138000'', make_pii_token 1 ''0badcafe'')]"
  "pii_t2p pii_example = [(make_pii_token 1 ''0badcafe'', ''13800138000'')]"
  by (simp_all add: pii_example_def pii_register_def pii_init_def table_p2t_def table_t2p_def set_tables_def
      pii_refused_def PII_TOKEN_PREFIX_def CRED_TOKEN_PREFIX_def sublist_code pii_match_def pii_head_def
      next_available_index_def used_seqs_def List.map_filter_simps next_from.simps [of "[]"] Let_def PII_MAX_ENTRIES_def)

theorem pii_run_ok_witness: "pii_ok pii_example \<and> length (pii_p2t pii_example) = 1"
  using pii_run_ok [OF pii_example_run] by (simp add: pii_example_register)

text \<open>
  C21. Restoring, in exact mode, a text in which any number of registered values were replaced by their tokens gives
  the original text back, byte by byte, whatever else was registered or restored before, when the
  original holds no beginning of a PII token (the prefix followed by a digit).
\<close>

theorem pii_restore_roundtrip:
  assumes "pii_run cb cleared s"
    and "\<forall>p \<in> set (secrets_of segs). dget (pii_p2t s) p = Some (tok p)"
    and "\<forall>st. pii_stem st \<longrightarrow> \<not> sublist st (unmasked segs)"
  shows "snd (pii_restore False (masked tok segs) s) = unmasked segs"
  using pii.restore_masked [OF pii_run_inv [OF assms(1)] assms(2)] assms(3)
  by (simp add: pii_restore_out pii_scan_def pii_reveal_def [abs_def])

theorem pii_restore_roundtrip_witness:
  "snd (pii_restore False (''a'' @ make_pii_token 1 ''0badcafe'' @ ''b'') pii_example) = ''a13800138000b''"
proof -
  let ?segs = "[Copied CHR ''a'', Secret ''13800138000'', Copied CHR ''b'']"
  have "\<forall>p \<in> set (secrets_of ?segs). dget (pii_p2t pii_example) p = Some (make_pii_token 1 ''0badcafe'')"
    by (simp add: pii_example_register)
  moreover have "\<forall>st. pii_stem st \<longrightarrow> \<not> sublist st (unmasked ?segs)"
    by (auto simp: pii_stem_def PII_TOKEN_PREFIX_def sublist_code)
  ultimately show ?thesis
    using pii_restore_roundtrip [OF pii_example_run, of ?segs "\<lambda>_. make_pii_token 1 ''0badcafe''"] by simp
qed

text \<open>
  C23. Values that only occurred in answers are never revealed: what restoration returns does not
  depend on the response tables at all, in the exact and in the case-insensitive mode.
\<close>

theorem response_values_stay_hidden:
  "snd (pii_restore fuzzy text (s\<lparr>resp_p2t := d, resp_t2p := e\<rparr>)) = snd (pii_restore fuzzy text s)"
  by (simp add: pii_restore_out)

text \<open>
  C24. The search for a free index ends, in any tables: after at most as many steps as there are tokens,
  with the smallest index from 1 on that no token carries.
\<close>

theorem index_search_ends:
  "1 \<le> next_available_index s \<and> next_available_index s \<le> length (pii_t2p s) + length (resp_t2p s) + 1
   \<and> next_available_index s \<notin> set (used_seqs s) \<and> {1 ..< next_available_index s} \<subseteq> set (used_seqs s)"
proof -
  have "length (used_seqs s) \<le> length (pii_t2p s) + length (resp_t2p s)"
    using length_filter_le [of "\<lambda>x. seq_search x \<noteq> None" "map fst (pii_t2p s) @ map fst (resp_t2p s)"]
    by (simp add: used_seqs_def List.map_filter_def comp_def)
  then show ?thesis
    using next_from_bound [of "used_seqs s"] next_from_spec [of 1 "used_seqs s"]
    by (auto simp: next_available_index_def)
qed

text \<open>
  What registration returns, on every branch of a well-formed vault: an empty value comes back
  unchanged; a value that looks like a token or contains the beginning of one is refused and
  changes nothing; a known value keeps its token; a new value gets the token made of the least
  positive number that no entry of either table uses, at most 2001, is in its table from then on
  (even when an old entry had to go), and the other table is as before.
\<close>

theorem pii_register_spec:
  assumes "pii_run cb cleared s" and "hex8 rand8" and "pii_register rand8 v side s = (s', res)"
  shows "if v = [] then s' = s \<and> res = Inr []
    else if pii_refused v then s' = s \<and> res = Inl ValueError
    else dget (table_p2t side s') v \<noteq> None \<and> res = Inr (the (dget (table_p2t side s') v))
      \<and> (case dget (table_p2t side s) v of
          Some tok \<Rightarrow> res = Inr tok \<and> dget (table_p2t side s') = dget (table_p2t side s)
        | None \<Rightarrow> (\<exists>n. res = Inr (make_pii_token n rand8) \<and> 1 \<le> n \<and> n \<le> 2001 \<and> n \<notin> set (used_seqs s)
            \<and> (\<forall>k. 1 \<le> k \<and> k < n \<longrightarrow> k \<in> set (used_seqs s))
            \<and> table_p2t (\<not> side) s' = table_p2t (\<not> side) s))"
proof -
  have ok: "pii_ok s" using assms(1) by (rule pii_run_inv)
  consider "v = [] \<or> pii_refused v" | tok where "v \<noteq> []" "\<not> pii_refused v" "dget (table_p2t side s) v = Some tok"
    | "v \<noteq> []" "\<not> pii_refused v" "dget (table_p2t side s) v = None"
    by (cases "dget (table_p2t side s) v") auto
  then show ?thesis
  proof cases
    case 1
    with assms(3) show ?thesis by (auto simp: pii_register_def)
  next
    case 2
    with pii_register_known [OF ok 2 assms(3)] show ?thesis by simp
  next
    case 3
    let ?n = "next_available_index s"
    have "1 \<le> ?n \<and> ?n \<le> 2001 \<and> ?n \<notin> set (used_seqs s) \<and> (\<forall>k. 1 \<le> k \<and> k < ?n \<longrightarrow> k \<in> set (used_seqs s))"
      using next_available_bound [OF ok] next_from_spec [of 1 "used_seqs s"]
      by (simp add: next_available_index_def PII_MAX_ENTRIES_def)
    with 3 pii_register_new [OF ok 3(1,2) assms(2) 3(3) assms(3)] show ?thesis by auto
  qed
qed

theorem pii_register_spec_witness:
  "dget (table_p2t False pii_example) ''13800138000'' = Some (make_pii_token 1 ''0badcafe'')
   \<and> (\<exists>n. make_pii_token 1 ''0badcafe'' = make_pii_token n ''0badcafe'' \<and> n \<le> 2001)"
proof -
  have "hex8 ''0badcafe''" by (simp add: hex8_def hex_lower_def is_digit_def byte_def)
  moreover have "\<not> pii_refused ''13800138000''"
    by (simp add: pii_refused_def PII_TOKEN_PREFIX_def CRED_TOKEN_PREFIX_def sublist_code pii_match_def pii_head_def)
  moreover have "dget (table_p2t False (pii_init True)) ''13800138000'' = None"
    by (simp add: pii_init_def table_p2t_def)
  ultimately show ?thesis
    using pii_register_spec [OF pii_run.start _ pii_example_register(1)] by auto
qed

section \<open>The audit\<close>

definition audit_inv :: "pii_tokens \<Rightarrow> bool" where
  "audit_inv s \<longleftrightarrow> distinct (map fst (audit_calls s))
     \<and> (\<forall>cat. cat \<in> fst ` set (audit_calls s) \<longleftrightarrow> dget_or (malformed_counts s) cat 0 \<noteq> 0)
     \<and> fst ` set (audit_calls s) \<subseteq> {''malformed'', ''unregistered'', ''fuzzy''}
     \<and> (\<not> audit_on s \<longrightarrow> audit_calls s = [])"

lemma audit_inv_count:
  assumes "audit_inv s" and "audit_on s" and "cat \<in> {''malformed'', ''unregistered'', ''fuzzy''}"
  shows "audit_inv (count_malformed cat tok s)"
proof -
  have "dget_or (dset cat n (malformed_counts s)) c 0 = (if c = cat then n else dget_or (malformed_counts s) c 0)" for c n
    by (simp add: dget_or_def)
  with assms show ?thesis by (auto simp: audit_inv_def count_malformed_def Let_def)
qed

lemma audit_inv_audit: "audit_inv s \<Longrightarrow> audit_inv (audit_malformed tok s)"
  by (auto simp: audit_malformed_def intro!: audit_inv_count split: option.split)

lemma audit_inv_touch: "audit_inv s \<Longrightarrow> audit_inv (touch_pii a b s)" "audit_inv s \<Longrightarrow> audit_inv (touch_resp a b s)"
  by (simp_all add: audit_inv_def touch_pii_def touch_resp_def)

lemma audit_inv_hit: "audit_inv u \<Longrightarrow> audit_inv (pii_hit fuzzy s u tok)"
  using audit_inv_touch audit_inv_audit audit_inv_count [OF audit_inv_touch(1)]
  by (auto simp: pii_hit_def pii_repl_def pii_repl_fuzzy_def Let_def split: option.split)

lemma audit_inv_foldl: "(\<And>u x. audit_inv u \<Longrightarrow> audit_inv (f u x)) \<Longrightarrow> audit_inv s \<Longrightarrow> audit_inv (foldl f s xs)"
  by (induction xs arbitrary: s) auto

lemma audit_inv_restore: "audit_inv s \<Longrightarrow> audit_inv (fst (pii_restore fuzzy text s))"
  unfolding pii_restore_split Let_def
  by (auto intro!: audit_inv_foldl audit_inv_hit audit_inv_audit)

lemma audit_frame_register:
  "audit_calls (fst (pii_register r v b s)) = audit_calls s"
  "malformed_counts (fst (pii_register r v b s)) = malformed_counts s"
  "audit_on (fst (pii_register r v b s)) = audit_on s"
  by (auto simp: pii_register_def Let_def set_tables_def split: option.split prod.split)

text \<open>
  However often malformed or unknown tokens occur in a request, the audit callback is called at most once per
  category, only with one of the three fixed categories, and never without a callback; so an
  attacker cannot flood the log.
\<close>

theorem audit_once_per_category:
  assumes "pii_run cb False s"
  shows "distinct (map fst (audit_calls s)) \<and> length (audit_calls s) \<le> 3
    \<and> fst ` set (audit_calls s) \<subseteq> {''malformed'', ''unregistered'', ''fuzzy''}"
proof -
  have "c = False \<Longrightarrow> pii_run cb c s \<Longrightarrow> audit_inv s" for c s
  proof (rotate_tac, induction rule: pii_run.induct)
    case start
    show ?case by (simp add: audit_inv_def pii_init_def dget_or_def)
  next
    case (register c s rand8 v side)
    then show ?case by (simp add: audit_inv_def audit_frame_register)
  next
    case (restore c s fuzzy x)
    then show ?case by (simp add: audit_inv_restore)
  qed (simp_all add: audit_inv_def set_pii_collector_def)
  from this [OF refl assms] have inv: "audit_inv s" .
  then have "length (audit_calls s) = card (fst ` set (audit_calls s))"
    by (metis audit_inv_def distinct_card length_map list.set_map)
  also have "\<dots> \<le> card {''malformed'', ''unregistered'', ''fuzzy''}"
    using inv by (intro card_mono) (auto simp: audit_inv_def)
  also have "\<dots> = 3" by simp
  finally show ?thesis using inv by (simp add: audit_inv_def)
qed

theorem audit_once_per_category_witness:
  "length (audit_calls (fst (pii_restore False (''__PII_7_zz__'' @ make_pii_token 1 ''0badcafe'') pii_example))) \<le> 3"
  using audit_once_per_category [OF pii_run.restore [OF pii_example_run]] by blast

end
