(* ===== verification/Ip_Addr.thy ===== *)
theory Ip_Addr
  imports Py_Text
begin

text \<open>
  The part of Python's \<open>ipaddress\<close> (version 3.12) the code uses: parsing an address, the networks with
  a meaning of their own, and the test of the PII detector for addresses that are not public.
\<close>

section \<open>Parsing\<close>

text \<open>An octet of \<open>ipaddress.IPv4Address\<close>: one to three ASCII digits, no leading zero, at most 255.\<close>

definition ipv4_octet :: "string \<Rightarrow> nat option" where
  "ipv4_octet w =
     (if w = [] \<or> \<not> list_all is_digit w \<or> 3 < length w \<or> (w \<noteq> ''0'' \<and> hd w = CHR ''0'') \<or> 255 < undec w
      then None else Some (undec w))"

definition ipv4_parse :: "string \<Rightarrow> nat list option" where
  "ipv4_parse s =
     (let ws = split_on (CHR ''.'') s
      in if length ws = 4 then those (map ipv4_octet ws) else None)"

definition ipv6_hextet :: "string \<Rightarrow> nat option" where
  "ipv6_hextet w =
     (if w = [] \<or> 4 < length w then None
      else map_option (foldl (\<lambda>a d. 16 * a + d) 0) (those (map hex_digit w)))"

text \<open>The last part may be an IPv4 address, which stands for two groups.\<close>

definition ipv6_parts :: "string \<Rightarrow> (nat option) list option" where
  "ipv6_parts s =
     (let ws = split_on (CHR '':'') s; l = last ws in
      if length ws < 3 then None
      else if CHR ''.'' \<in> set l then
        (case ipv4_parse l of
           Some [a, b, c, d] \<Rightarrow>
             (case those (map (\<lambda>w. if w = [] then Some None else map_option Some (ipv6_hextet w)) (butlast ws)) of
                Some ps \<Rightarrow> Some (ps @ [Some (256 * a + b), Some (256 * c + d)])
              | None \<Rightarrow> None)
         | _ \<Rightarrow> None)
      else those (map (\<lambda>w. if w = [] then Some None else map_option Some (ipv6_hextet w)) ws))"

text \<open>
  An empty part inside is the \<open>::\<close> gap, at most one; an empty first (last) part is only allowed
  next to the gap.  Without a gap there are exactly eight groups; a gap stands for one or more.
\<close>

definition ipv6_groups :: "(nat option) list \<Rightarrow> nat list option" where
  "ipv6_groups ps =
     (let n = length ps; gaps = filter (\<lambda>i. ps ! i = None) [1 ..< n - 1] in
      if 9 < n then None
      else case gaps of
        [] \<Rightarrow> if n = 8 then those ps else None
      | [g] \<Rightarrow>
          (let hi = (if ps ! 0 = None then (if g = 1 then Some [] else None) else those (take g ps));
               lo = (if ps ! (n - 1) = None then (if g = n - 2 then Some [] else None)
                     else those (drop (g + 1) ps))
           in case (hi, lo) of
                (Some xs, Some ys) \<Rightarrow>
                  if length xs + length ys < 8
                  then Some (xs @ replicate (8 - length xs - length ys) 0 @ ys) else None
              | _ \<Rightarrow> None)
      | _ \<Rightarrow> None)"

text \<open>A scope identifier follows a \<open>%\<close> and is nonempty without another \<open>%\<close>; slashes never parse.\<close>

definition ipv6_parse :: "string \<Rightarrow> nat list option" where
  "ipv6_parse s =
     (if CHR ''/'' \<in> set s then None
      else case split_on (CHR ''%'') s of
        [a] \<Rightarrow> Option.bind (ipv6_parts a) ipv6_groups
      | [a, z] \<Rightarrow> if z = [] then None else Option.bind (ipv6_parts a) ipv6_groups
      | _ \<Rightarrow> None)"

section \<open>Networks\<close>

text \<open>An address as a number, and a network as its base and the length of its prefix.\<close>

datatype ip = V4 nat | V6 nat

definition v4_num :: "nat list \<Rightarrow> nat" where
  "v4_num bs = foldl (\<lambda>a b. 256 * a + b) 0 bs"

definition v6_num :: "nat list \<Rightarrow> nat" where
  "v6_num gs = foldl (\<lambda>a g. 65536 * a + g) 0 (take 8 (gs @ replicate 8 0))"

definition ip_address :: "string \<Rightarrow> ip option" where
  "ip_address s =
     (case ipv4_parse s of
        Some bs \<Rightarrow> Some (V4 (v4_num bs))
      | None \<Rightarrow> map_option (\<lambda>gs. V6 (v6_num gs)) (ipv6_parse s))"

definition in_net :: "nat \<Rightarrow> nat \<Rightarrow> nat \<times> nat \<Rightarrow> bool" where
  "in_net bits n net \<longleftrightarrow> n div 2 ^ (bits - snd net) = fst net div 2 ^ (bits - snd net)"

definition V4_PRIVATE :: "(nat \<times> nat) list" where
  "V4_PRIVATE = [(v4_num [0, 0, 0, 0], 8), (v4_num [10, 0, 0, 0], 8), (v4_num [127, 0, 0, 0], 8), (v4_num [169, 254, 0, 0], 16),
     (v4_num [172, 16, 0, 0], 12), (v4_num [192, 0, 0, 0], 24), (v4_num [192, 0, 0, 170], 31), (v4_num [192, 0, 2, 0], 24),
     (v4_num [192, 168, 0, 0], 16), (v4_num [198, 18, 0, 0], 15), (v4_num [198, 51, 100, 0], 24), (v4_num [203, 0, 113, 0], 24),
     (v4_num [240, 0, 0, 0], 4), (v4_num [255, 255, 255, 255], 32)]"

definition V4_PRIVATE_EXCEPT :: "(nat \<times> nat) list" where
  "V4_PRIVATE_EXCEPT = [(v4_num [192, 0, 0, 9], 32), (v4_num [192, 0, 0, 10], 32)]"

definition V6_PRIVATE :: "(nat \<times> nat) list" where
  "V6_PRIVATE = [(v6_num [0, 0, 0, 0, 0, 0, 0, 1], 128), (v6_num [], 128), (v6_num [0, 0, 0, 0, 0, 0xffff], 96),
     (v6_num [0x64, 0xff9b, 1], 48), (v6_num [0x100], 64), (v6_num [0x2001], 23), (v6_num [0x2001, 0xdb8], 32), (v6_num [0x2002], 16),
     (v6_num [0xfc00], 7), (v6_num [0xfe80], 10)]"

definition V6_PRIVATE_EXCEPT :: "(nat \<times> nat) list" where
  "V6_PRIVATE_EXCEPT = [(v6_num [0x2001, 1, 0, 0, 0, 0, 0, 1], 128), (v6_num [0x2001, 1, 0, 0, 0, 0, 0, 2], 128),
     (v6_num [0x2001, 3], 32), (v6_num [0x2001, 4, 0x112], 48), (v6_num [0x2001, 0x20], 28), (v6_num [0x2001, 0x30], 28)]"

definition V6_RESERVED :: "(nat \<times> nat) list" where
  "V6_RESERVED = [(v6_num [], 8), (v6_num [0x100], 8), (v6_num [0x200], 7), (v6_num [0x400], 6), (v6_num [0x800], 5), (v6_num [0x1000], 4),
     (v6_num [0x4000], 3), (v6_num [0x6000], 3), (v6_num [0x8000], 3), (v6_num [0xa000], 3), (v6_num [0xc000], 3), (v6_num [0xe000], 4),
     (v6_num [0xf000], 5), (v6_num [0xf800], 6), (v6_num [0xfe00], 9)]"

definition v4_private :: "nat \<Rightarrow> bool" where
  "v4_private n \<longleftrightarrow> list_ex (in_net 32 n) V4_PRIVATE \<and> \<not> list_ex (in_net 32 n) V4_PRIVATE_EXCEPT"

text \<open>A mapped address is as private as the IPv4 address it holds.\<close>

fun is_private :: "ip \<Rightarrow> bool" where
  "is_private (V4 n) = v4_private n"
| "is_private (V6 n) =
     (if in_net 128 n (v6_num [0, 0, 0, 0, 0, 0xffff], 96) then v4_private (n mod 2 ^ 32)
      else list_ex (in_net 128 n) V6_PRIVATE \<and> \<not> list_ex (in_net 128 n) V6_PRIVATE_EXCEPT)"

fun is_global :: "ip \<Rightarrow> bool" where
  "is_global (V4 n) = (\<not> in_net 32 n (v4_num [100, 64, 0, 0], 10) \<and> \<not> is_private (V4 n))"
| "is_global (V6 n) = (\<not> is_private (V6 n))"

fun is_multicast :: "ip \<Rightarrow> bool" where
  "is_multicast (V4 n) = in_net 32 n (v4_num [224, 0, 0, 0], 4)"
| "is_multicast (V6 n) = in_net 128 n (v6_num [0xff00], 8)"

fun is_reserved :: "ip \<Rightarrow> bool" where
  "is_reserved (V4 n) = in_net 32 n (v4_num [240, 0, 0, 0], 4)"
| "is_reserved (V6 n) = list_ex (in_net 128 n) V6_RESERVED"

fun is_unspecified :: "ip \<Rightarrow> bool" where
  "is_unspecified (V4 n) = (n = 0)"
| "is_unspecified (V6 n) = (n = 0)"

fun is_site_local :: "ip \<Rightarrow> bool" where
  "is_site_local (V4 n) = False"
| "is_site_local (V6 n) = in_net 128 n (v6_num [0xfec0], 10)"

fun ip_loopback :: "ip \<Rightarrow> bool" where
  "ip_loopback (V4 n) = in_net 32 n (v4_num [127, 0, 0, 0], 8)"
| "ip_loopback (V6 n) = (n = 1)"

fun is_link_local :: "ip \<Rightarrow> bool" where
  "is_link_local (V4 n) = in_net 32 n (v4_num [169, 254, 0, 0], 16)"
| "is_link_local (V6 n) = in_net 128 n (v6_num [0xfe80], 10)"

section \<open>Public addresses\<close>

text \<open>\<open>str(int(p))\<close>; the parts the detector finds are digits.\<close>

definition str_int :: "int \<Rightarrow> string" where
  "str_int i = (if i < 0 then ''-'' @ dec (nat (- i)) else dec (nat i))"

fun join_dots :: "string list \<Rightarrow> string" where
  "join_dots [] = []"
| "join_dots [w] = w"
| "join_dots (w # ws) = w @ ''.'' @ join_dots ws"

definition normalize_ipv4_leading_zeros :: "string \<Rightarrow> string" where
  "normalize_ipv4_leading_zeros value =
     (let parts = split_on (CHR ''.'') value in
      if length parts \<noteq> 4 then value
      else case those (map py_int parts) of
        None \<Rightarrow> value
      | Some ns \<Rightarrow> join_dots (map str_int ns))"

definition is_valid_ipv4 :: "string \<Rightarrow> bool" where
  "is_valid_ipv4 value \<longleftrightarrow>
     (case ip_address (normalize_ipv4_leading_zeros value) of Some (V4 n) \<Rightarrow> True | _ \<Rightarrow> False)"

definition is_valid_ipv6 :: "string \<Rightarrow> bool" where
  "is_valid_ipv6 value \<longleftrightarrow> (case ip_address value of Some (V6 n) \<Rightarrow> True | _ \<Rightarrow> False)"

definition ip_core :: "string \<Rightarrow> string" where
  "ip_core value = rstrip_chars ''.,;)]}'' value"

text \<open>The addresses that are left alone; what does not parse is not.\<close>

definition exempt :: "ip \<Rightarrow> bool" where
  "exempt a \<longleftrightarrow>
     (if \<not> is_global a then True
      else if is_multicast a \<or> is_reserved a \<or> is_unspecified a then True
      else if is_site_local a then True
      else ip_loopback a \<or> is_link_local a \<or> is_private a)"

definition is_reserved_ip :: "bool \<Rightarrow> string \<Rightarrow> bool" where
  "is_reserved_ip six value =
     (let v = (if six then py_lower (ip_core value) else normalize_ipv4_leading_zeros value) in
      if six \<and> v = [] then False
      else case ip_address v of None \<Rightarrow> False | Some a \<Rightarrow> exempt a)"

section \<open>Facts\<close>

text \<open>For IPv4 the test comes down to the private networks, the shared one and multicast.\<close>

lemma exempt_v4: "exempt (V4 n) \<longleftrightarrow> v4_private n \<or> in_net 32 n (v4_num [100, 64, 0, 0], 10) \<or> is_multicast (V4 n)"
  by (auto simp: exempt_def v4_private_def V4_PRIVATE_def V4_PRIVATE_EXCEPT_def in_net_def v4_num_def)

lemma replicate_8: "replicate 8 (0 :: nat) = [0, 0, 0, 0, 0, 0, 0, 0]"
  by (simp add: numeral_eq_Suc)

lemma mapped_base: "v6_num [0, 0, 0, 0, 0, 0xffff] = 281470681743360"
  by (simp add: v6_num_def replicate_8)

text \<open>
  Every mapped address lies in a reserved network (\<open>::/8\<close>), so it counts as not public, whatever IPv4
  address it holds.
\<close>

lemma mapped_exempt:
  assumes "n < 2 ^ 32"
  shows "exempt (V6 (v6_num [0, 0, 0, 0, 0, 0xffff] + n))"
proof -
  have "in_net 128 (281470681743360 + n) (v6_num [], 8)"
    using assms by (simp add: in_net_def v6_num_def replicate_8)
  then have "is_reserved (V6 (281470681743360 + n))" by (simp add: V6_RESERVED_def)
  then show ?thesis by (simp add: exempt_def mapped_base del: is_reserved.simps)
qed

lemma mapped_parse:
  "ipv4_parse ''::ffff:8.8.8.8'' = None" "ipv6_parse ''::ffff:8.8.8.8'' = Some [0, 0, 0, 0, 0, 0xffff, 0x808, 0x808]"
  by (simp_all add: ipv6_parse_def ipv6_parts_def ipv6_groups_def ipv6_hextet_def hex_digit_def ipv4_parse_def
      ipv4_octet_def is_digit_def byte_def undec_def) (simp add: numeral_eq_Suc)

lemma mapped_google: "is_reserved_ip True ''::ffff:8.8.8.8''"
proof -
  have "py_lower (ip_core ''::ffff:8.8.8.8'') = ''::ffff:8.8.8.8''"
    by (simp add: ip_core_def rstrip_chars_def py_lower_def lower_char_def byte_def)
  moreover have "v6_num [0, 0, 0, 0, 0, 0xffff, 0x808, 0x808] = v6_num [0, 0, 0, 0, 0, 0xffff] + 134744072"
    by (simp add: v6_num_def replicate_8)
  ultimately show ?thesis
    using mapped_exempt [of 134744072] by (simp add: is_reserved_ip_def ip_address_def mapped_parse)
qed

end
