(* ===== verification/Admin.thy ===== *)
theory Admin
  imports Ip_Addr
begin

text \<open>
  The admin API (\<open>_admin.py\<close>): the start-up check of its token, the exact loopback test, the
  sliding-window limiter, the limit of concurrent event streams and the request handler with its
  order of checks.  The digest (\<open>hashlib.sha256\<close>) is a parameter; the pages and the collector's
  answers are named, not built.
\<close>

section \<open>Start-up check\<close>

text \<open>The environment and the token file (\<open>None\<close> when \<open>DATA_DIR\<close> is unset or it cannot be read).\<close>

record obs_env =
  oe_disable :: "string option"
  oe_token :: string
  oe_cred_token :: string
  oe_matrix_token :: string
  oe_file_token :: "string option"

definition other_tokens :: "obs_env \<Rightarrow> string list" where
  "other_tokens e = [oe_cred_token e, oe_matrix_token e]
     @ (case oe_file_token e of None \<Rightarrow> [] | Some t \<Rightarrow> [py_strip t])"

definition validate_observability_token :: "(string \<Rightarrow> string) \<Rightarrow> obs_env \<Rightarrow> unit py_result" where
  "validate_observability_token sha e =
     (if oe_disable e = Some ''1'' then Inr ()
      else if oe_token e = [] then Inl SystemExit
      else if list_ex (\<lambda>x. x \<noteq> [] \<and> sha (oe_token e) = sha x) (other_tokens e) then Inl SystemExit
      else Inr ())"

section \<open>Loopback addresses\<close>

text \<open>\<open>_is_loopback\<close>: an IPv4 address, else an IPv6 address, a mapped one read as IPv4.\<close>

definition is_loopback :: "string \<Rightarrow> bool" where
  "is_loopback remote =
     (case ipv4_parse remote of
        Some v4 \<Rightarrow> hd v4 = 127
      | None \<Rightarrow>
          (case ipv6_parse remote of
             None \<Rightarrow> False
           | Some gs \<Rightarrow>
               if take 6 gs = [0, 0, 0, 0, 0, 65535] then gs ! 6 div 256 = 127
               else gs = [0, 0, 0, 0, 0, 0, 0, 1]))"

section \<open>The limiter\<close>

record limiter =
  hits :: "(string, real list) dict"
  calls :: nat
  last_sweep :: real

definition limiter_init :: limiter where
  "limiter_init = \<lparr>hits = [], calls = 0, last_sweep = 0\<rparr>"

text \<open>The lazy sweep: keys without a hit, or whose last hit is older than the window.\<close>

definition sweep :: "real \<Rightarrow> real \<Rightarrow> limiter \<Rightarrow> limiter" where
  "sweep window now s =
     (let s1 = s\<lparr>calls := calls s + 1\<rparr>
      in if calls s1 mod 1000 = 0 \<or> now - last_sweep s1 > window
         then s1\<lparr>last_sweep := now,
                 hits := filter (\<lambda>p. \<not> (snd p = [] \<or> last (snd p) < now - window)) (hits s1)\<rparr>
         else s1)"

definition allow :: "nat \<Rightarrow> real \<Rightarrow> real \<Rightarrow> string \<Rightarrow> limiter \<Rightarrow> limiter \<times> bool \<times> int" where
  "allow limit window now key s =
     (let s1 = sweep window now s;
          had = dhas (hits s1) key;
          lst = filter (\<lambda>t. now - t < window) (dget_or (hits s1) key [])
      in if had \<and> lst = [] then (s1\<lparr>hits := dset key [now] (ddel key (hits s1))\<rparr>, True, 0)
         else if limit \<le> length lst
         then (s1\<lparr>hits := dset key lst (hits s1)\<rparr>, False, max (\<lfloor>window - (now - hd lst)\<rfloor> + 1) 1)
         else (s1\<lparr>hits := dset key (lst @ [now]) (hits s1)\<rparr>, True, 0))"

definition limiter_cleanup :: "string \<Rightarrow> limiter \<Rightarrow> limiter" where
  "limiter_cleanup key s = s\<lparr>hits := ddel key (hits s)\<rparr>"

section \<open>Concurrent streams\<close>

definition try_acquire :: "nat \<Rightarrow> string \<Rightarrow> (string, nat) dict \<Rightarrow> (string, nat) dict \<times> bool" where
  "try_acquire max_concurrent key d =
     (let cur = dget_or d key 0
      in if max_concurrent \<le> cur then (d, False) else (dset key (cur + 1) d, True))"

definition release :: "string \<Rightarrow> (string, nat) dict \<Rightarrow> (string, nat) dict" where
  "release key d =
     (let cur = dget_or d key 0 in if cur \<le> 1 then ddel key d else dset key (cur - 1) d)"

section \<open>The handler\<close>

record admin_env =
  ae_env :: string
  ae_loopback_ok :: "string option"
  ae_token :: string
  ae_html :: bool

record admin_req =
  aq_method :: string
  aq_path :: string
  aq_remote :: "string option"
  aq_header_token :: string
  aq_cookies :: "(string, string) dict"
  aq_access_token :: string
  aq_scheme :: string

record admin_state =
  as_rate :: limiter
  as_streams :: "(string, nat) dict"

text \<open>
  The replies: the static page, an error status (with \<open>Retry-After\<close>), an endpoint's data with the
  cookie to set, an event stream.
\<close>

datatype admin_reply =
    Page
  | Status nat "int option"
  | Data string "string option"
  | Stream

definition RATE_LIMIT_MIN :: nat where "RATE_LIMIT_MIN = 60"
definition RATE_WINDOW_S :: real where "RATE_WINDOW_S = 60"
definition SSE_MAX_CONCURRENT :: nat where "SSE_MAX_CONCURRENT = 5"

definition cookie_token :: "(string, string) dict \<Rightarrow> string" where
  "cookie_token cookies =
     (let host = dget_or cookies ''__Host-admin_token'' []
      in if host \<noteq> [] then host else dget_or cookies ''admin_token'' [])"

definition loopback_grace :: "admin_env \<Rightarrow> string \<Rightarrow> string \<Rightarrow> bool" where
  "loopback_grace e method remote \<longleftrightarrow>
     ae_env e = ''dev'' \<and> ae_loopback_ok e = Some ''1'' \<and> method = ''GET'' \<and> is_loopback remote"

definition stream_path :: string where "stream_path = ''/_admin/events/stream''"

text \<open>The credential of a request: header, cookie, and for the stream only the query.\<close>

definition request_token :: "admin_req \<Rightarrow> string" where
  "request_token q =
     (let t1 = aq_header_token q;
          t2 = (if t1 = [] then cookie_token (aq_cookies q) else t1)
      in if t2 = [] \<and> aq_path q = stream_path then aq_access_token q else t2)"

definition token_rejected :: "(string \<Rightarrow> string) \<Rightarrow> admin_env \<Rightarrow> admin_req \<Rightarrow> bool" where
  "token_rejected sha e q \<longleftrightarrow>
     aq_access_token q \<noteq> [] \<and> aq_path q \<noteq> stream_path
     \<or> request_token q = []
     \<or> ae_token e = [] \<or> sha (request_token q) \<noteq> sha (ae_token e)"

text \<open>The characters a token may have in a cookie.\<close>

definition cookie_char :: "char \<Rightarrow> bool" where
  "cookie_char c \<longleftrightarrow> is_digit c \<or> (65 \<le> byte c \<and> byte c \<le> 90) \<or> (97 \<le> byte c \<and> byte c \<le> 122)
     \<or> c \<in> set ''._~+/=-''"

definition cookie_header :: "string \<Rightarrow> string \<Rightarrow> string" where
  "cookie_header scheme tok =
     (if scheme = ''https''
      then ''__Host-admin_token='' @ tok @ ''; HttpOnly; Secure; SameSite=Strict; Path=/; Max-Age=3600''
      else ''admin_token='' @ tok @ ''; HttpOnly; SameSite=Strict; Path=/; Max-Age=3600'')"

definition admin_endpoints :: "string list" where
  "admin_endpoints = [''/_admin/metrics'', ''/_admin/series'', ''/_admin/events'', ''/_admin/health'']"

text \<open>What follows the authentication; \<open>tok\<close> is empty under the loopback grace.\<close>

definition admin_serve :: "admin_req \<Rightarrow> string \<Rightarrow> string \<Rightarrow> admin_state \<Rightarrow> admin_state \<times> admin_reply" where
  "admin_serve q remote tok s =
     (if aq_method q \<noteq> ''GET'' then (s, Status 405 None)
      else
        let from_header = aq_header_token q \<noteq> [] \<and> tok \<noteq> [] in
        if from_header \<and> aq_path q \<noteq> stream_path \<and> \<not> list_all cookie_char tok
        then (s, Status 401 None)
        else if aq_path q = stream_path then
          (case try_acquire SSE_MAX_CONCURRENT remote (as_streams s) of
             (d, False) \<Rightarrow> (s, Status 429 (Some 60))
           | (d, True) \<Rightarrow> (s\<lparr>as_streams := d\<rparr>, Stream))
        else if aq_path q \<in> set admin_endpoints
        then (s, Data (aq_path q) (if from_header then Some (cookie_header (aq_scheme q) tok) else None))
        else (s, Status 404 None))"

definition admin_handler ::
  "(string \<Rightarrow> string) \<Rightarrow> admin_env \<Rightarrow> real \<Rightarrow> admin_req \<Rightarrow> admin_state \<Rightarrow> admin_state \<times> admin_reply" where
  "admin_handler sha e now q s =
     (if aq_path q = ''/_admin/'' \<or> aq_path q = ''/_admin'' then
        (if aq_method q \<noteq> ''GET'' then (s, Status 405 None)
         else if ae_html e then (s, Page) else (s, Status 404 None))
      else if \<not> prefix ''/_admin/'' (aq_path q) then (s, Status 404 None)
      else
        let remote = (case aq_remote q of None \<Rightarrow> ''unknown'' | Some r \<Rightarrow> if r = [] then ''unknown'' else r);
            grace = loopback_grace e (aq_method q) remote;
            limited = aq_path q \<noteq> stream_path \<and> aq_path q \<noteq> ''/_admin/health'' \<and> \<not> grace;
            (rate, ok, retry) =
              (if limited then allow RATE_LIMIT_MIN RATE_WINDOW_S now remote (as_rate s)
               else (as_rate s, True, 0));
            s1 = s\<lparr>as_rate := rate\<rparr>
        in if \<not> ok then (s1, Status 429 (Some retry))
           else if grace then admin_serve q remote [] s1
           else if token_rejected sha e q then (s1, Status 401 None)
           else admin_serve q remote (request_token q) s1)"

text \<open>The end of an event stream.\<close>

definition stream_closed :: "string \<Rightarrow> admin_state \<Rightarrow> admin_state" where
  "stream_closed remote s =
     s\<lparr>as_streams := release remote (as_streams s), as_rate := limiter_cleanup remote (as_rate s)\<rparr>"

section \<open>The limiter as a sliding window\<close>

text \<open>
  The specification: a key's request is granted when fewer than \<open>limit\<close> requests of the key were
  granted in the window before it; there is no sweep and nothing is forgotten.
\<close>

fun window_run :: "nat \<Rightarrow> real \<Rightarrow> (real \<times> string) list \<Rightarrow> (string \<Rightarrow> real list) \<Rightarrow> bool list" where
  "window_run limit window [] h = []"
| "window_run limit window ((now, key) # reqs) h =
     (let ok = length (filter (\<lambda>t. now - t < window) (h key)) < limit
      in ok # window_run limit window reqs (if ok then h(key := h key @ [now]) else h))"

fun limiter_run :: "nat \<Rightarrow> real \<Rightarrow> (real \<times> string) list \<Rightarrow> limiter \<Rightarrow> bool list" where
  "limiter_run limit window [] s = []"
| "limiter_run limit window ((now, key) # reqs) s =
     (case allow limit window now key s of
        (s', ok, _) \<Rightarrow> ok # limiter_run limit window reqs s')"

definition recent :: "real \<Rightarrow> real \<Rightarrow> real list \<Rightarrow> real list" where
  "recent window now ts = filter (\<lambda>t. now - t < window) ts"

definition hits_of :: "limiter \<Rightarrow> string \<Rightarrow> real list" where
  "hits_of s key = dget_or (hits s) key []"

definition tracks :: "real \<Rightarrow> real \<Rightarrow> limiter \<Rightarrow> (string \<Rightarrow> real list) \<Rightarrow> bool" where
  "tracks window now s h \<longleftrightarrow> dict_ok (hits s)
     \<and> (\<forall>key. sorted (hits_of s key) \<and> (\<forall>t \<in> set (hits_of s key). t \<le> now)
          \<and> recent window now (hits_of s key) = recent window now (h key))"

lemma recent_later: "now \<le> now' \<Longrightarrow> recent window now' (recent window now ts) = recent window now' ts"
  by (induction ts) (auto simp: recent_def)

lemma recent_Nil: "sorted ts \<Longrightarrow> ts = [] \<or> last ts < now - window \<Longrightarrow> recent window now ts = []"
proof -
  assume s: "sorted ts" and l: "ts = [] \<or> last ts < now - window"
  have "t \<le> last ts" if "t \<in> set ts" for t
    using s that by (cases ts rule: rev_cases) (auto simp: sorted_append)
  with l show ?thesis by (fastforce simp: recent_def filter_empty_conv)
qed

lemma tracks_later:
  assumes "tracks window now s h" and "now \<le> now'"
  shows "tracks window now' s h"
proof -
  have "recent window now' (hits_of s key) = recent window now' (h key)" for key
  proof -
    have "recent window now (hits_of s key) = recent window now (h key)"
      using assms(1) by (simp add: tracks_def)
    then show ?thesis using recent_later [OF assms(2)] by metis
  qed
  with assms show ?thesis by (fastforce simp: tracks_def)
qed

lemma tracks_sweep:
  assumes "tracks window now s h"
  shows "tracks window now (sweep window now s) h"
proof -
  let ?P = "\<lambda>p :: string \<times> real list. \<not> (snd p = [] \<or> last (snd p) < now - window)"
  have ok: "dict_ok (hits s)" using assms by (simp add: tracks_def)
  have swept: "tracks window now (s\<lparr>calls := c, last_sweep := ls, hits := filter ?P (hits s)\<rparr>) h" for c ls
  proof -
    let ?t = "s\<lparr>calls := c, last_sweep := ls, hits := filter ?P (hits s)\<rparr>"
    have "hits_of ?t key = hits_of s key
        \<or> hits_of ?t key = [] \<and> (hits_of s key = [] \<or> last (hits_of s key) < now - window)" for key
      by (auto simp: hits_of_def dget_or_def dget_filter [OF ok] split: option.splits)
    then have dich: "hits_of ?t key = hits_of s key \<or> hits_of ?t key = [] \<and> recent window now (hits_of s key) = []" for key
      using recent_Nil [of "hits_of s key" now window] assms unfolding tracks_def by blast
    moreover have "dict_ok (hits ?t)" using ok by (simp add: dict_ok_def distinct_map_filter)
    moreover have "sorted (hits_of ?t key) \<and> (\<forall>x \<in> set (hits_of ?t key). x \<le> now)
        \<and> recent window now (hits_of ?t key) = recent window now (h key)" for key
    proof -
      have s: "sorted (hits_of s key)" "\<forall>x \<in> set (hits_of s key). x \<le> now"
        "recent window now (hits_of s key) = recent window now (h key)"
        using assms by (simp_all add: tracks_def)
      from dich [of key] show ?thesis
      proof (elim disjE conjE)
        assume e: "hits_of ?t key = []" "recent window now (hits_of s key) = []"
        show ?thesis unfolding e(1) using e(2) s(3) by (simp add: recent_def)
      next
        assume e: "hits_of ?t key = hits_of s key"
        show ?thesis unfolding e using s by blast
      qed
    qed
    ultimately show ?thesis unfolding tracks_def by blast
  qed
  moreover have "tracks window now (s\<lparr>calls := c\<rparr>) h" for c
    using assms by (simp add: tracks_def hits_of_def)
  ultimately show ?thesis by (auto simp: sweep_def Let_def)
qed

lemma sorted_recent: "sorted ts \<Longrightarrow> sorted (recent window now ts)"
  by (simp add: recent_def sorted_wrt_filter)

lemma allow_tracks:
  assumes "tracks window now s h" and "0 < limit" and "0 < window"
    and a: "allow limit window now key s = (s', ok, r)"
  shows "ok \<longleftrightarrow> length (recent window now (h key)) < limit"
    and "tracks window now s' (if ok then h(key := h key @ [now]) else h)"
proof -
  let ?s = "sweep window now s" and ?l = "recent window now (h key)"
  have t: "tracks window now ?s h" by (rule tracks_sweep [OF assms(1)])
  then have l: "recent window now (hits_of ?s key) = ?l" and srt: "sorted (hits_of ?s key)"
    and old: "\<forall>x \<in> set (hits_of ?s key). x \<le> now" and d: "dict_ok (hits ?s)"
    by (simp_all add: tracks_def)
  have *: "sorted ?l" "\<forall>x \<in> set ?l. x \<le> now" "recent window now ?l = ?l"
    using sorted_recent [OF srt, of window now] old unfolding l [symmetric] by (auto simp: recent_def)
  have grant: "tracks window now (u\<lparr>hits := dset key (?l @ [now]) e\<rparr>) (h(key := h key @ [now]))"
    if "e = hits ?s \<or> e = ddel key (hits ?s)" for u e
  proof -
    let ?u = "u\<lparr>hits := dset key (?l @ [now]) e\<rparr>"
    have o: "hits_of ?u k = (if k = key then ?l @ [now] else hits_of ?s k)" for k
      using that by (auto simp: hits_of_def dget_or_def)
    have r: "recent window now (xs @ [now]) = recent window now xs @ [now]" for xs
      using assms(3) by (simp add: recent_def)
    have "dict_ok (hits ?u)" using that d by auto
    with t * show ?thesis by (auto simp: tracks_def o r sorted_append)
  qed
  have refuse: "tracks window now (u\<lparr>hits := dset key ?l (hits ?s)\<rparr>) h" for u
  proof -
    let ?u = "u\<lparr>hits := dset key ?l (hits ?s)\<rparr>"
    have o: "hits_of ?u k = (if k = key then ?l else hits_of ?s k)" for k
      by (auto simp: hits_of_def dget_or_def)
    have "dict_ok (hits ?u)" using d by simp
    with t * show ?thesis by (auto simp: tracks_def o)
  qed
  from a l assms(2) show "ok \<longleftrightarrow> length ?l < limit"
    by (auto simp: allow_def Let_def recent_def hits_of_def split: if_splits)
  from a show "tracks window now s' (if ok then h(key := h key @ [now]) else h)"
    unfolding allow_def Let_def hits_of_def [symmetric] recent_def [symmetric] l
    using grant refuse by (auto split: if_splits)
qed

text \<open>
  C36. The rate limiter is the sliding window it claims to be: on any sequence of requests with a
  clock that does not go back, it grants exactly the requests that have fewer than \<open>limit\<close> granted
  requests of the same key in the window before them; the lazy sweep, the special case of a
  stale key and the pruning of the lists cannot be observed.
\<close>

theorem limiter_is_sliding_window:
  assumes "sorted (map fst reqs)" and "0 < limit" and "0 < window"
  shows "limiter_run limit window reqs limiter_init = window_run limit window reqs (\<lambda>_. [])"
proof -
  have "limiter_run limit window reqs s = window_run limit window reqs h"
    if "tracks window now s h" "\<forall>r \<in> set reqs. now \<le> fst r" "sorted (map fst reqs)" for now s h
    using that
  proof (induction reqs arbitrary: now s h)
    case (Cons r reqs)
    obtain t key where r: "r = (t, key)" by (cases r)
    obtain s' ok x where a: "allow limit window t key s = (s', ok, x)" by (metis prod_cases3)
    have tr: "tracks window t s h" using Cons.prems r by (intro tracks_later [OF Cons.prems(1)]) simp
    note st = allow_tracks [OF tr assms(2,3) a]
    have "limiter_run limit window reqs s' = window_run limit window reqs (if ok then h(key := h key @ [t]) else h)"
      using Cons.prems r by (intro Cons.IH [OF st(2)]) auto
    with a r st(1) show ?case by (simp add: Let_def recent_def)
  qed simp
  moreover have "tracks window (Min (insert 0 (fst ` set reqs))) limiter_init (\<lambda>_. [])"
    by (simp add: tracks_def limiter_init_def hits_of_def dget_or_def)
  ultimately show ?thesis using assms(1) by simp
qed

theorem limiter_is_sliding_window_witness:
  "limiter_run 1 60 [(1, ''a''), (2, ''a''), (2, ''b''), (61, ''a'')] limiter_init
    = [True, False, True, True]"
proof -
  let ?reqs = "[(1, ''a''), (2, ''a''), (2, ''b''), (61, ''a'')] :: (real \<times> string) list"
  have w: "window_run 1 60 ?reqs (\<lambda>_. []) = [True, False, True, True]"
    by (simp add: Let_def)
  have "limiter_run 1 60 ?reqs limiter_init = window_run 1 60 ?reqs (\<lambda>_. [])"
    by (rule limiter_is_sliding_window) (simp_all del: limiter_run.simps window_run.simps)
  from this w show ?thesis by (rule trans)
qed

text \<open>The limiter in use: requests with a clock that does not go back, and the ends of streams.\<close>

inductive limiter_reach :: "nat \<Rightarrow> real \<Rightarrow> real \<Rightarrow> limiter \<Rightarrow> (string \<Rightarrow> real list) \<Rightarrow> bool"
  for limit window where
  start: "limiter_reach limit window now limiter_init (\<lambda>_. [])"
| request: "limiter_reach limit window now s h \<Longrightarrow> now \<le> now' \<Longrightarrow>
     allow limit window now' key s = (s', ok, r) \<Longrightarrow>
     limiter_reach limit window now' s' (if ok then h(key := h key @ [now']) else h)"
| closed: "limiter_reach limit window now s h \<Longrightarrow>
     limiter_reach limit window now (limiter_cleanup key s) (h(key := []))"

lemma recent_length: "now \<le> now' \<Longrightarrow> length (recent window now' ts) \<le> length (recent window now ts)"
  by (induction ts) (auto simp: recent_def)

lemma limiter_reach_ok:
  assumes "limiter_reach limit window now s h" and "0 < limit" and "0 < window"
  shows "tracks window now s h \<and> (\<forall>key. length (recent window now (h key)) \<le> limit)"
  using assms(1)
proof (induction rule: limiter_reach.induct)
  case (start now)
  show ?case by (simp add: tracks_def limiter_init_def hits_of_def dget_or_def recent_def)
next
  case (request now s h now' key s' ok r)
  then have t: "tracks window now' s h" by (blast intro: tracks_later)
  note st = allow_tracks [OF t assms(2,3) request(3)]
  have "length (recent window now' (h k)) \<le> limit" for k
    using request(4) recent_length [OF request(2), of window "h k"] by (blast intro: le_trans)
  moreover have "recent window now' (h key @ [now']) = recent window now' (h key) @ [now']"
    using assms(3) by (simp add: recent_def)
  ultimately show ?case using st by auto
next
  case (closed now s h key)
  then show ?case
    by (auto simp: tracks_def limiter_cleanup_def hits_of_def dget_or_def recent_def)
qed

text \<open>
  A refused request is told the truth: \<open>Retry-After\<close> is between one second and the window plus
  one, and when the key stays silent that long, its next request is granted.
\<close>

theorem retry_after_honest:
  assumes reach: "limiter_reach limit window now s h" and lw: "0 < limit" "0 < window"
    and a: "allow limit window now key s = (s', False, r)"
  shows "1 \<le> r \<and> r \<le> \<lfloor>window\<rfloor> + 1 \<and> fst (snd (allow limit window (now + r) key s'))"
proof -
  let ?s = "sweep window now s" and ?l = "recent window now (h key)"
  have t: "tracks window now s h" and few: "length ?l \<le> limit"
    using limiter_reach_ok [OF reach lw] by simp_all
  have sw: "tracks window now ?s h" by (rule tracks_sweep [OF t])
  then have l: "recent window now (hits_of ?s key) = ?l" by (simp add: tracks_def)
  have r: "r = max (\<lfloor>window - (now - hd ?l)\<rfloor> + 1) 1" and len: "limit \<le> length ?l"
    using a unfolding allow_def Let_def hits_of_def [symmetric] recent_def [symmetric] l
    by (auto split: if_splits)
  obtain x xs where x: "?l = x # xs" using len lw by (cases ?l) auto
  have "\<forall>y \<in> set (hits_of ?s key). y \<le> now"
    using sw unfolding tracks_def by blast
  then have "\<forall>y \<in> set (recent window now (hits_of ?s key)). y \<le> now"
    unfolding recent_def by simp
  then have "x \<le> now" unfolding l x by simp
  then have hd: "hd ?l \<le> now" using x by simp
  have "\<lfloor>window - (now - hd ?l)\<rfloor> \<le> \<lfloor>window\<rfloor>" using hd by (intro floor_mono) simp
  moreover have "0 \<le> \<lfloor>window\<rfloor>" using lw by simp
  ultimately have bounds: "1 \<le> r" "r \<le> \<lfloor>window\<rfloor> + 1" using r by simp_all
  have "window - (now - hd ?l) < r" using r by linarith
  then have gone: "\<not> (now + r - x < window)" using x by simp
  have "recent window (now + r) (h key) = recent window (now + r) ?l"
    using bounds by (intro recent_later [symmetric]) simp
  also have "\<dots> = recent window (now + r) xs" using gone x by (simp add: recent_def)
  finally have eq: "recent window (now + r) (h key) = recent window (now + r) xs" .
  have "length (recent window (now + r) xs) \<le> length xs" by (simp add: recent_def)
  moreover have "length xs < limit" using few unfolding x by simp
  ultimately have "length (recent window (now + r) (h key)) < limit" unfolding eq by (rule le_less_trans)
  moreover have "tracks window now s' h" using allow_tracks(2) [OF t lw a] by simp
  then have later: "tracks window (now + r) s' h" by (rule tracks_later) (use bounds in simp)
  obtain s2 ok r2 where a2: "allow limit window (now + r) key s' = (s2, ok, r2)" by (metis prod_cases3)
  ultimately have "fst (snd (allow limit window (now + r) key s'))"
    using allow_tracks(1) [OF later lw a2] by simp
  with bounds show ?thesis by simp
qed

theorem retry_after_honest_witness:
  "\<exists>s s' r. limiter_reach 1 60 5 s (\<lambda>k. if k = ''a'' then [5] else [])
     \<and> allow 1 60 5 ''a'' s = (s', False, r) \<and> r = 61 \<and> fst (snd (allow 1 60 (5 + 61) ''a'' s'))"
proof -
  let ?s = "\<lparr>hits = [(''a'', [5])], calls = 1, last_sweep = 0\<rparr> :: limiter"
  let ?s' = "\<lparr>hits = [(''a'', [5])], calls = 2, last_sweep = 0\<rparr> :: limiter"
  have s: "allow 1 60 5 ''a'' limiter_init = (?s, True, 0)"
    by (simp add: allow_def sweep_def limiter_init_def dhas_def dget_or_def Let_def)
  have "limiter_reach 1 60 5 ?s (if True then (\<lambda>_. [])(''a'' := [] @ [5]) else (\<lambda>_. []))"
    by (rule limiter_reach.request [OF limiter_reach.start [where now = 5] _ s]) simp
  then have reach: "limiter_reach 1 60 5 ?s (\<lambda>k. if k = ''a'' then [5] else [])"
    by (simp add: fun_upd_def)
  have a: "allow 1 60 5 ''a'' ?s = (?s', False, 61)"
    by (simp add: allow_def sweep_def dhas_def dget_or_def Let_def)
  have "1 \<le> (61::int) \<and> (61::int) \<le> \<lfloor>60::real\<rfloor> + 1 \<and> fst (snd (allow 1 60 (5 + 61) ''a'' ?s'))"
    using retry_after_honest [OF reach _ _ a] by simp
  with reach a show ?thesis by blast
qed

section \<open>Properties of the handler\<close>

text \<open>
  C30. Data and event streams only go to a \<open>GET\<close> request that is authenticated: by the loopback grace
  of a development setup, or by a nonempty token whose digest is the configured token's; a query
  token counts for the event stream only.
\<close>

theorem admin_data_needs_token:
  assumes "admin_handler sha e now q s = (s', rep)" and "rep = Stream \<or> (\<exists>p c. rep = Data p c)"
  shows "aq_method q = ''GET'' \<and>
    (ae_env e = ''dev'' \<and> ae_loopback_ok e = Some ''1'' \<and> (\<exists>r. aq_remote q = Some r \<and> is_loopback r)
     \<or> ae_token e \<noteq> [] \<and> request_token q \<noteq> [] \<and> sha (request_token q) = sha (ae_token e)
       \<and> (aq_access_token q = [] \<or> aq_path q = stream_path))"
proof -
  have unknown: "\<not> is_loopback ''unknown''"
    by (simp add: is_loopback_def ipv4_parse_def ipv6_parse_def ipv6_parts_def Let_def)
  have serve: "aq_method q = ''GET''" if "admin_serve q remote tok u = (s', rep)" for remote tok u
    using that assms(2) by (auto simp: admin_serve_def split: if_splits)
  let ?remote = "case aq_remote q of None \<Rightarrow> ''unknown'' | Some r \<Rightarrow> if r = [] then ''unknown'' else r"
  have "(\<exists>u. admin_serve q ?remote [] u = (s', rep)) \<and> loopback_grace e (aq_method q) ?remote
      \<or> (\<exists>u. admin_serve q ?remote (request_token q) u = (s', rep)) \<and> \<not> token_rejected sha e q"
    using assms unfolding admin_handler_def Let_def by (auto split: if_splits prod.splits)
  then show ?thesis
  proof (elim disjE conjE exE)
    fix u assume u: "admin_serve q ?remote [] u = (s', rep)" and g: "loopback_grace e (aq_method q) ?remote"
    from g unknown have "\<exists>r. aq_remote q = Some r \<and> is_loopback r"
      by (auto simp: loopback_grace_def split: option.splits if_splits)
    with g serve [OF u] show ?thesis by (simp add: loopback_grace_def)
  next
    fix u assume u: "admin_serve q ?remote (request_token q) u = (s', rep)" and t: "\<not> token_rejected sha e q"
    with serve [OF u] show ?thesis by (auto simp: token_rejected_def)
  qed
qed

theorem admin_data_needs_token_witness:
  "\<exists>s' c. admin_handler id \<lparr>ae_env = ''prod'', ae_loopback_ok = None, ae_token = ''t0'', ae_html = True\<rparr> 5
     \<lparr>aq_method = ''GET'', aq_path = ''/_admin/metrics'', aq_remote = None, aq_header_token = ''t0'',
      aq_cookies = [], aq_access_token = [], aq_scheme = ''http''\<rparr>
     \<lparr>as_rate = limiter_init, as_streams = []\<rparr> = (s', Data ''/_admin/metrics'' c) \<and> c \<noteq> None"
proof -
  let ?e = "\<lparr>ae_env = ''prod'', ae_loopback_ok = None, ae_token = ''t0'', ae_html = True\<rparr> :: admin_env"
  let ?q = "\<lparr>aq_method = ''GET'', aq_path = ''/_admin/metrics'', aq_remote = None, aq_header_token = ''t0'',
      aq_cookies = [], aq_access_token = [], aq_scheme = ''http''\<rparr> :: admin_req"
  obtain s' c where h: "admin_handler id ?e 5 ?q \<lparr>as_rate = limiter_init, as_streams = []\<rparr>
      = (s', Data ''/_admin/metrics'' (Some c))"
    by (simp add: admin_handler_def admin_serve_def allow_def sweep_def limiter_init_def dhas_def
        dget_or_def Let_def RATE_LIMIT_MIN_def RATE_WINDOW_S_def stream_path_def token_rejected_def
        request_token_def loopback_grace_def cookie_char_def is_digit_def byte_def admin_endpoints_def)
  from admin_data_needs_token [OF h] have "request_token ?q \<noteq> []" by (auto simp: loopback_grace_def)
  with h show ?thesis by auto
qed

text \<open>
  Guesses of the token are not limited on two paths: whatever the limiter holds, a request for
  the health endpoint or the event stream with a wrong token is answered 401, never 429, and is
  not counted, although the limit before the authentication is there to stop exactly such guesses.
\<close>

theorem token_guess_not_counted:
  assumes "aq_path q = ''/_admin/health'' \<or> aq_path q = stream_path"
    and "ae_env e \<noteq> ''dev''" and "token_rejected sha e q"
  shows "admin_handler sha e now q s = (s, Status 401 None)"
  using assms by (auto simp: admin_handler_def loopback_grace_def stream_path_def Let_def prefix_def)

theorem token_guess_not_counted_witness:
  "admin_handler id \<lparr>ae_env = ''prod'', ae_loopback_ok = None, ae_token = ''t0'', ae_html = True\<rparr> 5
     \<lparr>aq_method = ''GET'', aq_path = ''/_admin/health'', aq_remote = None, aq_header_token = ''t1'',
      aq_cookies = [], aq_access_token = [], aq_scheme = ''http''\<rparr>
     \<lparr>as_rate = \<lparr>hits = [(''unknown'', replicate 60 5)], calls = 60, last_sweep = 0\<rparr>, as_streams = []\<rparr>
   = (\<lparr>as_rate = \<lparr>hits = [(''unknown'', replicate 60 5)], calls = 60, last_sweep = 0\<rparr>, as_streams = []\<rparr>,
      Status 401 None)"
  by (rule token_guess_not_counted) (simp_all add: token_rejected_def request_token_def)

text \<open>
  A cookie is only set for the token that was just accepted from the header, with a value free of
  separators, so that the token cannot add attributes; over https it carries the \<open>__Host-\<close> prefix.
\<close>

theorem cookie_is_accepted_token:
  assumes "admin_handler sha e now q s = (s', Data p (Some c))"
  shows "c = cookie_header (aq_scheme q) (aq_header_token q) \<and> aq_header_token q \<noteq> []
    \<and> sha (aq_header_token q) = sha (ae_token e)
    \<and> (\<forall>x \<in> set (aq_header_token q). x \<notin> set ''; ,'' \<and> x \<noteq> CHR 0x0D \<and> x \<noteq> CHR 0x0A)"
proof -
  have sep: "\<not> cookie_char x" if "x \<in> set '';, '' \<or> x = CHR 0x0D \<or> x = CHR 0x0A" for x
    using that by (auto simp: cookie_char_def is_digit_def byte_def)
  have serve: "tok \<noteq> [] \<and> aq_header_token q \<noteq> [] \<and> list_all cookie_char tok \<and> c = cookie_header (aq_scheme q) tok"
    if "admin_serve q remote tok u = (s', Data p (Some c))" for remote tok u
    using that by (auto simp: admin_serve_def Let_def split: if_splits prod.splits bool.splits)
  let ?remote = "case aq_remote q of None \<Rightarrow> ''unknown'' | Some r \<Rightarrow> if r = [] then ''unknown'' else r"
  have "(\<exists>u. admin_serve q ?remote [] u = (s', Data p (Some c)))
      \<or> (\<exists>u. admin_serve q ?remote (request_token q) u = (s', Data p (Some c))) \<and> \<not> token_rejected sha e q"
    using assms unfolding admin_handler_def Let_def by (auto split: if_splits prod.splits)
  then obtain u where u: "admin_serve q ?remote (request_token q) u = (s', Data p (Some c))"
    and t: "\<not> token_rejected sha e q" using serve by blast
  then have tok: "request_token q = aq_header_token q"
    using serve [OF u] by (simp add: request_token_def Let_def)
  have "list_all cookie_char (aq_header_token q)" using serve [OF u] tok by simp
  then have "\<forall>x \<in> set (aq_header_token q). x \<notin> set ''; ,'' \<and> x \<noteq> CHR 0x0D \<and> x \<noteq> CHR 0x0A"
    using sep by (fastforce simp: list_all_iff)
  moreover have "c = cookie_header (aq_scheme q) (aq_header_token q)" "aq_header_token q \<noteq> []"
    using serve [OF u] tok by simp_all
  moreover have "sha (aq_header_token q) = sha (ae_token e)"
    using t tok by (simp add: token_rejected_def)
  ultimately show ?thesis by blast
qed

theorem cookie_is_accepted_token_witness:
  "\<exists>s'. admin_handler id \<lparr>ae_env = ''prod'', ae_loopback_ok = None, ae_token = ''t0'', ae_html = True\<rparr> 5
     \<lparr>aq_method = ''GET'', aq_path = ''/_admin/health'', aq_remote = None, aq_header_token = ''t0'',
      aq_cookies = [], aq_access_token = [], aq_scheme = ''http''\<rparr>
     \<lparr>as_rate = limiter_init, as_streams = []\<rparr>
   = (s', Data ''/_admin/health'' (Some ''admin_token=t0; HttpOnly; SameSite=Strict; Path=/; Max-Age=3600''))
   \<and> CHR '';'' \<notin> set ''t0''"
proof -
  let ?e = "\<lparr>ae_env = ''prod'', ae_loopback_ok = None, ae_token = ''t0'', ae_html = True\<rparr> :: admin_env"
  let ?q = "\<lparr>aq_method = ''GET'', aq_path = ''/_admin/health'', aq_remote = None, aq_header_token = ''t0'',
      aq_cookies = [], aq_access_token = [], aq_scheme = ''http''\<rparr> :: admin_req"
  obtain s' where h: "admin_handler id ?e 5 ?q \<lparr>as_rate = limiter_init, as_streams = []\<rparr>
      = (s', Data ''/_admin/health'' (Some ''admin_token=t0; HttpOnly; SameSite=Strict; Path=/; Max-Age=3600''))"
    by (simp add: admin_handler_def admin_serve_def
        Let_def stream_path_def token_rejected_def cookie_header_def
        request_token_def loopback_grace_def cookie_char_def is_digit_def byte_def admin_endpoints_def)
  from cookie_is_accepted_token [OF h] h show ?thesis by auto
qed

section \<open>Event streams\<close>

text \<open>
  The handler and the ends of its streams, with the list of open streams that the code only counts.
\<close>

inductive admin_reach ::
  "(string \<Rightarrow> string) \<Rightarrow> admin_env \<Rightarrow> admin_state \<Rightarrow> string list \<Rightarrow> bool" for sha e where
  start: "admin_reach sha e \<lparr>as_rate = limiter_init, as_streams = []\<rparr> []"
| request: "admin_reach sha e s live \<Longrightarrow> admin_handler sha e now q s = (s', rep) \<Longrightarrow>
     live' = (if rep = Stream
       then (case aq_remote q of None \<Rightarrow> ''unknown'' | Some r \<Rightarrow> if r = [] then ''unknown'' else r) # live
       else live) \<Longrightarrow>
     admin_reach sha e s' live'"
| closed: "admin_reach sha e s live \<Longrightarrow> remote \<in> set live \<Longrightarrow>
     admin_reach sha e (stream_closed remote s) (remove1 remote live)"

definition counts :: "(string, nat) dict \<Rightarrow> string list \<Rightarrow> bool" where
  "counts d live \<longleftrightarrow> dict_ok d
     \<and> (\<forall>r. dget d r = (if count_list live r = 0 then None else Some (count_list live r)))
     \<and> (\<forall>r. count_list live r \<le> SSE_MAX_CONCURRENT)"

lemma counts_acquire:
  assumes "counts d live" and "try_acquire SSE_MAX_CONCURRENT r d = (d', True)"
  shows "counts d' (r # live)"
proof -
  have get: "dget d k = (if count_list live k = 0 then None else Some (count_list live k))" for k
    using assms(1) unfolding counts_def by blast
  have "d' = dset r (count_list live r + 1) d" and "count_list live r < SSE_MAX_CONCURRENT"
    using assms(2) get [of r] by (auto simp: try_acquire_def dget_or_def Let_def split: if_splits)
  with assms(1) get show ?thesis by (simp add: counts_def)
qed

lemma count_list_remove1: "count_list (remove1 x xs) y = (if x = y then count_list xs y - 1 else count_list xs y)"
  by (induction xs) auto

lemma counts_release:
  assumes "counts d live"
  shows "counts (release r d) (remove1 r live)"
proof -
  have get: "dget d k = (if count_list live k = 0 then None else Some (count_list live k))" for k
    using assms unfolding counts_def by blast
  have le: "count_list live k \<le> SSE_MAX_CONCURRENT" "dict_ok d" for k
    using assms unfolding counts_def by blast+
  have "release r d = (if count_list live r \<le> 1 then ddel r d else dset r (count_list live r - 1) d)"
    using get [of r] by (simp add: release_def dget_or_def)
  with get le le_trans [OF diff_le_self le(1)] show ?thesis
    by (auto simp: counts_def count_list_remove1)
qed

lemma admin_handler_streams:
  assumes "admin_handler sha e now q s = (s', rep)"
  shows "if rep = Stream
    then try_acquire SSE_MAX_CONCURRENT
      (case aq_remote q of None \<Rightarrow> ''unknown'' | Some r \<Rightarrow> if r = [] then ''unknown'' else r)
      (as_streams s) = (as_streams s', True)
    else as_streams s' = as_streams s"
  using assms unfolding admin_handler_def admin_serve_def Let_def
  by (auto split: if_splits prod.splits bool.splits)

text \<open>
  The stream registry counts exactly the streams that are open, for every address and at every
  moment, and no address ever has more than five; an address without a stream has no entry.
\<close>

theorem stream_count_exact:
  assumes "admin_reach sha e s live"
  shows "\<forall>r. dget (as_streams s) r = (if r \<in> set live then Some (count_list live r) else None)
    \<and> count_list live r \<le> 5"
proof -
  have "counts (as_streams s) live"
    using assms
  proof (induction rule: admin_reach.induct)
    case start
    show ?case by (simp add: counts_def dict_ok_def)
  next
    case (request s live now q s' rep live')
    then show ?case
      using admin_handler_streams [OF request(2)] counts_acquire [OF request(4)] by (auto split: if_splits)
  next
    case (closed s live remote)
    then show ?case by (simp add: stream_closed_def counts_release)
  qed
  then show ?thesis by (auto simp: counts_def SSE_MAX_CONCURRENT_def count_list_0_iff)
qed

theorem stream_count_exact_witness:
  "\<exists>s. admin_reach id \<lparr>ae_env = ''prod'', ae_loopback_ok = None, ae_token = ''t0'', ae_html = True\<rparr> s [''unknown'']
     \<and> dget (as_streams s) ''unknown'' = Some 1"
proof -
  let ?e = "\<lparr>ae_env = ''prod'', ae_loopback_ok = None, ae_token = ''t0'', ae_html = True\<rparr> :: admin_env"
  let ?q = "\<lparr>aq_method = ''GET'', aq_path = stream_path, aq_remote = None, aq_header_token = [],
      aq_cookies = [], aq_access_token = ''t0'', aq_scheme = ''http''\<rparr> :: admin_req"
  obtain s where h: "admin_handler id ?e 5 ?q \<lparr>as_rate = limiter_init, as_streams = []\<rparr> = (s, Stream)"
    by (simp add: admin_handler_def admin_serve_def Let_def stream_path_def token_rejected_def
        request_token_def loopback_grace_def cookie_token_def dget_or_def try_acquire_def SSE_MAX_CONCURRENT_def)
  have "admin_reach id ?e s [''unknown'']"
    by (rule admin_reach.request [OF admin_reach.start h]) simp
  with stream_count_exact [OF this] show ?thesis by auto
qed

section \<open>The start-up check\<close>

text \<open>
  Unless the admin API is disabled, the proxy only starts with a nonempty admin token, and with
  one that is none of the credential token, the Matrix token and the stripped content of the token
  file, when the digest tells strings apart.
\<close>

theorem startup_token_fresh:
  assumes "inj sha" and "oe_disable e \<noteq> Some ''1''"
  shows "validate_observability_token sha e = Inr () \<longleftrightarrow>
    oe_token e \<noteq> [] \<and> oe_token e \<noteq> oe_cred_token e \<and> oe_token e \<noteq> oe_matrix_token e
    \<and> (\<forall>t. oe_file_token e = Some t \<longrightarrow> oe_token e \<noteq> py_strip t)"
  using assms(2) inj_eq [OF assms(1)]
  by (auto simp: validate_observability_token_def other_tokens_def split: option.splits)

theorem startup_token_fresh_witness:
  "validate_observability_token id \<lparr>oe_disable = None, oe_token = ''a'', oe_cred_token = ''b'',
     oe_matrix_token = ''c'', oe_file_token = Some ''d''\<rparr> = Inr () \<and> inj (id :: string \<Rightarrow> string)"
proof -
  let ?e = "\<lparr>oe_disable = None, oe_token = ''a'', oe_cred_token = ''b'',
     oe_matrix_token = ''c'', oe_file_token = Some ''d''\<rparr>"
  have "py_strip ''d'' = ''d''" by code_simp
  then have "validate_observability_token id ?e = Inr ()"
    by (subst startup_token_fresh) simp_all
  then show ?thesis by simp
qed

end
