(* ===== verification/Regex.thy ===== *)
theory Regex
  imports Py_Text
begin

text \<open>
  The regular expressions of Python's \<open>re\<close> module the code uses, with the backtracking meaning the
  module gives them: a pattern at a position of a text (a list of code points) yields its matches
  in the order in which the engine tries them, and \<open>search\<close> and \<open>sub\<close> take the first.  A match is
  an end position with the spans of the groups.  Repetition is cut off by the length of the text:
  every iteration beyond the required ones has to consume something.
\<close>

datatype rx =
    One "string \<Rightarrow> bool"
  | Eps
  | Cat rx rx
  | Alt rx rx
  | Rep bool nat "nat option" rx
  | Grp nat rx
  | Bnd
  | Bos
  | Eos
  | Eol
  | Ahead bool rx
  | Behind bool "string \<Rightarrow> bool"

type_synonym caps = "(nat \<times> nat \<times> nat) list"
type_synonym rx_st = "nat \<times> caps"

section \<open>Matching\<close>

definition dec_opt :: "nat option \<Rightarrow> nat option" where
  "dec_opt hi = map_option (\<lambda>n. n - 1) hi"

fun rx_iter ::
  "nat \<Rightarrow> (rx_st \<Rightarrow> rx_st list) \<Rightarrow> bool \<Rightarrow> nat \<Rightarrow> nat option \<Rightarrow> rx_st \<Rightarrow> rx_st list" where
  "rx_iter 0 m greedy lo hi st = (if lo = 0 then [st] else [])"
| "rx_iter (Suc fuel) m greedy lo hi st =
     (let more = (if hi = Some 0 then []
            else concat (map (rx_iter fuel m greedy (lo - 1) (dec_opt hi))
              (filter (\<lambda>st'. 0 < lo \<or> fst st < fst st') (m st))));
          stop = (if lo = 0 then [st] else [])
      in if greedy then more @ stop else stop @ more)"

definition word_at :: "string list \<Rightarrow> nat \<Rightarrow> bool" where
  "word_at ps i \<longleftrightarrow> i < length ps \<and> is_wordc (ps ! i)"

primrec rx_run :: "rx \<Rightarrow> string list \<Rightarrow> rx_st \<Rightarrow> rx_st list" where
  "rx_run (One P) ps st =
     (if fst st < length ps \<and> P (ps ! fst st) then [(fst st + 1, snd st)] else [])"
| "rx_run Eps ps st = [st]"
| "rx_run (Cat a b) ps st = concat (map (rx_run b ps) (rx_run a ps st))"
| "rx_run (Alt a b) ps st = rx_run a ps st @ rx_run b ps st"
| "rx_run (Rep greedy lo hi a) ps st =
     rx_iter (lo + (length ps - fst st)) (rx_run a ps) greedy lo hi st"
| "rx_run (Grp k a) ps st =
     map (\<lambda>st'. (fst st', (k, fst st, fst st') # snd st')) (rx_run a ps st)"
| "rx_run Bnd ps st =
     (if word_at ps (fst st) \<noteq> (0 < fst st \<and> word_at ps (fst st - 1)) then [st] else [])"
| "rx_run Bos ps st = (if fst st = 0 then [st] else [])"
| "rx_run Eos ps st =
     (if fst st = length ps \<or> fst st + 1 = length ps \<and> ps ! fst st = ''\<newline>'' then [st] else [])"
| "rx_run Eol ps st = (if fst st = length ps \<or> ps ! fst st = ''\<newline>'' then [st] else [])"
| "rx_run (Ahead pos a) ps st = (if (rx_run a ps st \<noteq> []) = pos then [st] else [])"
| "rx_run (Behind pos P) ps st =
     (if (0 < fst st \<and> P (ps ! (fst st - 1))) = pos then [st] else [])"

definition rx_match :: "rx \<Rightarrow> string list \<Rightarrow> nat \<Rightarrow> rx_st option" where
  "rx_match r ps i = (case rx_run r ps (i, []) of [] \<Rightarrow> None | st # _ \<Rightarrow> Some st)"

text \<open>The first position from \<open>i\<close> on where the pattern matches.\<close>

definition rx_from :: "rx \<Rightarrow> string list \<Rightarrow> nat \<Rightarrow> (nat \<times> rx_st) option" where
  "rx_from r ps i =
     (case find (\<lambda>k. rx_match r ps k \<noteq> None) [i ..< length ps + 1] of
        None \<Rightarrow> None
      | Some k \<Rightarrow> map_option (Pair k) (rx_match r ps k))"

definition slice :: "string list \<Rightarrow> nat \<Rightarrow> nat \<Rightarrow> string" where
  "slice ps i j = concat (take (j - i) (drop i ps))"

text \<open>A match as the code sees it: the whole text of the match and the groups.\<close>

record rmatch =
  m_all :: string
  m_grp :: "nat \<Rightarrow> string option"
  m_start :: nat
  m_end :: nat

definition mk_match :: "string list \<Rightarrow> nat \<Rightarrow> rx_st \<Rightarrow> rmatch" where
  "mk_match ps i st = \<lparr>m_all = slice ps i (fst st),
     m_grp = (\<lambda>k. map_option (\<lambda>(a, b). slice ps a b) (dget (snd st) k)), m_start = i, m_end = fst st\<rparr>"

definition grp :: "rmatch \<Rightarrow> nat \<Rightarrow> string" where
  "grp m k = (case m_grp m k of None \<Rightarrow> [] | Some s \<Rightarrow> s)"

section \<open>The module's functions\<close>

definition re_match :: "rx \<Rightarrow> string \<Rightarrow> rmatch option" where
  "re_match r s = map_option (mk_match (cps s) 0) (rx_match r (cps s) 0)"

definition re_search :: "rx \<Rightarrow> string \<Rightarrow> rmatch option" where
  "re_search r s = map_option (\<lambda>(k, st). mk_match (cps s) k st) (rx_from r (cps s) 0)"

text \<open>The matches \<open>finditer\<close> and \<open>sub\<close> go through; the patterns in use do not match empty texts.\<close>

function rx_all :: "rx \<Rightarrow> string list \<Rightarrow> nat \<Rightarrow> (nat \<times> rx_st) list" where
  "rx_all r ps i =
     (case rx_from r ps i of
        None \<Rightarrow> []
      | Some (k, st) \<Rightarrow>
          if i \<le> k \<and> k < fst st \<and> fst st \<le> length ps then (k, st) # rx_all r ps (fst st)
          else if i < length ps then rx_all r ps (i + 1) else [])"
  by pat_completeness auto
termination
  by (relation "measure (\<lambda>(r, ps, i). length ps - i)") auto

declare rx_all.simps [simp del]

definition re_finditer :: "rx \<Rightarrow> string \<Rightarrow> rmatch list" where
  "re_finditer r s = map (\<lambda>(k, st). mk_match (cps s) k st) (rx_all r (cps s) 0)"

fun sub_pieces :: "string list \<Rightarrow> (rmatch \<Rightarrow> string) \<Rightarrow> nat \<Rightarrow> rmatch list \<Rightarrow> string" where
  "sub_pieces ps f i [] = slice ps i (length ps)"
| "sub_pieces ps f i (m # ms) = slice ps i (m_start m) @ f m @ sub_pieces ps f (m_end m) ms"

definition re_sub :: "rx \<Rightarrow> (rmatch \<Rightarrow> string) \<Rightarrow> string \<Rightarrow> string" where
  "re_sub r f s = sub_pieces (cps s) f 0 (re_finditer r s)"

section \<open>Building patterns\<close>

definition ch :: "char \<Rightarrow> rx" where
  "ch c = One (\<lambda>p. p = [c])"

definition cset :: "string \<Rightarrow> rx" where
  "cset cs = One (\<lambda>p. \<exists>c \<in> set cs. p = [c])"

definition nset :: "string \<Rightarrow> rx" where
  "nset cs = One (\<lambda>p. \<not> (\<exists>c \<in> set cs. p = [c]))"

definition rx_any :: rx where "rx_any = One (\<lambda>p. p \<noteq> ''\<newline>'')"
definition rx_all_chars :: rx where "rx_all_chars = One (\<lambda>p. True)"
definition rx_s :: rx where "rx_s = One is_ws"
definition rx_S :: rx where "rx_S = One (\<lambda>p. \<not> is_ws p)"
definition rx_w :: rx where "rx_w = One is_wordc"
definition rx_d :: rx where "rx_d = One is_nd"

fun rx_cat :: "rx list \<Rightarrow> rx" where
  "rx_cat [] = Eps"
| "rx_cat [a] = a"
| "rx_cat (a # as) = Cat a (rx_cat as)"

fun rx_alt :: "rx list \<Rightarrow> rx" where
  "rx_alt [] = Ahead False Eps"
| "rx_alt [a] = a"
| "rx_alt (a # as) = Alt a (rx_alt as)"

definition lit :: "string \<Rightarrow> rx" where
  "lit s = rx_cat (map ch s)"

definition star :: "rx \<Rightarrow> rx" where "star a = Rep True 0 None a"
definition plus :: "rx \<Rightarrow> rx" where "plus a = Rep True 1 None a"
definition opt :: "rx \<Rightarrow> rx" where "opt a = Rep True 0 (Some 1) a"
definition lazy :: "rx \<Rightarrow> rx" where "lazy a = Rep False 0 None a"
definition times :: "nat \<Rightarrow> nat \<Rightarrow> rx \<Rightarrow> rx" where "times i j a = Rep True i (Some j) a"

text \<open>Under \<open>(?i)\<close> an ASCII letter matches both cases, and \<open>s\<close>, \<open>k\<close>, \<open>i\<close> their Unicode relatives.\<close>

definition ci_ok :: "char \<Rightarrow> string \<Rightarrow> bool" where
  "ci_ok c p \<longleftrightarrow> map lower_char p = [lower_char c]
     \<or> lower_char c = CHR ''s'' \<and> p = bytes [197, 191]
     \<or> lower_char c = CHR ''k'' \<and> p = bytes [226, 132, 170]
     \<or> lower_char c = CHR ''i'' \<and> (p = bytes [196, 176] \<or> p = bytes [196, 177])"

definition lit_ci :: "string \<Rightarrow> rx" where
  "lit_ci s = rx_cat (map (\<lambda>c. One (ci_ok c)) s)"

text \<open>A class given by a predicate on ASCII characters.\<close>

definition acls :: "(char \<Rightarrow> bool) \<Rightarrow> rx" where
  "acls P = One (\<lambda>p. \<exists>c. p = [c] \<and> byte c < 128 \<and> P c)"

end
