(* ===== verification/Audit_Text.thy ===== *)
theory Audit_Text
  imports Regex
begin

text \<open>
  The text side of the output audit (\<open>_audit.py\<close>): the normalisation of tool arguments, the test
  for external hosts, the extraction of a host, the masked summary and the check of a Matrix id.
  Every pattern is the expression of the source, built with the constructors of \<open>Regex\<close>.
\<close>

abbreviation bs :: char where "bs \<equiv> CHR 0x5C"
abbreviation dq :: char where "dq \<equiv> CHR 0x22"
abbreviation sq :: char where "sq \<equiv> CHR 0x27"

section \<open>Normalisation of arguments\<close>

definition is_hex :: "char \<Rightarrow> bool" where
  "is_hex c \<longleftrightarrow> hex_digit c \<noteq> None"

definition U_ESC_RE :: rx where
  "U_ESC_RE = rx_cat [ch bs, ch CHR ''u'', Grp 1 (times 4 4 (acls is_hex))]"

definition X_ESC_RE :: rx where
  "X_ESC_RE = rx_cat [ch bs, ch CHR ''x'', Grp 1 (times 2 2 (acls is_hex))]"

definition unescape :: "string \<Rightarrow> string" where
  "unescape s0 =
     (let s1 = re_sub U_ESC_RE (\<lambda>m. utf8_chr (hex_value (grp m 1))) s0;
          s2 = re_sub X_ESC_RE (\<lambda>m. utf8_chr (hex_value (grp m 1))) s1
      in replace [bs, CHR ''t''] [CHR 0x09] (replace [bs, CHR ''n''] ''\<newline>'' s2))"

definition ident_start :: "char \<Rightarrow> bool" where
  "ident_start c \<longleftrightarrow> is_alpha_ascii c \<or> c = CHR ''_''"

definition ident_char :: "char \<Rightarrow> bool" where
  "ident_char c \<longleftrightarrow> ident_start c \<or> is_digit c"

definition VAR_ASSIGN_RE :: rx where
  "VAR_ASSIGN_RE = rx_cat
     [Behind False (\<lambda>p. \<exists>c. p = [c] \<and> ident_char c),
      Grp 1 (Cat (acls ident_start) (star (acls ident_char))),
      ch CHR ''='', Ahead False (ch CHR ''=''), Grp 2 (lazy rx_any),
      rx_alt [ch CHR '';'', lit ''&&'', lit ''||'', Eol]]"

definition VAR_USE_RE :: rx where
  "VAR_USE_RE = Alt (Cat (ch CHR ''$'') (Grp 1 (plus rx_w)))
     (rx_cat [Behind False (\<lambda>p. p = [bs]), lit ''${'', Grp 2 (plus rx_w), ch CHR ''}''])"

definition expand_vars :: "string \<Rightarrow> string" where
  "expand_vars s =
     (let assignments = foldl (\<lambda>d m. dset (grp m 1) (grp m 2) d) [] (re_finditer VAR_ASSIGN_RE s)
      in if assignments = [] then s
         else re_sub VAR_USE_RE (\<lambda>m.
           let var = (if grp m 1 \<noteq> [] then grp m 1 else grp m 2)
           in dget_or assignments var (m_all m)) s)"

subsection \<open>Aliases\<close>

definition BIN_RE :: rx where
  "BIN_RE = rx_cat [Behind False (\<lambda>p. \<not> is_ws p), lit ''/bin/'', Grp 1 (plus rx_w)]"

definition find_at :: "string \<Rightarrow> string list \<Rightarrow> nat \<Rightarrow> nat option" where
  "find_at pat ps i = find (\<lambda>k. take (length pat) (drop k ps) = map (\<lambda>c. [c]) pat) [i ..< length ps + 1]"

text \<open>The backward search for the word \<open>find\<close>: \<open>j\<close> counts down from \<open>i\<close> to \<open>lo + 1\<close>.\<close>

definition find_here :: "string list \<Rightarrow> nat \<Rightarrow> bool" where
  "find_here ps j \<longleftrightarrow> 4 \<le> j \<and> slice ps (j - 4) j = ''find''
     \<and> (j = 4 \<or> \<not> (is_alnum (ps ! (j - 5)) \<or> ps ! (j - 5) = ''_'' \<or> ps ! (j - 5) = ''/''))
     \<and> (j = length ps \<or> \<not> (is_alnum (ps ! j) \<or> ps ! j = ''_'' \<or> ps ! j = ''/''))"

definition find_word :: "string list \<Rightarrow> nat \<Rightarrow> nat \<Rightarrow> nat option" where
  "find_word ps lo i = map_option (\<lambda>j. j - 4) (find (find_here ps) (rev [lo + 1 ..< i + 1]))"

function alias_loop :: "string list \<Rightarrow> nat \<Rightarrow> string \<Rightarrow> string" where
  "alias_loop ps lo out =
     (case find_at ''-delete'' ps lo of
        None \<Rightarrow> out @ slice ps lo (length ps)
      | Some i \<Rightarrow>
          if \<not> (lo \<le> i \<and> i + 7 \<le> length ps) then out @ slice ps lo (length ps)
          else if i + 7 < length ps \<and> (is_alnum (ps ! (i + 7)) \<or> ps ! (i + 7) = ''-'')
          then alias_loop ps (i + 7) (out @ slice ps lo (i + 7))
          else (case find_word ps lo i of
              Some p \<Rightarrow>
                (let args = py_strip (slice ps (p + 4) i)
                 in alias_loop ps (i + 7) (out @ slice ps lo p @ py_rstrip (''rm -rf '' @ args)))
            | None \<Rightarrow> alias_loop ps (i + 7) (out @ slice ps lo (i + 7))))"
  by pat_completeness auto
termination
  by (relation "measure (\<lambda>(ps, lo, out). length ps - lo)") auto

declare alias_loop.simps [simp del]

definition expand_aliases :: "string \<Rightarrow> string" where
  "expand_aliases s = alias_loop (cps (re_sub BIN_RE (\<lambda>m. grp m 1) s)) 0 []"

subsection \<open>Parent directories\<close>

text \<open>\<open>posixpath.normpath\<close>\<close>

definition join_with :: "string \<Rightarrow> string list \<Rightarrow> string" where
  "join_with sep ws = concat (case ws of [] \<Rightarrow> [] | w # us \<Rightarrow> w # map (\<lambda>u. sep @ u) us)"

definition norm_step :: "bool \<Rightarrow> string list \<Rightarrow> string \<Rightarrow> string list" where
  "norm_step absolute cs c =
     (if c = [] \<or> c = ''.'' then cs
      else if c \<noteq> ''..'' \<or> (\<not> absolute \<and> cs = []) \<or> (cs \<noteq> [] \<and> last cs = ''..'') then cs @ [c]
      else butlast cs)"

definition normpath :: "string \<Rightarrow> string" where
  "normpath path =
     (if path = [] then ''.''
      else
        let slashes = (if prefix ''///'' path then ''/'' else if prefix ''//'' path then ''//''
              else if prefix ''/'' path then ''/'' else []);
            comps = foldl (norm_step (slashes \<noteq> [])) [] (split_on CHR ''/'' path);
            r = slashes @ join_with ''/'' comps
        in if r = [] then ''.'' else r)"

definition path_stop :: "string \<Rightarrow> bool" where
  "path_stop p \<longleftrightarrow> p = [dq] \<or> p = [sq] \<or> p = [CHR 0x09] \<or> p = '' ''"

definition path_left :: "string list \<Rightarrow> nat \<Rightarrow> nat \<Rightarrow> nat" where
  "path_left ps lo i = (case find (\<lambda>k. path_stop (ps ! (k - 1))) (rev [lo + 1 ..< i + 1]) of
     None \<Rightarrow> lo | Some k \<Rightarrow> k)"

definition path_right :: "string list \<Rightarrow> nat \<Rightarrow> nat" where
  "path_right ps i = (case find (\<lambda>k. path_stop (ps ! k)) [i + 4 ..< length ps] of
     None \<Rightarrow> length ps | Some k \<Rightarrow> k)"

function dotdot_loop :: "string list \<Rightarrow> nat \<Rightarrow> string \<Rightarrow> string" where
  "dotdot_loop ps lo out =
     (case find_at ''/../'' ps lo of
        None \<Rightarrow> out @ slice ps lo (length ps)
      | Some i \<Rightarrow>
          (let left = path_left ps lo i; right = path_right ps i;
               out' = out @ slice ps lo left @ normpath (slice ps left right)
           in if lo < right \<and> lo < length ps then dotdot_loop ps right out'
              else out' @ slice ps right (length ps)))"
  by pat_completeness auto
termination
  by (relation "measure (\<lambda>(ps, lo, out). length ps - lo)") auto

declare dotdot_loop.simps [simp del]

definition normalize_dotdot :: "string \<Rightarrow> string" where
  "normalize_dotdot s = (if find_sub ''/../'' s = None then s else dotdot_loop (cps s) 0 [])"

definition CHAIN_RE :: rx where
  "CHAIN_RE = rx_cat [star rx_s, rx_alt [ch CHR '';'', lit ''&&'', lit ''||'', ch CHR ''|'', ch CHR ''\<newline>''],
     star rx_s]"

definition normalize_args :: "string \<Rightarrow> string" where
  "normalize_args args =
     (if args = [] then []
      else expand_aliases
        (re_sub CHAIN_RE (\<lambda>m. '' '')
          (expand_vars (normalize_dotdot (re_sub (plus rx_s) (\<lambda>m. '' '') (unescape args))))))"

section \<open>Hosts\<close>

definition INTERNAL_TLDS :: "string list" where
  "INTERNAL_TLDS = [''.local'', ''.internal'', ''.localhost'']"

definition RFC1918_PREFIXES :: "string list" where
  "RFC1918_PREFIXES = [''10.'', ''192.168.'', ''172.16.'', ''172.17.'', ''172.18.'', ''172.19.'', ''172.20.'',
     ''172.21.'', ''172.22.'', ''172.23.'', ''172.24.'', ''172.25.'', ''172.26.'', ''172.27.'', ''172.28.'',
     ''172.29.'', ''172.30.'', ''172.31.'']"

definition LOOPBACK :: "string list" where
  "LOOPBACK = [''127.'', ''::1'', ''0:0:0:0:0:0:0:1'']"

definition LINK_LOCAL :: "string list" where
  "LINK_LOCAL = [''169.254.'', ''fe80:'', ''fe8'', ''fe9'', ''fea'', ''feb'']"

definition IPV4_RE :: rx where
  "IPV4_RE = rx_cat [Bos, times 1 3 rx_d, times 3 3 (Cat (ch CHR ''.'') (times 1 3 rx_d)), Eos]"

definition ends_any :: "string list \<Rightarrow> string \<Rightarrow> bool" where
  "ends_any ss s \<longleftrightarrow> list_ex (\<lambda>x. suffix x s) ss"

text \<open>\<open>None\<close>: no verdict.\<close>

definition is_external_host :: "string \<Rightarrow> string list \<Rightarrow> bool option" where
  "is_external_host host0 internal_suffixes =
     (if host0 = [] then None
      else
        let h1 = rstrip_chars ''.'' (py_lower (py_strip host0)) in
        if h1 = [] then None
        else
          let h2 = (if count_char CHR '':'' h1 = 1 \<and> \<not> prefix ''['' h1 then hd (split_on CHR '':'' h1) else h1);
              host = strip_chars ''[]'' h2
          in if re_match IPV4_RE host \<noteq> None then
               (if starts_any RFC1918_PREFIXES host then Some False
                else Some (\<not> (starts_any LOOPBACK host \<or> starts_any LINK_LOCAL host)))
             else if prefix ''::'' host \<or> CHR '':'' \<in> set host then
               Some (\<not> (host \<in> set LOOPBACK \<or> starts_any LINK_LOCAL host))
             else if host = ''localhost'' then Some False
             else if ends_any INTERNAL_TLDS host then Some False
             else Some (\<not> (internal_suffixes \<noteq> [] \<and> ends_any internal_suffixes host)))"

definition URL_RE :: rx where
  "URL_RE = rx_cat [lit ''http'', opt (ch CHR ''s''), lit ''://'',
     Grp 1 (plus (One (\<lambda>p. p \<noteq> ''/'' \<and> \<not> is_ws p \<and> p \<noteq> [dq] \<and> p \<noteq> [sq])))]"

definition CMD_HOST_RE :: rx where
  "CMD_HOST_RE = rx_cat [Bnd, Grp 1 (rx_alt (map lit [''curl'', ''wget'', ''nc'', ''ncat'', ''telnet''])),
     plus rx_s,
     Grp 2 (plus (One (\<lambda>p. \<not> is_ws p \<and> p \<notin> set [[dq], [sq], '';'', ''|'', ''&''])))]"

definition extract_host :: "string \<Rightarrow> string option" where
  "extract_host args =
     (if args = [] then None
      else case re_search URL_RE args of
        Some m \<Rightarrow> Some (grp m 1)
      | None \<Rightarrow> map_option (\<lambda>m. grp m 2) (re_search CMD_HOST_RE args))"

section \<open>The masked summary\<close>

definition is_upper :: "char \<Rightarrow> bool" where
  "is_upper c \<longleftrightarrow> 65 \<le> byte c \<and> byte c \<le> 90"

definition alnum_or :: "string \<Rightarrow> char \<Rightarrow> bool" where
  "alnum_or cs c \<longleftrightarrow> is_alpha_ascii c \<or> is_digit c \<or> c \<in> set cs"

text \<open>The same class under \<open>(?i)\<close>: also the Unicode relatives of \<open>s\<close>, \<open>k\<close> and \<open>i\<close>.\<close>

definition alnum_or_ci :: "string \<Rightarrow> rx" where
  "alnum_or_ci cs = One (\<lambda>p. (\<exists>c. p = [c] \<and> byte c < 128 \<and> alnum_or cs c)
     \<or> p \<in> set [bytes [197, 191], bytes [226, 132, 170], bytes [196, 176], bytes [196, 177]])"

text \<open>\<open>("?\b<word>\b"?\s*[:=]\s*)("?)(?!\[REDACTED:)[^"\s,}]+\<close>\<close>

definition key_value :: "rx \<Rightarrow> rx" where
  "key_value w = rx_cat
     [Grp 1 (rx_cat [opt (ch dq), Bnd, w, Bnd, opt (ch dq), star rx_s, cset '':='', star rx_s]),
      Grp 2 (opt (ch dq)), Ahead False (lit_ci ''[REDACTED:''),
      plus (One (\<lambda>p. p \<noteq> [dq] \<and> \<not> is_ws p \<and> p \<noteq> '','' \<and> p \<noteq> ''}''))]"

definition key_word :: "string \<Rightarrow> rx" where
  "key_word w = rx_cat [lit_ci w, opt (cset ''_-''), lit_ci ''key'']"

definition PRIVATE_KEY_RE :: rx where
  "PRIVATE_KEY_RE =
     (let kind = star (acls (\<lambda>c. is_upper c \<or> c = CHR '' ''))
      in rx_cat [lit ''-----BEGIN '', kind, lit ''PRIVATE KEY-----'', lazy rx_all_chars,
           lit ''-----END '', kind, lit ''PRIVATE KEY-----''])"

text \<open>Label, whether the pattern has the two groups that are kept, pattern; in this order.\<close>

definition SECRET_PATTERNS :: "(string \<times> bool \<times> rx) list" where
  "SECRET_PATTERNS =
     [(''api_key'', False, Cat (lit ''sk-'') (Rep True 16 None (acls (alnum_or ''_-'')))),
      (''token'', False, Cat
         (rx_alt [rx_cat [lit ''gh'', cset ''pous'', ch CHR ''_''], lit ''glpat-'',
            rx_cat [lit ''xox'', cset ''baprs'', ch CHR ''-'']])
         (Rep True 10 None (acls (alnum_or ''_-'')))),
      (''password'', True, key_value (rx_cat [lit_ci ''passw'', opt (lit_ci ''or''), lit_ci ''d''])),
      (''secret'', True, key_value (lit_ci ''secret'')),
      (''token'', True, key_value (lit_ci ''token'')),
      (''pwd'', True, key_value (lit_ci ''pwd'')),
      (''key'', True, key_value (rx_alt (map key_word [''access'', ''auth'', ''secret'', ''private'']))),
      (''bearer'', False, rx_cat [Bnd, lit_ci ''bearer'', plus rx_s, plus (alnum_or_ci ''._~+/=-'')]),
      (''private_key'', False, PRIVATE_KEY_RE),
      (''id_card'', False, Cat (times 17 17 rx_d) (One (\<lambda>p. is_nd p \<or> p = ''X'' \<or> p = ''x''))),
      (''phone'', False, rx_cat [Behind False is_nd, ch CHR ''1'', cset ''3456789'', times 9 9 rx_d, Ahead False rx_d]),
      (''email'', False, rx_cat [Bnd, times 1 64 (acls (alnum_or ''._%+-'')), ch CHR ''@'',
         times 1 255 (acls (alnum_or ''.-'')), ch CHR ''.'', Rep True 2 None (acls is_alpha_ascii), Bnd])]"

definition redacted_tag :: "string \<Rightarrow> string" where
  "redacted_tag kind = ''[REDACTED:'' @ kind @ '']''"

definition mask_step :: "string \<Rightarrow> string \<times> bool \<times> rx \<Rightarrow> string" where
  "mask_step s lp = (case lp of (label, groups, pat) \<Rightarrow>
     if label = ''email'' \<and> CHR ''@'' \<notin> set s then s
     else if groups then re_sub pat (\<lambda>m. grp m 1 @ grp m 2 @ redacted_tag label) s
     else re_sub pat (\<lambda>m. redacted_tag label) s)"

definition ELLIPSIS :: string where "ELLIPSIS = bytes [226, 128, 166]"

text \<open>A lone surrogate cannot be encoded.\<close>

definition is_surrogate :: "string \<Rightarrow> bool" where
  "is_surrogate p \<longleftrightarrow> 55296 \<le> cp_code p \<and> cp_code p \<le> 57343"

definition redact_summary :: "string \<Rightarrow> nat \<Rightarrow> string" where
  "redact_summary s max_len =
     (if s = [] then []
      else
        let redacted = foldl mask_step s SECRET_PATTERNS
        in if py_len redacted \<le> max_len then redacted
           else concat (rev (dropWhile is_surrogate (rev (take max_len (cps redacted))))) @ ELLIPSIS)"

section \<open>Matrix ids\<close>

definition MXID_RE :: rx where
  "MXID_RE =
     (let part = plus (One (\<lambda>p. \<not> is_ws p \<and> p \<noteq> '':''))
      in rx_cat [Bos, ch CHR ''@'', part, ch CHR '':'', part, Eos])"

definition is_valid_mxid :: "string \<Rightarrow> bool" where
  "is_valid_mxid s \<longleftrightarrow> s \<noteq> [] \<and> CHR '' '' \<notin> set s \<and> CHR ''\<newline>'' \<notin> set s \<and> CHR 0x09 \<notin> set s
     \<and> re_match MXID_RE s \<noteq> None \<and> count_char CHR ''@'' (concat (drop 1 (cps s))) = 0"

end
