(* ===== verification/Regex_Facts.thy ===== *)
theory Regex_Facts
  imports Regex
begin

text \<open>
  What every pattern has in common: a match never goes back and never leaves the text; and what a
  search that ends at the end of the text finds.
\<close>

section \<open>Bounds\<close>

lemma rx_iter_bounds:
  assumes "\<And>st st'. fst st \<le> n \<Longrightarrow> st' \<in> set (m st) \<Longrightarrow> fst st \<le> fst st' \<and> fst st' \<le> n"
  shows "fst st \<le> n \<Longrightarrow> st' \<in> set (rx_iter fuel m greedy lo hi st) \<Longrightarrow> fst st \<le> fst st' \<and> fst st' \<le> n"
proof (induction fuel arbitrary: lo hi st)
  case (Suc fuel)
  from Suc.prems(2) have "st' = st \<or> (\<exists>st1 \<in> set (m st). st' \<in> set (rx_iter fuel m greedy (lo - 1) (dec_opt hi) st1))"
    by (auto simp: Let_def split: if_splits)
  then show ?case
  proof (elim disjE bexE)
    fix st1 assume st1: "st1 \<in> set (m st)" "st' \<in> set (rx_iter fuel m greedy (lo - 1) (dec_opt hi) st1)"
    have b: "fst st \<le> fst st1 \<and> fst st1 \<le> n" using assms Suc.prems(1) st1(1) by blast
    with Suc.IH [OF _ st1(2)] show ?thesis by simp
  qed (use Suc.prems(1) in simp)
qed (auto split: if_splits)

lemma rx_run_bounds:
  "fst st \<le> length ps \<Longrightarrow> st' \<in> set (rx_run r ps st) \<Longrightarrow> fst st \<le> fst st' \<and> fst st' \<le> length ps"
proof (induction r arbitrary: st st')
  case (Cat a b)
  from Cat.prems(2) obtain st1 where "st1 \<in> set (rx_run a ps st)" "st' \<in> set (rx_run b ps st1)" by auto
  with Cat.IH Cat.prems(1) show ?case by (meson le_trans)
next
  case (Rep greedy lo hi a)
  from Rep.prems(2) have "st' \<in> set (rx_iter (lo + (length ps - fst st)) (rx_run a ps) greedy lo hi st)" by simp
  with Rep.prems(1) show ?case by (rule rx_iter_bounds [rotated]) (use Rep.IH in blast)
next
  case (Grp k a)
  from Grp.prems(2) obtain st1 where "st1 \<in> set (rx_run a ps st)" "fst st' = fst st1" by auto
  with Grp.IH [OF Grp.prems(1)] show ?case by metis
next
  case (Alt a b)
  from Alt.prems(2) have "st' \<in> set (rx_run a ps st) \<or> st' \<in> set (rx_run b ps st)" by simp
  with Alt.IH Alt.prems(1) show ?case by blast
next
  case (Ahead pos a)
  from Ahead.prems show ?case by (simp split: if_splits)
qed (simp_all split: if_splits)

section \<open>Enough fuel\<close>

text \<open>
  Every iteration uses up a required one or a code point, so the fuel \<open>rx_run\<close> gives a repetition,
  the required iterations and what is left of the text, is enough: more fuel finds nothing more.
\<close>

lemma rx_iter_enough:
  assumes "\<And>st st'. fst st \<le> n \<Longrightarrow> st' \<in> set (m st) \<Longrightarrow> fst st \<le> fst st' \<and> fst st' \<le> n"
  shows "fst st \<le> n \<Longrightarrow> lo + (n - fst st) \<le> fuel \<Longrightarrow> rx_iter (Suc fuel) m greedy lo hi st = rx_iter fuel m greedy lo hi st"
proof (induction fuel arbitrary: lo hi st)
  case 0
  then have "filter (\<lambda>st'. 0 < lo \<or> fst st < fst st') (m st) = []"
    using assms [of st] by (force simp: filter_empty_conv)
  with 0 show ?case by (simp only: rx_iter.simps Let_def) simp
next
  case (Suc fuel)
  have same: "rx_iter (Suc fuel) m greedy (lo - 1) (dec_opt hi) st1 = rx_iter fuel m greedy (lo - 1) (dec_opt hi) st1"
    if "st1 \<in> set (filter (\<lambda>st'. 0 < lo \<or> fst st < fst st') (m st))" for st1
  proof (rule Suc.IH)
    have b: "fst st \<le> fst st1 \<and> fst st1 \<le> n" using assms [OF Suc.prems(1)] that by auto
    then show "fst st1 \<le> n" by simp
    show "lo - 1 + (n - fst st1) \<le> fuel" using that b Suc.prems by auto
  qed
  have "map (rx_iter (Suc fuel) m greedy (lo - 1) (dec_opt hi)) (filter (\<lambda>st'. 0 < lo \<or> fst st < fst st') (m st))
      = map (rx_iter fuel m greedy (lo - 1) (dec_opt hi)) (filter (\<lambda>st'. 0 < lo \<or> fst st < fst st') (m st))"
    by (rule map_cong [OF refl same])
  then show ?case
    by (simp only: rx_iter.simps(2) [of "Suc fuel"] rx_iter.simps(2) [of fuel] Let_def)
qed

lemma rx_rep_enough:
  assumes "fst st \<le> length ps"
  shows "rx_iter (k + (lo + (length ps - fst st))) (rx_run a ps) greedy lo hi st = rx_run (Rep greedy lo hi a) ps st"
proof (induction k)
  case (Suc k)
  then show ?case
    using rx_iter_enough [of "length ps" "rx_run a ps" st lo "k + (lo + (length ps - fst st))", OF rx_run_bounds assms]
    by (simp del: rx_iter.simps)
qed simp

section \<open>Searches\<close>

lemma rx_match_in: "rx_match r ps i = Some st \<Longrightarrow> st \<in> set (rx_run r ps (i, []))"
  by (auto simp: rx_match_def split: list.splits)

lemma rx_from_in:
  assumes "rx_from r ps i = Some (k, st)"
  shows "i \<le> k" and "k \<le> length ps" and "st \<in> set (rx_run r ps (k, []))" and "k \<le> fst st" and "fst st \<le> length ps"
proof -
  from assms obtain k' where f: "find (\<lambda>k. rx_match r ps k \<noteq> None) [i ..< length ps + 1] = Some k'"
    and k: "k = k'" and st: "rx_match r ps k = Some st"
    by (auto simp: rx_from_def split: option.splits)
  have "k \<in> set [i ..< length ps + 1]" using f unfolding k find_Some_iff by (metis nth_mem)
  then show 1: "i \<le> k" "k \<le> length ps" by auto
  show 2: "st \<in> set (rx_run r ps (k, []))" using st by (rule rx_match_in)
  show "k \<le> fst st" "fst st \<le> length ps" using rx_run_bounds [OF _ 2] 1 by auto
qed

lemma slice_split: "k \<le> e \<Longrightarrow> concat ps = concat (take k ps) @ slice ps k e @ concat (drop e ps)"
  by (metis append_take_drop_id concat_append drop_drop le_add_diff_inverse2 slice_def)

text \<open>The text around a match.\<close>

lemma re_search_split:
  assumes "re_search r s = Some m"
  shows "s = py_take (m_start m) s @ m_all m @ py_drop (m_end m) s"
proof -
  from assms obtain k st where f: "rx_from r (cps s) 0 = Some (k, st)" and m: "m = mk_match (cps s) k st"
    by (auto simp: re_search_def)
  have "k \<le> fst st" by (rule rx_from_in [OF f])
  then have "concat (cps s) = concat (take k (cps s)) @ slice (cps s) k (fst st) @ concat (drop (fst st) (cps s))"
    by (rule slice_split)
  then show ?thesis by (simp add: m mk_match_def py_take_def py_drop_def)
qed

text \<open>A pattern that ends with the end of the text, as \<open>$\<close> reads it.\<close>

definition at_eos :: "string list \<Rightarrow> nat \<Rightarrow> bool" where
  "at_eos ps e \<longleftrightarrow> e = length ps \<or> e + 1 = length ps \<and> ps ! e = ''\<newline>''"

definition ends_text :: "rx \<Rightarrow> bool" where
  "ends_text r \<longleftrightarrow> (\<forall>ps st st'. st' \<in> set (rx_run r ps st) \<longrightarrow> at_eos ps (fst st'))"

lemma ends_text_Eos [simp]: "ends_text Eos"
  by (simp add: ends_text_def at_eos_def)

lemma ends_text_Cat [simp]: "ends_text b \<Longrightarrow> ends_text (Cat a b)"
  unfolding ends_text_def rx_run.simps set_concat by (auto simp del: split_paired_All)

lemma cps_no_newline: "CHR ''\<newline>'' \<notin> set s \<Longrightarrow> ''\<newline>'' \<notin> set (cps s)"
  by (metis concat_cps in_set_conv_nth list.set_intros(1) UN_I set_concat)

lemma at_eos_no_newline: "at_eos (cps s) e \<Longrightarrow> CHR ''\<newline>'' \<notin> set s \<Longrightarrow> e = py_len s"
  using cps_no_newline [of s] nth_mem [of e "cps s"] by (fastforce simp: at_eos_def py_len_def)

lemma re_search_at_end:
  assumes "re_search r s = Some m" and "ends_text r" and "CHR ''\<newline>'' \<notin> set s"
  shows "m_end m = py_len s" and "s = py_take (m_start m) s @ m_all m"
proof -
  from assms(1) obtain k st where f: "rx_from r (cps s) 0 = Some (k, st)" and m: "m = mk_match (cps s) k st"
    by (auto simp: re_search_def)
  have "st \<in> set (rx_run r (cps s) (k, []))" by (rule rx_from_in [OF f])
  with assms(2) have "at_eos (cps s) (fst st)" unfolding ends_text_def by blast
  with assms(3) show "m_end m = py_len s" by (simp add: at_eos_no_newline m mk_match_def)
  with re_search_split [OF assms(1)] show "s = py_take (m_start m) s @ m_all m"
    by (simp add: py_drop_def py_len_def)
qed

text \<open>A group at the end of a pattern is the end of what is matched, and of the text.\<close>

definition ends_group :: "nat \<Rightarrow> rx \<Rightarrow> bool" where
  "ends_group j r \<longleftrightarrow> (\<forall>ps st st'. st' \<in> set (rx_run r ps st) \<longrightarrow> (\<exists>a. dget (snd st') j = Some (a, fst st')))"

lemma ends_group_Grp [simp]: "ends_group j (Grp j r)"
  by (auto simp: ends_group_def)

lemma ends_group_Cat [simp]: "ends_group j b \<Longrightarrow> ends_group j (Cat a b)"
  unfolding ends_group_def rx_run.simps set_concat by (auto simp del: split_paired_All)

lemma re_search_group_end:
  assumes "re_search (Cat r Eos) s = Some m" and "ends_group j r" and "CHR ''\<newline>'' \<notin> set s"
  shows "suffix (grp m j) s"
proof -
  from assms(1) obtain k st where f: "rx_from (Cat r Eos) (cps s) 0 = Some (k, st)" and m: "m = mk_match (cps s) k st"
    by (auto simp: re_search_def)
  have st: "st \<in> set (rx_run (Cat r Eos) (cps s) (k, []))" by (rule rx_from_in [OF f])
  then have "st \<in> set (rx_run r (cps s) (k, []))" by (auto split: if_splits)
  with assms(2) obtain a where "dget (snd st) j = Some (a, fst st)" unfolding ends_group_def by blast
  moreover have "fst st = length (cps s)"
    using re_search_at_end(1) [OF assms(1) _ assms(3)] by (simp add: m mk_match_def py_len_def)
  ultimately have "grp m j = concat (drop a (cps s))" by (simp add: grp_def m mk_match_def slice_def)
  then show ?thesis by (metis append_take_drop_id concat_append concat_cps suffix_def)
qed

text \<open>A pattern that ends with two underscores at the end of the text.\<close>

definition ends_dunder :: "rx \<Rightarrow> bool" where
  "ends_dunder r \<longleftrightarrow> (\<forall>ps st st'. st' \<in> set (rx_run r ps st) \<longrightarrow>
     2 \<le> fst st' \<and> fst st' \<le> length ps \<and> ps ! (fst st' - 1) = ''_'' \<and> ps ! (fst st' - 2) = ''_'')"

lemma ends_dunder_lit [simp]: "ends_dunder (Cat (lit ''__'') Eos)"
  by (auto simp: ends_dunder_def lit_def ch_def split: if_splits)

lemma ends_dunder_Cat [simp]: "ends_dunder b \<Longrightarrow> ends_dunder (Cat a b)"
  unfolding ends_dunder_def rx_run.simps set_concat by (auto simp del: split_paired_All)

lemma re_search_dunder:
  assumes "re_search r s = Some m" and "ends_dunder r" and "ends_text r" and "CHR ''\<newline>'' \<notin> set s"
  shows "suffix ''__'' s"
proof -
  from assms(1) obtain k st where f: "rx_from r (cps s) 0 = Some (k, st)" and m: "m = mk_match (cps s) k st"
    by (auto simp: re_search_def)
  have "st \<in> set (rx_run r (cps s) (k, []))" by (rule rx_from_in [OF f])
  with assms(2) have d: "2 \<le> fst st" "cps s ! (fst st - 1) = ''_''" "cps s ! (fst st - 2) = ''_''"
    unfolding ends_dunder_def by blast+
  have "fst st = length (cps s)" using re_search_at_end(1) [OF assms(1,3,4)] by (simp add: m mk_match_def py_len_def)
  then obtain ps where ps: "cps s = ps @ [''_'', ''_'']"
  proof (cases "cps s" rule: rev_cases)
    case (snoc qs b)
    with that d \<open>fst st = length (cps s)\<close> show ?thesis by (cases qs rule: rev_cases) (auto simp: nth_append)
  qed (use d in simp)
  have "s = concat ps @ ''__''" using arg_cong [OF ps, of concat] by simp
  then show ?thesis by (simp add: suffix_def)
qed

end
