(* ===== verification/Stream_Text.thy ===== *)
theory Stream_Text
  imports Audit_Text Admin Cred_Vault Regex_Facts
begin

text \<open>
  How the proxy cuts the text of a streamed response (\<open>_llm.py\<close>): stripping what is left of tokens,
  recognising a value that may be cut off at the end, and splitting the collected text into what can
  be sent and what has to wait.  Indexing is by code points, as in Python.
\<close>

section \<open>Patterns\<close>

text \<open>\<open>(?:a(?:b(?:c)?)?)?\<close> for a list of parts.\<close>

fun opt_chain :: "rx list \<Rightarrow> rx" where
  "opt_chain [] = Eps"
| "opt_chain (a # as) = opt (Cat a (opt_chain as))"

definition not_word :: rx where
  "not_word = One (\<lambda>p. \<not> is_wordc p)"

definition hex8_lower :: rx where
  "hex8_lower = times 8 8 (acls (\<lambda>c. is_digit c \<or> c \<in> set ''abcdef''))"

text \<open>The end of a partial form: the end of the text, or something that is no word character.\<close>

definition PARTIAL_END :: rx where
  "PARTIAL_END = rx_alt [Cat (star (ch CHR ''_'')) Eos, Ahead True (rx_alt [rx_s, not_word])]"

definition PARTIAL_TOKEN_RE :: rx where
  "PARTIAL_TOKEN_RE = rx_cat [lit ''__VG_C'',
     opt_chain [ch CHR ''R'', ch CHR ''E'', ch CHR ''D'', Cat (opt (ch CHR ''_'')) (star rx_d)], PARTIAL_END]"

definition PII_PARTIAL_TOKEN_RE :: rx where
  "PII_PARTIAL_TOKEN_RE = rx_cat [lit ''__PI'',
     Ahead False (rx_cat [lit ''I_'', plus rx_d, ch CHR ''_'', hex8_lower, lit ''__'']),
     opt (Cat (ch CHR ''I'') (opt (rx_cat [ch CHR ''_'', opt (Cat (plus rx_d) (ch CHR ''_'')),
       star (acls (\<lambda>c. is_digit c \<or> c \<in> set ''abcdefABCDEF''))]))),
     PARTIAL_END]"

definition FULL_TOKEN_RE :: rx where
  "FULL_TOKEN_RE = rx_cat [lit ''__VG_CRED_'', plus rx_d, lit ''__'', Eos]"

definition FULL_PII_TOKEN_RE :: rx where
  "FULL_PII_TOKEN_RE = rx_cat [lit ''__PII_'', plus rx_d, ch CHR ''_'', hex8_lower, lit ''__'', Eos]"

definition TOKEN_STR_RE :: rx where
  "TOKEN_STR_RE = rx_cat [lit ''__VG_CRED_'', Rep True 4 None rx_d, lit ''__'']"

definition drop_matches :: "rx \<Rightarrow> string \<Rightarrow> string" where
  "drop_matches r s = re_sub r (\<lambda>m. []) s"

definition strip_partials :: "string \<Rightarrow> string" where
  "strip_partials s = drop_matches PII_PARTIAL_TOKEN_RE (drop_matches PARTIAL_TOKEN_RE s)"

definition strip_token_forms :: "string \<Rightarrow> string" where
  "strip_token_forms content = strip_partials (drop_matches TOKEN_STR_RE content)"

section \<open>Values that may be cut off\<close>

definition IPV4_TAIL :: rx where
  "IPV4_TAIL = rx_cat [Bnd, times 1 3 rx_d, times 0 3 (Cat (ch CHR ''.'') (times 1 3 rx_d)), opt (ch CHR ''.'')]"

definition DIGITS_TAIL :: rx where
  "DIGITS_TAIL = Cat (Behind False is_nd) (Grp 1 (times 2 19 rx_d))"

definition EMAIL_TAIL :: rx where
  "EMAIL_TAIL = rx_cat [plus (acls (alnum_or ''._%+-'')), ch CHR ''@'', star (acls (alnum_or ''.-''))]"

definition hex_or :: "string \<Rightarrow> rx" where
  "hex_or cs = acls (\<lambda>c. is_digit c \<or> c \<in> set ''abcdefABCDEF'' \<or> c \<in> set cs)"

definition alnum_ci_code :: "string \<Rightarrow> string \<Rightarrow> bool" where
  "alnum_ci_code cs p \<longleftrightarrow> (case alnum_or_ci cs of One P \<Rightarrow> P p | _ \<Rightarrow> False)"

definition IPV6_TAIL :: rx where
  "IPV6_TAIL = Cat (Behind False (alnum_ci_code '':.''))
     (rx_alt [rx_cat [times 0 4 (hex_or []), ch CHR '':'', opt (ch CHR '':''), star (hex_or '':.'')],
        Cat (plus (Cat (times 1 4 (hex_or [])) (ch CHR '':''))) (star (hex_or '':.''))])"

definition upper_or_digit :: rx where
  "upper_or_digit = acls (\<lambda>c. is_digit c \<or> is_upper c)"

definition APIKEY_TAIL :: rx where
  "APIKEY_TAIL = Cat (Behind False (\<lambda>p. \<exists>c. p = [c] \<and> byte c < 128 \<and> alnum_or ''-'' c))
     (rx_alt [rx_cat [lit ''sk'',
          opt (Cat (ch CHR ''-'') (opt (rx_alt
            [Cat (ch CHR ''p'') (opt_chain (map ch ''roj-'')), Cat (ch CHR ''a'') (opt_chain (map ch ''nt-''))]))),
          times 0 16 (acls (alnum_or ''_-''))],
        rx_cat [lit ''gh'', opt (cset ''pous''), opt (Cat (ch CHR ''_'') (times 0 16 (acls (alnum_or []))))],
        rx_cat [lit ''AK'', opt (rx_cat [ch CHR ''I'', opt (ch CHR ''A''), times 0 16 upper_or_digit])]])"

text \<open>The last 64 code points, or all.\<close>

definition py_tail :: "nat \<Rightarrow> string \<Rightarrow> string" where
  "py_tail n s = concat (drop (py_len s - n) (cps s))"

definition found :: "rx \<Rightarrow> string \<Rightarrow> bool" where
  "found r s \<longleftrightarrow> re_search r s \<noteq> None"

definition at_end :: "rx \<Rightarrow> rx" where
  "at_end r = Cat r Eos"

text \<open>\<open>s.rfind(t)\<close> and the text from there on.\<close>

definition rfind :: "string \<Rightarrow> string \<Rightarrow> nat option" where
  "rfind t s = find (\<lambda>i. prefix t (drop i s)) (rev [0 ..< length s + 1])"

definition VG_CRED_PREFIX :: string where "VG_CRED_PREFIX = ''__VG_CRED_''"
definition PII_PREFIX :: string where "PII_PREFIX = ''__PII_''"

definition reserved_suffix :: "string \<Rightarrow> bool" where
  "reserved_suffix tail \<longleftrightarrow>
     (if rfind ''__'' tail \<noteq> None \<or> suffix ''_'' tail then
        let sfx = (case rfind ''__'' tail of Some i \<Rightarrow> drop i tail
             | None \<Rightarrow> (case rfind ''_'' tail of Some i \<Rightarrow> drop i tail | None \<Rightarrow> tail))
        in sfx \<in> set [''_'', ''__''] \<or> prefix sfx VG_CRED_PREFIX \<or> prefix sfx PII_PREFIX
           \<or> prefix VG_CRED_PREFIX sfx \<or> prefix PII_PREFIX sfx
      else False)"

text \<open>The longest part of a hint, from its start, that the text ends with.\<close>

definition hint_cut :: "string \<Rightarrow> string \<Rightarrow> nat option" where
  "hint_cut h tail = find (\<lambda>k. suffix (py_take k h) tail) (rev [1 ..< min (py_len h) (py_len tail) + 1])"

definition hint_hits :: "string \<Rightarrow> string \<Rightarrow> bool" where
  "hint_hits tail h0 =
     (let h = py_take 64 h0 in h \<noteq> [] \<and> (sublist h tail \<or> hint_cut h tail \<noteq> None))"

definition has_partial_pii_candidate :: "string \<Rightarrow> string list option \<Rightarrow> bool" where
  "has_partial_pii_candidate s extra_prefixes =
     (if s = [] then False
      else
        let tail = py_tail 64 s in
        (case re_search (at_end IPV4_TAIL) tail of None \<Rightarrow> False | Some m \<Rightarrow> 2 \<le> py_len (m_all m))
        \<or> found (at_end DIGITS_TAIL) tail
        \<or> found (at_end EMAIL_TAIL) tail
        \<or> found (at_end IPV6_TAIL) tail
        \<or> found (at_end APIKEY_TAIL) tail
        \<or> reserved_suffix tail
        \<or> (case extra_prefixes of None \<Rightarrow> False | Some hs \<Rightarrow> list_ex (hint_hits tail) hs))"

section \<open>What waits\<close>

definition EMAIL_DONE :: rx where
  "EMAIL_DONE = rx_cat [plus (acls (alnum_or ''._%+-'')), ch CHR ''@'', plus (acls (alnum_or ''.-'')),
     ch CHR ''.'', Rep True 2 None (acls is_alpha_ascii)]"

definition IPV4_DONE :: rx where
  "IPV4_DONE = rx_cat [times 1 3 rx_d, times 3 3 (Cat (ch CHR ''.'') (times 1 3 rx_d)), opt (ch CHR ''.'')]"

definition APIKEY_DONE :: rx where
  "APIKEY_DONE = rx_alt [rx_cat [lit ''sk-'', opt (rx_alt [lit ''proj-'', lit ''ant-'']), Rep True 16 None (acls (alnum_or ''_-''))],
     rx_cat [lit ''gh'', cset ''pous'', ch CHR ''_'', Rep True 16 None (acls (alnum_or []))],
     Cat (lit ''AKIA'') (times 16 16 upper_or_digit)]"

definition PHONE_DONE :: rx where
  "PHONE_DONE = rx_cat [opt (rx_cat [opt (ch CHR ''+''), lit ''86'', opt (cset ''- '')]), ch CHR ''1'', cset ''3456789'',
     times 9 9 rx_d]"

definition ID_DONE :: rx where
  "ID_DONE = Cat (times 17 17 rx_d) (One (\<lambda>p. is_nd p \<or> p = ''X'' \<or> p = ''x''))"

definition BANK_DONE :: rx where
  "BANK_DONE = rx_alt [Cat (rx_alt [lit ''62'', lit ''60'', Cat (ch CHR ''3'') (cset ''47'')]) (times 11 17 rx_d),
     Cat (cset ''45'') (times 12 18 rx_d)]"

definition is_done :: "rx \<Rightarrow> string \<Rightarrow> bool" where
  "is_done r run \<longleftrightarrow> re_match (rx_cat [Bos, r, Eos]) run \<noteq> None"

text \<open>The run at the end that has to wait; none when it is complete.\<close>

definition tail_run :: "rx \<Rightarrow> string \<Rightarrow> string option" where
  "tail_run r win = map_option (\<lambda>m. grp m 1) (re_search (Cat (Grp 1 r) Eos) win)"

definition pii_tail_hold_run :: "string \<Rightarrow> string" where
  "pii_tail_hold_run content =
     (if content = [] then []
      else
        let win = py_tail 256 content in
        case tail_run EMAIL_TAIL win of
          Some run \<Rightarrow> if is_done EMAIL_DONE run then [] else run
        | None \<Rightarrow>
            (let rest =
               (case tail_run IPV6_TAIL win of
                  Some run \<Rightarrow> if ipv6_parse run \<noteq> None then [] else run
                | None \<Rightarrow>
                    (case tail_run APIKEY_TAIL win of
                       Some run \<Rightarrow> if is_done APIKEY_DONE run then [] else run
                     | None \<Rightarrow>
                         (case re_search (at_end DIGITS_TAIL) win of
                            Some m \<Rightarrow>
                              if is_done PHONE_DONE (grp m 1) \<or> is_done ID_DONE (grp m 1) \<or> is_done BANK_DONE (grp m 1)
                              then [] else grp m 1
                          | None \<Rightarrow> [])))
             in case tail_run IPV4_TAIL win of
                  Some run \<Rightarrow> if 2 \<le> py_len run then (if is_done IPV4_DONE run then [] else run) else rest
                | None \<Rightarrow> rest))"

text \<open>From the last place of a hint in the last 64 code points on; else the part of it at the end.\<close>

fun custom_tail_hold_run :: "string \<Rightarrow> string list \<Rightarrow> string" where
  "custom_tail_hold_run content [] = []"
| "custom_tail_hold_run content (h0 # hs) =
     (let h = py_take 64 h0; win = py_tail 64 content in
      if h = [] \<or> content = [] then custom_tail_hold_run content hs
      else if sublist h win then
        (case rfind h win of Some i \<Rightarrow> drop i win | None \<Rightarrow> custom_tail_hold_run content hs)
      else (case hint_cut h win of
          Some k \<Rightarrow> py_tail k content
        | None \<Rightarrow> custom_tail_hold_run content hs))"

text \<open>The PII scope as its tokens; the active credential tokens are the keys of \<open>active_t2p\<close>.\<close>

definition full_hold :: "string \<Rightarrow> string list \<Rightarrow> (string \<times> string) option" where
  "full_hold content active =
     (case re_search FULL_TOKEN_RE content of
        Some m \<Rightarrow> if m_all m \<notin> set active
          then Some (strip_token_forms (py_take (m_start m) content), m_all m) else None
      | None \<Rightarrow> None)"

definition full_pii_hold :: "string \<Rightarrow> string list option \<Rightarrow> (string \<times> string) option" where
  "full_pii_hold content pii_tokens =
     (if pii_tokens = None then None
      else map_option (\<lambda>m. (strip_token_forms (py_take (m_start m) content), m_all m))
        (re_search FULL_PII_TOKEN_RE content))"

definition prefix_hold :: "string \<Rightarrow> string list \<Rightarrow> (string \<times> string) option" where
  "prefix_hold content known =
     (case rfind ''__'' content of
        Some i \<Rightarrow> if list_ex (prefix (drop i content)) known
          then Some (strip_token_forms (take i content), drop i content) else None
      | None \<Rightarrow> None)"

definition run_hold :: "string \<Rightarrow> string \<Rightarrow> (string \<times> string) option" where
  "run_hold content run =
     (if run = [] then None else Some (strip_token_forms (take (length content - length run) content), run))"

definition split_safe_hold ::
  "string \<Rightarrow> string list \<Rightarrow> string list option \<Rightarrow> string list \<Rightarrow> bool \<Rightarrow> string \<times> string" where
  "split_safe_hold content active pii_tokens extra_prefixes hold_pii_tail =
     (if content = [] then ([], [])
      else case full_hold content active of Some r \<Rightarrow> r
      | None \<Rightarrow> (case full_pii_hold content pii_tokens of Some r \<Rightarrow> r
      | None \<Rightarrow> (case prefix_hold content (active @ (case pii_tokens of None \<Rightarrow> [] | Some ts \<Rightarrow> ts)) of Some r \<Rightarrow> r
      | None \<Rightarrow>
          if \<not> hold_pii_tail then (strip_token_forms content, [])
          else (case run_hold content (custom_tail_hold_run content extra_prefixes) of Some r \<Rightarrow> r
          | None \<Rightarrow> (case run_hold content (pii_tail_hold_run content) of Some r \<Rightarrow> r
          | None \<Rightarrow> (strip_token_forms content, []))))))"

section \<open>Paths\<close>

definition CHAT_TAILS :: "string list" where
  "CHAT_TAILS = [''chat/completions'', ''v1/messages'', ''v1/responses'']"

definition is_chat_tail :: "string \<Rightarrow> bool" where
  "is_chat_tail tail =
     (let t = rstrip_chars ''/'' tail in
      list_ex (\<lambda>k. suffix k t) CHAT_TAILS
      \<or> list_ex (\<lambda>k. let marker = ''/'' @ k @ ''/'' in
            case rfind marker t of
              None \<Rightarrow> False
            | Some i \<Rightarrow> (let sfx = drop (i + length marker) t in sfx \<noteq> [] \<and> CHR ''/'' \<notin> set sfx)) CHAT_TAILS)"

definition is_nonstream_oversize :: "nat \<Rightarrow> nat \<Rightarrow> string \<Rightarrow> bool" where
  "is_nonstream_oversize max_bytes n tail \<longleftrightarrow> max_bytes < n \<and> is_chat_tail tail"

section \<open>Properties\<close>

lemma py_tail_suffix: "suffix (py_tail n s) s"
  unfolding py_tail_def suffix_def by (metis append_take_drop_id concat_append concat_cps)

lemma drop_win_suffix: "suffix (drop i (py_tail n s)) s"
  using suffix_order.trans [OF suffix_drop py_tail_suffix] .

lemma custom_tail_suffix: "suffix (custom_tail_hold_run content hs) content"
  by (induction hs) (auto simp: Let_def py_tail_suffix drop_win_suffix split: option.split)

lemma tail_run_suffix:
  assumes "tail_run r (py_tail n s) = Some run" and "CHR ''\<newline>'' \<notin> set s"
  shows "suffix run s"
proof -
  have nl: "CHR ''\<newline>'' \<notin> set (py_tail n s)" using py_tail_suffix [of n s] assms(2) set_mono_suffix by blast
  from assms(1) obtain m where m: "re_search (Cat (Grp 1 r) Eos) (py_tail n s) = Some m" "run = grp m 1"
    by (auto simp: tail_run_def)
  have "suffix run (py_tail n s)" unfolding m(2) by (rule re_search_group_end [OF m(1) _ nl]) simp
  with py_tail_suffix show ?thesis by (rule suffix_order.trans [rotated])
qed

lemma digits_run_suffix:
  assumes "re_search (at_end DIGITS_TAIL) (py_tail n s) = Some m" and "CHR ''\<newline>'' \<notin> set s"
  shows "suffix (grp m 1) s"
proof -
  have nl: "CHR ''\<newline>'' \<notin> set (py_tail n s)" using py_tail_suffix [of n s] assms(2) set_mono_suffix by blast
  have "suffix (grp m 1) (py_tail n s)"
    by (rule re_search_group_end [OF assms(1) [unfolded at_end_def] _ nl]) (simp add: DIGITS_TAIL_def)
  with py_tail_suffix show ?thesis by (rule suffix_order.trans [rotated])
qed

lemma pii_tail_suffix:
  assumes "CHR ''\<newline>'' \<notin> set content"
  shows "suffix (pii_tail_hold_run content) content"
proof -
  note t = tail_run_suffix [OF _ assms] digits_run_suffix [OF _ assms]
  show ?thesis by (auto simp: pii_tail_hold_run_def Let_def dest: t split: option.split)
qed

definition cut_of :: "string \<Rightarrow> string \<times> string \<Rightarrow> bool" where
  "cut_of content r \<longleftrightarrow> (\<exists>before. content = before @ snd r \<and> fst r = strip_token_forms before)"

lemma full_hold_cut: "full_hold content active = Some r \<Longrightarrow> CHR ''\<newline>'' \<notin> set content \<Longrightarrow> cut_of content r"
  using re_search_at_end(2) [of FULL_TOKEN_RE content]
  by (fastforce simp: full_hold_def cut_of_def FULL_TOKEN_RE_def split: option.splits if_splits)

lemma full_pii_hold_cut: "full_pii_hold content ts = Some r \<Longrightarrow> CHR ''\<newline>'' \<notin> set content \<Longrightarrow> cut_of content r"
  using re_search_at_end(2) [of FULL_PII_TOKEN_RE content]
  by (fastforce simp: full_pii_hold_def cut_of_def FULL_PII_TOKEN_RE_def split: if_splits)

lemma prefix_hold_cut: "prefix_hold content known = Some r \<Longrightarrow> cut_of content r"
  by (auto simp: prefix_hold_def cut_of_def split: option.splits if_splits) (metis append_take_drop_id)

lemma run_hold_cut: "run_hold content run = Some r \<Longrightarrow> suffix run content \<Longrightarrow> cut_of content r"
  by (auto simp: run_hold_def cut_of_def suffix_def split: if_splits)

lemma strip_token_forms_Nil [simp]: "strip_token_forms [] = []"
  by code_simp

text \<open>
  Cutting loses nothing and reorders nothing: what waits is the end of the text, and what is sent
  is the text before it with the token forms stripped, whichever rule of the cut applied.
\<close>

theorem split_safe_hold_parts:
  assumes "CHR ''\<newline>'' \<notin> set content"
  shows "\<exists>before. content = before @ snd (split_safe_hold content active pii_tokens extra hold_tail)
    \<and> fst (split_safe_hold content active pii_tokens extra hold_tail) = strip_token_forms before"
proof -
  have "cut_of content (strip_token_forms content, [])" "cut_of [] ([], [])" by (simp_all add: cut_of_def)
  then have "cut_of content (split_safe_hold content active pii_tokens extra hold_tail)"
    unfolding split_safe_hold_def
    using full_hold_cut [OF _ assms] full_pii_hold_cut [OF _ assms] prefix_hold_cut
      run_hold_cut [OF _ custom_tail_suffix] run_hold_cut [OF _ pii_tail_suffix [OF assms]]
    by (simp split: option.split)
  then show ?thesis by (simp add: cut_of_def)
qed

lemma rfind_last:
  assumes "prefix t (drop i s)" and "i \<le> length s" and "\<And>j. i < j \<Longrightarrow> j \<le> length s \<Longrightarrow> \<not> prefix t (drop j s)"
  shows "rfind t s = Some i"
proof -
  have "[0 ..< length s + 1] = [0 ..< i] @ i # [Suc i ..< length s + 1]"
    using assms(2) upt_add_eq_append [of 0 i "length s + 1 - i"] upt_conv_Cons [of i "length s + 1"] by simp
  then have "rfind t s = find (\<lambda>i. prefix t (drop i s)) (rev [Suc i ..< length s + 1] @ i # rev [0 ..< i])"
    by (simp add: rfind_def)
  moreover have "find (\<lambda>i. prefix t (drop i s)) (rev [Suc i ..< length s + 1]) = None"
    unfolding find_None_iff using assms(3) by force
  moreover have "find P (xs @ ys) = (case find P xs of None \<Rightarrow> find P ys | Some x \<Rightarrow> Some x)" for P and xs ys :: "nat list"
    by (induction xs) auto
  ultimately show ?thesis using assms(1) by simp
qed

lemma prefix_two:
  assumes "prefix [a, b] (drop j p)"
  shows "Suc j < length p \<and> p ! j = a \<and> p ! Suc j = b"
proof -
  from assms obtain zs where d: "drop j p = a # b # zs" by (auto simp: prefix_def)
  have "Suc j < length p" using arg_cong [OF d, of length] by simp
  with d nth_drop [of j p 0] nth_drop [of j p 1] show ?thesis by simp
qed

text \<open>In a proper prefix of a token, two underscores stand next to each other only at its start.\<close>

lemma token_no_dunder:
  assumes "Suc j < length p" and "prefix p (make_token n)" and "p \<noteq> make_token n" and "0 < j"
  shows "\<not> (p ! j = CHR ''_'' \<and> p ! Suc j = CHR ''_'')"
proof -
  let ?ds = "zpad 6 (dec n)"
  obtain z where z: "make_token n = p @ z" using assms(2) by (auto simp: prefix_def)
  with assms(3) have "Suc j < length (make_token n) - 1" using assms(1) by (cases z) auto
  then have j: "Suc j < 11 + length ?ds" by (simp add: make_token_def TOKEN_PREFIX_def TOKEN_SUFFIX_def)
  define pre where "pre = ''__VG_CRED_''"
  have pre: "length pre = 10" by (simp add: pre_def)
  have t: "p ! i = (pre @ ?ds @ ''__'') ! i" if "i < length p" for i
    using that z by (simp add: make_token_def TOKEN_PREFIX_def TOKEN_SUFFIX_def nth_append pre_def)
  have digit: "p ! i \<noteq> CHR ''_''" if "10 \<le> i" "i < 10 + length ?ds" "i < length p" for i
  proof -
    have "is_digit (?ds ! (i - 10))" using zpad_digits [of 6 n] that by (auto simp: list_all_length)
    moreover have "i - 10 < length ?ds" using that by simp
    then have "p ! i = ?ds ! (i - 10)" using that by (simp add: t nth_append pre)
    ultimately show ?thesis by (auto simp: is_digit_def byte_def)
  qed
  have pos: "0 < length ?ds" using length_zpad [of 6 "dec n"] by (simp del: length_greater_0_conv)
  show ?thesis
  proof (cases "Suc j < 10")
    case True
    then have "j \<in> {1, 2, 3, 4, 5, 6, 7, 8}" using assms(4) by auto
    then show ?thesis using assms(1) by (auto simp: t nth_append pre_def)
  next
    case False
    show ?thesis
    proof (cases "Suc j = 10 + length ?ds")
      case True
      then have "j = 9 + length ?ds" "10 \<le> j" "j < length p" using pos assms(1) by linarith+
      with digit [of j] show ?thesis by simp
    next
      case False
      with \<open>\<not> Suc j < 10\<close> j assms(1) show ?thesis using digit [of "Suc j"] by simp
    qed
  qed
qed

text \<open>
  C25. A credential token that a chunk boundary cuts, anywhere after its second underscore, is never
  sent in pieces: the whole part that has arrived waits, and exactly the text before it is sent.
\<close>

theorem cut_token_waits:
  assumes "make_token n \<in> set active" and "prefix p (make_token n)" and "p \<noteq> make_token n" and "3 \<le> length p"
    and "CHR ''\<newline>'' \<notin> set x"
  shows "split_safe_hold (x @ p) active pii_tokens extra hold_tail = (strip_token_forms x, p)"
proof -
  obtain z where z: "make_token n = p @ z" using assms(2) by (auto simp: prefix_def)
  have start: "prefix ''__'' p"
  proof -
    have "take 2 p = take 2 (make_token n)" using z assms(4) by simp
    also have "\<dots> = ''__''" by (simp add: make_token_def TOKEN_PREFIX_def)
    finally show ?thesis by (metis take_is_prefix)
  qed
  have nd: "\<not> prefix ''__'' (drop j (x @ p))" if "length x < j" for j
  proof
    assume "prefix ''__'' (drop j (x @ p))"
    then have "prefix ''__'' (drop (j - length x) p)" using that by simp
    from prefix_two [OF this] have "Suc (j - length x) < length p" "p ! (j - length x) = CHR ''_''"
      "p ! Suc (j - length x) = CHR ''_''" by simp_all
    with token_no_dunder [OF _ assms(2,3), of "j - length x"] that show False by simp
  qed
  have "CHR ''\<newline>'' \<notin> set (make_token n)"
    using zpad_digits [of 6 n] by (auto simp: make_token_def TOKEN_PREFIX_def TOKEN_SUFFIX_def list_all_iff is_digit_def byte_def)
  with assms(5) z have nl: "CHR ''\<newline>'' \<notin> set (x @ p)" by simp
  have "\<not> suffix ''__'' (x @ p)"
  proof
    assume "suffix ''__'' (x @ p)"
    then obtain zs where eq: "x @ p = zs @ ''__''" by (auto simp: suffix_def)
    have "prefix ''__'' (drop (length (x @ p) - 2) (x @ p))" unfolding eq by simp
    with nd [of "length (x @ p) - 2"] assms(4) show False by simp
  qed
  then have "re_search r (x @ p) = None" if "ends_dunder r" "ends_text r" for r
    using re_search_dunder [OF _ that nl] by (cases "re_search r (x @ p)") blast+
  from this [of FULL_TOKEN_RE] this [of FULL_PII_TOKEN_RE]
  have "full_hold (x @ p) active = None" "full_pii_hold (x @ p) pii_tokens = None"
    by (simp_all add: full_hold_def full_pii_hold_def FULL_TOKEN_RE_def FULL_PII_TOKEN_RE_def)
  moreover have "rfind ''__'' (x @ p) = Some (length x)"
    by (rule rfind_last [OF _ _ nd]) (simp_all add: start)
  then have "prefix_hold (x @ p) (active @ (case pii_tokens of None \<Rightarrow> [] | Some ts \<Rightarrow> ts)) = Some (strip_token_forms x, p)"
    using assms(1,2) by (auto simp: prefix_hold_def list_ex_iff)
  moreover have "x @ p \<noteq> []" using assms(4) by auto
  ultimately show ?thesis by (simp add: split_safe_hold_def)
qed

theorem cut_token_waits_witness:
  "split_safe_hold (''pw '' @ ''__VG_CRED_00'') [make_token 7] None [] False = (strip_token_forms ''pw '', ''__VG_CRED_00'')"
  by (rule cut_token_waits [of 7]) (simp_all add: make_token_def TOKEN_PREFIX_def TOKEN_SUFFIX_def zpad_def dec.simps text_eval)

theorem split_safe_hold_parts_witness:
  "\<exists>before. ''call 138'' = before @ snd (split_safe_hold ''call 138'' [] None [] True)"
  using split_safe_hold_parts [of "''call 138''" "[]" None "[]" True] by (simp, blast)

text \<open>A cut after the first underscore is not seen: the underscore is sent, and the rest no longer is a token.\<close>

lemma first_underscore_sent:
  assumes "rfind ''__'' (x @ ''_'') = None" and "CHR ''\<newline>'' \<notin> set x"
  shows "split_safe_hold (x @ ''_'') active pii_tokens extra False = (strip_token_forms (x @ ''_''), [])"
proof -
  have "\<not> suffix ''__'' (x @ ''_'')"
  proof
    assume "suffix ''__'' (x @ ''_'')"
    then obtain zs where "x @ ''_'' = zs @ ''__''" by (auto simp: suffix_def)
    then have "prefix ''__'' (drop (length zs) (x @ ''_''))" "length zs \<in> set (rev [0 ..< length (x @ ''_'') + 1])" by auto
    with assms(1) show False unfolding rfind_def find_None_iff by blast
  qed
  moreover have "CHR ''\<newline>'' \<notin> set (x @ ''_'')" using assms(2) by simp
  ultimately have "re_search r (x @ ''_'') = None" if "ends_dunder r" "ends_text r" for r
    using re_search_dunder [OF _ that] by (cases "re_search r (x @ ''_'')") blast+
  from this [of FULL_TOKEN_RE] this [of FULL_PII_TOKEN_RE] assms(1) show ?thesis
    by (simp add: split_safe_hold_def full_hold_def full_pii_hold_def FULL_TOKEN_RE_def FULL_PII_TOKEN_RE_def prefix_hold_def)
qed

end
