(* ===== verification/Audit_Policy.thy ===== *)
theory Audit_Policy
  imports Audit_Text Json_Walk
begin

text \<open>
  The policy of the output audit (\<open>_audit.py\<close>): the parser of the small YAML subset, the policy file,
  the built-in policy and their merge.  \<open>json.loads\<close> is the field \<open>std_loads\<close> of a \<open>json_lib\<close>;
  \<open>float(s)\<close> is the parameter \<open>flt\<close> (\<open>None\<close> is a \<open>ValueError\<close>).  The parser builds lists and
  dictionaries that the result shares with its variables, so lists live in a store.
\<close>

section \<open>Scalars\<close>

definition parse_scalar :: "json_lib \<Rightarrow> (string \<Rightarrow> json option) \<Rightarrow> string \<Rightarrow> json" where
  "parse_scalar lib flt s0 =
     (let s = py_strip s0;
          inner = concat (butlast (drop 1 (cps s)));
          number = (case py_int s of
              Some i \<Rightarrow> JInt i
            | None \<Rightarrow> (case flt s of Some r \<Rightarrow> r | None \<Rightarrow> JStr s))
      in if s = [] \<or> s = ''null'' \<or> s = ''~'' then JNull
         else if s = ''true'' then JBool True
         else if s = ''false'' then JBool False
         else if prefix [dq] s \<and> suffix [dq] s \<or> prefix [sq] s \<and> suffix [sq] s then
           (if prefix [dq] s then (case std_loads lib s of Some j \<Rightarrow> j | None \<Rightarrow> JStr inner) else JStr inner)
         else if looks_json s then (case std_loads lib s of Some j \<Rightarrow> j | None \<Rightarrow> JStr s)
         else number)"

text \<open>\<open>str.splitlines()\<close>\<close>

definition is_linebreak :: "string \<Rightarrow> bool" where
  "is_linebreak p \<longleftrightarrow> map byte p \<in> set
     [[10], [11], [12], [13], [28], [29], [30], [194, 133], [226, 128, 168], [226, 128, 169]]"

fun split_lines :: "string list \<Rightarrow> string \<Rightarrow> string list" where
  "split_lines [] cur = (if cur = [] then [] else [cur])"
| "split_lines [p] cur = (if is_linebreak p then [cur] else [cur @ p])"
| "split_lines (p # q # ps) cur =
     (if map byte p = [13] \<and> map byte q = [10] then cur # split_lines ps []
      else if is_linebreak p then cur # split_lines (q # ps) []
      else split_lines (q # ps) (cur @ p))"

definition splitlines :: "string \<Rightarrow> string list" where
  "splitlines s = split_lines (cps s) []"

definition YAML_KEY_RE :: rx where
  "YAML_KEY_RE = rx_cat [Bos, Grp 1 (Cat (acls ident_start) (star (acls ident_char))), ch CHR '':'',
     star rx_s, Grp 2 (star rx_any), Eos]"

definition skip_line :: "string \<Rightarrow> bool" where
  "skip_line line \<longleftrightarrow> py_strip line = [] \<or> prefix ''#'' (py_lstrip line)"

definition indent_of :: "string \<Rightarrow> nat" where
  "indent_of line = py_len line - py_len (py_lstrip line)"

text \<open>\<open>content[2:]\<close> of a content that begins with a hyphen and a blank\<close>

definition item_text :: "string \<Rightarrow> string" where
  "item_text content = py_strip (py_drop 2 content)"

text \<open>\<open>_fill_sub_list\<close>, on the lines after the parent item.\<close>

fun fill_sub_list :: "json_lib \<Rightarrow> (string \<Rightarrow> json option) \<Rightarrow> string list \<Rightarrow> nat \<Rightarrow> json list" where
  "fill_sub_list lib flt [] parent_indent = []"
| "fill_sub_list lib flt (line # lines) parent_indent =
     (if skip_line line then fill_sub_list lib flt lines parent_indent
      else if indent_of line \<le> parent_indent then []
      else if prefix ''- '' (py_strip line)
      then parse_scalar lib flt (item_text (py_strip line)) # fill_sub_list lib flt lines parent_indent
      else fill_sub_list lib flt lines parent_indent)"

section \<open>The parser\<close>

text \<open>
  A value of the result is a scalar or a list in the store; the current list is a place of the
  store, the last dictionary a place in a list.
\<close>

datatype yval = Scalar json | Place nat

record yaml =
  y_result :: "(string, yval) dict"
  y_lists :: "json list list"
  y_current :: "nat option"
  y_last :: "(nat \<times> nat) option"

definition yaml_init :: yaml where
  "yaml_init = \<lparr>y_result = [], y_lists = [], y_current = None, y_last = None\<rparr>"

definition add_item :: "nat \<Rightarrow> json \<Rightarrow> yaml \<Rightarrow> yaml" where
  "add_item l j y = y\<lparr>y_lists := (y_lists y)[l := y_lists y ! l @ [j]]\<rparr>"

definition set_in_last :: "nat \<times> nat \<Rightarrow> string \<Rightarrow> json \<Rightarrow> yaml \<Rightarrow> yaml" where
  "set_in_last lp key v y =
     (case lp of (l, p) \<Rightarrow>
        y\<lparr>y_lists := (y_lists y)[l := (y_lists y ! l)[p :=
          (case y_lists y ! l ! p of JObj d \<Rightarrow> JObj (dset key v d) | j \<Rightarrow> j)]]\<rparr>)"

text \<open>
  One line; \<open>all_lines\<close> are the lines of the whole text, in which a nested list is looked up by the
  first line equal to its head.
\<close>

definition yaml_line ::
  "json_lib \<Rightarrow> (string \<Rightarrow> json option) \<Rightarrow> string list \<Rightarrow> string \<Rightarrow> yaml \<Rightarrow> yaml py_result" where
  "yaml_line lib flt all_lines raw_line y =
     (let line = py_rstrip raw_line; content = py_strip line; indent = indent_of line in
      if skip_line line then Inr y
      else if indent = 0 then
        (case re_match YAML_KEY_RE content of
           None \<Rightarrow> Inl ValueError
         | Some m \<Rightarrow>
             if grp m 2 \<noteq> []
             then Inr (y\<lparr>y_result := dset (grp m 1) (Scalar (parse_scalar lib flt (grp m 2))) (y_result y),
                         y_last := None\<rparr>)
             else Inr (y\<lparr>y_result := dset (grp m 1) (Place (length (y_lists y))) (y_result y),
                         y_lists := y_lists y @ [[]], y_current := Some (length (y_lists y)),
                         y_last := None\<rparr>))
      else if prefix ''- '' content then
        (case y_current y of
           None \<Rightarrow> Inl ValueError
         | Some l \<Rightarrow>
             (let it = item_text content; here = Some (l, length (y_lists y ! l)) in
              case re_match YAML_KEY_RE it of
                Some m \<Rightarrow>
                  if grp m 2 = [] then
                    (let rest = drop 1 (dropWhile (\<lambda>x. x \<noteq> raw_line) all_lines)
                     in Inr ((add_item l (JObj [(grp m 1, JArr (fill_sub_list lib flt rest indent))]) y)
                          \<lparr>y_last := here\<rparr>))
                  else Inr ((add_item l (JObj [(grp m 1, parse_scalar lib flt (grp m 2))]) y)\<lparr>y_last := here\<rparr>)
              | None \<Rightarrow> Inr ((add_item l (parse_scalar lib flt it) y)\<lparr>y_last := None\<rparr>)))
      else
        (case y_last y of
           None \<Rightarrow> Inl ValueError
         | Some lp \<Rightarrow>
             (case re_match YAML_KEY_RE content of
                None \<Rightarrow> Inl ValueError
              | Some m \<Rightarrow>
                  Inr (set_in_last lp (grp m 1)
                    (if grp m 2 \<noteq> [] then parse_scalar lib flt (grp m 2) else JArr []) y))))"

fun yaml_lines ::
  "json_lib \<Rightarrow> (string \<Rightarrow> json option) \<Rightarrow> string list \<Rightarrow> string list \<Rightarrow> yaml \<Rightarrow> yaml py_result" where
  "yaml_lines lib flt all_lines [] y = Inr y"
| "yaml_lines lib flt all_lines (x # xs) y =
     (case yaml_line lib flt all_lines x y of
        Inl e \<Rightarrow> Inl e
      | Inr y' \<Rightarrow> yaml_lines lib flt all_lines xs y')"

definition yaml_value :: "yaml \<Rightarrow> yval \<Rightarrow> json" where
  "yaml_value y v = (case v of Scalar j \<Rightarrow> j | Place l \<Rightarrow> JArr (y_lists y ! l))"

definition parse_simple_yaml :: "json_lib \<Rightarrow> (string \<Rightarrow> json option) \<Rightarrow> string \<Rightarrow> (string, json) dict py_result" where
  "parse_simple_yaml lib flt s =
     (case yaml_lines lib flt (splitlines s) (splitlines s) yaml_init of
        Inl e \<Rightarrow> Inl e
      | Inr y \<Rightarrow> Inr (map (\<lambda>(k, v). (k, yaml_value y v)) (y_result y)))"

section \<open>Policy files\<close>

text \<open>The file's text, \<open>None\<close> when it does not exist or cannot be read; the result may be any value.\<close>

definition load_policy_file :: "json_lib \<Rightarrow> (string \<Rightarrow> json option) \<Rightarrow> string option \<Rightarrow> json py_result" where
  "load_policy_file lib flt content =
     (case content of
        None \<Rightarrow> Inl OtherExn
      | Some s \<Rightarrow>
          if prefix ''{'' (py_lstrip s)
          then (case std_loads lib s of None \<Rightarrow> Inl ValueError | Some j \<Rightarrow> Inr j)
          else (case parse_simple_yaml lib flt s of Inl e \<Rightarrow> Inl ValueError | Inr d \<Rightarrow> Inr (JObj d)))"

type_synonym policy = "(string, json) dict"

text \<open>The merge: every key of the file replaces the built-in one; \<open>False\<close> reports a failure.\<close>

definition load_policy ::
  "json_lib \<Rightarrow> (string \<Rightarrow> json option) \<Rightarrow> policy \<Rightarrow> string option option \<Rightarrow> policy \<times> bool" where
  "load_policy lib flt builtin policy_file =
     (case policy_file of
        None \<Rightarrow> (builtin, True)
      | Some content \<Rightarrow>
          (case load_policy_file lib flt content of
             Inr (JObj d) \<Rightarrow> (foldl (\<lambda>p (k, v). dset k v p) builtin d, True)
           | _ \<Rightarrow> (builtin, False)))"

section \<open>The built-in policy\<close>

text \<open>
  The rules of \<open>DEFAULT_POLICY\<close>: a name that stands for the pattern's text, the expression the text
  denotes, and the network flag.
\<close>

definition SYS_DIRS :: "string list \<Rightarrow> rx" where
  "SYS_DIRS ds = rx_alt (map lit ds)"

definition DEFAULT_RULES :: "(string \<times> rx \<times> bool) list" where
  "DEFAULT_RULES =
     [(''rm -rf'', rx_cat [Bnd, lit ''rm'', plus rx_s, lit ''-rf'', Bnd], False),
      (''mkfs'', rx_cat [Bnd, lit ''mkfs'', Bnd], False),
      (''dd'', rx_cat [Bnd, lit ''dd'', plus rx_s, lit ''if='', star rx_any, plus rx_s, lit ''of=/'',
         rx_alt (map lit [''dev'', ''sd'', ''hd''])], False),
      (''shutdown'', rx_alt (map (\<lambda>w. rx_cat [Bnd, lit w, Bnd]) [''shutdown'', ''reboot'', ''poweroff'']), False),
      (''chmod'', rx_cat [Bnd, lit ''chmod'', plus rx_s, opt (Cat (lit ''-R'') (plus rx_s)),
         times 3 4 (cset ''01234567''), plus rx_s, SYS_DIRS [''/'', ''/etc'', ''/usr'', ''/bin'', ''/var'']], False),
      (''chown'', rx_cat [Bnd, lit ''chown'', plus rx_s, opt (Cat (lit ''-R'') (plus rx_s)), plus rx_w, plus rx_s,
         SYS_DIRS [''/'', ''/etc'', ''/usr'', ''/bin'']], False),
      (''write'', rx_cat [Bnd, rx_alt (map lit [''write_file'', ''patch'', ''echo'', ''cat'', ''tee'', ''cp'', ''mv'']),
         Bnd, lazy (nset ''\<newline>''),
         rx_alt [Cat (lit ''/etc/'') (rx_alt (map lit [''passwd'', ''shadow'', ''sudoers'', ''hosts'', ''ssh''])),
           lit ''/root/'', lit ''/boot/'']], False),
      (''network'', rx_cat [Bnd, rx_alt (map lit [''curl'', ''wget'', ''nc'', ''ncat'', ''telnet'', ''ssh'']), Bnd,
         star (nset ''\<newline>''),
         rx_alt [rx_cat [rx_s, rx_alt (map lit [''-o'', ''--output'', ''>'', ''>>'']), plus rx_s, plus rx_S],
           rx_cat [lit ''http'', opt (ch CHR ''s''), lit ''://''], lit ''ftp://'']], True),
      (''decode'', rx_cat [Bnd, rx_alt (map lit [''base64'', ''openssl'']), Bnd, star (nset ''\<newline>''), Bnd,
         rx_alt (map lit [''-d'', ''decode'', ''decrypt'']), Bnd], False)]"

text \<open>
  The reasons of the rules, in the order of the rules, as UTF-8 bytes: dangerous deletion, disk
  formatting, block device write, shutdown, system directory mode and owner, sensitive path write,
  network transfer, decoding.
\<close>

definition DEFAULT_REASONS :: "(string \<times> string) list" where
  "DEFAULT_REASONS = [
     (''rm -rf'', bytes [229, 141, 177, 233, 153, 169, 229, 136, 160, 233, 153, 164, 32, 114, 109, 32,
         45, 114, 102]),
     (''mkfs'', bytes [230, 160, 188, 229, 188, 143, 229, 140, 150, 231, 163, 129, 231, 155, 152, 32,
         109, 107, 102, 115]),
     (''dd'', bytes [229, 134, 153, 229, 157, 151, 232, 174, 190, 229, 164, 135, 32, 100, 100]),
     (''shutdown'', bytes [229, 133, 179, 230, 156, 186, 47, 233, 135, 141, 229, 144, 175]),
     (''chmod'', bytes [231, 179, 187, 231, 187, 159, 231, 155, 174, 229, 189, 149, 230, 157, 131, 233,
         153, 144, 229, 143, 152, 230, 155, 180]),
     (''chown'', bytes [231, 179, 187, 231, 187, 159, 231, 155, 174, 229, 189, 149, 229, 177, 158, 228,
         184, 187, 229, 143, 152, 230, 155, 180]),
     (''write'', bytes [230, 149, 143, 230, 132, 159, 232, 183, 175, 229, 190, 132, 229, 134, 153, 229,
         133, 165]),
     (''network'', bytes [231, 189, 145, 231, 187, 156, 228, 188, 160, 232, 190, 147]),
     (''decode'', bytes [232, 167, 163, 231, 160, 129, 228, 188, 160, 232, 190, 147, 239, 188, 136, 98,
         97, 115, 101, 54, 52, 32, 229, 164, 150, 228, 188, 160, 229, 140, 133, 232,
         163, 133, 239, 188, 137])]"

definition DEFAULT_ALLOW :: "string list" where
  "DEFAULT_ALLOW = [''web_search'', ''web_extract'', ''read_file'', ''list_files'', ''search_files'',
     ''write_file'', ''patch'', ''session_search'', ''memory'', ''skill_view'', ''skills_list'', ''skill_manage'',
     ''cronjob'', ''todo'', ''execute_code'', ''terminal'', ''bash'', ''get_credential'', ''ask_user'', ''clarify'']"

definition default_rule :: "string \<times> rx \<times> bool \<Rightarrow> json" where
  "default_rule r = (case r of (p, _, net) \<Rightarrow>
     JObj ([(''pattern'', JStr p), (''reason'', JStr (dget_or DEFAULT_REASONS p p))] @ (if net then [(''network'', JBool True)] else [])))"

definition DEFAULT_POLICY :: policy where
  "DEFAULT_POLICY = [(''allow'', JArr (map JStr DEFAULT_ALLOW)), (''deny'', JArr []),
     (''dangerous'', JArr (map default_rule DEFAULT_RULES)),
     (''internal_suffixes'', JArr (map JStr [''.corp.example'', ''.local'', ''.internal'']))]"

text \<open>\<open>re.search(pattern, s)\<close> for the patterns of the built-in rules; any other does not compile.\<close>

definition default_search :: "string \<Rightarrow> string \<Rightarrow> bool option" where
  "default_search pattern s = map_option (\<lambda>(r, _). re_search r s \<noteq> None) (dget DEFAULT_RULES pattern)"

end
