(* ===== verification/Audit_Log.thy ===== *)
theory Audit_Log
  imports Audit_Text
begin

text \<open>
  The audit log (\<open>_audit.py\<close>): one JSON line per event, appended to a file that is rotated at 10 MB with
  five backups, a ring of the last hundred events in memory and the counter of failed writes.
  The file system is a dictionary from paths to mode and content; a budget says how many of its
  operations still succeed before one raises an \<open>OSError\<close>, so a failure can strike between any
  two operations.  \<open>json.dumps\<close> of a record is a parameter.
\<close>

section \<open>Files\<close>

type_synonym fsys = "(string, nat \<times> string) dict"

text \<open>The remaining operations (\<open>None\<close>: no failure) and the files; the flag is \<open>False\<close> after an error.\<close>

type_synonym fs_st = "nat option \<times> fsys"

definition fs_do :: "(fsys \<Rightarrow> fsys) \<Rightarrow> fs_st \<Rightarrow> fs_st \<times> bool" where
  "fs_do f st =
     (case st of
        (None, fs) \<Rightarrow> ((None, f fs), True)
      | (Some 0, fs) \<Rightarrow> ((Some 0, fs), False)
      | (Some (Suc n), fs) \<Rightarrow> ((Some n, f fs), True))"

definition fs_then :: "fs_st \<times> bool \<Rightarrow> (fs_st \<Rightarrow> fs_st \<times> bool) \<Rightarrow> fs_st \<times> bool" where
  "fs_then r k = (case r of (st, ok) \<Rightarrow> if ok then k st else (st, False))"

definition fs_move :: "string \<Rightarrow> string \<Rightarrow> fsys \<Rightarrow> fsys" where
  "fs_move src dst fs = (case dget fs src of None \<Rightarrow> fs | Some x \<Rightarrow> dset dst x (ddel src fs))"

definition fs_append :: "string \<Rightarrow> string \<Rightarrow> fsys \<Rightarrow> fsys" where
  "fs_append p s fs = (case dget fs p of None \<Rightarrow> fs | Some (m, c) \<Rightarrow> dset p (m, c @ s) fs)"

section \<open>Rotation and appending\<close>

definition AUDIT_LOG_MAX_BYTES :: nat where "AUDIT_LOG_MAX_BYTES = 10 * 1024 * 1024"
definition AUDIT_LOG_BACKUPS :: nat where "AUDIT_LOG_BACKUPS = 5"
definition AUDIT_LOG_WRITE_FAIL_LIMIT :: nat where "AUDIT_LOG_WRITE_FAIL_LIMIT = 10"

definition strip_ctrl :: "string \<Rightarrow> string" where
  "strip_ctrl s = filter (\<lambda>c. \<not> byte c \<le> 31) s"

text \<open>The file itself is number 0, its backups follow.\<close>

definition log_name :: "string \<Rightarrow> nat \<Rightarrow> string" where
  "log_name path i = (if i = 0 then path else path @ ''.'' @ dec i)"

text \<open>One file moves up by one, over its successor.\<close>

definition shift_log :: "string \<Rightarrow> nat \<Rightarrow> fs_st \<Rightarrow> fs_st \<times> bool" where
  "shift_log path i st =
     (let src = log_name path i; dst = log_name path (i + 1) in
      if dhas (snd st) src then
        fs_then (if dhas (snd st) dst then fs_do (ddel dst) st else (st, True))
          (\<lambda>st. fs_do (fs_move src dst) st)
      else (st, True))"

fun shift_all :: "string \<Rightarrow> nat list \<Rightarrow> fs_st \<Rightarrow> fs_st \<times> bool" where
  "shift_all path [] st = (st, True)"
| "shift_all path (i # is) st = fs_then (shift_log path i st) (shift_all path is)"

definition rotate_audit_log :: "string \<Rightarrow> fs_st \<Rightarrow> fs_st \<times> bool" where
  "rotate_audit_log path st =
     fs_then (shift_all path (rev [1 ..< AUDIT_LOG_BACKUPS]) st) (shift_log path 0)"

definition log_too_big :: "string \<Rightarrow> fsys \<Rightarrow> bool" where
  "log_too_big path fs \<longleftrightarrow>
     (case dget fs path of None \<Rightarrow> False | Some (m, c) \<Rightarrow> length c > AUDIT_LOG_MAX_BYTES)"

text \<open>
  A text with a lone surrogate (as \<open>json.loads\<close> makes one of \<open>\ud800\<close>) cannot be encoded: its bytes
  ED A0 to ED BF stand for no character.
\<close>

definition encodable :: "string \<Rightarrow> bool" where
  "encodable s \<longleftrightarrow>
     list_all (\<lambda>p. \<not> (length p = 3 \<and> byte (p ! 0) = 237 \<and> 160 \<le> byte (p ! 1))) (cps s)"

text \<open>
  An \<open>OSError\<close> is caught and reported as \<open>False\<close>; the \<open>UnicodeEncodeError\<close> of the write, a
  \<open>ValueError\<close>, is not caught.  The file is then open, and nothing is written.
\<close>

definition append_audit_log :: "string \<Rightarrow> string \<Rightarrow> fs_st \<Rightarrow> fs_st \<times> bool py_result" where
  "append_audit_log path json_line st =
     (let line = strip_ctrl json_line;
          r =
            fs_then (fs_do id st) (\<lambda>st.
            fs_then (if log_too_big path (snd st) then rotate_audit_log path st else (st, True)) (\<lambda>st.
            fs_then (if dhas (snd st) path then (st, True) else fs_do (dset path (384, [])) st) (\<lambda>st.
            fs_do (if encodable line then fs_append path (line @ ''\<newline>'') else id) st)))
      in case r of (st', ok) \<Rightarrow> (st', if ok \<and> \<not> encodable line then Inl ValueError else Inr ok))"

section \<open>Events\<close>

record audit_rec =
  ar_ts :: real
  ar_tool :: string
  ar_verdict :: string
  ar_rule :: string
  ar_summary :: string
  ar_note :: string

text \<open>
  The event side of the mixin: ring, failure counter, the collector's counts, the number of circuit
  breaker alarms, and the files.
\<close>

record audit_log =
  al_path :: string
  al_ring :: "audit_rec list"
  al_fails :: nat
  al_counts :: "((string \<times> string) list \<times> nat) option"
  al_alarms :: nat
  al_fs :: fs_st

definition AUDIT_RING_MAX :: nat where "AUDIT_RING_MAX = 100"

definition ring_push :: "audit_rec \<Rightarrow> audit_rec list \<Rightarrow> audit_rec list" where
  "ring_push r ring =
     (let ring' = ring @ [r] in if length ring' > AUDIT_RING_MAX then drop (length ring' - AUDIT_RING_MAX) ring' else ring')"

text \<open>The event as a record; the summary is the masked argument text.  An exception of the append
  escapes, after the ring and the counts have the event.\<close>

definition audit_log_event ::
  "(audit_rec \<Rightarrow> string) \<Rightarrow> real \<Rightarrow> string \<Rightarrow> string \<Rightarrow> string \<Rightarrow> string \<Rightarrow> string \<Rightarrow> audit_log
    \<Rightarrow> audit_log \<times> unit py_result" where
  "audit_log_event dump now verdict name summary rule_hit note s =
     (let r = \<lparr>ar_ts = now, ar_tool = name, ar_verdict = verdict, ar_rule = rule_hit,
                ar_summary = summary, ar_note = note\<rparr>;
          s1 = s\<lparr>al_counts := map_option (\<lambda>(cs, n). (cs @ [(verdict, rule_hit)], n)) (al_counts s),
                 al_ring := ring_push r (al_ring s)\<rparr>
      in if al_path s1 = [] then (s1, Inr ())
         else case append_audit_log (al_path s1) (dump r) (al_fs s1) of
           (fs, Inl e) \<Rightarrow> (s1\<lparr>al_fs := fs\<rparr>, Inl e)
         | (fs, Inr True) \<Rightarrow> (s1\<lparr>al_fs := fs, al_fails := 0\<rparr>, Inr ())
         | (fs, Inr False) \<Rightarrow>
             (let s2 = s1\<lparr>al_fs := fs, al_fails := al_fails s1 + 1,
                          al_counts := map_option (\<lambda>(cs, n). (cs, n + 1)) (al_counts s1)\<rparr>
              in (if verdict = ''deny'' then s2
                  else if AUDIT_LOG_WRITE_FAIL_LIMIT \<le> al_fails s2
                  then s2\<lparr>al_fails := 0, al_alarms := al_alarms s2 + 1\<rparr>
                  else s2, Inr ())))"

section \<open>Rotation loses only the oldest file\<close>

lemma log_name_inj [simp]: "log_name p i = log_name p j \<longleftrightarrow> i = j"
  by (auto simp: log_name_def dec_inj)

definition log_at :: "string \<Rightarrow> fsys \<Rightarrow> nat \<Rightarrow> (nat \<times> string) option" where
  "log_at path fs i = dget fs (log_name path i)"

text \<open>
  While the files are shifted from the top down: those below \<open>n\<close> are in place, those from \<open>n\<close> on are
  one further up, and place \<open>n\<close> is free unless it is the last.
\<close>

definition shifting :: "(nat \<Rightarrow> (nat \<times> string) option) \<Rightarrow> nat \<Rightarrow> (nat \<Rightarrow> (nat \<times> string) option) \<Rightarrow> bool" where
  "shifting g0 n g \<longleftrightarrow> (\<forall>j < n. g j = g0 j)
     \<and> (\<forall>j. n \<le> j \<and> j < AUDIT_LOG_BACKUPS \<and> g0 j \<noteq> None \<longrightarrow> g (j + 1) = g0 j)
     \<and> (n < AUDIT_LOG_BACKUPS \<longrightarrow> g n = None)"

text \<open>No file of the chain but the last is lost.\<close>

definition chain_kept :: "(nat \<Rightarrow> (nat \<times> string) option) \<Rightarrow> (nat \<Rightarrow> (nat \<times> string) option) \<Rightarrow> bool" where
  "chain_kept g0 g \<longleftrightarrow> (\<forall>i < AUDIT_LOG_BACKUPS. \<forall>x. g0 i = Some x \<longrightarrow> (\<exists>j \<le> AUDIT_LOG_BACKUPS. g j = Some x))"

lemma shifting_kept:
  assumes "shifting g0 n g"
  shows "chain_kept g0 g"
  unfolding chain_kept_def
proof (intro allI impI)
  fix i x assume i: "i < AUDIT_LOG_BACKUPS" "g0 i = Some x"
  show "\<exists>j \<le> AUDIT_LOG_BACKUPS. g j = Some x"
  proof (cases "i < n")
    case True
    with i assms show ?thesis by (intro exI [of _ i]) (simp add: shifting_def)
  next
    case False
    with i assms show ?thesis by (intro exI [of _ "i + 1"]) (simp add: shifting_def)
  qed
qed

lemma log_at_del: "log_at p (ddel (log_name p i) fs) = (log_at p fs)(i := None)"
  by (auto simp: log_at_def fun_eq_iff)

lemma log_at_move:
  "i \<noteq> j \<Longrightarrow> log_at p fs i = Some x \<Longrightarrow>
    log_at p (fs_move (log_name p i) (log_name p j) fs) = (log_at p fs)(i := None, j := Some x)"
  by (auto simp: log_at_def fs_move_def fun_eq_iff split: option.split)

lemma fs_do_cases:
  "fs_do f st = (st', ok) \<Longrightarrow> snd st' = (if ok then f (snd st) else snd st)"
  by (auto simp: fs_do_def split: prod.splits option.splits nat.splits)

lemma shift_log_step:
  assumes g: "shifting g0 (Suc n) (log_at p (snd st))" and n: "n < AUDIT_LOG_BACKUPS"
    and r: "shift_log p n st = (st', ok)"
  shows "chain_kept g0 (log_at p (snd st')) \<and> (ok \<longrightarrow> shifting g0 n (log_at p (snd st')))"
proof (cases "log_at p (snd st) n")
  case None
  then have "st' = st" "ok" using r by (simp_all add: shift_log_def log_at_def dhas_def)
  moreover have "shifting g0 n (log_at p (snd st))"
    using g None unfolding shifting_def by (metis Suc_leI le_neq_implies_less less_SucI lessI)
  ultimately show ?thesis using shifting_kept by blast
next
  case (Some x)
  obtain st1 ok1 where 1: "(if dhas (snd st) (log_name p (n + 1)) then fs_do (ddel (log_name p (n + 1))) st
      else (st, True)) = (st1, ok1)" by (metis prod.exhaust)
  have "shifting g0 (Suc n) (log_at p (snd st1)) \<and> log_at p (snd st1) n = Some x"
  proof (cases "dhas (snd st) (log_name p (n + 1))")
    case True
    then have "log_at p (snd st) (Suc n) \<noteq> None" by (simp add: log_at_def dhas_def)
    with g n have "Suc n = AUDIT_LOG_BACKUPS" by (auto simp: shifting_def)
    with 1 True g Some show ?thesis
      by (auto simp: fs_do_cases log_at_del shifting_def dest!: fs_do_cases)
  next
    case False
    with 1 g Some show ?thesis by auto
  qed
  then have g1: "shifting g0 (Suc n) (log_at p (snd st1))" and x1: "log_at p (snd st1) n = Some x" by simp_all
  have r1: "(if ok1 then fs_do (fs_move (log_name p n) (log_name p (n + 1))) st1 else (st1, False)) = (st', ok)"
    using r Some unfolding shift_log_def Let_def 1
    by (auto simp: fs_then_def log_at_def dhas_def split: if_splits)
  show ?thesis
  proof (cases ok)
    case False
    with r1 have "snd st' = snd st1" by (auto split: if_splits dest: fs_do_cases)
    with g1 False show ?thesis using shifting_kept by simp
  next
    case True
    with r1 have "snd st' = fs_move (log_name p n) (log_name p (n + 1)) (snd st1)"
      by (auto split: if_splits dest: fs_do_cases)
    then have m: "log_at p (snd st') = (log_at p (snd st1))(n := None, n + 1 := Some x)"
      using log_at_move [OF _ x1, of "n + 1"] by simp
    have "g0 n = Some x" using g1 x1 by (auto simp: shifting_def)
    then have "shifting g0 n (log_at p (snd st'))" using g1 unfolding m by (auto simp: shifting_def)
    then show ?thesis using shifting_kept by blast
  qed
qed

lemma rotate_chain:
  assumes "rotate_audit_log p st = (st', ok)"
  shows "chain_kept (log_at p (snd st)) (log_at p (snd st'))
    \<and> (ok \<longrightarrow> shifting (log_at p (snd st)) 0 (log_at p (snd st')))"
proof -
  let ?g = "log_at p (snd st)"
  have step: "chain_kept ?g (log_at p (snd v)) \<and> (ok' \<longrightarrow> shifting ?g 0 (log_at p (snd v)))"
    if "shifting ?g n (log_at p (snd u))" "n \<le> AUDIT_LOG_BACKUPS" "shift_all p (rev [0 ..< n]) u = (v, ok')" for n u v ok'
    using that
  proof (induction n arbitrary: u)
    case 0
    then show ?case using shifting_kept by auto
  next
    case (Suc n)
    obtain u1 ok1 where u1: "shift_log p n u = (u1, ok1)" by fastforce
    note s = shift_log_step [OF Suc.prems(1) _ u1]
    show ?case using Suc.IH [of u1] Suc.prems u1 s by (cases ok1) (auto simp: fs_then_def)
  qed
  have all: "shift_all p (is @ [i]) u = fs_then (shift_all p is u) (shift_log p i)" for "is" i u
    by (induction "is" arbitrary: u) (auto simp: fs_then_def split: prod.split)
  have "rev [0 ..< AUDIT_LOG_BACKUPS] = rev [1 ..< AUDIT_LOG_BACKUPS] @ [0]"
    by (simp add: AUDIT_LOG_BACKUPS_def upt_rec)
  then have "shift_all p (rev [0 ..< AUDIT_LOG_BACKUPS]) st = (st', ok)"
    using assms by (simp only: all rotate_audit_log_def)
  moreover have "shifting ?g AUDIT_LOG_BACKUPS ?g" by (auto simp: shifting_def)
  ultimately show ?thesis using step by blast
qed

text \<open>
  C38. Whatever operation of an append fails, and whether or not it rotates, no audit entry is lost
  with it: every one of the current log and its first four backups is afterwards still one of the
  current log and its five backups, unchanged or, the current one, with the new line at its end.
  (Appends of several executor threads at once are not modelled.)
\<close>

theorem audit_entries_kept:
  assumes "append_audit_log p json st = (st', ok)" and "i < AUDIT_LOG_BACKUPS"
    and "log_at p (snd st) i = Some (m, c)"
  shows "\<exists>j \<le> AUDIT_LOG_BACKUPS. \<exists>c'. log_at p (snd st') j = Some (m, c')
    \<and> (c' = c \<or> c' = c @ strip_ctrl json @ ''\<newline>'')"
proof -
  let ?g = "log_at p (snd st)"
  obtain st1 ok1 where 1: "fs_do id st = (st1, ok1)" by fastforce
  then have s1: "snd st1 = snd st" by (auto dest: fs_do_cases)
  obtain st2 ok2 where 2: "(if log_too_big p (snd st1) then rotate_audit_log p st1 else (st1, True)) = (st2, ok2)"
    by (metis prod.exhaust)
  have keep: "chain_kept ?g ?g" by (auto simp: chain_kept_def intro: less_imp_le)
  have kept: "chain_kept ?g (log_at p (snd st2))"
    using 2 s1 rotate_chain [of p st1 st2 ok2] keep by (auto split: if_splits)
  obtain st3 ok3 where 3: "(if dhas (snd st2) p then (st2, True) else fs_do (dset p (384, [])) st2) = (st3, ok3)"
    by (metis prod.exhaust)
  have g3: "log_at p (snd st3) k = log_at p (snd st2) k \<or> log_at p (snd st2) k = None" for k
    using 3 by (auto simp: dhas_def log_at_def log_name_def split: if_splits dest!: fs_do_cases)
  have fin: "snd st' = snd st1 \<or> snd st' = snd st2 \<or> snd st' = snd st3
      \<or> snd st' = fs_append p (strip_ctrl json @ ''\<newline>'') (snd st3)"
    using assms(1) unfolding append_audit_log_def Let_def fs_then_def 1
    by (auto simp: 2 3 split: if_splits prod.splits dest: fs_do_cases)
  obtain j where j: "j \<le> AUDIT_LOG_BACKUPS" "log_at p (snd st2) j = Some (m, c)"
    using kept assms(2,3) unfolding chain_kept_def by blast
  with g3 have j3: "log_at p (snd st3) j = Some (m, c)" by (metis option.distinct(1))
  have app: "\<exists>c'. log_at p (fs_append p x (snd st3)) j = Some (m, c') \<and> (c' = c \<or> c' = c @ x)" for x
    using j3 by (auto simp: log_at_def fs_append_def split: option.split)
  from fin show ?thesis
  proof (elim disjE)
    assume "snd st' = snd st1"
    with s1 assms(2,3) show ?thesis by (intro exI [of _ i]) simp
  next
    assume "snd st' = fs_append p (strip_ctrl json @ ''\<newline>'') (snd st3)"
    with app [of "strip_ctrl json @ ''\<newline>''"] j(1) show ?thesis by auto
  qed (use j j3 in auto)
qed

text \<open>A log over the limit: the append rotates it.\<close>

lemma rotating_append:
  assumes "length c > AUDIT_LOG_MAX_BYTES"
  shows "append_audit_log ''a'' ''{}'' (None, [(''a'', (384, c))])
    = ((None, [(''a.1'', (384, c)), (''a'', (384, ''{}\<newline>''))]), Inr True)"
proof -
  have n: "rev [1 ..< AUDIT_LOG_BACKUPS] = [4, 3, 2, 1]" by (simp add: AUDIT_LOG_BACKUPS_def upt_rec)
  have l: "log_name ''a'' 0 = ''a''" "log_name ''a'' 1 = ''a.1''" "log_name ''a'' 2 = ''a.2''" "log_name ''a'' 3 = ''a.3''"
    "log_name ''a'' 4 = ''a.4''" "log_name ''a'' 5 = ''a.5''"
    by code_simp+
  have "rotate_audit_log ''a'' (None, [(''a'', (384, c))]) = ((None, [(''a.1'', (384, c))]), True)"
    unfolding rotate_audit_log_def n
    by (simp add: fs_then_def shift_log_def l l(2) [simplified] dhas_def fs_do_def fs_move_def Let_def)
  then show ?thesis
    using assms by (simp add: append_audit_log_def fs_then_def fs_do_def log_too_big_def dhas_def fs_append_def
        encodable_def strip_ctrl_def byte_def cp_width_def)
qed

theorem audit_entries_kept_witness:
  "let c = replicate 10485761 (CHR ''x'') in
   \<exists>st'. append_audit_log ''a'' ''{}'' (None, [(''a'', (384, c))]) = (st', Inr True) \<and> log_at ''a'' (snd st') 0 \<noteq> Some (384, c)
     \<and> (\<exists>j \<le> AUDIT_LOG_BACKUPS. \<exists>c'. log_at ''a'' (snd st') j = Some (384, c') \<and> (c' = c \<or> c' = c @ strip_ctrl ''{}'' @ ''\<newline>''))"
proof -
  define c where "c = replicate 10485761 (CHR ''x'')"
  let ?st = "(None, [(''a'', (384, c))]) :: fs_st" and ?u = "(None, [(''a.1'', (384, c)), (''a'', (384, ''{}\<newline>''))]) :: fs_st"
  have len: "length c = 10485761" by (simp add: c_def)
  then have a: "append_audit_log ''a'' ''{}'' ?st = (?u, Inr True)"
    by (intro rotating_append) (simp add: AUDIT_LOG_MAX_BYTES_def)
  have g: "log_at ''a'' (snd ?st) 0 = Some (384, c)" by (simp add: log_at_def log_name_def)
  have "\<exists>j \<le> AUDIT_LOG_BACKUPS. \<exists>c'. log_at ''a'' (snd ?u) j = Some (384, c') \<and> (c' = c \<or> c' = c @ strip_ctrl ''{}'' @ ''\<newline>'')"
    by (rule audit_entries_kept [OF a _ g]) (simp add: AUDIT_LOG_BACKUPS_def)
  moreover have "log_at ''a'' (snd ?u) 0 \<noteq> Some (384, c)" using len by (auto simp: log_at_def log_name_def)
  ultimately show ?thesis using a unfolding Let_def c_def [symmetric] by blast
qed

text \<open>
  An event is one line of the log, whatever its fields contain: a successful append adds to the
  log (or, after a rotation, to a fresh one) exactly the record's line without control characters
  and one line end, so that no tool argument can forge an entry.
\<close>

theorem append_one_line:
  assumes "append_audit_log p json st = (st', Inr True)"
  shows "\<exists>m old. dget (snd st') p = Some (m, old @ strip_ctrl json @ ''\<newline>'')
    \<and> (old = [] \<or> dget (snd st) p = Some (m, old))
    \<and> split_on CHR ''\<newline>'' (strip_ctrl json @ ''\<newline>'') = [strip_ctrl json, []]"
proof -
  have assms: "fs_then (fs_do id st) (\<lambda>st.
      fs_then (if log_too_big p (snd st) then rotate_audit_log p st else (st, True)) (\<lambda>st.
      fs_then (if dhas (snd st) p then (st, True) else fs_do (dset p (384, [])) st) (\<lambda>st.
      fs_do (fs_append p (strip_ctrl json @ ''\<newline>'')) st))) = (st', True)"
    using assms by (cases "encodable (strip_ctrl json)")
      (auto simp: append_audit_log_def Let_def split: prod.splits if_splits)
  obtain st1 where 1: "fs_do id st = (st1, True)" "snd st1 = snd st"
  proof -
    obtain u b where u: "fs_do id st = (u, b)" by fastforce
    with assms have "b" by (auto simp: fs_then_def split: if_splits)
    with u that fs_do_cases [OF u] show ?thesis by simp
  qed
  obtain st2 where 2: "(if log_too_big p (snd st1) then rotate_audit_log p st1 else (st1, True)) = (st2, True)"
    using assms 1 by (cases "if log_too_big p (snd st1) then rotate_audit_log p st1 else (st1, True)")
      (auto simp: fs_then_def split: if_splits)
  obtain st3 where 3: "(if dhas (snd st2) p then (st2, True) else fs_do (dset p (384, [])) st2) = (st3, True)"
    "fs_do (fs_append p (strip_ctrl json @ ''\<newline>'')) st3 = (st', True)"
    using assms 1 2 by (cases "if dhas (snd st2) p then (st2, True) else fs_do (dset p (384, [])) st2")
      (auto simp: fs_then_def split: if_splits)
  have p: "log_at p fs 0 = dget fs p" for fs by (simp add: log_at_def log_name_def)
  have "dget (snd st2) p = dget (snd st) p \<or> dget (snd st2) p = None"
    using 2 1(2) rotate_chain [of p st1 st2 True] by (auto simp: shifting_def p AUDIT_LOG_BACKUPS_def split: if_splits)
  moreover have "dget (snd st3) p = (if dget (snd st2) p = None then Some (384, []) else dget (snd st2) p)"
    using 3(1) by (auto simp: dhas_def split: if_splits dest!: fs_do_cases)
  ultimately obtain m old where "dget (snd st3) p = Some (m, old)" "old = [] \<or> dget (snd st) p = Some (m, old)"
    by (cases "dget (snd st3) p") (auto split: if_splits)
  moreover have "snd st' = fs_append p (strip_ctrl json @ ''\<newline>'') (snd st3)" using fs_do_cases [OF 3(2)] by simp
  moreover have "CHR ''\<newline>'' \<notin> set (strip_ctrl json)" by (simp add: strip_ctrl_def byte_def)
  then have "split_on CHR ''\<newline>'' (strip_ctrl json @ ''\<newline>'') = [strip_ctrl json, []]"
    using split_on_join [of "CHR ''\<newline>''" "strip_ctrl json" "[]"] by simp
  ultimately show ?thesis by (auto simp: fs_append_def)
qed

theorem append_one_line_witness:
  "\<exists>st'. append_audit_log ''a'' ''{}'' (None, []) = (st', Inr True) \<and> dget (snd st') ''a'' = Some (384, ''{}\<newline>'')
     \<and> split_on CHR ''\<newline>'' (strip_ctrl ''{}'' @ ''\<newline>'') = [strip_ctrl ''{}'', []]"
proof -
  obtain st' where a: "append_audit_log ''a'' ''{}'' (None, []) = (st', Inr True)"
    and g: "dget (snd st') ''a'' = Some (384, ''{}\<newline>'')"
    by (simp add: append_audit_log_def fs_then_def fs_do_def log_too_big_def dhas_def fs_append_def
        strip_ctrl_def byte_def encodable_def cp_width_def)
  from append_one_line [OF a] a g show ?thesis by blast
qed

text \<open>
  The error of the encoding: with a working file system, a record whose line holds a lone surrogate
  raises out of the log event, and the files keep their contents.
\<close>

lemma unencodable_event_raises:
  assumes "\<not> encodable (strip_ctrl (dump \<lparr>ar_ts = now, ar_tool = n, ar_verdict = v, ar_rule = rule,
      ar_summary = summary, ar_note = note\<rparr>))" and "al_path s \<noteq> []" and "fst (al_fs s) = None"
  shows "snd (audit_log_event dump now v n summary rule note s) = Inl ValueError"
proof -
  have d: "fs_do f (None, fs) = ((None, f fs), True)" for f fs by (simp add: fs_do_def)
  have sh: "\<exists>fs'. shift_log p i (None, fs) = ((None, fs'), True)" for p i fs
    by (auto simp: shift_log_def fs_then_def d Let_def)
  have all: "\<exists>fs'. shift_all p is (None, fs) = ((None, fs'), True)" for p "is" fs
  proof (induction "is" arbitrary: fs)
    case (Cons i "is")
    with sh [of p i fs] show ?case by (auto simp: fs_then_def)
  qed simp
  have rot: "\<exists>fs'. rotate_audit_log p (None, fs) = ((None, fs'), True)" for p fs
  proof -
    obtain fs1 where "shift_all p (rev [1 ..< AUDIT_LOG_BACKUPS]) (None, fs) = ((None, fs1), True)" using all by blast
    then show ?thesis using sh [of p 0 fs1] by (simp add: rotate_audit_log_def fs_then_def)
  qed
  obtain fs where fs: "al_fs s = (None, fs)" using assms(3) by (metis prod.collapse)
  obtain fs' where "(if log_too_big (al_path s) fs then rotate_audit_log (al_path s) (None, fs) else ((None, fs), True))
      = ((None, fs'), True)"
    using rot [of "al_path s" fs] by (cases "log_too_big (al_path s) fs") auto
  with assms(1,2) fs show ?thesis
    by (simp add: audit_log_event_def append_audit_log_def fs_then_def d Let_def)
qed

lemma encodable_event_ok:
  "al_path s = [] \<or> encodable (strip_ctrl (dump \<lparr>ar_ts = now, ar_tool = n, ar_verdict = v, ar_rule = rule,
      ar_summary = summary, ar_note = note\<rparr>))
    \<Longrightarrow> snd (audit_log_event dump now v n summary rule note s) = Inr ()"
  by (auto simp: audit_log_event_def append_audit_log_def Let_def split: prod.split bool.split sum.split)

lemma event_result: "snd (audit_log_event dump now v n summary rule note s) \<in> {Inr (), Inl ValueError}"
  by (auto simp: audit_log_event_def append_audit_log_def Let_def split: prod.split bool.split sum.split)

text \<open>A sequence of events from a state.\<close>

definition log_run :: "(audit_rec \<Rightarrow> string) \<Rightarrow> audit_rec list \<Rightarrow> audit_log \<Rightarrow> audit_log" where
  "log_run dump es s = foldl (\<lambda>s r. fst (audit_log_event dump (ar_ts r) (ar_verdict r) (ar_tool r)
     (ar_summary r) (ar_rule r) (ar_note r) s)) s es"

lemma ring_push_last:
  "ring_push r (drop (length es - AUDIT_RING_MAX) es) = drop (length (es @ [r]) - AUDIT_RING_MAX) (es @ [r])"
proof (cases "length es < 100")
  case False
  then have "Suc (length es) - 100 = Suc (length es - 100)" by (simp add: Suc_diff_le)
  with False show ?thesis by (simp add: ring_push_def Let_def AUDIT_RING_MAX_def)
qed (simp add: ring_push_def AUDIT_RING_MAX_def)

lemma event_ring: "al_ring (fst (audit_log_event dump (ar_ts r) (ar_verdict r) (ar_tool r) (ar_summary r)
    (ar_rule r) (ar_note r) s)) = ring_push r (al_ring s)"
  by (cases r) (auto simp: audit_log_event_def Let_def split: prod.split bool.split sum.split)

text \<open>
  Whatever happens to the log file, the ring in memory holds exactly the last hundred events of
  the process, in order.
\<close>

theorem ring_holds_last_events:
  assumes "al_ring s = []"
  shows "al_ring (log_run dump es s) = drop (length es - 100) es"
proof -
  have "al_ring (log_run dump es s) = drop (length es - AUDIT_RING_MAX) es"
  proof (induction es rule: rev_induct)
    case (snoc r es)
    have "al_ring (log_run dump (es @ [r]) s) = ring_push r (al_ring (log_run dump es s))"
      using event_ring [of dump r "log_run dump es s"] by (simp add: log_run_def)
    then show ?case using ring_push_last [of r es] snoc by (simp only:)
  qed (simp add: log_run_def assms)
  then show ?thesis by (simp add: AUDIT_RING_MAX_def)
qed

theorem ring_holds_last_events_witness:
  "length (al_ring (log_run (\<lambda>_. []) (replicate 101 \<lparr>ar_ts = 1, ar_tool = ''t'', ar_verdict = ''allow'', ar_rule = [],
       ar_summary = [], ar_note = []\<rparr>)
     \<lparr>al_path = ''a'', al_ring = [], al_fails = 9, al_counts = None, al_alarms = 0, al_fs = (Some 0, [])\<rparr>)) = 100"
  by (subst ring_holds_last_events) simp_all

end
