(* ===== verification/Audit_Verdict.thy ===== *)
theory Audit_Verdict
  imports Audit_Policy Audit_Log
begin

text \<open>
  The audit of tool calls (\<open>AuditMixin\<close> of \<open>_audit.py\<close>): its configuration from the environment, the
  verdict on a call, the cheap check of a prefix and the masking of what is logged.  The regular
  expression search on a pattern's text is a parameter (\<open>None\<close>: the pattern does not compile);
  the built-in policy comes with its own.
\<close>

section \<open>Configuration\<close>

text \<open>The variables; a policy file is unset, unreadable or a text.\<close>

record audit_env =
  ev_mode :: "string option"
  ev_enabled :: "string option"
  ev_timeout :: "string option"
  ev_hold :: "string option"
  ev_whitelist :: string
  ev_policy :: "string option option"

record audit_cfg =
  ac_enabled :: bool
  ac_mode :: string
  ac_timeout :: int
  ac_hold_max :: int
  ac_whitelist :: "string list"
  ac_policy :: policy

definition legacy_enabled :: "audit_env \<Rightarrow> bool" where
  "legacy_enabled e \<longleftrightarrow> (case ev_enabled e of None \<Rightarrow> False | Some x \<Rightarrow> x \<in> set [''1'', ''true'', ''True'', ''yes''])"

definition clean_member :: "string \<Rightarrow> string" where
  "clean_member u = py_strip (strip_chars [sq, dq] (py_strip u))"

definition parse_whitelist :: "string \<Rightarrow> string list" where
  "parse_whitelist wl = (if wl = [] then [] else remdups (filter (\<lambda>u. u \<noteq> []) (map clean_member (split_on CHR '','' wl))))"

definition env_int :: "string option \<Rightarrow> int \<Rightarrow> int option" where
  "env_int v d = (case v of None \<Rightarrow> Some d | Some x \<Rightarrow> py_int x)"

text \<open>\<open>_init_audit\<close> followed by the rest of \<open>_ensure_audit_init\<close>.\<close>

definition ensure_audit_init :: "json_lib \<Rightarrow> (string \<Rightarrow> json option) \<Rightarrow> audit_env \<Rightarrow> audit_cfg" where
  "ensure_audit_init lib flt e =
     (let policy = fst (load_policy lib flt DEFAULT_POLICY (ev_policy e));
          mode = (case ev_mode e of None \<Rightarrow> ''off'' | Some m \<Rightarrow> m);
          (enabled, m) =
            (if mode = ''block'' \<or> mode = ''approve'' then (True, mode)
             else if mode = ''off'' \<and> legacy_enabled e \<and> ev_mode e = None then (True, ''block'')
             else (False, ''block''));
          timeout = (case env_int (ev_timeout e) 90 of Some t \<Rightarrow> if 1 \<le> t then t else 90 | None \<Rightarrow> 90);
          hold = (case env_int (ev_hold e) 1048576 of Some h \<Rightarrow> if 1 \<le> h then h else 1048576 | None \<Rightarrow> 1048576);
          wl = filter is_valid_mxid (parse_whitelist (ev_whitelist e))
      in \<lparr>ac_enabled = enabled,
          ac_mode = (if enabled \<and> m = ''approve'' \<and> wl = [] then ''block'' else m),
          ac_timeout = timeout, ac_hold_max = hold, ac_whitelist = wl, ac_policy = policy\<rparr>)"

text \<open>The errors of the check at start-up, one constructor for each message.\<close>

datatype cfg_error =
    Bad_Mode
  | Timeout_Small
  | Timeout_Race
  | Timeout_Not_Int
  | Hold_Small
  | Hold_Not_Int
  | Bad_Members "string list"
  | No_Whitelist

definition AUDIT_TIMEOUT_RACE_MIN :: int where "AUDIT_TIMEOUT_RACE_MIN = 110"
definition AUDIT_TIMEOUT_RACE_MAX :: int where "AUDIT_TIMEOUT_RACE_MAX = 130"

record env_config =
  ec_mode :: string
  ec_timeout :: int
  ec_hold_max :: int
  ec_whitelist :: "string list"
  ec_errors :: "cfg_error list"

definition parse_audit_env_config :: "bool \<Rightarrow> audit_env \<Rightarrow> env_config" where
  "parse_audit_env_config require_whitelist e =
     (let mode0 = (case ev_mode e of None \<Rightarrow> ''off'' | Some m \<Rightarrow> m);
          known = mode0 \<in> set [''off'', ''block'', ''approve''];
          mode1 = (if known then mode0 else ''off'');
          mode = (if ev_mode e = None \<and> legacy_enabled e then ''block'' else mode1);
          e1 = (if known then [] else [Bad_Mode]);
          (timeout, e2) = (case env_int (ev_timeout e) 90 of
              None \<Rightarrow> (90, [Timeout_Not_Int])
            | Some t \<Rightarrow> (t, if t < 1 then [Timeout_Small]
                else if AUDIT_TIMEOUT_RACE_MIN \<le> t \<and> t \<le> AUDIT_TIMEOUT_RACE_MAX then [Timeout_Race] else []));
          (hold, e3) = (case env_int (ev_hold e) 1048576 of
              None \<Rightarrow> (1048576, [Hold_Not_Int])
            | Some h \<Rightarrow> (h, if h < 1 then [Hold_Small] else []));
          wl = parse_whitelist (ev_whitelist e);
          bad = filter (\<lambda>u. \<not> is_valid_mxid u) wl;
          e4 = (if bad = [] then [] else [Bad_Members bad]);
          e5 = (if require_whitelist \<and> mode = ''approve'' \<and> wl = [] then [No_Whitelist] else [])
      in \<lparr>ec_mode = mode, ec_timeout = timeout, ec_hold_max = hold, ec_whitelist = wl,
          ec_errors = e1 @ e2 @ e3 @ e4 @ e5\<rparr>)"

section \<open>What is logged\<close>

text \<open>
  The tokens of the request's PII scope, when there is one, are replaced by their values, the
  passwords of the vault by their tokens, longest first; then the summary is masked and cut.
\<close>

definition audit_live_redact ::
  "((string, string) dict \<times> (string, string) dict) option \<Rightarrow> (string, string) dict \<Rightarrow> string \<Rightarrow> string" where
  "audit_live_redact scope cred_map s =
     (if s = [] then []
      else
        let s1 = (case scope of
              None \<Rightarrow> s
            | Some (t2p, resp) \<Rightarrow>
                foldl (\<lambda>x (tok, plain). if tok \<noteq> [] \<and> plain \<noteq> [] then replace tok plain x else x) s t2p);
            ordered = sort_key (\<lambda>p. - int (py_len (snd p))) cred_map;
            s2 = foldl (\<lambda>x (tok, plain). if tok \<noteq> [] \<and> plain \<noteq> [] then replace plain tok x else x) s1 ordered
        in redact_summary s2 120)"

section \<open>The verdict\<close>

text \<open>\<open>x in v\<close> for a value of the policy: a member of a list, a key of an object, a part of a string.\<close>

definition py_in :: "string \<Rightarrow> json \<Rightarrow> bool option" where
  "py_in x j =
     (case j of
        JArr xs \<Rightarrow> Some (JStr x \<in> set xs)
      | JObj d \<Rightarrow> Some (dhas d x)
      | JStr s \<Rightarrow> Some (sublist x s)
      | _ \<Rightarrow> None)"

text \<open>The items of a \<open>for\<close> over a value; characters and keys are strings and no rules.\<close>

definition py_items :: "json \<Rightarrow> json list option" where
  "py_items j =
     (case j of
        JArr xs \<Rightarrow> Some xs
      | JObj d \<Rightarrow> Some (map (JStr \<circ> fst) d)
      | JStr s \<Rightarrow> Some (map JStr (cps s))
      | _ \<Rightarrow> None)"

text \<open>\<open>tuple(policy.get('internal_suffixes', []))\<close>, which has to consist of strings.\<close>

definition suffixes_of :: "policy \<Rightarrow> string list option" where
  "suffixes_of p =
     (case py_items (dget_or p ''internal_suffixes'' (JArr [])) of
        None \<Rightarrow> None
      | Some xs \<Rightarrow> those (map jstr xs))"

datatype rule_result = Hit string | Pass | Raised

text \<open>One dangerous rule against the normalised and the raw text.\<close>

definition check_rule ::
  "(string \<Rightarrow> string \<Rightarrow> bool option) \<Rightarrow> policy \<Rightarrow> string \<Rightarrow> string \<Rightarrow> json \<Rightarrow> rule_result" where
  "check_rule search p ntext args rule =
     (case rule of
        JObj d \<Rightarrow>
          (case dget_or d ''pattern'' (JStr []) of
             JStr pat \<Rightarrow>
               if pat = [] then Pass
               else (case (search pat ntext, search pat args) of
                   (Some a, Some b) \<Rightarrow>
                     if a \<or> b then
                       (if jtruthy (dget_or d ''network'' JNull) then
                          (case extract_host args of
                             None \<Rightarrow> Hit (jget_str pat rule ''reason'')
                           | Some h \<Rightarrow>
                               if h = [] then Hit (jget_str pat rule ''reason'')
                               else (case suffixes_of p of
                                  None \<Rightarrow> Raised
                                | Some sfx \<Rightarrow> if is_external_host h sfx \<noteq> Some True then Pass
                                    else Hit (jget_str pat rule ''reason'')))
                        else Hit (jget_str pat rule ''reason''))
                     else Pass
                 | _ \<Rightarrow> Pass)
           | pat \<Rightarrow> if jtruthy pat then Raised else Pass)
      | _ \<Rightarrow> Pass)"

fun check_rules ::
  "(string \<Rightarrow> string \<Rightarrow> bool option) \<Rightarrow> policy \<Rightarrow> string \<Rightarrow> string \<Rightarrow> json list \<Rightarrow> rule_result" where
  "check_rules search p ntext args [] = Pass"
| "check_rules search p ntext args (r # rs) =
     (case check_rule search p ntext args r of
        Pass \<Rightarrow> check_rules search p ntext args rs
      | x \<Rightarrow> x)"

definition NETWORK_TOOLS :: "string list" where
  "NETWORK_TOOLS = [''curl'', ''wget'', ''nc'', ''ncat'', ''telnet'', ''ssh'', ''bash'', ''terminal'', ''execute_code'']"

definition check_target :: "policy \<Rightarrow> string \<Rightarrow> string \<Rightarrow> rule_result" where
  "check_target p name args =
     (if name \<notin> set NETWORK_TOOLS then Pass
      else case extract_host args of
        None \<Rightarrow> Pass
      | Some h \<Rightarrow>
          if h = [] then Pass
          else (case suffixes_of p of
             None \<Rightarrow> Raised
           | Some sfx \<Rightarrow> if is_external_host h sfx = Some True then Hit ''network-exfil'' else Pass))"

text \<open>
  The verdict, the rule and the note that are logged (the notes are named in English); \<open>Inl\<close> is an
  exception out of the function.
\<close>

definition audit_verdict ::
  "(string \<Rightarrow> string \<Rightarrow> bool option) \<Rightarrow> policy \<Rightarrow> string \<Rightarrow> string \<Rightarrow> (string \<times> string \<times> string) py_result" where
  "audit_verdict search p name args =
     (case py_in name (dget_or p ''deny'' (JArr [])) of
        None \<Rightarrow> Inl OtherExn
      | Some True \<Rightarrow> Inr (''deny'', ''deny-list'', ''deny list match'')
      | Some False \<Rightarrow>
          (case py_items (dget_or p ''dangerous'' (JArr [])) of
             None \<Rightarrow> Inl OtherExn
           | Some rules \<Rightarrow>
               (case check_rules search p (normalize_args (name @ '' '' @ args)) args rules of
                  Raised \<Rightarrow> Inl OtherExn
                | Hit reason \<Rightarrow> Inr (''deny'', reason, ''dangerous pattern'')
                | Pass \<Rightarrow>
                    (case check_target p name args of
                       Raised \<Rightarrow> Inl OtherExn
                     | Hit reason \<Rightarrow> Inr (''deny'', reason, ''network target'')
                     | Pass \<Rightarrow>
                         (case py_in name (dget_or p ''allow'' (JArr [])) of
                            None \<Rightarrow> Inl OtherExn
                          | Some True \<Rightarrow> Inr (''allow'', ''allow-list'', ''allow list'')
                          | Some False \<Rightarrow> Inr (''allow'', [], ''default''))))))"

text \<open>\<open>audit_tool_call\<close>: the verdict with its log event, whose exception replaces the verdict; a
  disabled audit allows and logs nothing.\<close>

definition audit_tool_call ::
  "(string \<Rightarrow> string \<Rightarrow> bool option) \<Rightarrow> (audit_rec \<Rightarrow> string) \<Rightarrow> real \<Rightarrow> (string \<Rightarrow> string) \<Rightarrow> audit_cfg
     \<Rightarrow> string \<Rightarrow> string \<Rightarrow> audit_log \<Rightarrow> audit_log \<times> string py_result" where
  "audit_tool_call search dump now redact cfg name args s =
     (if \<not> ac_enabled cfg then (s, Inr ''allow'')
      else case audit_verdict search (ac_policy cfg) name args of
        Inl e \<Rightarrow> (s, Inl e)
      | Inr (v, rule, note) \<Rightarrow>
          (case audit_log_event dump now v name (redact args) rule note s of
             (s', Inl e) \<Rightarrow> (s', Inl e)
           | (s', Inr _) \<Rightarrow> (s', Inr v)))"

text \<open>Can the line of the verdict on a call be encoded?\<close>

definition verdict_encodable ::
  "(string \<Rightarrow> string \<Rightarrow> bool option) \<Rightarrow> (audit_rec \<Rightarrow> string) \<Rightarrow> real \<Rightarrow> (string \<Rightarrow> string) \<Rightarrow> policy
     \<Rightarrow> string \<Rightarrow> string \<Rightarrow> bool" where
  "verdict_encodable search dump now redact p name args \<longleftrightarrow>
     (case audit_verdict search p name args of
        Inl _ \<Rightarrow> True
      | Inr (v, rule, note) \<Rightarrow>
          encodable (strip_ctrl (dump \<lparr>ar_ts = now, ar_tool = name, ar_verdict = v, ar_rule = rule,
            ar_summary = redact args, ar_note = note\<rparr>)))"

section \<open>The cheap check of a prefix\<close>

definition DANGEROUS_PREFIXES :: "string list" where
  "DANGEROUS_PREFIXES = [''rm'', ''mkfs'', ''dd'', ''shutdown'', ''reboot'', ''poweroff'', ''chmod'', ''chown'', ''curl'',
     ''wget'', ''nc'', ''ncat'', ''telnet'', ''ssh'', ''base64'', ''openssl'', ''bash'', ''sh'', ''terminal'', ''execute_code'']"

definition PRECHECK_RE :: rx where
  "PRECHECK_RE = rx_cat [cset ([dq, sq] @ ''=:;|&({''), star rx_s, Grp 1 (rx_alt (map lit DANGEROUS_PREFIXES))]"

definition audit_precheck :: "audit_cfg \<Rightarrow> string \<Rightarrow> string \<Rightarrow> bool" where
  "audit_precheck cfg name args_prefix =
     (if \<not> ac_enabled cfg then False
      else if name \<in> set DANGEROUS_PREFIXES \<or> name \<in> set [''curl'', ''wget'', ''nc''] then True
      else if starts_any DANGEROUS_PREFIXES (py_lstrip args_prefix) then True
      else re_search PRECHECK_RE args_prefix \<noteq> None)"

section \<open>Properties\<close>

text \<open>
  What the start-up check accepts is what the audit runs with: when it reports no error, the lazy
  initialisation, which reads the environment a second time with its own code, comes to the same
  mode, time limit, buffer bound and approvers, the time limit is at least one second and outside
  110 to 130, every approver is a well-formed id, and the approval mode has one.
\<close>

theorem audit_config_agrees:
  assumes "ec_errors (parse_audit_env_config True e) = []"
  shows "(let c = parse_audit_env_config True e; a = ensure_audit_init lib flt e in
    ec_mode c = (if ac_enabled a then ac_mode a else ''off'') \<and> ec_timeout c = ac_timeout a
    \<and> ec_hold_max c = ac_hold_max a \<and> ec_whitelist c = ac_whitelist a
    \<and> 1 \<le> ac_timeout a \<and> \<not> (110 \<le> ac_timeout a \<and> ac_timeout a \<le> 130) \<and> 1 \<le> ac_hold_max a
    \<and> list_all is_valid_mxid (ac_whitelist a)
    \<and> (ac_enabled a \<and> ac_mode a = ''approve'' \<longrightarrow> ac_whitelist a \<noteq> []))"
proof -
  let ?wl = "parse_whitelist (ev_whitelist e)"
  obtain t where t: "env_int (ev_timeout e) 90 = Some t" "1 \<le> t" "\<not> (110 \<le> t \<and> t \<le> 130)"
    using assms by (auto simp: parse_audit_env_config_def Let_def AUDIT_TIMEOUT_RACE_MIN_def
        AUDIT_TIMEOUT_RACE_MAX_def split: option.splits if_splits)
  obtain h where h: "env_int (ev_hold e) 1048576 = Some h" "1 \<le> h"
    using assms by (auto simp: parse_audit_env_config_def Let_def split: option.splits if_splits)
  have valid: "filter (\<lambda>u. \<not> is_valid_mxid u) ?wl = []"
    using assms by (auto simp: parse_audit_env_config_def Let_def split: option.splits if_splits)
  then have wl: "filter is_valid_mxid ?wl = ?wl" "list_all is_valid_mxid ?wl"
    by (auto simp: filter_empty_conv filter_id_conv list_all_iff)
  define mode where "mode = (case ev_mode e of None \<Rightarrow> ''off'' | Some m \<Rightarrow> m)"
  have known: "mode \<in> {''off'', ''block'', ''approve''}"
    using assms by (auto simp: parse_audit_env_config_def Let_def mode_def split: option.splits if_splits)
  define m1 where "m1 = (if ev_mode e = None \<and> legacy_enabled e then ''block'' else mode)"
  have full: "m1 = ''approve'' \<Longrightarrow> ?wl \<noteq> []"
    using assms known unfolding parse_audit_env_config_def Let_def mode_def [symmetric]
    by (auto simp: m1_def t h split: if_splits)
  have c: "ec_mode (parse_audit_env_config True e) = m1" "ec_timeout (parse_audit_env_config True e) = t"
    "ec_hold_max (parse_audit_env_config True e) = h" "ec_whitelist (parse_audit_env_config True e) = ?wl"
    using known unfolding parse_audit_env_config_def Let_def mode_def [symmetric]
    by (auto simp: t h m1_def)
  have a: "ac_timeout (ensure_audit_init lib flt e) = t" "ac_hold_max (ensure_audit_init lib flt e) = h"
    "ac_whitelist (ensure_audit_init lib flt e) = ?wl"
    unfolding ensure_audit_init_def Let_def by (simp_all add: t h wl case_prod_beta)
  have none: "ev_mode e = None \<Longrightarrow> mode = ''off''" by (simp add: mode_def)
  have en: "ac_enabled (ensure_audit_init lib flt e) \<longleftrightarrow> m1 \<noteq> ''off''"
    and md: "ac_enabled (ensure_audit_init lib flt e) \<Longrightarrow> ac_mode (ensure_audit_init lib flt e) = m1"
    unfolding ensure_audit_init_def Let_def mode_def [symmetric] wl
    using known none full by (auto simp: m1_def split: if_splits)
  show ?thesis unfolding Let_def c a using en md wl full t h by auto
qed

theorem audit_config_agrees_witness:
  "\<forall>lib. ac_timeout (ensure_audit_init lib (\<lambda>_. None)
     \<lparr>ev_mode = Some ''block'', ev_enabled = None, ev_timeout = None, ev_hold = None, ev_whitelist = [], ev_policy = None\<rparr>) = 90"
proof -
  let ?e = "\<lparr>ev_mode = Some ''block'', ev_enabled = None, ev_timeout = None, ev_hold = None,
    ev_whitelist = [], ev_policy = None\<rparr> :: audit_env"
  have "ec_errors (parse_audit_env_config True ?e) = []" "ec_timeout (parse_audit_env_config True ?e) = 90"
    by (simp_all add: parse_audit_env_config_def env_int_def parse_whitelist_def AUDIT_TIMEOUT_RACE_MIN_def)
  with audit_config_agrees [of ?e _ "\<lambda>_. None"] show ?thesis by (simp add: Let_def)
qed

text \<open>
  A policy file that cannot be read or parsed does not switch the audit off, as the comment at the
  failure says, nor on: with the mode set, the audit runs with the built-in policy.
\<close>

theorem bad_policy_keeps_builtin:
  assumes "snd (load_policy lib flt DEFAULT_POLICY (ev_policy e)) = False"
    and "ev_mode e = Some ''block'' \<or> ev_mode e = Some ''approve''"
  shows "ac_enabled (ensure_audit_init lib flt e) \<and> ac_policy (ensure_audit_init lib flt e) = DEFAULT_POLICY"
proof -
  have "fst (load_policy lib flt DEFAULT_POLICY (ev_policy e)) = DEFAULT_POLICY"
    using assms(1) by (auto simp: load_policy_def split: option.splits sum.splits json.splits)
  with assms(2) show ?thesis by (auto simp: ensure_audit_init_def Let_def)
qed

theorem bad_policy_keeps_builtin_witness:
  "\<forall>lib. ac_enabled (ensure_audit_init lib (\<lambda>_. None)
     \<lparr>ev_mode = Some ''block'', ev_enabled = None, ev_timeout = None, ev_hold = None, ev_whitelist = [], ev_policy = Some None\<rparr>)"
  by (rule allI, rule bad_policy_keeps_builtin [THEN conjunct1]) (simp_all add: load_policy_def load_policy_file_def)

text \<open>A policy with lists of strings, rules with string patterns and string suffixes.\<close>

definition policy_typed :: "policy \<Rightarrow> bool" where
  "policy_typed p \<longleftrightarrow>
     (\<exists>ds as rs. dget_or p ''deny'' (JArr []) = JArr ds \<and> dget_or p ''allow'' (JArr []) = JArr as
        \<and> dget_or p ''dangerous'' (JArr []) = JArr rs
        \<and> (\<forall>r \<in> set rs. \<exists>d pat. r = JObj d \<and> dget_or d ''pattern'' (JStr []) = JStr pat))
     \<and> suffixes_of p \<noteq> None"

definition rules_of :: "policy \<Rightarrow> json list" where
  "rules_of p = (case py_items (dget_or p ''dangerous'' (JArr [])) of None \<Rightarrow> [] | Some rs \<Rightarrow> rs)"

definition target_external :: "policy \<Rightarrow> string \<Rightarrow> bool option" where
  "target_external p args =
     (case extract_host args of
        None \<Rightarrow> None
      | Some h \<Rightarrow> if h = [] then None
          else Some (is_external_host h (case suffixes_of p of None \<Rightarrow> [] | Some x \<Rightarrow> x) = Some True))"

text \<open>A rule applies: its pattern is found, and a network rule's host, if there is one, is external.\<close>

definition rule_applies :: "(string \<Rightarrow> string \<Rightarrow> bool option) \<Rightarrow> policy \<Rightarrow> string \<Rightarrow> string \<Rightarrow> json \<Rightarrow> bool" where
  "rule_applies search p ntext args r \<longleftrightarrow>
     (\<exists>d pat. r = JObj d \<and> dget_or d ''pattern'' (JStr []) = JStr pat \<and> pat \<noteq> []
        \<and> (\<exists>a b. search pat ntext = Some a \<and> search pat args = Some b \<and> (a \<or> b))
        \<and> (jtruthy (dget_or d ''network'' JNull) \<longrightarrow> target_external p args \<noteq> Some False))"

lemma check_rule_applies:
  assumes "suffixes_of p = Some sfx" and "r = JObj d" and "dget_or d ''pattern'' (JStr []) = JStr pat"
  shows "check_rule search p ntext args r
    = (if rule_applies search p ntext args r then Hit (jget_str pat r ''reason'') else Pass)"
  using assms
  by (auto simp: check_rule_def rule_applies_def target_external_def split: option.split)

lemma check_rules_applies:
  assumes "suffixes_of p = Some sfx" and "\<forall>r \<in> set rs. \<exists>d pat. r = JObj d \<and> dget_or d ''pattern'' (JStr []) = JStr pat"
  shows "(\<exists>reason. check_rules search p ntext args rs = Hit reason) \<longleftrightarrow> (\<exists>r \<in> set rs. rule_applies search p ntext args r)"
    and "check_rules search p ntext args rs \<noteq> Raised"
  using assms(2)
proof (induction rs)
  case (Cons r rs)
  {
    case 1
    then obtain d pat where "r = JObj d" "dget_or d ''pattern'' (JStr []) = JStr pat" by auto
    with check_rule_applies [OF assms(1) this, of search ntext args] Cons.IH(1) 1 show ?case by auto
  next
    case 2
    then obtain d pat where "r = JObj d" "dget_or d ''pattern'' (JStr []) = JStr pat" by auto
    with check_rule_applies [OF assms(1) this, of search ntext args] Cons.IH(2) 2 show ?case by auto
  }
qed simp_all

text \<open>What the policy refuses.\<close>

definition call_denied :: "(string \<Rightarrow> string \<Rightarrow> bool option) \<Rightarrow> policy \<Rightarrow> string \<Rightarrow> string \<Rightarrow> bool" where
  "call_denied search p name args \<longleftrightarrow>
     py_in name (dget_or p ''deny'' (JArr [])) = Some True
     \<or> (\<exists>r \<in> set (rules_of p). rule_applies search p (normalize_args (name @ '' '' @ args)) args r)
     \<or> name \<in> set NETWORK_TOOLS \<and> target_external p args = Some True"

lemma audit_verdict_typed:
  assumes "policy_typed p"
  shows "\<exists>rule note. audit_verdict search p name args
    = Inr (if call_denied search p name args then ''deny'' else ''allow'', rule, note)"
proof -
  let ?n = "normalize_args (name @ '' '' @ args)"
  obtain ds as rs where l: "dget_or p ''deny'' (JArr []) = JArr ds" "dget_or p ''allow'' (JArr []) = JArr as"
    "dget_or p ''dangerous'' (JArr []) = JArr rs"
    "\<forall>r \<in> set rs. \<exists>d pat. r = JObj d \<and> dget_or d ''pattern'' (JStr []) = JStr pat"
    using assms unfolding policy_typed_def by blast
  obtain sfx where sfx: "suffixes_of p = Some sfx" using assms by (auto simp: policy_typed_def)
  have rules: "rules_of p = rs" by (simp add: rules_of_def l py_items_def)
  have target: "check_target p name args
      = (if name \<in> set NETWORK_TOOLS \<and> target_external p args = Some True then Hit ''network-exfil'' else Pass)"
    by (auto simp: check_target_def target_external_def sfx split: option.split)
  note cr = check_rules_applies [OF sfx l(4), of search ?n args]
  show ?thesis
  proof (cases "check_rules search p ?n args rs")
    case (Hit reason)
    with cr(1) have "\<exists>r \<in> set rs. rule_applies search p ?n args r" by blast
    with Hit show ?thesis
      by (auto simp: audit_verdict_def call_denied_def l py_in_def py_items_def rules split: bool.split)
  next
    case Pass
    with cr(1) have "\<not> (\<exists>r \<in> set rs. rule_applies search p ?n args r)" by auto
    with Pass target show ?thesis
      by (auto simp: audit_verdict_def call_denied_def l py_in_def py_items_def rules split: bool.split)
  next
    case Raised
    with cr(2) show ?thesis by simp
  qed
qed

definition policy_verdict :: "(string \<Rightarrow> string \<Rightarrow> bool option) \<Rightarrow> policy \<Rightarrow> string \<Rightarrow> string \<Rightarrow> string" where
  "policy_verdict search p name args = (if call_denied search p name args then ''deny'' else ''allow'')"

lemma policy_verdict_cases: "policy_verdict search p name args \<in> {''deny'', ''allow''}"
  by (simp add: policy_verdict_def)

lemma audit_call_result:
  assumes "ac_enabled cfg" and "policy_typed (ac_policy cfg)"
  shows "snd (audit_tool_call search dump now redact cfg name args s) \<in> {Inr (policy_verdict search (ac_policy cfg) name args), Inl ValueError}"
    and "al_path s = [] \<or> verdict_encodable search dump now redact (ac_policy cfg) name args
      \<Longrightarrow> snd (audit_tool_call search dump now redact cfg name args s) = Inr (policy_verdict search (ac_policy cfg) name args)"
    and "al_path s \<noteq> [] \<Longrightarrow> fst (al_fs s) = None
      \<Longrightarrow> \<not> verdict_encodable search dump now redact (ac_policy cfg) name args
      \<Longrightarrow> snd (audit_tool_call search dump now redact cfg name args s) = Inl ValueError"
proof -
  let ?v = "policy_verdict search (ac_policy cfg) name args"
  obtain rule nt where a: "audit_verdict search (ac_policy cfg) name args = Inr (?v, rule, nt)"
    using audit_verdict_typed [OF assms(2), of search name args] unfolding policy_verdict_def by blast
  obtain s' r where r: "audit_log_event dump now ?v name (redact args) rule nt s = (s', r)" by fastforce
  have c: "snd (audit_tool_call search dump now redact cfg name args s) = (case r of Inl e \<Rightarrow> Inl e | Inr _ \<Rightarrow> Inr ?v)"
    using assms(1) by (simp add: audit_tool_call_def a r split: sum.split)
  show "snd (audit_tool_call search dump now redact cfg name args s) \<in> {Inr ?v, Inl ValueError}"
    using event_result [of dump now ?v name "redact args" rule nt s] c r by auto
  show "snd (audit_tool_call search dump now redact cfg name args s) = Inr ?v"
    if "al_path s = [] \<or> verdict_encodable search dump now redact (ac_policy cfg) name args"
  proof -
    from that have "snd (audit_log_event dump now ?v name (redact args) rule nt s) = Inr ()"
      by (intro encodable_event_ok) (auto simp: verdict_encodable_def a)
    with c r show ?thesis by simp
  qed
  show "snd (audit_tool_call search dump now redact cfg name args s) = Inl ValueError"
    if "al_path s \<noteq> []" "fst (al_fs s) = None"
      "\<not> verdict_encodable search dump now redact (ac_policy cfg) name args"
  proof -
    from that have "snd (audit_log_event dump now ?v name (redact args) rule nt s) = Inl ValueError"
      by (intro unencodable_event_raises) (auto simp: verdict_encodable_def a)
    with c r show ?thesis by simp
  qed
qed

text \<open>
  C8. The decision on a tool call, for any policy with values of the right types: it is refused
  exactly when its name is on the deny list, or a dangerous rule applies to the normalised or the
  raw text, or a network tool's target is external; otherwise it is allowed.  In particular being
  on the allow list never outweighs dangerous content.  The audit of the call returns that
  decision, unless the event cannot be written for its encoding (a lone surrogate in the line),
  when it raises.
\<close>

theorem audit_denies_iff:
  assumes "ac_enabled cfg" and "policy_typed (ac_policy cfg)"
  shows "let v = (if py_in name (dget_or (ac_policy cfg) ''deny'' (JArr [])) = Some True
          \<or> (\<exists>r \<in> set (rules_of (ac_policy cfg)).
               rule_applies search (ac_policy cfg) (normalize_args (name @ '' '' @ args)) args r)
          \<or> name \<in> set NETWORK_TOOLS \<and> target_external (ac_policy cfg) args = Some True
        then ''deny'' else ''allow'')
    in (\<exists>rule note. audit_verdict search (ac_policy cfg) name args = Inr (v, rule, note))
      \<and> snd (audit_tool_call search dump now redact cfg name args s) \<in> {Inr v, Inl ValueError}
      \<and> (al_path s = [] \<or> verdict_encodable search dump now redact (ac_policy cfg) name args
           \<longrightarrow> snd (audit_tool_call search dump now redact cfg name args s) = Inr v)"
  using audit_verdict_typed [OF assms(2), of search name args]
    audit_call_result(1,2) [OF assms, where search = search and dump = dump and now = now and redact = redact
      and name = name and args = args and s = s]
  unfolding Let_def call_denied_def [symmetric] policy_verdict_def by blast

lemma default_policy_typed: "policy_typed DEFAULT_POLICY"
proof -
  have "\<exists>d pat. r = JObj d \<and> dget_or d ''pattern'' (JStr []) = JStr pat" if "r \<in> default_rule ` set DEFAULT_RULES" for r
    using that by (auto simp: default_rule_def dget_or_def)
  then show ?thesis
    by (auto simp: policy_typed_def DEFAULT_POLICY_def dget_or_def suffixes_of_def py_items_def)
qed

text \<open>
  C6. With the built-in policy, as with any policy whose values have the right types, the audit of a
  call comes to one of its two verdicts or raises; and it raises only when the audit is on, a log
  file is configured and the line of its event holds a lone surrogate, which the write cannot
  encode.  On a working file system it then always raises.
\<close>

theorem audit_raises_only_on_surrogates:
  assumes "ac_policy cfg = DEFAULT_POLICY \<or> policy_typed (ac_policy cfg)"
  shows "(snd (audit_tool_call search dump now redact cfg name args s) \<in> {Inr ''allow'', Inr ''deny''}
     \<or> snd (audit_tool_call search dump now redact cfg name args s) = Inl ValueError
       \<and> ac_enabled cfg \<and> al_path s \<noteq> []
       \<and> \<not> verdict_encodable search dump now redact (ac_policy cfg) name args)
    \<and> (ac_enabled cfg \<and> al_path s \<noteq> [] \<and> fst (al_fs s) = None
       \<and> \<not> verdict_encodable search dump now redact (ac_policy cfg) name args
       \<longrightarrow> snd (audit_tool_call search dump now redact cfg name args s) = Inl ValueError)"
proof (cases "ac_enabled cfg")
  case True
  have "policy_typed (ac_policy cfg)" using assms default_policy_typed by auto
  note r = audit_call_result [OF True this, where search = search and dump = dump and now = now
      and redact = redact and name = name and args = args and s = s]
  show ?thesis
  proof (cases "al_path s = [] \<or> verdict_encodable search dump now redact (ac_policy cfg) name args")
    case True
    with r(2) show ?thesis using policy_verdict_cases [of search "ac_policy cfg" name args] by auto
  next
    case False
    with r(1,3) True show ?thesis using policy_verdict_cases [of search "ac_policy cfg" name args] by auto
  qed
qed (simp add: audit_tool_call_def)

definition wipe_policy :: policy where
  "wipe_policy = [(''dangerous'', JArr [JObj [(''pattern'', JStr ''rm -rf''), (''reason'', JStr ''wipe'')]])]"

definition block_cfg :: "policy \<Rightarrow> audit_cfg" where
  "block_cfg p = \<lparr>ac_enabled = True, ac_mode = ''block'', ac_timeout = 90, ac_hold_max = 1048576,
     ac_whitelist = [], ac_policy = p\<rparr>"

lemma wipe_policy_typed: "policy_typed wipe_policy"
  by (auto simp: policy_typed_def wipe_policy_def dget_or_def suffixes_of_def py_items_def)

definition surrogate_log :: audit_log where
  "surrogate_log = \<lparr>al_path = ''a'', al_ring = [], al_fails = 0, al_counts = None, al_alarms = 0, al_fs = (None, [])\<rparr>"

theorem audit_raises_only_on_surrogates_witness:
  "snd (audit_tool_call (\<lambda>_ _. None) (\<lambda>_. []) 0 (\<lambda>x. x) (block_cfg DEFAULT_POLICY) ''rm'' ''-rf /''
      (surrogate_log\<lparr>al_path := []\<rparr>)) \<in> {Inr ''allow'', Inr ''deny''}
   \<and> snd (audit_tool_call (\<lambda>_ _. None) ar_summary 0 (\<lambda>x. x) (block_cfg wipe_policy) ''rm'' (utf8_chr 55296) surrogate_log)
      = Inl ValueError"
proof
  have "ac_policy (block_cfg DEFAULT_POLICY) = DEFAULT_POLICY \<or> policy_typed (ac_policy (block_cfg DEFAULT_POLICY))"
    by (simp add: block_cfg_def)
  from audit_raises_only_on_surrogates [OF this, where s = "surrogate_log\<lparr>al_path := []\<rparr>"]
  show "snd (audit_tool_call (\<lambda>_ _. None) (\<lambda>_. []) 0 (\<lambda>x. x) (block_cfg DEFAULT_POLICY) ''rm'' ''-rf /''
      (surrogate_log\<lparr>al_path := []\<rparr>)) \<in> {Inr ''allow'', Inr ''deny''}" by auto
  obtain v rule nt where "audit_verdict (\<lambda>_ _. None) wipe_policy ''rm'' (utf8_chr 55296) = Inr (v, rule, nt)"
    using audit_verdict_typed [OF wipe_policy_typed] by blast
  then have "\<not> verdict_encodable (\<lambda>_ _. None) ar_summary 0 (\<lambda>x. x) wipe_policy ''rm'' (utf8_chr 55296)"
    by (simp add: verdict_encodable_def encodable_def strip_ctrl_def utf8_chr_def bytes_def byte_def cp_width_def)
  then show "snd (audit_tool_call (\<lambda>_ _. None) ar_summary 0 (\<lambda>x. x) (block_cfg wipe_policy) ''rm'' (utf8_chr 55296) surrogate_log)
      = Inl ValueError"
    using audit_raises_only_on_surrogates [of "block_cfg wipe_policy"]
    by (simp add: block_cfg_def wipe_policy_typed surrogate_log_def)
qed

lemma wipe_normalized: "normalize_args ''shell sudo rm  -rf /'' = ''shell sudo rm -rf /''"
  by code_simp

theorem audit_denies_iff_witness:
  "\<forall>s. snd (audit_tool_call (\<lambda>p x. Some (sublist p x)) (\<lambda>_. []) 0 (\<lambda>x. x) (block_cfg wipe_policy)
     ''shell'' ''sudo rm  -rf /'' s) = Inr ''deny''"
proof
  fix s
  have e: "verdict_encodable search (\<lambda>_. []) now red p n a" for search now red p n a
    by (simp add: verdict_encodable_def encodable_def strip_ctrl_def split: sum.split prod.split)
  let ?s = "\<lambda>p x. Some (sublist p x)"
  let ?r = "JObj [(''pattern'', JStr ''rm -rf''), (''reason'', JStr ''wipe'')]"
  have "?r \<in> set (rules_of wipe_policy)" by (simp add: rules_of_def wipe_policy_def dget_or_def py_items_def)
  moreover have "sublist ''rm -rf'' ''shell sudo rm -rf /''" by code_simp
  then have "rule_applies ?s wipe_policy (normalize_args (''shell'' @ '' '' @ ''sudo rm  -rf /'')) ''sudo rm  -rf /'' ?r"
    by (auto simp: rule_applies_def dget_or_def wipe_normalized)
  ultimately show "snd (audit_tool_call ?s (\<lambda>_. []) 0 (\<lambda>x. x) (block_cfg wipe_policy)
     ''shell'' ''sudo rm  -rf /'' s) = Inr ''deny''"
    using audit_denies_iff [where cfg = "block_cfg wipe_policy" and search = ?s and dump = "\<lambda>_. []" and now = 0
      and redact = "\<lambda>x. x" and name = "''shell''" and args = "''sudo rm  -rf /''" and s = s]
    by (auto simp: block_cfg_def wipe_policy_typed Let_def e)
qed

lemma no_digit_no_ipv4:
  assumes "cps h = p # ps" and "\<not> is_nd p"
  shows "re_match IPV4_RE h = None"
  using assms by (simp add: re_match_def rx_match_def IPV4_RE_def times_def rx_d_def)

lemma tld_internal:
  assumes "py_lower (py_strip h) = h" and "rstrip_chars ''.'' h = h" and "strip_chars ''[]'' h = h"
    and "CHR '':'' \<notin> set h" and "re_match IPV4_RE h = None" and "ends_any INTERNAL_TLDS h" and "h \<noteq> []"
  shows "is_external_host h sfx = Some False"
proof -
  have "count_char CHR '':'' h = 0" using assms(4) by (induction h) (auto simp: count_char_def)
  moreover have "\<not> prefix ''::'' h" using assms(4) by (auto simp: prefix_def)
  ultimately show ?thesis using assms by (simp add: is_external_host_def Let_def del: One_nat_def)
qed

lemma query_target_internal:
  "target_external p ''curl http://evil.com?x.local'' = Some False"
proof -
  let ?h = "''evil.com?x.local''"
  have "is_external_host ?h sfx = Some False" for sfx
  proof (rule tld_internal)
    show "py_lower (py_strip ?h) = ?h" by code_simp
    show "rstrip_chars ''.'' ?h = ?h" by code_simp
    show "strip_chars ''[]'' ?h = ?h" by code_simp
    show "CHR '':'' \<notin> set ?h" by simp
    show "re_match IPV4_RE ?h = None"
    proof (rule no_digit_no_ipv4)
      show "cps ?h = ''e'' # cps ''vil.com?x.local''" by code_simp
      show "\<not> is_nd ''e''" by (simp add: is_nd_def nd_value_def nd_zeros_def byte_def)
    qed
    show "ends_any INTERNAL_TLDS ?h" by code_simp
  qed simp
  moreover have "extract_host ''curl http://evil.com?x.local'' = Some ?h" by code_simp
  ultimately show ?thesis by (simp add: target_external_def)
qed

text \<open>
  The host of a URL is taken up to the next slash, so a query or a fragment is part of it and its
  suffix decides: a request to \<open>evil.com\<close> whose query ends in \<open>.local\<close> counts as internal.  Whatever
  the policy, when no rule other than a network rule applies and the tool's name is not denied,
  the transfer is allowed.
\<close>

theorem query_hides_external_target:
  assumes "ac_enabled cfg" and "policy_typed (ac_policy cfg)"
    and "py_in name (dget_or (ac_policy cfg) ''deny'' (JArr [])) \<noteq> Some True"
    and "\<forall>r \<in> set (rules_of (ac_policy cfg)). (\<exists>d. r = JObj d \<and> jtruthy (dget_or d ''network'' JNull))
      \<or> \<not> rule_applies search (ac_policy cfg)
            (normalize_args (name @ '' '' @ ''curl http://evil.com?x.local'')) ''curl http://evil.com?x.local'' r"
    and "al_path s = [] \<or> verdict_encodable search dump now redact (ac_policy cfg) name ''curl http://evil.com?x.local''"
  shows "snd (audit_tool_call search dump now redact cfg name ''curl http://evil.com?x.local'' s) = Inr ''allow''"
proof -
  have "\<not> rule_applies search (ac_policy cfg)
      (normalize_args (name @ '' '' @ ''curl http://evil.com?x.local'')) ''curl http://evil.com?x.local'' r"
    if "r \<in> set (rules_of (ac_policy cfg))" for r
    using bspec [OF assms(4) that] by (auto simp: rule_applies_def query_target_internal)
  with assms(3) have "\<not> call_denied search (ac_policy cfg) name ''curl http://evil.com?x.local''"
    by (auto simp: call_denied_def query_target_internal)
  with audit_call_result(2) [OF assms(1,2,5)] show ?thesis by (simp add: policy_verdict_def)
qed

definition fetch_policy :: policy where
  "fetch_policy = [(''dangerous'', JArr [JObj [(''pattern'', JStr ''http''), (''network'', JBool True)]])]"

theorem query_hides_external_target_witness:
  "\<forall>s. snd (audit_tool_call (\<lambda>p x. Some (sublist p x)) (\<lambda>_. []) 0 (\<lambda>x. x) (block_cfg fetch_policy)
     ''bash'' ''curl http://evil.com?x.local'' s) = Inr ''allow''"
proof
  fix s :: audit_log
  show "snd (audit_tool_call (\<lambda>p x. Some (sublist p x)) (\<lambda>_. []) 0 (\<lambda>x. x) (block_cfg fetch_policy)
     ''bash'' ''curl http://evil.com?x.local'' s) = Inr ''allow''"
  proof (rule query_hides_external_target)
    show "policy_typed (ac_policy (block_cfg fetch_policy))"
      by (auto simp: block_cfg_def policy_typed_def fetch_policy_def dget_or_def suffixes_of_def py_items_def)
    qed (simp_all add: block_cfg_def fetch_policy_def rules_of_def py_items_def py_in_def dget_or_def
      verdict_encodable_def encodable_def strip_ctrl_def split: sum.split prod.split)
qed

end
