(* ===== verification/Stream_Events.thy ===== *)
theory Stream_Events
  imports Json_Walk Audit_Verdict
begin

text \<open>
  The events of a proxied model response (\<open>_llm.py\<close>): which events of the three protocols carry
  text or arguments, the events the proxy builds itself, the tool calls of a stream and of a whole
  response, and the audit of a whole response.  \<open>_jloads\<close> and \<open>_jdumps\<close> are those of a
  \<open>json_lib\<close>; \<open>Inl\<close> is an exception.
\<close>

section \<open>Events the proxy builds\<close>

definition jdump :: "json_lib \<Rightarrow> json \<Rightarrow> string py_result" where
  "jdump lib j = (case jdumps lib j of None \<Rightarrow> Inl OtherExn | Some s \<Rightarrow> Inr s)"

definition blank_line :: string where
  "blank_line = ''\<newline>\<newline>''"

definition sse_data :: "string \<Rightarrow> string" where
  "sse_data s = ''data: '' @ s @ blank_line"

definition sse_json :: "json_lib \<Rightarrow> json \<Rightarrow> string py_result" where
  "sse_json lib j = (case jdump lib j of Inl e \<Rightarrow> Inl e | Inr s \<Rightarrow> Inr (sse_data s))"

text \<open>Two events in a row.\<close>

definition sse_two :: "json_lib \<Rightarrow> json \<Rightarrow> json \<Rightarrow> string py_result" where
  "sse_two lib a b =
     (case sse_json lib a of
        Inl e \<Rightarrow> Inl e
      | Inr x \<Rightarrow> (case sse_json lib b of Inl e \<Rightarrow> Inl e | Inr y \<Rightarrow> Inr (x @ y)))"

definition BLOCK_MESSAGE :: string where
  "BLOCK_MESSAGE = bytes [232, 175, 165, 229, 183, 165, 229, 133, 183, 232, 176, 131, 231, 148, 168,
     229, 183, 178, 232, 162, 171, 229, 174, 137, 229, 133, 168, 231, 173, 150, 231, 149, 165, 230,
     139, 166, 230, 136, 170, 239, 188, 136, 229, 174, 161, 232, 174, 161, 230, 139, 146, 231, 187,
     157, 239, 188, 137, 227, 128, 130, 229, 166, 130, 233, 156, 128, 230, 137, 167, 232, 161, 140,
     232, 175, 183, 232, 129, 148, 231, 179, 187, 231, 174, 161, 231, 144, 134, 229, 145, 152, 229,
     174, 161, 230, 137, 185, 227, 128, 130]"

definition TRUNCATED_MESSAGE :: string where
  "TRUNCATED_MESSAGE = bytes [228, 184, 138, 230, 184, 184, 230, 181, 129, 229, 188, 143, 229, 147,
     141, 229, 186, 148, 232, 162, 171, 230, 136, 170, 230, 150, 173, 239, 188, 136, 230, 156, 170,
     230, 148, 182, 229, 136, 176, 231, 187, 136, 230, 173, 162, 228, 186, 139, 228, 187, 182, 239,
     188, 137, 239, 188, 140, 232, 175, 183, 233, 135, 141, 232, 175, 149, 227, 128, 130]"

abbreviation jkey :: "string \<Rightarrow> string \<Rightarrow> string \<times> json" where
  "jkey k v \<equiv> (k, JStr v)"

definition build_block_event :: "json_lib \<Rightarrow> string py_result" where
  "build_block_event lib = sse_json lib (JObj [(''choices'', JArr [JObj [(''index'', JInt 0),
     (''delta'', JObj [jkey ''role'' ''assistant'', jkey ''content'' BLOCK_MESSAGE]),
     jkey ''finish_reason'' ''stop'']])])"

definition build_block_event_anthropic :: "json_lib \<Rightarrow> string py_result" where
  "build_block_event_anthropic lib = sse_two lib
     (JObj [jkey ''type'' ''content_block_delta'', (''index'', JInt 0),
        (''delta'', JObj [jkey ''type'' ''text_delta'', jkey ''text'' BLOCK_MESSAGE])])
     (JObj [jkey ''type'' ''message_delta'', (''delta'', JObj [jkey ''stop_reason'' ''end_turn'']),
        (''usage'', JObj [(''output_tokens'', JInt 1)])])"

definition responses_delta :: "string \<Rightarrow> string \<Rightarrow> json" where
  "responses_delta item msg = JObj [jkey ''type'' ''response.output_text.delta'', jkey ''item_id'' item,
     (''output_index'', JInt 0), (''content_index'', JInt 0), jkey ''delta'' msg]"

definition blocked_output :: "string \<times> json" where
  "blocked_output = (''output'', JArr [JObj [jkey ''type'' ''message'', jkey ''role'' ''assistant'',
     (''content'', JArr [JObj [jkey ''type'' ''output_text'', jkey ''text'' BLOCK_MESSAGE]])]])"

definition build_block_event_responses :: "json_lib \<Rightarrow> string py_result" where
  "build_block_event_responses lib = sse_two lib (responses_delta ''blocked'' BLOCK_MESSAGE)
     (JObj [jkey ''type'' ''response.completed'',
        (''response'', JObj [jkey ''id'' ''blocked'', jkey ''status'' ''completed'', blocked_output])])"

definition build_truncated_event_responses :: "json_lib \<Rightarrow> string py_result" where
  "build_truncated_event_responses lib = sse_two lib (responses_delta ''truncated'' TRUNCATED_MESSAGE)
     (JObj [jkey ''type'' ''response.failed'', (''response'', JObj [jkey ''id'' ''truncated'',
        jkey ''status'' ''failed'', (''error'', JObj [jkey ''message'' ''stream truncated: missing terminal event'',
          jkey ''type'' ''server_error''])])])"

text \<open>The body that replaces a whole response; the model's name is added when there is one.\<close>

definition build_block_body :: "json_lib \<Rightarrow> string \<Rightarrow> string option \<Rightarrow> string py_result" where
  "build_block_body lib tail_norm block_model =
     (let obj =
        (if suffix ''chat/completions'' tail_norm then
           [(''choices'', JArr [JObj [(''index'', JInt 0),
              (''message'', JObj [jkey ''role'' ''assistant'', jkey ''content'' BLOCK_MESSAGE]),
              jkey ''finish_reason'' ''stop'']])]
         else if suffix ''messages'' tail_norm \<or> suffix ''v1/messages'' tail_norm then
           [jkey ''id'' ''blocked'', jkey ''type'' ''message'', jkey ''role'' ''assistant'',
            (''content'', JArr [JObj [jkey ''type'' ''text'', jkey ''text'' BLOCK_MESSAGE]]),
            jkey ''stop_reason'' ''end_turn'',
            (''usage'', JObj [(''input_tokens'', JInt 0), (''output_tokens'', JInt 1)])]
         else [jkey ''id'' ''blocked'', jkey ''status'' ''completed'', blocked_output])
      in jdump lib (JObj (case block_model of None \<Rightarrow> obj
           | Some m \<Rightarrow> if m = [] then obj else dset ''model'' (JStr m) obj)))"

section \<open>Events of the Responses protocol\<close>

datatype resp_kind = Output_Text | Reasoning_Text | Call_Arguments | Item_Done | Resp_Other

definition RESP_KINDS :: "(string \<times> resp_kind) list" where
  "RESP_KINDS = [(''response.output_text.delta'', Output_Text), (''response.reasoning_text.delta'', Reasoning_Text),
     (''response.function_call_arguments.delta'', Call_Arguments), (''response.refusal.delta'', Output_Text),
     (''response.reasoning_summary_text.delta'', Reasoning_Text), (''response.reasoning_summary.delta'', Reasoning_Text),
     (''response.audio.transcript.delta'', Output_Text), (''response.code_interpreter_call_code.delta'', Call_Arguments),
     (''response.shell_call_command.delta'', Call_Arguments), (''response.mcp_call_arguments.delta'', Call_Arguments),
     (''response.custom_tool_call_input.delta'', Call_Arguments)]"

text \<open>\<open>parsed.get('type') if isinstance(parsed, dict) else None\<close>\<close>

definition responses_event :: "json \<Rightarrow> (resp_kind \<times> string option) option" where
  "responses_event parsed =
     (case jget parsed ''type'' of
        Some (JStr evt_type) \<Rightarrow>
          if \<not> prefix ''response.'' evt_type then (if evt_type = ''ping'' then Some (Resp_Other, None) else None)
          else
            (let kind = (if suffix ''.done'' evt_type then Item_Done else dget_or RESP_KINDS evt_type Resp_Other)
             in if evt_type = ''response.audio.delta'' then Some (Resp_Other, None)
                else if kind = Item_Done \<or> kind = Resp_Other then Some (kind, None)
                else (case jget parsed ''delta'' of
                   Some (JStr d) \<Rightarrow> Some (kind, Some d)
                 | _ \<Rightarrow> Some (Resp_Other, None)))
      | _ \<Rightarrow> None)"

definition mk_responses_sse_event :: "json_lib \<Rightarrow> json \<Rightarrow> string \<Rightarrow> string py_result" where
  "mk_responses_sse_event lib parsed delta_text =
     (case parsed of
        JObj d \<Rightarrow>
          (case sse_json lib (JObj (dset ''delta'' (JStr delta_text) d)) of
             Inl e \<Rightarrow> sse_json lib parsed
           | Inr s \<Rightarrow> Inr s)
      | _ \<Rightarrow> sse_json lib parsed)"

definition mk_responses_flush_event :: "json_lib \<Rightarrow> string \<Rightarrow> string \<Rightarrow> string py_result" where
  "mk_responses_flush_event lib event_type delta_text =
     sse_json lib (JObj [jkey ''type'' event_type, jkey ''delta'' delta_text])"

section \<open>Events of the Messages protocol\<close>

datatype anth_kind = A_Text | A_Thinking | Function_Args | Block_Stop | Block_Start | A_Other

definition anthropic_event :: "json \<Rightarrow> (anth_kind \<times> string option) option" where
  "anthropic_event parsed =
     (let evt_type = jget parsed ''type'' in
      if evt_type = Some (JStr ''content_block_stop'') then Some (Block_Stop, None)
      else if evt_type = Some (JStr ''content_block_start'') then
        (case jget parsed ''content_block'' of
           Some (JObj cb) \<Rightarrow>
             if dget cb ''type'' = Some (JStr ''tool_use'') then
               (case dget cb ''name'' of
                  Some (JStr name) \<Rightarrow> if name = [] then None else Some (Block_Start, Some name)
                | _ \<Rightarrow> None)
             else None
         | _ \<Rightarrow> None)
      else if evt_type \<noteq> Some (JStr ''content_block_delta'') then None
      else (case jget parsed ''delta'' of
          Some (JObj d) \<Rightarrow>
            (case (dget d ''type'', dget d ''text'', dget d ''thinking'', dget d ''partial_json'') of
               (Some (JStr t), x, y, z) \<Rightarrow>
                 (let field = (if t = ''text_delta'' then x else if t = ''thinking_delta'' then y
                            else if t = ''input_json_delta'' then z else None);
                      kind = (if t = ''text_delta'' then A_Text else if t = ''thinking_delta'' then A_Thinking
                            else Function_Args)
                  in case field of Some (JStr s) \<Rightarrow> Some (kind, Some s) | _ \<Rightarrow> Some (A_Other, None))
             | _ \<Rightarrow> Some (A_Other, None))
        | _ \<Rightarrow> Some (A_Other, None)))"

text \<open>The field of a kind's delta, and the field's delta type.\<close>

fun anth_field :: "anth_kind \<Rightarrow> string" where
  "anth_field A_Text = ''text''"
| "anth_field A_Thinking = ''thinking''"
| "anth_field _ = ''partial_json''"

definition field_delta_type :: "string \<Rightarrow> string" where
  "field_delta_type f = (if f = ''text'' then ''text_delta'' else if f = ''thinking'' then ''thinking_delta''
     else ''input_json_delta'')"

text \<open>
  \<open>dict(parsed['delta'])\<close> with its handler: a missing delta or a scalar is empty.  Only the events
  for which \<open>anthropic_event\<close> has found an object there come this far; a text or an array is taken as
  the error it is in general.
\<close>

definition dict_of :: "json option \<Rightarrow> (string, json) dict py_result" where
  "dict_of j =
     (case j of
        Some (JObj e) \<Rightarrow> Inr e
      | Some (JStr s) \<Rightarrow> if s = [] then Inr [] else Inl ValueError
      | Some (JArr xs) \<Rightarrow> if xs = [] then Inr [] else Inl ValueError
      | _ \<Rightarrow> Inr [])"

definition mk_anthropic_delta_event :: "json_lib \<Rightarrow> json \<Rightarrow> string \<Rightarrow> string \<Rightarrow> string py_result" where
  "mk_anthropic_delta_event lib parsed x f =
     (case parsed of
        JObj d \<Rightarrow>
          (case dict_of (dget d ''delta'') of
             Inl e \<Rightarrow> Inl e
           | Inr delta \<Rightarrow> sse_json lib (JObj (dset ''delta'' (JObj (dset f (JStr x) delta)) d)))
      | _ \<Rightarrow> Inl OtherExn)"

definition mk_anthropic_flush_event :: "json_lib \<Rightarrow> json \<Rightarrow> string \<Rightarrow> string \<Rightarrow> string py_result" where
  "mk_anthropic_flush_event lib parsed x f =
     (let idx = (case jget parsed ''index'' of None \<Rightarrow> JInt 0 | Some i \<Rightarrow> i)
      in sse_json lib (JObj [jkey ''type'' ''content_block_delta'', (''index'', idx),
           (''delta'', JObj [jkey ''type'' (field_delta_type f), jkey f x])]))"

section \<open>Tool calls of a chat stream\<close>

record tool_call =
  tc_name :: string
  tc_args :: string
  tc_id :: "string option"

text \<open>An index is an \<open>int\<close>, and \<open>True\<close> and \<open>False\<close> are 1 and 0.\<close>

fun call_index :: "json \<Rightarrow> int option" where
  "call_index (JInt i) = Some i"
| "call_index (JBool b) = Some (if b then 1 else 0)"
| "call_index _ = None"

definition accumulate_one :: "json \<Rightarrow> (int, tool_call) dict \<Rightarrow> (int, tool_call) dict" where
  "accumulate_one tc buf =
     (case (Option.bind (jget tc ''index'') call_index, jget tc ''function'') of
        (Some idx, Some (JObj fn)) \<Rightarrow>
          (let e0 = dget_or buf idx \<lparr>tc_name = [], tc_args = [], tc_id = None\<rparr>;
               e1 = (case jget tc ''id'' of
                   Some (JStr i) \<Rightarrow> if i \<noteq> [] \<and> tc_id e0 = None then e0\<lparr>tc_id := Some i\<rparr> else e0
                 | _ \<Rightarrow> e0);
               e2 = (case dget fn ''name'' of Some (JStr n) \<Rightarrow> e1\<lparr>tc_name := tc_name e1 @ n\<rparr> | _ \<Rightarrow> e1);
               e3 = (case dget fn ''arguments'' of Some (JStr a) \<Rightarrow> e2\<lparr>tc_args := tc_args e2 @ a\<rparr> | _ \<Rightarrow> e2)
           in dset idx e3 buf)
      | _ \<Rightarrow> buf)"

definition accumulate_tool_calls :: "json \<Rightarrow> (int, tool_call) dict \<Rightarrow> (int, tool_call) dict" where
  "accumulate_tool_calls tool_calls buf =
     (case tool_calls of JArr tcs \<Rightarrow> foldl (\<lambda>b tc. accumulate_one tc b) buf tcs | _ \<Rightarrow> buf)"

section \<open>Tool calls of a whole response\<close>

text \<open>\<open>x or []\<close> as the items of a loop, \<open>x or {}\<close> as an object with \<open>get\<close>; \<open>None\<close>: an exception.\<close>

definition items_or_empty :: "json option \<Rightarrow> json list option" where
  "items_or_empty x = (case x of None \<Rightarrow> Some [] | Some j \<Rightarrow> if jtruthy j then py_items j else Some [])"

definition dict_or_empty :: "json option \<Rightarrow> (string, json) dict option" where
  "dict_or_empty x = (case x of None \<Rightarrow> Some [] | Some j \<Rightarrow> if jtruthy j then jobj j else Some [])"

definition named_call :: "json option \<Rightarrow> string \<Rightarrow> (string \<times> string) list" where
  "named_call name args = (case name of Some (JStr n) \<Rightarrow> if n = [] then [] else [(n, args)] | _ \<Rightarrow> [])"

definition str_or_empty :: "json option \<Rightarrow> string" where
  "str_or_empty x = (case x of Some (JStr s) \<Rightarrow> s | _ \<Rightarrow> [])"

text \<open>The calls of a list of items, the first exception of one ending the loop.\<close>

fun calls_of :: "(json \<Rightarrow> (string \<times> string) list option) \<Rightarrow> json list \<Rightarrow> (string \<times> string) list option" where
  "calls_of f [] = Some []"
| "calls_of f (x # xs) =
     (case f x of
        None \<Rightarrow> None
      | Some cs \<Rightarrow> map_option ((@) cs) (calls_of f xs))"

definition chat_call :: "json \<Rightarrow> (string \<times> string) list option" where
  "chat_call tc =
     (case tc of
        JObj d \<Rightarrow> map_option (\<lambda>fn. named_call (dget fn ''name'') (str_or_empty (dget fn ''arguments'')))
          (dict_or_empty (dget d ''function''))
      | _ \<Rightarrow> Some [])"

definition choice_calls :: "json \<Rightarrow> (string \<times> string) list option" where
  "choice_calls choice =
     (case choice of
        JObj d \<Rightarrow>
          Option.bind (dict_or_empty (dget d ''message'')) (\<lambda>msg.
            Option.bind (items_or_empty (dget msg ''tool_calls'')) (calls_of chat_call))
      | _ \<Rightarrow> Some [])"

definition block_calls :: "json_lib \<Rightarrow> json \<Rightarrow> (string \<times> string) list option" where
  "block_calls lib block =
     (if jget block ''type'' \<noteq> Some (JStr ''tool_use'') then Some []
      else if named_call (jget block ''name'') [] = [] then Some []
      else case jget block ''input'' of
        None \<Rightarrow> Some (named_call (jget block ''name'') [])
      | Some JNull \<Rightarrow> Some (named_call (jget block ''name'') [])
      | Some inp \<Rightarrow> map_option (named_call (jget block ''name'')) (jdumps lib inp))"

definition item_calls :: "json \<Rightarrow> (string \<times> string) list option" where
  "item_calls item =
     (if jget item ''type'' \<noteq> Some (JStr ''function_call'') then Some []
      else Some (named_call (jget item ''name'') (str_or_empty (jget item ''arguments''))))"

definition extract_tool_calls_non_stream :: "json_lib \<Rightarrow> json \<Rightarrow> string \<Rightarrow> (string \<times> string) list option" where
  "extract_tool_calls_non_stream lib parsed tail =
     (case parsed of
        JObj d \<Rightarrow>
          (let tail_norm = rstrip_chars ''/'' tail in
           if suffix ''chat/completions'' tail_norm then
             Option.bind (items_or_empty (dget d ''choices'')) (calls_of choice_calls)
           else if suffix ''v1/messages'' tail_norm then
             Option.bind (items_or_empty (dget d ''content'')) (calls_of (block_calls lib))
           else if suffix ''v1/responses'' tail_norm then
             Option.bind (items_or_empty (dget d ''output'')) (calls_of item_calls)
           else Some [])
      | _ \<Rightarrow> Some [])"

text \<open>
  The audit of a whole response, with the handler around it: any exception ends the audit with what
  it has found so far.
\<close>

fun audit_each ::
  "(string \<Rightarrow> string \<Rightarrow> audit_log \<Rightarrow> audit_log \<times> string py_result) \<Rightarrow> (string \<times> string) list
     \<Rightarrow> audit_log \<Rightarrow> bool \<Rightarrow> audit_log \<times> bool" where
  "audit_each audit [] s blocked = (s, blocked)"
| "audit_each audit ((name, args) # calls) s blocked =
     (case audit name args s of
        (s', Inl e) \<Rightarrow> (s', blocked)
      | (s', Inr v) \<Rightarrow> audit_each audit calls s' (blocked \<or> v = ''deny''))"

definition nonstream_blocked ::
  "json_lib \<Rightarrow> (string \<Rightarrow> string \<Rightarrow> audit_log \<Rightarrow> audit_log \<times> string py_result) \<Rightarrow> audit_cfg
     \<Rightarrow> string \<Rightarrow> string \<Rightarrow> audit_log \<Rightarrow> audit_log \<times> bool" where
  "nonstream_blocked lib audit cfg out_text tail s =
     (if \<not> (ac_enabled cfg \<and> out_text \<noteq> []) then (s, False)
      else case jloads lib (lstrip_bom out_text) of
        None \<Rightarrow> (s, False)
      | Some resp \<Rightarrow>
          (case extract_tool_calls_non_stream lib resp tail of
             None \<Rightarrow> (s, False)
           | Some calls \<Rightarrow> audit_each audit calls s False))"

text \<open>What the client gets: the block body, or the text.\<close>

definition block_model :: "json \<Rightarrow> string \<Rightarrow> string option" where
  "block_model resp req_model =
     (case jget resp ''model'' of
        Some (JStr m) \<Rightarrow> if m \<noteq> [] then Some m else if req_model \<noteq> ''unknown_model'' then Some req_model else None
      | _ \<Rightarrow> if req_model \<noteq> ''unknown_model'' then Some req_model else None)"

section \<open>Properties\<close>

lemma audit_calls_blocked:
  assumes "\<And>n a s. (n, a) \<in> set calls \<Longrightarrow> \<exists>v. snd (audit n a s) = Inr v \<and> (v = ''deny'' \<longleftrightarrow> bad n a)"
  shows "snd (audit_each audit calls s b) \<longleftrightarrow> b \<or> (\<exists>(n, a) \<in> set calls. bad n a)"
  using assms
proof (induction calls arbitrary: s b)
  case (Cons c calls)
  obtain n a where c: "c = (n, a)" by fastforce
  obtain s' v where v: "audit n a s = (s', Inr v)" "v = ''deny'' \<longleftrightarrow> bad n a"
    using Cons.prems [of n a s] c by (metis list.set_intros(1) prod.collapse)
  with Cons.IH [of s' "b \<or> v = ''deny''"] Cons.prems c show ?case by auto
qed simp

text \<open>
  C12. A whole response that parses, whose tool calls can be extracted and whose log lines can be
  encoded, is replaced by the block body exactly when the policy refuses one of its calls, whichever
  protocol it has and wherever the call stands.  (Without extraction or with a line that cannot be
  encoded the audit is skipped: \<open>malformed_choice_skips_audit\<close>, \<open>surrogate_skips_audit\<close>.)
\<close>

theorem nonstream_blocked_iff:
  assumes "ac_enabled cfg" and "policy_typed (ac_policy cfg)"
    and "jloads lib (lstrip_bom out_text) = Some resp" and "out_text \<noteq> []"
    and "extract_tool_calls_non_stream lib resp tail = Some calls"
    and "\<And>n a. (n, a) \<in> set calls \<Longrightarrow> verdict_encodable search dump now redact (ac_policy cfg) n a"
  shows "snd (nonstream_blocked lib (audit_tool_call search dump now redact cfg) cfg out_text tail s)
    \<longleftrightarrow> (\<exists>(n, a) \<in> set calls. call_denied search (ac_policy cfg) n a)"
proof -
  have "\<exists>v. snd (audit_tool_call search dump now redact cfg n a s) = Inr v
      \<and> (v = ''deny'' \<longleftrightarrow> call_denied search (ac_policy cfg) n a)" if "(n, a) \<in> set calls" for n a s
    using audit_call_result(2) [OF assms(1,2), of s search dump now redact n a] assms(6) [OF that] by (auto simp: policy_verdict_def)
  from audit_calls_blocked [OF this, where s = s and b = False] assms(1,3-5) show ?thesis
    by (simp add: nonstream_blocked_def)
qed

text \<open>
  A lone surrogate switches the audit off as well: when the first call's log line cannot be encoded,
  the audit raises, the handler swallows the exception, and the response is not blocked, whatever
  the policy says of its calls.
\<close>

theorem surrogate_skips_audit:
  assumes "ac_enabled cfg" and "policy_typed (ac_policy cfg)"
    and "jloads lib (lstrip_bom out_text) = Some resp"
    and "extract_tool_calls_non_stream lib resp tail = Some ((n, a) # calls)"
    and "al_path s \<noteq> []" and "fst (al_fs s) = None"
    and "\<not> verdict_encodable search dump now redact (ac_policy cfg) n a"
  shows "\<not> snd (nonstream_blocked lib (audit_tool_call search dump now redact cfg) cfg out_text tail s)"
proof -
  obtain s' where "audit_tool_call search dump now redact cfg n a s = (s', Inl ValueError)"
    using audit_call_result(3) [OF assms(1,2,5-7)] by (metis prod.collapse)
  with assms show ?thesis by (simp add: nonstream_blocked_def)
qed

text \<open>
  One malformed item switches the audit of the whole response off: a choice whose message is a
  text raises in the reading of the calls, the handler swallows the exception, and the response is
  not blocked, whatever calls stand before or after it.
\<close>

theorem malformed_choice_skips_audit:
  assumes "jloads lib (lstrip_bom out_text) = Some (JObj d)" and "suffix ''chat/completions'' (rstrip_chars ''/'' tail)"
    and "dget d ''choices'' = Some (JArr (before @ JObj [(''message'', JStr (c # m))] # after))"
  shows "nonstream_blocked lib audit cfg out_text tail s = (s, False)"
proof -
  have "choice_calls (JObj [(''message'', JStr (c # m))]) = None"
    by (simp add: choice_calls_def dict_or_empty_def)
  then have "calls_of choice_calls (before @ JObj [(''message'', JStr (c # m))] # after) = None"
    by (induction before) (auto split: option.split)
  with assms have "extract_tool_calls_non_stream lib (JObj d) tail = None"
    by (simp add: extract_tool_calls_non_stream_def items_or_empty_def py_items_def Let_def)
  with assms(1) show ?thesis by (simp add: nonstream_blocked_def)
qed

text \<open>A response with a call the policy denies, and the same behind a malformed choice.\<close>

definition one_doc :: "string \<Rightarrow> json \<Rightarrow> json_lib" where
  "one_doc t j = \<lparr>jloads = (\<lambda>x. if x = t then Some j else None), jdumps = (\<lambda>x. if x = j then Some t else None),
     std_loads = (\<lambda>x. if x = t then Some j else None)\<rparr>"

definition wipe_choice :: json where
  "wipe_choice = JObj [(''message'', JObj [(''tool_calls'', JArr [JObj [(''function'',
     JObj [jkey ''name'' ''wipe'', jkey ''arguments'' ''{}''])]])])]"

definition deny_policy :: policy where
  "deny_policy = [(''deny'', JArr [JStr ''wipe''])]"

lemma deny_policy_typed: "policy_typed deny_policy"
  by (auto simp: policy_typed_def deny_policy_def dget_or_def suffixes_of_def py_items_def)

lemma doc_text: "lstrip_bom ''doc'' = ''doc''" "suffix ''chat/completions'' (rstrip_chars ''/'' ''v1/chat/completions'')"
  by code_simp+

theorem nonstream_blocked_iff_witness:
  "\<forall>s. snd (nonstream_blocked (one_doc ''doc'' (JObj [(''choices'', JArr [wipe_choice])]))
     (audit_tool_call (\<lambda>_ _. None) (\<lambda>_. []) 0 (\<lambda>x. x) (block_cfg deny_policy)) (block_cfg deny_policy)
     ''doc'' ''v1/chat/completions'' s)"
proof
  fix s
  let ?lib = "one_doc ''doc'' (JObj [(''choices'', JArr [wipe_choice])])"
  have e: "extract_tool_calls_non_stream ?lib (JObj [(''choices'', JArr [wipe_choice])]) ''v1/chat/completions''
      = Some [(''wipe'', ''{}'')]"
    by (simp add: extract_tool_calls_non_stream_def doc_text items_or_empty_def py_items_def wipe_choice_def
        choice_calls_def dict_or_empty_def chat_call_def named_call_def str_or_empty_def Let_def)
  have "call_denied (\<lambda>_ _. None) (ac_policy (block_cfg deny_policy)) ''wipe'' ''{}''"
    by (simp add: call_denied_def block_cfg_def deny_policy_def dget_or_def py_in_def)
  moreover have "ac_enabled (block_cfg deny_policy)" "policy_typed (ac_policy (block_cfg deny_policy))"
    by (simp_all add: block_cfg_def deny_policy_typed)
  ultimately show "snd (nonstream_blocked ?lib (audit_tool_call (\<lambda>_ _. None) (\<lambda>_. []) 0 (\<lambda>x. x) (block_cfg deny_policy))
      (block_cfg deny_policy) ''doc'' ''v1/chat/completions'' s)"
    using nonstream_blocked_iff [OF _ _ _ _ e, of "block_cfg deny_policy" "''doc''" "\<lambda>_ _. None" "\<lambda>_. []" 0 "\<lambda>x. x" s]
    by (simp add: one_doc_def doc_text verdict_encodable_def encodable_def strip_ctrl_def split: sum.split prod.split)
qed

theorem malformed_choice_skips_audit_witness:
  "\<forall>s. nonstream_blocked (one_doc ''doc'' (JObj [(''choices'', JArr [JObj [(''message'', JStr ''x'')], wipe_choice])]))
     (audit_tool_call (\<lambda>_ _. None) (\<lambda>_. []) 0 (\<lambda>x. x) (block_cfg deny_policy)) (block_cfg deny_policy)
     ''doc'' ''v1/chat/completions'' s = (s, False)"
  using malformed_choice_skips_audit [of _ "''doc''" _ "''v1/chat/completions''" "[]" _ "[]" "[wipe_choice]"]
  by (simp add: one_doc_def doc_text)

end
