(* ===== verification/Audit_Approval.thy ===== *)
theory Audit_Approval
  imports Proxy_Runs Audit_Verdict
begin

text \<open>
  The approval of a denied tool call over Matrix (\<open>_request_audit_approval\<close> of \<open>_llm.py\<close>), the
  sweeper of \<open>_audit.py\<close>, the cleanup at the end of a proxied request, and the audit of the tool
  calls of a response.  A request's list of created identifiers (a context variable) is kept under
  the request's number.  The keepalive task and the messages' texts change none of this state.
\<close>

section \<open>State\<close>

record ap_world =
  aw_proxy :: proxy
  aw_seq :: nat
  aw_created :: "(nat, string list) dict"
  aw_results :: "(nat \<times> string) list"

datatype approval_result = Approved | Rejected | Expired | Failed

fun result_text :: "approval_result \<Rightarrow> string" where
  "result_text Approved = ''approved''"
| "result_text Rejected = ''rejected''"
| "result_text Expired = ''expired''"
| "result_text Failed = ''failed''"

text \<open>Where the coroutine is suspended: in \<open>_ask\<close>, or waiting for its event with the message's id.\<close>

datatype ap_task =
    Asking nat string nat
  | Waiting nat string string nat

fun task_req :: "ap_task \<Rightarrow> nat" where
  "task_req (Asking r _ _) = r"
| "task_req (Waiting r _ _ _) = r"

fun task_id :: "ap_task \<Rightarrow> string" where
  "task_id (Asking _ rid _) = rid"
| "task_id (Waiting _ rid _ _) = rid"

section \<open>Operations\<close>

definition created_of :: "nat \<Rightarrow> ap_world \<Rightarrow> string list" where
  "created_of r w = dget_or (aw_created w) r []"

text \<open>\<open>_created.append\<close> and \<open>_created.remove\<close>, when the variable holds a list.\<close>

definition track :: "nat \<Rightarrow> string \<Rightarrow> ap_world \<Rightarrow> ap_world" where
  "track r rid w =
     (case dget (aw_created w) r of
        None \<Rightarrow> w
      | Some ids \<Rightarrow> w\<lparr>aw_created := dset r (ids @ [rid]) (aw_created w)\<rparr>)"

definition untrack :: "nat \<Rightarrow> string \<Rightarrow> ap_world \<Rightarrow> ap_world" where
  "untrack r rid w =
     (case dget (aw_created w) r of
        None \<Rightarrow> w
      | Some ids \<Rightarrow> w\<lparr>aw_created := dset r (remove1 rid ids) (aw_created w)\<rparr>)"

definition drop_pending :: "string \<Rightarrow> ap_world \<Rightarrow> ap_world" where
  "drop_pending rid w = w\<lparr>aw_proxy := (aw_proxy w)
     \<lparr>audit_approval_pending := ddel rid (audit_approval_pending (aw_proxy w))\<rparr>\<rparr>"

definition drop_msg :: "string \<Rightarrow> ap_world \<Rightarrow> ap_world" where
  "drop_msg m w = w\<lparr>aw_proxy := (aw_proxy w)
     \<lparr>audit_approval_msgs := ddel m (audit_approval_msgs (aw_proxy w))\<rparr>\<rparr>"

definition count_result :: "nat \<Rightarrow> approval_result \<Rightarrow> ap_world \<Rightarrow> ap_world" where
  "count_result r x w = w\<lparr>aw_results := aw_results w @ [(r, result_text x)]\<rparr>"

text \<open>Up to the send of the message.\<close>

definition req_id_of :: "nat \<Rightarrow> string" where
  "req_id_of n = ''audit-'' @ dec n"

definition request_approval :: "nat \<Rightarrow> string \<Rightarrow> ap_world \<Rightarrow> ap_world \<times> ap_task" where
  "request_approval r name w =
     (let rid = req_id_of (aw_seq w);
          w1 = track r rid (w\<lparr>aw_seq := aw_seq w + 1\<rparr>);
          (evt, p) = new_event (aw_proxy w1);
          entry = \<lparr>ap_name = name, ap_approved = None, ap_event = evt\<rparr>
      in (w1\<lparr>aw_proxy := p\<lparr>audit_approval_pending := dset rid entry (audit_approval_pending p)\<rparr>\<rparr>,
          Asking r rid evt))"

text \<open>After the send: an exception or no message id is a failure.\<close>

definition approval_asked ::
  "nat \<Rightarrow> string \<Rightarrow> nat \<Rightarrow> string option py_result \<Rightarrow> ap_world \<Rightarrow> ap_world \<times> (approval_result + ap_task)" where
  "approval_asked r rid evt answer w =
     (case answer of
        Inr (Some m) \<Rightarrow>
          (w\<lparr>aw_proxy := (aw_proxy w)\<lparr>audit_approval_msgs := dset m rid (audit_approval_msgs (aw_proxy w))\<rparr>\<rparr>,
           Inr (Waiting r rid m evt))
      | _ \<Rightarrow> (count_result r Failed (untrack r rid (drop_pending rid w)), Inl Failed))"

text \<open>How the wait ends: its event is set, the time is over, or another exception.\<close>

datatype wait_end = Woken | Timed_Out | Wait_Raised

definition approval_waited ::
  "nat \<Rightarrow> string \<Rightarrow> string \<Rightarrow> wait_end \<Rightarrow> ap_world \<Rightarrow> ap_world \<times> approval_result" where
  "approval_waited r rid m how w =
     (let w1 = untrack r rid (drop_msg m (drop_pending rid w));
          result = (case how of
              Timed_Out \<Rightarrow> Expired
            | Wait_Raised \<Rightarrow> Failed
            | Woken \<Rightarrow>
                (case dget (audit_approval_pending (aw_proxy w)) rid of
                   Some ap \<Rightarrow> if ap_approved ap = Some True then Approved else Rejected
                 | None \<Rightarrow> Rejected))
      in (count_result r result w1, result))"

text \<open>One turn of the sweeper: every undecided entry is refused, its event set, and dropped.\<close>

definition undecided :: "proxy \<Rightarrow> (string \<times> audit_pending) list" where
  "undecided p = filter (\<lambda>(k, ap). ap_approved ap = None) (audit_approval_pending p)"

definition sweep_approvals :: "ap_world \<Rightarrow> ap_world" where
  "sweep_approvals w =
     w\<lparr>aw_proxy := foldl (\<lambda>p (rid, ap). (set_event (ap_event ap) p)
        \<lparr>audit_approval_pending := ddel rid (audit_approval_pending p)\<rparr>)
       (aw_proxy w) (undecided (aw_proxy w))\<rparr>"

text \<open>
  The end of a request: its approvals are refused and dropped, with the messages that led to them;
  then the variable is reset.
\<close>

definition close_one :: "proxy \<Rightarrow> string \<Rightarrow> proxy" where
  "close_one p rid =
     (let p1 = (case dget (audit_approval_pending p) rid of
            Some ap \<Rightarrow> if ap_approved ap = None then set_event (ap_event ap) p else p
          | None \<Rightarrow> p)
      in p1\<lparr>audit_approval_pending := ddel rid (audit_approval_pending p1)\<rparr>)"

definition close_request :: "nat \<Rightarrow> ap_world \<Rightarrow> ap_world" where
  "close_request r w =
     (let ids = created_of r w;
          p1 = foldl close_one (aw_proxy w) ids;
          p2 = p1\<lparr>audit_approval_msgs := filter (\<lambda>(m, rid). rid \<notin> set ids) (audit_approval_msgs p1)\<rparr>
      in w\<lparr>aw_proxy := p2, aw_created := ddel r (aw_created w)\<rparr>)"

text \<open>The start of a proxied request: \<open>_audit_created_ids_var.set([])\<close>.\<close>

definition open_request :: "nat \<Rightarrow> ap_world \<Rightarrow> ap_world" where
  "open_request r w = w\<lparr>aw_created := dset r [] (aw_created w)\<rparr>"



section \<open>Runs\<close>

text \<open>
  What can happen to the approvals while requests are open: a request opens, asks for an approval,
  hears from the send, ends its wait; a reaction arrives; the sweeper turns; a request ends, which
  also ends its approvals.  The history records the reactions, with the approval their message stood
  for, and the results.
\<close>

datatype ap_fact =
    Pressed string "string option" reaction
  | Ended nat string approval_result

text \<open>The approval a message stands for on the proxy.\<close>

definition approval_at :: "ap_world \<Rightarrow> string \<Rightarrow> string option" where
  "approval_at w orig = dget (audit_approval_msgs (aw_proxy w)) orig"

inductive ap_run :: "conf \<Rightarrow> ap_fact list \<Rightarrow> ap_world \<Rightarrow> ap_task list \<Rightarrow> bool" for cf where
  ap_start: "audit_approval_pending p = [] \<Longrightarrow> audit_approval_msgs p = [] \<Longrightarrow>
    ap_run cf [] \<lparr>aw_proxy = p, aw_seq = 0, aw_created = [], aw_results = []\<rparr> []"
| ap_open: "ap_run cf h w ts \<Longrightarrow> dget (aw_created w) r = None \<Longrightarrow> ap_run cf h (open_request r w) ts"
| ap_request: "ap_run cf h w ts \<Longrightarrow> dget (aw_created w) r \<noteq> None \<Longrightarrow> request_approval r name w = (w', t) \<Longrightarrow>
    ap_run cf h w' (t # ts)"
| ap_sent: "ap_run cf h w ts \<Longrightarrow> Asking r rid evt \<in> set ts \<Longrightarrow>
    approval_asked r rid evt answer w = (w', Inr t) \<Longrightarrow> ap_run cf h w' (t # remove1 (Asking r rid evt) ts)"
| ap_unsent: "ap_run cf h w ts \<Longrightarrow> Asking r rid evt \<in> set ts \<Longrightarrow>
    approval_asked r rid evt answer w = (w', Inl res) \<Longrightarrow>
    ap_run cf (h @ [Ended r rid res]) w' (remove1 (Asking r rid evt) ts)"
| ap_waited: "ap_run cf h w ts \<Longrightarrow> Waiting r rid m evt \<in> set ts \<Longrightarrow>
    how = Woken \<longrightarrow> event_is_set (aw_proxy w) evt \<Longrightarrow> approval_waited r rid m how w = (w', res) \<Longrightarrow>
    ap_run cf (h @ [Ended r rid res]) w' (remove1 (Waiting r rid m evt) ts)"
| ap_react: "ap_run cf h w ts \<Longrightarrow>
    ap_run cf (h @ [Pressed sender (approval_at w orig) (reaction_of_key key)])
      (w\<lparr>aw_proxy := fst (on_reaction cf room stamp sender orig key (aw_proxy w))\<rparr>) ts"
| ap_sweep: "ap_run cf h w ts \<Longrightarrow> ap_run cf h (sweep_approvals w) ts"
| ap_close: "ap_run cf h w ts \<Longrightarrow> ap_run cf h (close_request r w) (filter (\<lambda>t. task_req t \<noteq> r) ts)"

section \<open>What the operations change\<close>

lemma created_track:
  "dget (aw_created (track r rid w)) r' =
     (if r' = r then map_option (\<lambda>ids. ids @ [rid]) (dget (aw_created w) r) else dget (aw_created w) r')"
  by (simp add: track_def split: option.split)

lemma created_untrack:
  "dget (aw_created (untrack r rid w)) r' =
     (if r' = r then map_option (remove1 rid) (dget (aw_created w) r) else dget (aw_created w) r')"
  by (simp add: untrack_def split: option.split)

lemma proxy_track [simp]: "aw_proxy (track r rid w) = aw_proxy w" "aw_proxy (untrack r rid w) = aw_proxy w"
  by (simp_all add: track_def untrack_def split: option.split)

lemma seq_track [simp]: "aw_seq (track r rid w) = aw_seq w" "aw_seq (untrack r rid w) = aw_seq w"
  by (simp_all add: track_def untrack_def split: option.split)

text \<open>The sweeper's loop, as one update.\<close>

lemma sweep_loop:
  "audit_approval_pending (foldl (\<lambda>p (rid, ap). (set_event (ap_event ap) p)
      \<lparr>audit_approval_pending := ddel rid (audit_approval_pending p)\<rparr>) p us)
     = foldl (\<lambda>d (rid, ap). ddel rid d) (audit_approval_pending p) us"
  "audit_approval_msgs (foldl (\<lambda>p (rid, ap). (set_event (ap_event ap) p)
      \<lparr>audit_approval_pending := ddel rid (audit_approval_pending p)\<rparr>) p us) = audit_approval_msgs p"
  "set (events_set (foldl (\<lambda>p (rid, ap). (set_event (ap_event ap) p)
      \<lparr>audit_approval_pending := ddel rid (audit_approval_pending p)\<rparr>) p us)) = set (events_set p) \<union> (ap_event \<circ> snd) ` set us"
  by (induction us arbitrary: p) (auto simp: set_event_def)

lemma dget_ddels: "dget (foldl (\<lambda>d (k, x). ddel k d) d us) k' = (if k' \<in> fst ` set us then None else dget d k')"
  by (induction us arbitrary: d) auto

lemma pending_sweep:
  assumes "dict_ok (audit_approval_pending (aw_proxy w))"
  shows "dget (audit_approval_pending (aw_proxy (sweep_approvals w))) rid =
    (case dget (audit_approval_pending (aw_proxy w)) rid of
       Some ap \<Rightarrow> if ap_approved ap = None then None else Some ap
     | None \<Rightarrow> None)"
proof -
  have "rid \<in> fst ` set (undecided (aw_proxy w)) \<longleftrightarrow>
      (\<exists>ap. dget (audit_approval_pending (aw_proxy w)) rid = Some ap \<and> ap_approved ap = None)"
    by (force simp: undecided_def dget_set [OF assms])
  then show ?thesis
    by (auto simp: sweep_approvals_def sweep_loop dget_ddels split: option.split)
qed

text \<open>The end of a request, as one update.\<close>

lemma pending_close_one:
  "dget (audit_approval_pending (close_one p rid)) k = (if k = rid then None else dget (audit_approval_pending p) k)"
  "audit_approval_msgs (close_one p rid) = audit_approval_msgs p"
  by (auto simp: close_one_def Let_def set_event_def split: option.split)

lemma pending_close_loop:
  "dget (audit_approval_pending (foldl close_one p ids)) k
     = (if k \<in> set ids then None else dget (audit_approval_pending p) k)"
  "audit_approval_msgs (foldl close_one p ids) = audit_approval_msgs p"
  by (induction ids arbitrary: p) (auto simp: pending_close_one)

lemma pending_close:
  "dget (audit_approval_pending (aw_proxy (close_request r w))) k
     = (if k \<in> set (created_of r w) then None else dget (audit_approval_pending (aw_proxy w)) k)"
  by (simp add: close_request_def Let_def pending_close_loop)

text \<open>A reaction leaves the approvals alone, or decides the one its message stands for.\<close>

lemma react_frames:
  "audit_approval_pending (fst (react_unlock key p)) = audit_approval_pending p"
  "audit_approval_msgs (fst (react_unlock key p)) = audit_approval_msgs p"
  "audit_approval_pending (react_registration rid key p) = audit_approval_pending p"
  "audit_approval_msgs (react_registration rid key p) = audit_approval_msgs p"
  "audit_approval_pending (fst (react_hash_change hid key p)) = audit_approval_pending p"
  "audit_approval_msgs (fst (react_hash_change hid key p)) = audit_approval_msgs p"
  "audit_approval_pending (react_credential cf sender rid req key p) = audit_approval_pending p"
  "audit_approval_msgs (react_credential cf sender rid req key p) = audit_approval_msgs p"
  "audit_approval_msgs (react_audit cf sender aid key p) = audit_approval_msgs p"
  by (auto simp: react_unlock_def drop_unlock_def set_unlock_event_def set_event_def react_registration_def
      react_hash_change_def react_credential_def react_audit_def Let_def split: option.split)

lemma react_audit_pending:
  "audit_approval_pending (react_audit cf sender aid key p) = audit_approval_pending p
   \<or> may_approve cf sender \<and> (\<exists>ap. dget (audit_approval_pending p) aid = Some ap \<and> ap_approved ap = None
      \<and> audit_approval_pending (react_audit cf sender aid key p)
          = dset aid (ap\<lparr>ap_approved := Some (key = Check)\<rparr>) (audit_approval_pending p))"
  by (auto simp: react_audit_def set_event_def split: option.split)

lemma on_reaction_msgs:
  "audit_approval_msgs (fst (on_reaction cf room stamp sender orig key p)) = audit_approval_msgs p"
  by (auto simp: on_reaction_def react_def react_frames split: option.split)

lemma react_audit_branch:
  "audit_approval_pending (fst (react cf sender orig key p)) = audit_approval_pending p
   \<or> truthy (dget (audit_approval_msgs p) orig)
      \<and> fst (react cf sender orig key p) = react_audit cf sender (the (dget (audit_approval_msgs p) orig)) key p"
  by (cases "credential_target orig p") (simp_all add: react_def react_frames split: prod.split)

lemma on_reaction_pending:
  "audit_approval_pending (fst (on_reaction cf room stamp sender orig key p)) = audit_approval_pending p
   \<or> may_approve cf sender \<and> (\<exists>aid ap. dget (audit_approval_msgs p) orig = Some aid
      \<and> dget (audit_approval_pending p) aid = Some ap \<and> ap_approved ap = None
      \<and> audit_approval_pending (fst (on_reaction cf room stamp sender orig key p))
          = dset aid (ap\<lparr>ap_approved := Some (reaction_of_key key = Check)\<rparr>) (audit_approval_pending p))"
proof (cases "fst (on_reaction cf room stamp sender orig key p) = p")
  case False
  then have eq: "fst (on_reaction cf room stamp sender orig key p) = fst (react cf sender orig (reaction_of_key key) p)"
    by (simp add: on_reaction_def split: if_splits)
  from react_audit_branch [of cf sender orig "reaction_of_key key" p] show ?thesis
  proof
    assume b: "truthy (dget (audit_approval_msgs p) orig) \<and> fst (react cf sender orig (reaction_of_key key) p)
      = react_audit cf sender (the (dget (audit_approval_msgs p) orig)) (reaction_of_key key) p"
    then obtain aid where "dget (audit_approval_msgs p) orig = Some aid" by (auto simp: truthy_def)
    with b eq react_audit_pending [of cf sender aid "reaction_of_key key" p] show ?thesis by auto
  qed (simp add: eq)
qed simp

section \<open>The tables belong to the running approvals\<close>

text \<open>The tasks have different identifiers, all already drawn, and each request lists its own.\<close>

definition tasks_ok :: "ap_world \<Rightarrow> ap_task list \<Rightarrow> bool" where
  "tasks_ok w ts \<longleftrightarrow> distinct (map task_id ts) \<and> (\<forall>t \<in> set ts. \<exists>n < aw_seq w. task_id t = req_id_of n)
     \<and> (\<forall>r. distinct (created_of r w) \<and> set (created_of r w) = task_id ` {t \<in> set ts. task_req t = r})"

text \<open>Every pending entry, and every message, belongs to a task.\<close>

definition tables_ok :: "proxy \<Rightarrow> ap_task list \<Rightarrow> bool" where
  "tables_ok p ts \<longleftrightarrow> dict_ok (audit_approval_pending p) \<and> dict_ok (audit_approval_msgs p)
     \<and> (\<forall>rid. dget (audit_approval_pending p) rid \<noteq> None \<longrightarrow> rid \<in> task_id ` set ts)
     \<and> (\<forall>m rid. dget (audit_approval_msgs p) m = Some rid \<longrightarrow> (\<exists>r evt. Waiting r rid m evt \<in> set ts))"

lemma req_id_inj [simp]: "req_id_of m = req_id_of n \<longleftrightarrow> m = n"
  by (simp add: req_id_of_def dec_inj)

lemma created_of_track:
  "dget (aw_created w) r \<noteq> None \<Longrightarrow>
    created_of r' (track r rid w) = (if r' = r then created_of r w @ [rid] else created_of r' w)"
  by (auto simp: created_of_def dget_or_def created_track)

lemma created_of_untrack:
  "created_of r' (untrack r rid w) = (if r' = r then remove1 rid (created_of r w) else created_of r' w)"
  by (auto simp: created_of_def dget_or_def created_untrack split: option.split)

lemma created_of_cong: "aw_created w' = aw_created w \<Longrightarrow> created_of r w' = created_of r w"
  by (simp add: created_of_def)

lemma tasks_ok_cong: "aw_created w' = aw_created w \<Longrightarrow> aw_seq w' = aw_seq w \<Longrightarrow> tasks_ok w' ts = tasks_ok w ts"
  by (simp add: tasks_ok_def created_of_def)

lemma tasks_ok_finish:
  assumes "tasks_ok w ts" and "t \<in> set ts"
  shows "tasks_ok (untrack (task_req t) (task_id t) w) (remove1 t ts)"
proof -
  have d: "distinct ts" "inj_on task_id (set ts)" using assms(1) by (auto simp: tasks_ok_def distinct_map)
  have "distinct (map task_id (remove1 t ts))"
    using d by (auto simp: distinct_map set_remove1_eq intro: inj_on_subset)
  moreover have "task_id ` {t' \<in> set ts - {t}. task_req t' = r}
      = task_id ` {t' \<in> set ts. task_req t' = r} - (if r = task_req t then {task_id t} else {})" for r
    using d(2) assms(2) by (auto simp: inj_on_def)
  ultimately show ?thesis
    using assms d(1) by (auto simp: tasks_ok_def created_of_untrack set_remove1_eq)
qed

lemma tasks_ok_move:
  assumes "tasks_ok w ts" and "t \<in> set ts" and "task_id t' = task_id t" and "task_req t' = task_req t"
  shows "tasks_ok w (t' # remove1 t ts)"
proof -
  have d: "distinct ts" "inj_on task_id (set ts)" using assms(1) by (auto simp: tasks_ok_def distinct_map)
  have "task_id t \<notin> task_id ` (set ts - {t})" using d(2) assms(2) by (auto simp: inj_on_def)
  then have "distinct (map task_id (t' # remove1 t ts))"
    using d assms(3) by (auto simp: distinct_map set_remove1_eq intro: inj_on_subset)
  moreover have "task_id ` {x \<in> set (t' # remove1 t ts). task_req x = r} = task_id ` {x \<in> set ts. task_req x = r}" for r
    using assms(2-4) d(1) by (auto simp: set_remove1_eq image_iff) metis
  moreover have "\<exists>n < aw_seq w. task_id x = req_id_of n" if "x \<in> set (t' # remove1 t ts)" for x
  proof -
    have all: "\<forall>y \<in> set ts. \<exists>n < aw_seq w. task_id y = req_id_of n" using assms(1) by (simp add: tasks_ok_def)
    show ?thesis
    proof (cases "x = t'")
      case True
      with bspec [OF all assms(2)] assms(3) show ?thesis by simp
    next
      case False
      with that set_remove1_subset [of t ts] have "x \<in> set ts" by auto
      with all show ?thesis by blast
    qed
  qed
  moreover have "\<forall>r. distinct (created_of r w) \<and> set (created_of r w) = task_id ` {x \<in> set ts. task_req x = r}"
    using assms(1) unfolding tasks_ok_def by (elim conjE)
  ultimately show ?thesis unfolding tasks_ok_def by (simp only: ball_simps simp_thms) (intro ballI, assumption)
qed

lemma tasks_ok_request:
  assumes "tasks_ok w ts" and "dget (aw_created w) r \<noteq> None" and "request_approval r name w = (w', t)"
  shows "tasks_ok w' (t # ts)"
proof -
  let ?rid = "req_id_of (aw_seq w)"
  have t: "task_id t = ?rid" "task_req t = r"
    using assms(3) by (auto simp: request_approval_def Let_def new_event_def)
  have new: "?rid \<notin> task_id ` set ts" using assms(1) by (force simp: tasks_ok_def)
  have c: "created_of r' w' = (if r' = r then created_of r w @ [?rid] else created_of r' w)" for r'
  proof -
    have "aw_created w' = aw_created (track r ?rid (w\<lparr>aw_seq := aw_seq w + 1\<rparr>))"
      using assms(3) by (auto simp: request_approval_def Let_def new_event_def)
    then have "created_of r' w' = created_of r' (track r ?rid (w\<lparr>aw_seq := aw_seq w + 1\<rparr>))" by (rule created_of_cong)
    moreover have "created_of x (w\<lparr>aw_seq := aw_seq w + 1\<rparr>) = created_of x w" for x by (simp add: created_of_def)
    ultimately show ?thesis using assms(2) by (simp add: created_of_track)
  qed
  have q: "aw_seq w' = aw_seq w + 1" using assms(3) by (auto simp: request_approval_def Let_def new_event_def)
  have "task_id ` {x \<in> set (t # ts). task_req x = r'}
      = task_id ` {x \<in> set ts. task_req x = r'} \<union> (if r' = r then {?rid} else {})" for r'
  proof -
    have "{x \<in> set (t # ts). task_req x = r'} = {x \<in> set ts. task_req x = r'} \<union> (if r' = r then {t} else {})"
      using t by auto
    then show ?thesis using t by (simp add: image_Un)
  qed
  moreover have "?rid \<notin> set (created_of r w)" using assms(1) new by (auto simp: tasks_ok_def)
  moreover have "\<exists>n < aw_seq w + 1. task_id x = req_id_of n" if "x \<in> set (t # ts)" for x
    using assms(1) that t less_Suc_eq by (fastforce simp: tasks_ok_def)
  ultimately show ?thesis using assms(1) t new by (auto simp: tasks_ok_def c q)
qed

lemma tasks_ok_close:
  assumes "tasks_ok w ts"
  shows "tasks_ok (close_request r w) (filter (\<lambda>t. task_req t \<noteq> r) ts)"
proof -
  have "created_of r' (close_request r w) = (if r' = r then [] else created_of r' w)" for r'
    by (simp add: created_of_def close_request_def Let_def dget_or_def)
  moreover have "aw_seq (close_request r w) = aw_seq w" by (simp add: close_request_def Let_def)
  moreover have "{t. t \<in> set ts \<and> task_req t \<noteq> r \<and> task_req t = r'} = (if r' = r then {} else {t \<in> set ts. task_req t = r'})" for r'
    by auto
  ultimately show ?thesis using assms by (auto simp: tasks_ok_def distinct_map_filter)
qed

lemma tables_finish:
  assumes "tables_ok p ts" and "inj_on task_id (set ts)" and "distinct ts" and "t \<in> set ts"
    and "audit_approval_pending q = ddel (task_id t) (audit_approval_pending p)"
    and "audit_approval_msgs q = (case t of Waiting r rid m evt \<Rightarrow> ddel m (audit_approval_msgs p) | _ \<Rightarrow> audit_approval_msgs p)"
  shows "tables_ok q (remove1 t ts)"
proof -
  have "task_id t \<noteq> rid \<Longrightarrow> rid \<in> task_id ` set ts \<Longrightarrow> rid \<in> task_id ` (set ts - {t})" for rid by auto
  moreover have "\<exists>r evt. Waiting r rid m evt \<in> set ts - {t}" if "dget (audit_approval_msgs q) m = Some rid" for m rid
  proof -
    have "dget (audit_approval_msgs p) m = Some rid" using that assms(6) by (auto split: ap_task.splits if_splits)
    then obtain r evt where *: "Waiting r rid m evt \<in> set ts" using assms(1) unfolding tables_ok_def by blast
    with that assms(6) have "Waiting r rid m evt \<noteq> t" by (auto split: if_splits)
    with * show ?thesis by blast
  qed
  ultimately show ?thesis using assms(1,3,5,6)
    by (auto simp: tables_ok_def set_remove1_eq split: if_splits ap_task.split)
qed

lemma tables_okI:
  assumes "dict_ok (audit_approval_pending p)" and "dict_ok (audit_approval_msgs p)"
    and "\<And>rid. dget (audit_approval_pending p) rid \<noteq> None \<Longrightarrow> rid \<in> task_id ` set ts"
    and "\<And>m rid. dget (audit_approval_msgs p) m = Some rid \<Longrightarrow> \<exists>r evt. Waiting r rid m evt \<in> set ts"
  shows "tables_ok p ts"
  using assms unfolding tables_ok_def by blast

lemma tables_okD:
  assumes "tables_ok p ts"
  shows "dict_ok (audit_approval_pending p)" and "dict_ok (audit_approval_msgs p)"
    and "\<And>rid. dget (audit_approval_pending p) rid \<noteq> None \<Longrightarrow> rid \<in> task_id ` set ts"
    and "\<And>m rid. dget (audit_approval_msgs p) m = Some rid \<Longrightarrow> \<exists>r evt. Waiting r rid m evt \<in> set ts"
  using assms unfolding tables_ok_def by blast+

lemma tables_request:
  assumes "tables_ok (aw_proxy w) ts" and "request_approval r name w = (w', t)"
  shows "tables_ok (aw_proxy w') (t # ts)"
proof -
  obtain entry where p: "audit_approval_pending (aw_proxy w')
      = dset (req_id_of (aw_seq w)) entry (audit_approval_pending (aw_proxy w))"
    "audit_approval_msgs (aw_proxy w') = audit_approval_msgs (aw_proxy w)" "task_id t = req_id_of (aw_seq w)"
    using assms(2) by (auto simp: request_approval_def Let_def new_event_def)
  show ?thesis using tables_okD [OF assms(1)]
    by (intro tables_okI) (simp_all add: p split: if_splits, blast)
qed

lemma tables_sent:
  assumes "tables_ok p ts" and "Asking r rid evt \<in> set ts"
  shows "tables_ok (p\<lparr>audit_approval_msgs := dset m rid (audit_approval_msgs p)\<rparr>)
    (Waiting r rid m evt # remove1 (Asking r rid evt) ts)"
proof -
  have w: "Waiting r' rid' m' evt' \<in> set ts \<Longrightarrow> Waiting r' rid' m' evt' \<in> set (remove1 (Asking r rid evt) ts)" for r' rid' m' evt'
    by (simp add: in_set_remove1)
  let ?ts = "Waiting r rid m evt # remove1 (Asking r rid evt) ts"
  have sub: "task_id ` set ts \<subseteq> task_id ` set ?ts"
  proof
    fix x assume "x \<in> task_id ` set ts"
    then obtain t where "t \<in> set ts" "x = task_id t" by blast
    then show "x \<in> task_id ` set ?ts" by (cases "t = Asking r rid evt") (auto simp: in_set_remove1)
  qed
  have new: "\<exists>r' evt'. Waiting r' rid' m' evt' \<in> set ?ts"
    if "dget (dset m rid (audit_approval_msgs p)) m' = Some rid'" for m' rid'
  proof (cases "m' = m")
    case False
    with that have "dget (audit_approval_msgs p) m' = Some rid'" by simp
    with tables_okD(4) [OF assms(1)] w show ?thesis by (metis list.set_intros(2))
  qed (use that in auto)
  show ?thesis
  proof (rule tables_okI)
    fix rid' assume "dget (audit_approval_pending (p\<lparr>audit_approval_msgs := dset m rid (audit_approval_msgs p)\<rparr>)) rid' \<noteq> None"
    then have "dget (audit_approval_pending p) rid' \<noteq> None" by simp
    with tables_okD(3) [OF assms(1)] sub show "rid' \<in> task_id ` set ?ts" by blast
  next
    fix m' rid' assume "dget (audit_approval_msgs (p\<lparr>audit_approval_msgs := dset m rid (audit_approval_msgs p)\<rparr>)) m' = Some rid'"
    then have "dget (dset m rid (audit_approval_msgs p)) m' = Some rid'" by simp
    then show "\<exists>r' evt'. Waiting r' rid' m' evt' \<in> set ?ts" by (rule new)
  qed (simp_all add: tables_okD [OF assms(1)])
qed

lemma tables_react:
  assumes "tables_ok p ts"
  shows "tables_ok (fst (on_reaction cf room stamp sender orig key p)) ts"
  using on_reaction_pending [of cf room stamp sender orig key p]
proof
  assume "audit_approval_pending (fst (on_reaction cf room stamp sender orig key p)) = audit_approval_pending p"
  with assms show ?thesis unfolding tables_ok_def on_reaction_msgs by simp
next
  assume "may_approve cf sender \<and> (\<exists>aid ap. dget (audit_approval_msgs p) orig = Some aid
      \<and> dget (audit_approval_pending p) aid = Some ap \<and> ap_approved ap = None
      \<and> audit_approval_pending (fst (on_reaction cf room stamp sender orig key p))
          = dset aid (ap\<lparr>ap_approved := Some (reaction_of_key key = Check)\<rparr>) (audit_approval_pending p))"
  then obtain aid ap v where aid: "dget (audit_approval_pending p) aid = Some ap"
    and q: "audit_approval_pending (fst (on_reaction cf room stamp sender orig key p)) = dset aid v (audit_approval_pending p)"
    by blast
  from tables_okD(3) [OF assms, of aid] aid have "aid \<in> task_id ` set ts" by simp
  show ?thesis
  proof (rule tables_okI)
    fix rid assume "dget (audit_approval_pending (fst (on_reaction cf room stamp sender orig key p))) rid \<noteq> None"
    then have "rid = aid \<or> dget (audit_approval_pending p) rid \<noteq> None" by (simp add: q split: if_splits)
    with \<open>aid \<in> task_id ` set ts\<close> tables_okD(3) [OF assms] show "rid \<in> task_id ` set ts" by blast
  qed (simp_all add: q on_reaction_msgs tables_okD [OF assms])
qed

lemma dict_ok_ddels: "dict_ok d \<Longrightarrow> dict_ok (foldl (\<lambda>d (k, x). ddel k d) d us)"
  by (induction us arbitrary: d) auto

lemma tables_sweep:
  assumes "tables_ok (aw_proxy w) ts"
  shows "tables_ok (aw_proxy (sweep_approvals w)) ts"
proof -
  have d: "dict_ok (audit_approval_pending (aw_proxy w))" using assms by (simp add: tables_ok_def)
  have "dict_ok (audit_approval_pending (aw_proxy (sweep_approvals w)))"
    by (simp add: sweep_approvals_def sweep_loop dict_ok_ddels d)
  moreover have "audit_approval_msgs (aw_proxy (sweep_approvals w)) = audit_approval_msgs (aw_proxy w)"
    by (simp add: sweep_approvals_def sweep_loop)
  moreover have "dget (audit_approval_pending (aw_proxy (sweep_approvals w))) rid \<noteq> None \<Longrightarrow>
      dget (audit_approval_pending (aw_proxy w)) rid \<noteq> None" for rid
    by (auto simp: pending_sweep [OF d] split: option.splits)
  ultimately show ?thesis using assms unfolding tables_ok_def by presburger
qed

lemma dict_ok_close_loop: "dict_ok (audit_approval_pending p) \<Longrightarrow> dict_ok (audit_approval_pending (foldl close_one p ids))"
proof (induction ids arbitrary: p)
  case (Cons a ids)
  have "audit_approval_pending (close_one p a) = ddel a (audit_approval_pending p)"
    by (auto simp: close_one_def Let_def set_event_def split: option.split)
  with Cons show ?case by simp
qed simp

lemma dict_ok_filter: "dict_ok d \<Longrightarrow> dict_ok (filter P d)"
  by (auto simp: dict_ok_def distinct_map_filter)

lemma tables_close:
  assumes "tables_ok (aw_proxy w) ts" and "tasks_ok w ts"
  shows "tables_ok (aw_proxy (close_request r w)) (filter (\<lambda>t. task_req t \<noteq> r) ts)"
proof -
  have ids: "set (created_of r w) = task_id ` {t \<in> set ts. task_req t = r}" using assms(2) by (simp add: tasks_ok_def)
  have d: "dict_ok (audit_approval_pending (aw_proxy w))" "dict_ok (audit_approval_msgs (aw_proxy w))"
    using assms(1) by (simp_all add: tables_ok_def)
  have "dict_ok (audit_approval_pending (aw_proxy (close_request r w)))"
    "dict_ok (audit_approval_msgs (aw_proxy (close_request r w)))"
    by (simp_all add: close_request_def Let_def dict_ok_close_loop pending_close_loop d dict_ok_filter)
  moreover have "rid \<in> task_id ` set (filter (\<lambda>t. task_req t \<noteq> r) ts)"
    if "dget (audit_approval_pending (aw_proxy (close_request r w))) rid \<noteq> None" for rid
  proof -
    from that have "rid \<notin> set (created_of r w)" "dget (audit_approval_pending (aw_proxy w)) rid \<noteq> None"
      by (auto simp: pending_close split: if_splits)
    with assms(1) obtain t where "t \<in> set ts" "task_id t = rid" unfolding tables_ok_def by blast
    with \<open>rid \<notin> set (created_of r w)\<close> ids show ?thesis by auto
  qed
  moreover have "\<exists>r' evt. Waiting r' rid m evt \<in> set (filter (\<lambda>t. task_req t \<noteq> r) ts)"
    if "dget (audit_approval_msgs (aw_proxy (close_request r w))) m = Some rid" for m rid
  proof -
    from that have "rid \<notin> set (created_of r w)" "dget (audit_approval_msgs (aw_proxy w)) m = Some rid"
      by (auto simp: close_request_def Let_def pending_close_loop dget_filter d split: option.splits if_splits)
    moreover from this(2) assms(1) obtain r' evt where "Waiting r' rid m evt \<in> set ts"
      unfolding tables_ok_def by blast
    ultimately have "r' \<noteq> r" using ids by force
    with \<open>Waiting r' rid m evt \<in> set ts\<close> show ?thesis by auto
  qed
  ultimately show ?thesis unfolding tables_ok_def by blast
qed

lemma ap_run_tables: "ap_run cf h w ts \<Longrightarrow> tasks_ok w ts \<and> tables_ok (aw_proxy w) ts"
proof (induction rule: ap_run.induct)
  case (ap_start p)
  then show ?case by (simp add: tasks_ok_def tables_ok_def created_of_def dget_or_def)
next
  case (ap_open h w ts r)
  then have "created_of r' (open_request r w) = created_of r' w" for r'
    by (simp add: created_of_def open_request_def dget_or_def)
  with ap_open show ?case by (simp add: tasks_ok_def open_request_def)
next
  case (ap_request h w ts r name w' t)
  then show ?case using tasks_ok_request tables_request by blast
next
  case (ap_sent h w ts r rid evt answer w' t)
  then obtain m where m: "t = Waiting r rid m evt"
    "w' = w\<lparr>aw_proxy := (aw_proxy w)\<lparr>audit_approval_msgs := dset m rid (audit_approval_msgs (aw_proxy w))\<rparr>\<rparr>"
    by (auto simp: approval_asked_def split: sum.splits option.splits)
  have "tasks_ok w (t # remove1 (Asking r rid evt) ts)"
    using ap_sent m by (intro tasks_ok_move) auto
  with ap_sent tables_sent [of "aw_proxy w" ts r rid evt m] show ?case
    by (simp add: m tasks_ok_cong [of w' w, unfolded m])
next
  case (ap_unsent h w ts r rid evt answer w' res)
  then have w': "w' = count_result r Failed (untrack r rid (drop_pending rid w))"
    by (auto simp: approval_asked_def split: sum.splits option.splits)
  have "inj_on task_id (set ts)" "distinct ts" using ap_unsent by (auto simp: tasks_ok_def distinct_map)
  with ap_unsent tables_finish [of "aw_proxy w" ts "Asking r rid evt" "aw_proxy w'"]
    tasks_ok_finish [of "drop_pending rid w" ts "Asking r rid evt"] show ?case
    by (simp add: w' count_result_def drop_pending_def tasks_ok_def created_of_def)
next
  case (ap_waited h w ts r rid m evt how w' res)
  then have w': "w' = count_result r res (untrack r rid (drop_msg m (drop_pending rid w)))"
    by (auto simp: approval_waited_def Let_def)
  have "inj_on task_id (set ts)" "distinct ts" using ap_waited by (auto simp: tasks_ok_def distinct_map)
  with ap_waited tables_finish [of "aw_proxy w" ts "Waiting r rid m evt" "aw_proxy w'"]
    tasks_ok_finish [of "drop_msg m (drop_pending rid w)" ts "Waiting r rid m evt"] show ?case
    by (simp add: w' count_result_def drop_pending_def drop_msg_def tasks_ok_def created_of_def)
next
  case (ap_react h w ts sender orig key room stamp)
  then show ?case by (simp add: tables_react tasks_ok_def created_of_def)
next
  case (ap_sweep h w ts)
  then show ?case using tables_sweep by (simp add: tasks_ok_def created_of_def sweep_approvals_def)
next
  case (ap_close h w ts r)
  then show ?case by (simp add: tasks_ok_close tables_close)
qed

section \<open>Properties of the approvals\<close>

fun task_event :: "ap_task \<Rightarrow> nat" where
  "task_event (Asking _ _ evt) = evt"
| "task_event (Waiting _ _ _ evt) = evt"

lemma run_tasks_distinct:
  assumes "ap_run cf h w ts" and "t \<in> set ts" and "t' \<in> set ts" and "task_id t = task_id t'"
  shows "t = t'"
  using ap_run_tables [OF assms(1)] assms(2-4) by (auto simp: tasks_ok_def distinct_map inj_on_def)

lemma close_pending_sub:
  "dget (audit_approval_pending (aw_proxy (close_request r w))) rid = Some ap \<Longrightarrow>
    dget (audit_approval_pending (aw_proxy w)) rid = Some ap"
  by (simp add: pending_close split: if_splits)

lemma drop_pending_sub:
  "dget (audit_approval_pending (aw_proxy (count_result r res (untrack r rid (drop_pending rid' w))))) k = Some ap \<Longrightarrow>
    dget (audit_approval_pending (aw_proxy w)) k = Some ap"
  "dget (audit_approval_pending (aw_proxy (count_result r res (untrack r rid (drop_msg m (drop_pending rid' w)))))) k = Some ap \<Longrightarrow>
    dget (audit_approval_pending (aw_proxy w)) k = Some ap"
  by (simp_all add: count_result_def drop_pending_def drop_msg_def split: if_splits)

lemma asked_pending_sub:
  assumes "approval_asked r rid evt answer w = (w', x)"
    and "dget (audit_approval_pending (aw_proxy w')) k = Some ap"
  shows "dget (audit_approval_pending (aw_proxy w)) k = Some ap"
proof (cases "\<exists>m. answer = Inr (Some m)")
  case True
  with assms show ?thesis by (auto simp: approval_asked_def)
next
  case False
  then have w': "w' = count_result r Failed (untrack r rid (drop_pending rid w))"
    using assms(1) by (auto simp: approval_asked_def split: sum.splits option.splits)
  show ?thesis by (rule drop_pending_sub(1) [OF assms(2) [unfolded w']])
qed

lemma waited_pending_sub:
  assumes "approval_waited r rid m how w = (w', x)"
    and "dget (audit_approval_pending (aw_proxy w')) k = Some ap"
  shows "dget (audit_approval_pending (aw_proxy w)) k = Some ap"
proof -
  have w': "w' = count_result r x (untrack r rid (drop_msg m (drop_pending rid w)))"
    using assms(1) by (auto simp: approval_waited_def Let_def)
  show ?thesis by (rule drop_pending_sub(2) [OF assms(2) [unfolded w']])
qed

lemma request_pending:
  "request_approval r name w = (w', t) \<Longrightarrow> dget (audit_approval_pending (aw_proxy w')) k
     = (if k = task_id t then Some \<lparr>ap_name = name, ap_approved = None, ap_event = task_event t\<rparr>
        else dget (audit_approval_pending (aw_proxy w)) k)"
  by (auto simp: request_approval_def Let_def new_event_def)

text \<open>An entry carries its task's event.\<close>

lemma run_events:
  "ap_run cf h w ts \<Longrightarrow> t \<in> set ts \<Longrightarrow> dget (audit_approval_pending (aw_proxy w)) (task_id t) = Some ap \<Longrightarrow>
    ap_event ap = task_event t"
proof (induction arbitrary: t ap rule: ap_run.induct)
  case (ap_request h w ts r name w' t')
  show ?case
  proof (cases "task_id t = task_id t'")
    case True
    have "ap_run cf h w' (t' # ts)" using ap_request.hyps by (rule ap_run.ap_request)
    then have "t = t'" using True ap_request.prems(1) by (auto intro: run_tasks_distinct)
    with ap_request show ?thesis by (auto simp: request_pending)
  next
    case False
    with ap_request show ?thesis by (auto simp: request_pending)
  qed
next
  case (ap_sent h w ts r rid evt answer w' t')
  then have t': "task_id t' = rid" "task_event t' = evt"
    by (auto simp: approval_asked_def split: sum.splits option.splits)
  have old: "dget (audit_approval_pending (aw_proxy w)) (task_id t) = Some ap"
    by (rule asked_pending_sub [OF ap_sent.hyps(3) ap_sent.prems(2)])
  show ?case
  proof (cases "t = t'")
    case True
    with old t' ap_sent.IH [of "Asking r rid evt" ap] ap_sent.hyps(2) show ?thesis by simp
  next
    case False
    with ap_sent.prems(1) set_remove1_subset [of "Asking r rid evt" ts] have "t \<in> set ts" by auto
    then show ?thesis using old by (rule ap_sent.IH)
  qed
next
  case (ap_unsent h w ts r rid evt answer w' res)
  have "t \<in> set ts" using ap_unsent.prems(1) set_remove1_subset by fastforce
  then show ?case by (rule ap_unsent.IH) (rule asked_pending_sub [OF ap_unsent.hyps(3) ap_unsent.prems(2)])
next
  case (ap_waited h w ts r rid m evt how w' res)
  have "t \<in> set ts" using ap_waited.prems(1) set_remove1_subset by fastforce
  then show ?case by (rule ap_waited.IH) (rule waited_pending_sub [OF ap_waited.hyps(4) ap_waited.prems(2)])
next
  case (ap_react h w ts sender orig key room stamp)
  from on_reaction_pending [of cf room stamp sender orig key "aw_proxy w"] ap_react show ?case
    by (elim disjE conjE exE) (auto split: if_splits)
next
  case (ap_sweep h w ts)
  have "dict_ok (audit_approval_pending (aw_proxy w))"
    using ap_run_tables [OF ap_sweep.hyps] by (simp add: tables_ok_def)
  with ap_sweep show ?case by (auto simp: pending_sweep split: option.splits if_splits)
next
  case (ap_close h w ts r)
  from ap_close.prems(1) have "t \<in> set ts" by simp
  then show ?case by (rule ap_close.IH) (rule close_pending_sub [OF ap_close.prems(2)])
qed (simp_all add: open_request_def)

text \<open>
  C10. Nothing is left behind: in every run, a pending entry belongs to an approval in progress, and so
  does a message; when none is in progress, both tables are empty, however the approvals ended.
\<close>

theorem approvals_leave_nothing:
  assumes "ap_run cf h w ts"
  shows "(\<forall>rid. dget (audit_approval_pending (aw_proxy w)) rid \<noteq> None \<longrightarrow> (\<exists>t \<in> set ts. task_id t = rid))
    \<and> (\<forall>m rid. dget (audit_approval_msgs (aw_proxy w)) m = Some rid \<longrightarrow> (\<exists>r evt. Waiting r rid m evt \<in> set ts))
    \<and> (ts = [] \<longrightarrow> audit_approval_pending (aw_proxy w) = [] \<and> audit_approval_msgs (aw_proxy w) = [])"
proof -
  have ok: "tables_ok (aw_proxy w) ts" using ap_run_tables [OF assms] by simp
  have "d = []" if "\<And>k. dget d k = None" for d :: "(string, 'b) dict"
    using that [of "fst (hd d)"] by (cases d) auto
  then have "ts = [] \<Longrightarrow> audit_approval_pending (aw_proxy w) = [] \<and> audit_approval_msgs (aw_proxy w) = []"
    using tables_okD(3,4) [OF ok] by (metis empty_iff image_empty list.set(1) not_Some_eq)
  with tables_okD(3,4) [OF ok] show ?thesis by (auto simp: image_iff)
qed

text \<open>A decided entry has been decided by a reaction of an admitted sender.\<close>

definition pressed_for :: "conf \<Rightarrow> ap_fact list \<Rightarrow> string \<Rightarrow> bool" where
  "pressed_for cf h rid \<longleftrightarrow> (\<exists>sender. may_approve cf sender \<and> Pressed sender (Some rid) Check \<in> set h)"

lemma pressed_for_append: "pressed_for cf h rid \<Longrightarrow> pressed_for cf (h @ h') rid"
  by (auto simp: pressed_for_def)

lemma run_decided:
  "ap_run cf h w ts \<Longrightarrow> dget (audit_approval_pending (aw_proxy w)) rid = Some ap \<Longrightarrow> ap_approved ap = Some True \<Longrightarrow>
    pressed_for cf h rid"
proof (induction arbitrary: rid ap rule: ap_run.induct)
  case (ap_request h w ts r name w' t')
  from ap_request.prems have "dget (audit_approval_pending (aw_proxy w)) rid = Some ap"
    by (auto simp: request_pending [OF ap_request.hyps(3)] split: if_splits)
  then show ?case using ap_request.prems(2) by (rule ap_request.IH)
next
  case (ap_sent h w ts r rid' evt answer w' t')
  show ?case by (rule ap_sent.IH [OF asked_pending_sub [OF ap_sent.hyps(3) ap_sent.prems(1)] ap_sent.prems(2)])
next
  case (ap_unsent h w ts r rid' evt answer w' res)
  show ?case
    by (rule pressed_for_append) (rule ap_unsent.IH [OF asked_pending_sub [OF ap_unsent.hyps(3) ap_unsent.prems(1)] ap_unsent.prems(2)])
next
  case (ap_waited h w ts r rid' m evt how w' res)
  show ?case
    by (rule pressed_for_append) (rule ap_waited.IH [OF waited_pending_sub [OF ap_waited.hyps(4) ap_waited.prems(1)] ap_waited.prems(2)])
next
  case (ap_react h w ts sender orig key room stamp)
  let ?q = "fst (on_reaction cf room stamp sender orig key (aw_proxy w))"
  from on_reaction_pending [of cf room stamp sender orig key "aw_proxy w"] show ?case
  proof (elim disjE conjE exE)
    assume "audit_approval_pending ?q = audit_approval_pending (aw_proxy w)"
    with ap_react.prems(1) have "dget (audit_approval_pending (aw_proxy w)) rid = Some ap" by simp
    then show ?thesis using ap_react.prems(2) by (intro pressed_for_append) (rule ap_react.IH)
  next
    fix aid ap' assume h: "may_approve cf sender" "dget (audit_approval_msgs (aw_proxy w)) orig = Some aid"
      "audit_approval_pending ?q = dset aid (ap'\<lparr>ap_approved := Some (reaction_of_key key = Check)\<rparr>) (audit_approval_pending (aw_proxy w))"
    show ?thesis
    proof (cases "rid = aid")
      case True
      with h(3) ap_react.prems have "reaction_of_key key = Check" by auto
      with h(1,2) True show ?thesis by (auto simp: pressed_for_def approval_at_def)
    next
      case False
      with h(3) ap_react.prems(1) have "dget (audit_approval_pending (aw_proxy w)) rid = Some ap" by simp
      then show ?thesis using ap_react.prems(2) by (intro pressed_for_append) (rule ap_react.IH)
    qed
  qed
next
  case (ap_sweep h w ts)
  have "dict_ok (audit_approval_pending (aw_proxy w))"
    using ap_run_tables [OF ap_sweep.hyps] by (simp add: tables_ok_def)
  then have "dget (audit_approval_pending (aw_proxy w)) rid = Some ap"
    using ap_sweep.prems(1) by (auto simp: pending_sweep split: option.splits if_splits)
  then show ?case using ap_sweep.prems(2) by (rule ap_sweep.IH)
next
  case (ap_close h w ts r)
  show ?case by (rule ap_close.IH [OF close_pending_sub [OF ap_close.prems(1)] ap_close.prems(2)])
qed (simp_all add: open_request_def)

lemma run_approved:
  "ap_run cf h w ts \<Longrightarrow> Ended r rid Approved \<in> set h \<Longrightarrow> pressed_for cf h rid"
proof (induction arbitrary: r rid rule: ap_run.induct)
  case (ap_unsent h w ts r' rid' evt answer w' res)
  then have "res = Failed" by (auto simp: approval_asked_def split: sum.splits option.splits)
  with ap_unsent show ?case by (auto intro: pressed_for_append)
next
  case (ap_waited h w ts r' rid' m evt how w' res)
  show ?case
  proof (cases "Ended r rid Approved \<in> set h")
    case True
    then show ?thesis by (intro pressed_for_append) (rule ap_waited.IH)
  next
    case False
    with ap_waited.prems have "rid' = rid" "res = Approved" by auto
    with ap_waited.hyps(4) obtain ap where "dget (audit_approval_pending (aw_proxy w)) rid = Some ap" "ap_approved ap = Some True"
      by (auto simp: approval_waited_def Let_def split: wait_end.splits option.splits if_splits)
    then show ?thesis by (intro pressed_for_append) (rule run_decided [OF ap_waited.hyps(1)])
  qed
next
  case (ap_react h w ts sender orig key room stamp)
  then have "Ended r rid Approved \<in> set h" by auto
  then show ?case by (intro pressed_for_append) (rule ap_react.IH)
qed simp_all

text \<open>
  C9. A denied tool call is only let through by a person: an approval that ended as approved had a
  check mark, on its own message, from a sender the whitelist admits.  Failures to send, expiry,
  the sweeper, the end of a request and every other reaction never approve.
\<close>

theorem approval_needs_reaction:
  assumes "ap_run cf h w ts" and "Ended r rid Approved \<in> set h"
  shows "\<exists>sender. may_approve cf sender \<and> Pressed sender (Some rid) Check \<in> set h"
  using run_approved [OF assms] by (simp add: pressed_for_def)

text \<open>
  The sweeper does not look for orphans: one turn refuses every undecided approval in progress,
  however new and within its time limit.  Its event is set, the wait ends as rejected, and no
  reaction after the turn changes that.
\<close>

theorem sweeper_ends_every_wait:
  assumes "ap_run cf h w ts" and "Waiting r rid m evt \<in> set ts"
    and "dget (audit_approval_pending (aw_proxy w)) rid = Some ap" and "ap_approved ap = None"
  shows "event_is_set (aw_proxy (sweep_approvals w)) evt
    \<and> snd (approval_waited r rid m Woken (sweep_approvals w)) = Rejected
    \<and> snd (approval_waited r rid m Woken ((sweep_approvals w)\<lparr>aw_proxy :=
          fst (on_reaction cf room stamp sender orig key (aw_proxy (sweep_approvals w)))\<rparr>)) = Rejected"
proof -
  let ?s = "sweep_approvals w"
  have d: "dict_ok (audit_approval_pending (aw_proxy w))"
    using ap_run_tables [OF assms(1)] by (simp add: tables_ok_def)
  have "(rid, ap) \<in> set (undecided (aw_proxy w))"
    using assms(3,4) d by (simp add: undecided_def dget_set)
  moreover have "ap_event ap = evt" using run_events [OF assms(1,2)] assms(3) by simp
  ultimately have e: "event_is_set (aw_proxy ?s) evt"
    by (force simp: event_is_set_def sweep_approvals_def sweep_loop)
  have gone: "dget (audit_approval_pending (aw_proxy ?s)) rid = None"
    by (simp add: pending_sweep [OF d] assms(3,4))
  moreover have "dget (audit_approval_pending (fst (on_reaction cf room stamp sender orig key (aw_proxy ?s)))) rid = None"
    using on_reaction_pending [of cf room stamp sender orig key "aw_proxy ?s"] gone
    by (elim disjE conjE exE) (auto split: if_splits)
  ultimately show ?thesis using e by (simp add: approval_waited_def Let_def)
qed

text \<open>
  The end of a request touches no other request's approvals: the entries of their tasks and the
  messages that lead to them stay as they are.
\<close>

theorem close_keeps_others:
  assumes "ap_run cf h w ts" and "t \<in> set ts" and "task_req t \<noteq> r"
  shows "dget (audit_approval_pending (aw_proxy (close_request r w))) (task_id t)
      = dget (audit_approval_pending (aw_proxy w)) (task_id t)
    \<and> (dget (audit_approval_msgs (aw_proxy w)) m = Some (task_id t) \<longrightarrow>
        dget (audit_approval_msgs (aw_proxy (close_request r w))) m = Some (task_id t))"
proof -
  have "task_id t \<notin> set (created_of r w)"
  proof
    assume "task_id t \<in> set (created_of r w)"
    then obtain t' where "t' \<in> set ts" "task_id t' = task_id t" "task_req t' = r"
      using ap_run_tables [OF assms(1)] by (auto simp: tasks_ok_def)
    with run_tasks_distinct [OF assms(1)] assms(2,3) show False by metis
  qed
  moreover have "dict_ok (audit_approval_msgs (aw_proxy w))"
    using ap_run_tables [OF assms(1)] by (simp add: tables_ok_def)
  ultimately show ?thesis
    by (auto simp: pending_close) (simp add: close_request_def Let_def pending_close_loop dget_filter)
qed

section \<open>A run\<close>

text \<open>An approval that waits for its reaction, in request 0.\<close>

definition bash_entry :: "bool option \<Rightarrow> audit_pending" where
  "bash_entry b = \<lparr>ap_name = ''bash'', ap_approved = b, ap_event = 0\<rparr>"

definition asked_world :: "bool option \<Rightarrow> nat list \<Rightarrow> ap_world" where
  "asked_world b evs = \<lparr>aw_proxy = proxy_init\<lparr>next_event := 1, events_set := evs,
       audit_approval_pending := [(''audit-0'', bash_entry b)], audit_approval_msgs := [(''$e'', ''audit-0'')]\<rparr>,
     aw_seq = 1, aw_created = [(0, [''audit-0''])], aw_results = []\<rparr>"

abbreviation waiting_task :: ap_task where
  "waiting_task \<equiv> Waiting 0 ''audit-0'' ''$e'' 0"

lemma req_id_0: "req_id_of 0 = ''audit-0''"
  by (simp add: req_id_of_def dec.simps text_eval)

lemma asked_run: "ap_run demo_conf [] (asked_world None []) [waiting_task]"
proof -
  let ?w0 = "\<lparr>aw_proxy = proxy_init, aw_seq = 0, aw_created = [], aw_results = []\<rparr>"
  have "ap_run demo_conf [] ?w0 []" by (rule ap_start) (simp_all add: proxy_init_def)
  then have "ap_run demo_conf [] (open_request 0 ?w0) []" by (rule ap_open) simp
  then have 1: "ap_run demo_conf [] (fst (request_approval 0 ''bash'' (open_request 0 ?w0)))
      [snd (request_approval 0 ''bash'' (open_request 0 ?w0))]"
    by (rule ap_request [of _ _ _ "[]"]) (simp_all add: open_request_def)
  have t: "snd (request_approval 0 ''bash'' (open_request 0 ?w0)) = Asking 0 ''audit-0'' 0"
    by (simp add: request_approval_def open_request_def track_def new_event_def proxy_init_def req_id_0 Let_def)
  have "approval_asked 0 ''audit-0'' 0 (Inr (Some ''$e'')) (fst (request_approval 0 ''bash'' (open_request 0 ?w0)))
      = (asked_world None [], Inr waiting_task)"
    by (simp add: approval_asked_def request_approval_def open_request_def track_def new_event_def proxy_init_def
        req_id_0 Let_def asked_world_def bash_entry_def)
  from ap_sent [OF 1 _ this] show ?thesis by (simp add: t)
qed

lemma pressed_run: "ap_run demo_conf [Pressed ''@boss'' (Some ''audit-0'') Check] (asked_world (Some True) [0]) [waiting_task]"
proof -
  have k: "reaction_of_key (bytes [226, 156, 133]) = Check" by (simp add: reaction_of_key_def)
  have "fst (on_reaction demo_conf ''!r'' 0 ''@boss'' ''$e'' (bytes [226, 156, 133]) (aw_proxy (asked_world None [])))
      = aw_proxy (asked_world (Some True) [0])"
    by (simp add: on_reaction_def k react_def credential_target_def asked_world_def proxy_init_def truthy_def
        react_audit_def may_approve_def bash_entry_def set_event_def)
  then have "(asked_world None [])\<lparr>aw_proxy :=
      fst (on_reaction demo_conf ''!r'' 0 ''@boss'' ''$e'' (bytes [226, 156, 133]) (aw_proxy (asked_world None [])))\<rparr>
      = asked_world (Some True) [0]"
    by (simp add: asked_world_def)
  moreover have "approval_at (asked_world None []) ''$e'' = Some ''audit-0''" by (simp add: approval_at_def asked_world_def)
  ultimately show ?thesis
    using ap_react [OF asked_run, of "''@boss''" "''$e''" "bytes [226, 156, 133]" "''!r''" 0] by (simp add: k)
qed

lemma approved_run:
  "ap_run demo_conf [Pressed ''@boss'' (Some ''audit-0'') Check, Ended 0 ''audit-0'' Approved]
     (fst (approval_waited 0 ''audit-0'' ''$e'' Woken (asked_world (Some True) [0]))) []"
proof -
  have "approval_waited 0 ''audit-0'' ''$e'' Woken (asked_world (Some True) [0])
      = (fst (approval_waited 0 ''audit-0'' ''$e'' Woken (asked_world (Some True) [0])), Approved)"
    by (simp add: approval_waited_def Let_def asked_world_def bash_entry_def)
  from ap_waited [OF pressed_run _ _ this] show ?thesis
    by (simp add: asked_world_def event_is_set_def)
qed

theorem approvals_leave_nothing_witness:
  "audit_approval_pending (aw_proxy (fst (approval_waited 0 ''audit-0'' ''$e'' Woken (asked_world (Some True) [0])))) = []"
  using approvals_leave_nothing [OF approved_run] by simp

theorem approval_needs_reaction_witness:
  "\<exists>sender. may_approve demo_conf sender
     \<and> Pressed sender (Some ''audit-0'') Check \<in> set [Pressed ''@boss'' (Some ''audit-0'') Check, Ended 0 ''audit-0'' Approved]"
  by (rule approval_needs_reaction [OF approved_run, of 0]) simp

theorem sweeper_ends_every_wait_witness:
  "snd (approval_waited 0 ''audit-0'' ''$e'' Woken (sweep_approvals (asked_world None []))) = Rejected"
  using sweeper_ends_every_wait [OF asked_run, of 0 "''audit-0''" "''$e''" 0 "bash_entry None"]
  by (simp add: asked_world_def bash_entry_def)

theorem close_keeps_others_witness:
  "dget (audit_approval_pending (aw_proxy (close_request 1 (asked_world None [])))) ''audit-0'' = Some (bash_entry None)"
  using close_keeps_others [OF asked_run, of waiting_task 1 "''$e''"] by (simp add: asked_world_def)

end
