(* ===== verification/Tool_Gate.thy ===== *)
theory Tool_Gate
  imports Stream_Text Stream_Events Audit_Approval
begin

text \<open>
  The gate for the tool calls of a streamed response (\<open>_handle_anthropic_event\<close>,
  \<open>_handle_responses_event\<close> of \<open>_llm.py\<close>): arguments are collected and only sent when the call ends
  and the audit allows it; a call whose arguments look dangerous is put on hold, and every event waits
  until the verdict.  The rewriting of text (restoring and masking) threads a state of its own and is
  an argument; so are the outcome of an approval and the audit of a call.  The client is connected:
  a write succeeds.
\<close>

section \<open>State\<close>

definition SSE_MAX_BUF :: nat where "SSE_MAX_BUF = 1048576"
definition LINE_BUF_FLUSH :: nat where "LINE_BUF_FLUSH = 16384"

record 'p gate_env =
  ge_lib :: json_lib
  ge_cfg :: audit_cfg
  ge_audit :: "string \<Rightarrow> string \<Rightarrow> audit_log \<Rightarrow> audit_log \<times> string py_result"
  ge_approve :: "string \<Rightarrow> string \<Rightarrow> approval_result"
  ge_line :: "'p \<Rightarrow> string \<Rightarrow> 'p \<times> string"
  ge_text :: "'p \<Rightarrow> string \<Rightarrow> 'p \<times> string"
  ge_json :: "'p \<Rightarrow> string \<Rightarrow> 'p \<times> string"
  ge_active :: "string list"
  ge_pii_tokens :: "'p \<Rightarrow> string list option"
  ge_hints :: "string \<Rightarrow> string list option"

record 'p gate =
  g_hold :: bool
  g_buf :: "string list"
  g_bytes :: nat
  g_tool :: "string option"
  g_content :: string
  g_reason :: string
  g_args :: string
  g_out :: "string list"
  g_log :: audit_log
  g_pii :: 'p

definition tool_name :: "'p gate \<Rightarrow> string" where
  "tool_name g = (case g_tool g of None \<Rightarrow> [] | Some n \<Rightarrow> n)"

section \<open>Writing\<close>

text \<open>An event that was built, unless building it raised.\<close>

definition put_event :: "string py_result \<Rightarrow> 'p gate \<Rightarrow> 'p gate py_result" where
  "put_event r g = (case r of Inl e \<Rightarrow> Inl e | Inr s \<Rightarrow> Inr (g\<lparr>g_out := g_out g @ [s]\<rparr>))"

definition put_line :: "'p gate_env \<Rightarrow> string \<Rightarrow> 'p gate \<Rightarrow> 'p gate" where
  "put_line e line g =
     (case ge_line e (g_pii g) line of (p, s) \<Rightarrow> g\<lparr>g_pii := p, g_out := g_out g @ [s @ blank_line]\<rparr>)"

definition gate_then :: "'p gate py_result \<Rightarrow> ('p gate \<Rightarrow> 'p gate py_result) \<Rightarrow> 'p gate py_result" where
  "gate_then r f = (case r of Inl e \<Rightarrow> Inl e | Inr g \<Rightarrow> f g)"

section \<open>The hold\<close>

definition clear_hold :: "'p gate \<Rightarrow> 'p gate" where
  "clear_hold g = g\<lparr>g_hold := False, g_buf := [], g_bytes := 0, g_tool := None\<rparr>"

definition start_hold :: "string \<Rightarrow> 'p gate \<Rightarrow> 'p gate" where
  "start_hold line g = g\<lparr>g_hold := True, g_buf := [line], g_bytes := length line\<rparr>"

definition push_hold :: "string \<Rightarrow> 'p gate \<Rightarrow> 'p gate" where
  "push_hold line g = g\<lparr>g_buf := g_buf g @ [line], g_bytes := g_bytes g + length line\<rparr>"

definition release_hold :: "'p gate_env \<Rightarrow> string \<Rightarrow> 'p gate \<Rightarrow> 'p gate" where
  "release_hold e extra_line g =
     (let g1 = foldl (\<lambda>g line. put_line e line g) g (g_buf g)
      in if extra_line = [] then g1 else put_line e extra_line g1)"

definition reject_hold :: "string py_result \<Rightarrow> 'p gate \<Rightarrow> 'p gate py_result" where
  "reject_hold block_event g = put_event block_event (clear_hold g)"

text \<open>The verdict on the call that ends, after an approval when the mode asks for one.\<close>

definition call_verdict :: "'p gate_env \<Rightarrow> string \<Rightarrow> string \<Rightarrow> audit_log \<Rightarrow> audit_log \<times> bool py_result" where
  "call_verdict e name args s =
     (case ge_audit e name args s of
        (s', Inl x) \<Rightarrow> (s', Inl x)
      | (s', Inr v) \<Rightarrow> (s', Inr (v = ''allow'' \<or> ac_mode (ge_cfg e) = ''approve'' \<and> ge_approve e name args = Approved)))"

definition resolve_hold :: "string py_result \<Rightarrow> 'p gate_env \<Rightarrow> string \<Rightarrow> 'p gate \<Rightarrow> 'p gate py_result" where
  "resolve_hold block_event e line g =
     (case call_verdict e (tool_name g) (g_args g) (g_log g) of
        (s, Inl x) \<Rightarrow> Inl x
      | (s, Inr ok) \<Rightarrow>
          gate_then (if ok then Inr (release_hold e line (g\<lparr>g_log := s\<rparr>))
                     else reject_hold block_event (g\<lparr>g_log := s\<rparr>))
            (\<lambda>g. Inr ((clear_hold g)\<lparr>g_args := []\<rparr>)))"

text \<open>An event while the gate holds; \<open>piece\<close> is the argument text it carries.\<close>

definition held_event :: "string py_result \<Rightarrow> 'p gate_env \<Rightarrow> string \<Rightarrow> string \<Rightarrow> 'p gate \<Rightarrow> 'p gate py_result" where
  "held_event block_event e line piece g0 =
     (let g = g0\<lparr>g_args := g_args g0 @ piece\<rparr> in
      if ac_hold_max (ge_cfg e) < int (length line + g_bytes g) then reject_hold block_event g
      else Inr (push_hold line g))"

section \<open>Arguments\<close>

text \<open>A piece of arguments: collected; too much is refused; a dangerous prefix starts the hold.\<close>

definition collect_args :: "string py_result \<Rightarrow> 'p gate_env \<Rightarrow> string \<Rightarrow> string \<Rightarrow> 'p gate \<Rightarrow> 'p gate py_result" where
  "collect_args block_event e line delta g0 =
     (let g = g0\<lparr>g_args := g_args g0 @ delta\<rparr> in
      if SSE_MAX_BUF < py_len (g_args g) then put_event block_event (g\<lparr>g_args := [], g_tool := None\<rparr>)
      else if audit_precheck (ge_cfg e) (tool_name g) (g_args g) then Inr (start_hold line g)
      else Inr g)"

text \<open>The audit at the end of a call that is not on hold; a refused call loses its arguments.\<close>

definition stop_audit :: "string py_result \<Rightarrow> 'p gate_env \<Rightarrow> 'p gate \<Rightarrow> 'p gate py_result" where
  "stop_audit block_event e g =
     (if g_args g \<noteq> [] \<and> ac_enabled (ge_cfg e) then
        (case call_verdict e (tool_name g) (g_args g) (g_log g) of
           (s, Inl x) \<Rightarrow> Inl x
         | (s, Inr True) \<Rightarrow> Inr (g\<lparr>g_log := s\<rparr>)
         | (s, Inr False) \<Rightarrow>
             gate_then (put_event block_event (g\<lparr>g_log := s\<rparr>)) (\<lambda>g. Inr (g\<lparr>g_args := [], g_tool := None\<rparr>)))
      else Inr g)"

text \<open>The arguments are sent as one event, whose failure is ignored, and the call is over.\<close>

definition stop_flush :: "(string \<Rightarrow> string py_result) \<Rightarrow> 'p gate_env \<Rightarrow> string \<Rightarrow> 'p gate \<Rightarrow> 'p gate" where
  "stop_flush mk e line g =
     (let g1 = (if g_args g = [] then g
          else case ge_json e (g_pii g) (g_args g) of (p, restored) \<Rightarrow>
            (let h = g\<lparr>g_pii := p\<rparr>; x = strip_partials restored in
             if x = [] then h else (case put_event (mk x) h of Inl _ \<Rightarrow> h | Inr h' \<Rightarrow> h')))
      in put_line e line (g1\<lparr>g_args := [], g_tool := None\<rparr>))"

section \<open>Text\<close>

definition norm_newlines :: "string \<Rightarrow> string" where
  "norm_newlines s = replace [char_of (13 :: nat)] ''\<newline>'' (replace [char_of (13 :: nat), CHR ''\<newline>''] ''\<newline>'' s)"

text \<open>The complete lines, each with its end, and the rest.\<close>

fun cut_lines :: "string \<Rightarrow> string list \<times> string" where
  "cut_lines [] = ([], [])"
| "cut_lines (c # s) =
     (case cut_lines s of (ls, r) \<Rightarrow>
        if c = CHR ''\<newline>'' then ([c] # ls, r)
        else case ls of [] \<Rightarrow> ([], c # r) | l # ls' \<Rightarrow> ((c # l) # ls', r))"

fun restore_lines :: "'p gate_env \<Rightarrow> 'p \<Rightarrow> string list \<Rightarrow> 'p \<times> string list" where
  "restore_lines e p [] = (p, [])"
| "restore_lines e p (l # ls) =
     (case ge_text e p l of (p1, restored) \<Rightarrow>
      case restore_lines e p1 ls of (p2, out) \<Rightarrow>
        (p2, (if strip_partials restored = [] then [] else [strip_partials restored]) @ out))"

text \<open>
  The text collected so far: what is sent now (\<open>None\<close>: nothing) and what stays.  The rest of a line
  is only touched when it is long or may end in a cut-off value.
\<close>

definition text_delta :: "'p gate_env \<Rightarrow> 'p \<Rightarrow> string \<Rightarrow> 'p \<times> string option \<times> string" where
  "text_delta e p0 buf0 =
     (case cut_lines buf0 of (ls, buf) \<Rightarrow>
      case restore_lines e p0 ls of (p1, out) \<Rightarrow>
        let extra = ge_hints e (py_tail 64 buf);
            cand = has_partial_pii_candidate (py_tail 64 buf) extra
        in if buf \<noteq> [] \<and> (LINE_BUF_FLUSH < py_len buf \<or> cand) then
             (case ge_text e p1 buf of (p2, restored) \<Rightarrow>
                (let same = (restored = buf);
                     (safe, pending) = split_safe_hold restored (ge_active e) (ge_pii_tokens e p2)
                       (if same then (case extra of None \<Rightarrow> [] | Some hs \<Rightarrow> hs) else []) same;
                     out' = out @ (if safe = [] then [] else [strip_partials safe])
                 in (p2, if out' = [] then None else Some (concat out'), pending)))
           else (p1, if out = [] then None else Some (concat out), buf))"

text \<open>The buffers before another event: restored and cut, the safe part sent.\<close>

definition flush_buf ::
  "(string \<Rightarrow> string py_result) \<Rightarrow> 'p gate_env \<Rightarrow> string \<Rightarrow> 'p gate \<Rightarrow> (py_exn + 'p gate \<times> string)" where
  "flush_buf mk e buf g =
     (if buf = [] then Inr (g, [])
      else case ge_json e (g_pii g) buf of (p, restored) \<Rightarrow>
        (case split_safe_hold restored (ge_active e) (ge_pii_tokens e p) [] False of (safe0, pending) \<Rightarrow>
          (let h = g\<lparr>g_pii := p\<rparr>; safe = (if safe0 = [] then [] else strip_partials safe0) in
           if safe = [] then Inr (h, pending)
           else (case put_event (mk safe) h of Inl x \<Rightarrow> Inl x | Inr h' \<Rightarrow> Inr (h', pending)))))"

definition flush_content :: "(string \<Rightarrow> string py_result) \<Rightarrow> 'p gate_env \<Rightarrow> 'p gate \<Rightarrow> 'p gate py_result" where
  "flush_content mk e g =
     (case flush_buf mk e (g_content g) g of Inl x \<Rightarrow> Inl x | Inr (h, pending) \<Rightarrow> Inr (h\<lparr>g_content := pending\<rparr>))"

definition flush_reason :: "(string \<Rightarrow> string py_result) \<Rightarrow> 'p gate_env \<Rightarrow> 'p gate \<Rightarrow> 'p gate py_result" where
  "flush_reason mk e g =
     (case flush_buf mk e (g_reason g) g of Inl x \<Rightarrow> Inl x | Inr (h, pending) \<Rightarrow> Inr (h\<lparr>g_reason := pending\<rparr>))"

text \<open>The end of a stream: nothing waits any more.\<close>

definition flush_final ::
  "(string \<Rightarrow> string py_result) \<Rightarrow> 'p gate_env \<Rightarrow> string \<Rightarrow> 'p gate \<Rightarrow> 'p gate py_result" where
  "flush_final mk e buf g =
     (if buf = [] then Inr g
      else case ge_json e (g_pii g) buf of (p, restored) \<Rightarrow>
        (let h = g\<lparr>g_pii := p\<rparr>; x = strip_partials restored in
         if x = [] then Inr h else put_event (mk x) h))"

section \<open>The two protocols\<close>

definition anth_text :: "'p gate_env \<Rightarrow> json \<Rightarrow> anth_kind \<Rightarrow> string \<Rightarrow> 'p gate \<Rightarrow> 'p gate py_result" where
  "anth_text e parsed kind delta g =
     (let f = anth_field kind; x = norm_newlines delta;
          buf0 = (if kind = A_Text then g_content g @ x else g_reason g @ x)
      in case text_delta e (g_pii g) buf0 of (p, out, buf) \<Rightarrow>
        gate_then (case out of None \<Rightarrow> Inr (g\<lparr>g_pii := p\<rparr>)
            | Some s \<Rightarrow> put_event (mk_anthropic_delta_event (ge_lib e) parsed s f) (g\<lparr>g_pii := p\<rparr>))
          (\<lambda>g. Inr (if kind = A_Text then g\<lparr>g_content := buf\<rparr> else g\<lparr>g_reason := buf\<rparr>)))"

definition anth_stop :: "'p gate_env \<Rightarrow> json \<Rightarrow> string \<Rightarrow> 'p gate \<Rightarrow> 'p gate py_result" where
  "anth_stop e parsed line g =
     gate_then (stop_audit (build_block_event_anthropic (ge_lib e)) e g)
       (\<lambda>g. Inr (stop_flush (\<lambda>x. mk_anthropic_flush_event (ge_lib e) parsed x ''partial_json'') e line g))"

definition handle_anthropic_event :: "'p gate_env \<Rightarrow> json \<Rightarrow> string \<Rightarrow> 'p gate \<Rightarrow> 'p gate py_result" where
  "handle_anthropic_event e parsed line g =
     (let block = build_block_event_anthropic (ge_lib e) in
      case anthropic_event parsed of
        None \<Rightarrow> Inr (put_line e line g)
      | Some (kind, delta) \<Rightarrow>
          if g_hold g then
            (if kind = Block_Stop then resolve_hold block e line g
             else held_event block e line (if kind = Function_Args then (case delta of None \<Rightarrow> [] | Some x \<Rightarrow> x) else []) g)
          else
            (case (kind, delta) of
               (Block_Stop, _) \<Rightarrow> anth_stop e parsed line g
             | (Block_Start, n) \<Rightarrow>
                 Inr (put_line e line (case n of None \<Rightarrow> g | Some x \<Rightarrow> if x = [] then g else g\<lparr>g_tool := Some x\<rparr>))
             | (A_Other, _) \<Rightarrow>
                 gate_then (flush_content (\<lambda>x. mk_anthropic_flush_event (ge_lib e) parsed x ''text'') e g) (\<lambda>g.
                 gate_then (flush_reason (\<lambda>x. mk_anthropic_flush_event (ge_lib e) parsed x ''thinking'') e g) (\<lambda>g.
                 Inr (put_line e line g)))
             | (_, None) \<Rightarrow> Inr g
             | (Function_Args, Some x) \<Rightarrow> collect_args block e line x g
             | (k, Some x) \<Rightarrow> anth_text e parsed k x g))"

definition resp_text :: "'p gate_env \<Rightarrow> json \<Rightarrow> resp_kind \<Rightarrow> string \<Rightarrow> 'p gate \<Rightarrow> 'p gate py_result" where
  "resp_text e parsed kind delta g =
     (let x = norm_newlines delta;
          buf0 = (if kind = Output_Text then g_content g @ x else g_reason g @ x)
      in case text_delta e (g_pii g) buf0 of (p, out, buf) \<Rightarrow>
        gate_then (case out of None \<Rightarrow> Inr (g\<lparr>g_pii := p\<rparr>)
            | Some s \<Rightarrow> put_event (mk_responses_sse_event (ge_lib e) parsed s) (g\<lparr>g_pii := p\<rparr>))
          (\<lambda>g. Inr (if kind = Output_Text then g\<lparr>g_content := buf\<rparr> else g\<lparr>g_reason := buf\<rparr>)))"

definition resp_stop :: "'p gate_env \<Rightarrow> json \<Rightarrow> string \<Rightarrow> 'p gate \<Rightarrow> 'p gate py_result" where
  "resp_stop e parsed line g =
     gate_then (stop_audit (build_block_event_responses (ge_lib e)) e g)
       (\<lambda>g. Inr (stop_flush (mk_responses_sse_event (ge_lib e) parsed) e line g))"

text \<open>The name of a function call is taken from the item of any other event.\<close>

definition capture_tool :: "json \<Rightarrow> 'p gate \<Rightarrow> 'p gate" where
  "capture_tool parsed g =
     (case jget parsed ''item'' of
        Some (JObj d) \<Rightarrow>
          if dget d ''type'' = Some (JStr ''function_call'') then
            (case dget d ''name'' of Some (JStr n) \<Rightarrow> if n = [] then g else g\<lparr>g_tool := Some n\<rparr> | _ \<Rightarrow> g)
          else g
      | _ \<Rightarrow> g)"

definition handle_responses_event :: "'p gate_env \<Rightarrow> json \<Rightarrow> string \<Rightarrow> 'p gate \<Rightarrow> 'p gate py_result" where
  "handle_responses_event e parsed line g =
     (let block = build_block_event_responses (ge_lib e); lib = ge_lib e in
      case responses_event parsed of
        None \<Rightarrow> Inl OtherExn
      | Some (kind, delta) \<Rightarrow>
          if g_hold g then
            (if kind = Item_Done then resolve_hold block e line g
             else held_event block e line (if kind = Call_Arguments then (case delta of None \<Rightarrow> [] | Some x \<Rightarrow> x) else []) g)
          else
            (case (kind, delta) of
               (Item_Done, _) \<Rightarrow> resp_stop e parsed line g
             | (Resp_Other, _) \<Rightarrow>
                 gate_then (flush_content (mk_responses_flush_event lib ''response.output_text.delta'') e g) (\<lambda>g.
                 gate_then (flush_reason (mk_responses_flush_event lib ''response.reasoning_text.delta'') e g) (\<lambda>g.
                 Inr (put_line e line (capture_tool parsed g))))
             | (_, None) \<Rightarrow> Inr g
             | (Call_Arguments, Some x) \<Rightarrow> collect_args block e line x g
             | (k, Some x) \<Rightarrow> resp_text e parsed k x g))"

section \<open>A chat stream\<close>

text \<open>
  \<open>_audit_openai_tool_calls\<close>: the collected calls in the order of their index; one block event for
  every call that is refused.  The approval and the log entries of a refused call in approve mode
  are made as the code makes them.
\<close>

definition audit_chat_call ::
  "'p gate_env \<Rightarrow> (string \<Rightarrow> string \<Rightarrow> string \<Rightarrow> string \<Rightarrow> audit_log \<Rightarrow> audit_log) \<Rightarrow> tool_call \<Rightarrow> audit_log
     \<Rightarrow> audit_log \<times> bool py_result" where
  "audit_chat_call e log_event tc s =
     (let name = tc_name tc; args = tc_args tc in
      if name = [] then (s, Inr False)
      else case ge_audit e name args s of
        (s1, Inl x) \<Rightarrow> (s1, Inl x)
      | (s1, Inr v) \<Rightarrow>
          if v \<noteq> ''deny'' then (s1, Inr False)
          else if ac_mode (ge_cfg e) \<noteq> ''approve'' then (s1, Inr True)
          else (let result = ge_approve e name args in
                if result = Approved then (log_event ''allow'' name args ''approved'' s1, Inr False)
                else (log_event ''deny'' name args (result_text result) s1, Inr True)))"

fun audit_chat_calls ::
  "'p gate_env \<Rightarrow> (string \<Rightarrow> string \<Rightarrow> string \<Rightarrow> string \<Rightarrow> audit_log \<Rightarrow> audit_log) \<Rightarrow> tool_call list \<Rightarrow> audit_log
     \<Rightarrow> audit_log \<times> string list py_result" where
  "audit_chat_calls e log_event [] s = (s, Inr [])"
| "audit_chat_calls e log_event (tc # tcs) s =
     (case audit_chat_call e log_event tc s of
        (s1, Inl x) \<Rightarrow> (s1, Inl x)
      | (s1, Inr False) \<Rightarrow> audit_chat_calls e log_event tcs s1
      | (s1, Inr True) \<Rightarrow>
          (case build_block_event (ge_lib e) of
             Inl x \<Rightarrow> (s1, Inl x)
           | Inr ev \<Rightarrow>
               (case audit_chat_calls e log_event tcs s1 of
                  (s2, Inl x) \<Rightarrow> (s2, Inl x)
                | (s2, Inr evs) \<Rightarrow> (s2, Inr (ev # evs)))))"

definition audit_openai_tool_calls ::
  "'p gate_env \<Rightarrow> (string \<Rightarrow> string \<Rightarrow> string \<Rightarrow> string \<Rightarrow> audit_log \<Rightarrow> audit_log) \<Rightarrow> (int, tool_call) dict \<Rightarrow> audit_log
     \<Rightarrow> audit_log \<times> string list py_result" where
  "audit_openai_tool_calls e log_event buf s =
     (if buf = [] \<or> \<not> ac_enabled (ge_cfg e) then (s, Inr [])
      else audit_chat_calls e log_event (map snd (sort_key fst buf)) s)"

section \<open>What both protocols promise\<close>

type_synonym sse_event = "json \<times> string"

fun gate_run :: "(json \<Rightarrow> string \<Rightarrow> 'p gate \<Rightarrow> 'p gate py_result) \<Rightarrow> sse_event list \<Rightarrow> 'p gate \<Rightarrow> 'p gate py_result" where
  "gate_run step [] g = Inr g"
| "gate_run step ((j, line) # evs) g = gate_then (step j line g) (gate_run step evs)"

lemma gate_run_append: "gate_run step (xs @ ys) g = gate_then (gate_run step xs g) (gate_run step ys)"
  by (induction xs arbitrary: g) (auto simp: gate_then_def split: sum.split)

text \<open>The arguments a list of events carries.\<close>

definition args_text :: "(json \<Rightarrow> string option) \<Rightarrow> sse_event list \<Rightarrow> string" where
  "args_text args_of evs = concat (map (\<lambda>ev. case args_of (fst ev) of None \<Rightarrow> [] | Some d \<Rightarrow> d) evs)"

primrec event_bytes :: "sse_event list \<Rightarrow> nat" where
  "event_bytes [] = 0"
| "event_bytes (ev # evs) = length (snd ev) + event_bytes evs"

lemma py_len_le: "py_len s \<le> length s"
proof -
  have "length ps \<le> length (concat ps)" if "[] \<notin> set ps" for ps :: "string list"
    using that by (induction ps) (auto simp: Suc_le_eq add_strict_increasing)
  moreover have "[] \<notin> set (cps s)" by (induction s rule: cps.induct) auto
  ultimately show ?thesis by (metis concat_cps py_len_def)
qed

text \<open>
  A protocol's handler: pieces of arguments are collected or held, the end of a call is audited or
  resolves the hold.
\<close>

locale tool_gate =
  fixes step :: "json \<Rightarrow> string \<Rightarrow> 'p gate \<Rightarrow> 'p gate py_result"
    and e :: "'p gate_env"
    and block :: "string py_result"
    and mk :: "json \<Rightarrow> string \<Rightarrow> string py_result"
    and args_of :: "json \<Rightarrow> string option"
    and is_stop :: "json \<Rightarrow> bool"
  assumes args_step: "args_of j = Some d \<Longrightarrow> \<not> g_hold g \<Longrightarrow> step j line g = collect_args block e line d g"
    and held_step: "args_of j = Some d \<Longrightarrow> g_hold g \<Longrightarrow> step j line g = held_event block e line d g"
    and stop_step: "is_stop j \<Longrightarrow> \<not> g_hold g \<Longrightarrow>
      step j line g = gate_then (stop_audit block e g) (\<lambda>g. Inr (stop_flush (mk j) e line g))"
    and held_stop: "is_stop j \<Longrightarrow> g_hold g \<Longrightarrow> step j line g = resolve_hold block e line g"
begin

text \<open>While the gate holds, nothing is written.\<close>

lemma held_run:
  assumes "g_hold g" and "list_all (\<lambda>ev. args_of (fst ev) \<noteq> None) evs"
    and "int (g_bytes g + event_bytes evs) \<le> ac_hold_max (ge_cfg e)"
  shows "gate_run step evs g = Inr (g\<lparr>g_args := g_args g @ args_text args_of evs, g_buf := g_buf g @ map snd evs,
    g_bytes := g_bytes g + event_bytes evs\<rparr>)"
  using assms
proof (induction evs arbitrary: g)
  case Nil
  then show ?case by (simp add: args_text_def)
next
  case (Cons ev evs)
  obtain j line d where ev: "ev = (j, line)" "args_of j = Some d" using Cons.prems(2) by (cases ev) auto
  let ?g = "push_hold line (g\<lparr>g_args := g_args g @ d\<rparr>)"
  have step: "step j line g = Inr ?g"
    using held_step [OF ev(2) Cons.prems(1), of line] Cons.prems(3) by (simp add: held_event_def ev(1))
  have "gate_run step evs ?g = Inr (?g\<lparr>g_args := g_args ?g @ args_text args_of evs, g_buf := g_buf ?g @ map snd evs,
      g_bytes := g_bytes ?g + event_bytes evs\<rparr>)"
    using Cons.prems by (intro Cons.IH) (auto simp: push_hold_def ev(1))
  then show ?case by (simp add: ev step gate_then_def push_hold_def args_text_def add.assoc)
qed

text \<open>While arguments come in, nothing is written: they are all collected, and maybe held from some event on.\<close>

lemma args_run:
  assumes "\<not> g_hold g" and "list_all (\<lambda>ev. args_of (fst ev) \<noteq> None) evs"
    and "length (g_args g @ args_text args_of evs) \<le> SSE_MAX_BUF"
    and "int (event_bytes evs) \<le> ac_hold_max (ge_cfg e)"
  shows "\<exists>g'. gate_run step evs g = Inr g' \<and> g_out g' = g_out g \<and> g_args g' = g_args g @ args_text args_of evs
    \<and> g_tool g' = g_tool g \<and> g_log g' = g_log g \<and> g_pii g' = g_pii g
    \<and> (g_hold g' \<longrightarrow> (\<exists>k. g_buf g' = map snd (drop k evs)))"
  using assms
proof (induction evs arbitrary: g)
  case Nil
  then show ?case by (simp add: args_text_def)
next
  case (Cons ev evs)
  obtain j line d where ev: "ev = (j, line)" "args_of j = Some d" using Cons.prems(2) by (cases ev) auto
  let ?g = "g\<lparr>g_args := g_args g @ d\<rparr>"
  have tx: "args_text args_of ((j, line) # evs) = d @ args_text args_of evs" by (simp add: args_text_def ev)
  have "py_len (g_args g @ d) \<le> SSE_MAX_BUF"
    using Cons.prems(3) py_len_le [of "g_args g @ d"] by (simp add: tx ev(1))
  then have step: "step j line g =
      (if audit_precheck (ge_cfg e) (tool_name g) (g_args g @ d) then Inr (start_hold line ?g) else Inr ?g)"
    using args_step [OF ev(2) Cons.prems(1), of line] by (simp add: collect_args_def tool_name_def)
  show ?case
  proof (cases "audit_precheck (ge_cfg e) (tool_name g) (g_args g @ d)")
    case True
    have "gate_run step evs (start_hold line ?g) = Inr ((start_hold line ?g)\<lparr>g_args := g_args ?g @ args_text args_of evs,
        g_buf := [line] @ map snd evs, g_bytes := length line + event_bytes evs\<rparr>)"
      using held_run [of "start_hold line ?g" evs] Cons.prems by (simp add: start_hold_def ev(1))
    with True step show ?thesis
      by (intro exI [of _ "(start_hold line ?g)\<lparr>g_args := g_args ?g @ args_text args_of evs,
          g_buf := [line] @ map snd evs, g_bytes := length line + event_bytes evs\<rparr>"])
        (auto simp: ev(1) gate_then_def start_hold_def tx intro: exI [of _ 0])
  next
    case False
    have "\<exists>g'. gate_run step evs ?g = Inr g' \<and> g_out g' = g_out ?g \<and> g_args g' = g_args ?g @ args_text args_of evs
      \<and> g_tool g' = g_tool ?g \<and> g_log g' = g_log ?g \<and> g_pii g' = g_pii ?g
      \<and> (g_hold g' \<longrightarrow> (\<exists>k. g_buf g' = map snd (drop k evs)))"
      using Cons.prems by (intro Cons.IH) (auto simp: tx ev(1))
    then obtain g' where g': "gate_run step evs ?g = Inr g'" "g_out g' = g_out g" "g_args g' = g_args g @ d @ args_text args_of evs"
      "g_tool g' = g_tool g" "g_log g' = g_log g" "g_pii g' = g_pii g" "g_hold g' \<longrightarrow> (\<exists>k. g_buf g' = map snd (drop k evs))"
      by auto
    from g'(7) have "g_hold g' \<longrightarrow> (\<exists>k. g_buf g' = map snd (drop k (ev # evs)))" by (metis drop_Suc_Cons)
    with g' False step show ?thesis by (simp add: ev(1) gate_then_def tx)
  qed
qed

text \<open>A call that is refused when it ends leaves the block event, and at most the end of the call.\<close>

lemma refused_call:
  assumes "\<not> g_hold g" and "g_args g = []" and "list_all (\<lambda>ev. args_of (fst ev) \<noteq> None) evs"
    and "length (args_text args_of evs) \<le> SSE_MAX_BUF"
    and "int (event_bytes evs) \<le> ac_hold_max (ge_cfg e)"
    and "is_stop j" and "ac_enabled (ge_cfg e)" and "args_text args_of evs \<noteq> []" and "block = Inr b"
    and "snd (call_verdict e (tool_name g) (args_text args_of evs) (g_log g)) = Inr False"
  shows "\<exists>g'. gate_run step (evs @ [(j, line)]) g = Inr g' \<and> \<not> g_hold g' \<and> g_args g' = []
    \<and> (g_out g' = g_out g @ [b] \<or> g_out g' = g_out g @ [b, snd (ge_line e (g_pii g) line) @ blank_line])"
proof -
  obtain g1 where g1: "gate_run step evs g = Inr g1" "g_out g1 = g_out g" "g_args g1 = args_text args_of evs"
    "g_tool g1 = g_tool g" "g_log g1 = g_log g" "g_pii g1 = g_pii g"
    using args_run [OF assms(1,3)] assms(2,4,5) by auto
  obtain s where s: "call_verdict e (tool_name g1) (g_args g1) (g_log g1) = (s, Inr False)"
    using assms(10) g1 by (metis prod.collapse tool_name_def)
  show ?thesis
  proof (cases "g_hold g1")
    case True
    then show ?thesis using held_stop [OF assms(6) True, of line] s g1 assms(9)
      by (simp add: gate_run_append gate_then_def resolve_hold_def reject_hold_def put_event_def clear_hold_def)
  next
    case False
    then show ?thesis using stop_step [OF assms(6) False, of line] s g1 assms(7,8,9)
      by (simp add: gate_run_append gate_then_def stop_audit_def put_event_def stop_flush_def put_line_def Let_def
          split: prod.split)
  qed
qed

text \<open>A hold that starts late forgets what came before: only the held lines are released.\<close>

lemma late_hold:
  assumes "\<not> g_hold g" and "g_args g = []" and "args_of j1 = Some d1" and "args_of j2 = Some d2"
    and "\<not> audit_precheck (ge_cfg e) (tool_name g) d1" and "audit_precheck (ge_cfg e) (tool_name g) (d1 @ d2)"
    and "length (d1 @ d2) \<le> SSE_MAX_BUF" and "is_stop j" and "line \<noteq> []"
    and "call_verdict e (tool_name g) (d1 @ d2) (g_log g) = (s, Inr True)"
  shows "\<exists>g'. gate_run step [(j1, line1), (j2, line2), (j, line)] g = Inr g'
    \<and> g_out g' = g_out (put_line e line (put_line e line2 g))"
proof -
  have l: "py_len d1 \<le> SSE_MAX_BUF" "py_len (d1 @ d2) \<le> SSE_MAX_BUF"
    using assms(7) py_len_le [of d1] py_len_le [of "d1 @ d2"] by auto
  let ?g1 = "g\<lparr>g_args := d1\<rparr>" and ?g2 = "start_hold line2 (g\<lparr>g_args := d1 @ d2\<rparr>)"
  have 1: "step j1 line1 g = Inr ?g1"
    using args_step [OF assms(3,1), of line1] assms(2,5) l by (simp add: collect_args_def tool_name_def)
  have "step j2 line2 ?g1 = collect_args block e line2 d2 ?g1" using assms(1) by (intro args_step [OF assms(4)]) simp
  then have 2: "step j2 line2 ?g1 = Inr ?g2" using assms(6) l by (simp add: collect_args_def tool_name_def)
  have "step j line ?g2 = resolve_hold block e line ?g2" by (rule held_stop [OF assms(8)]) (simp add: start_hold_def)
  moreover have "call_verdict e (tool_name ?g2) (g_args ?g2) (g_log ?g2) = (s, Inr True)"
    using assms(10) by (simp add: tool_name_def start_hold_def)
  ultimately have "step j line ?g2 = Inr ((clear_hold (release_hold e line (?g2\<lparr>g_log := s\<rparr>)))\<lparr>g_args := []\<rparr>)"
    by (simp add: resolve_hold_def gate_then_def)
  with 1 2 assms(9) show ?thesis
    by (simp add: gate_then_def release_hold_def start_hold_def clear_hold_def put_line_def split: prod.split)
qed

text \<open>A hold that overflows is refused, but its arguments stay collected and go out with the end of the call.\<close>

lemma overflown_hold:
  assumes "g_hold g" and "args_of j1 = Some d" and "ac_hold_max (ge_cfg e) < int (length line1 + g_bytes g)"
    and "is_stop j" and "g_args g @ d \<noteq> []" and "block = Inr b"
    and "\<And>s. snd (call_verdict e [] (g_args g @ d) s) = Inr True"
    and "strip_partials (snd (ge_json e (g_pii g) (g_args g @ d))) \<noteq> []"
    and "mk j (strip_partials (snd (ge_json e (g_pii g) (g_args g @ d)))) = Inr ev"
  shows "\<exists>g' s. gate_run step [(j1, line1), (j, line)] g = Inr g' \<and> g_out g' = g_out g @ [b, ev, s]"
proof -
  let ?g1 = "(clear_hold (g\<lparr>g_args := g_args g @ d\<rparr>))\<lparr>g_out := g_out g @ [b]\<rparr>"
  have "step j1 line1 g = Inr ?g1"
    using held_step [OF assms(2,1), of line1] assms(3,6)
    by (simp add: held_event_def reject_hold_def put_event_def clear_hold_def)
  moreover have "step j line ?g1 = gate_then (stop_audit block e ?g1) (\<lambda>g. Inr (stop_flush (mk j) e line g))"
    by (rule stop_step [OF assms(4)]) (simp add: clear_hold_def)
  moreover obtain s where "stop_audit block e ?g1 = Inr (?g1\<lparr>g_log := s\<rparr>)"
  proof (cases "ac_enabled (ge_cfg e)")
    case True
    obtain s where "call_verdict e [] (g_args g @ d) (g_log ?g1) = (s, Inr True)"
      using assms(7) [of "g_log ?g1"] by (metis prod.collapse)
    with True assms(5) that [of s] show ?thesis by (simp add: stop_audit_def tool_name_def clear_hold_def)
  next
    case False
    with that [of "g_log ?g1"] show ?thesis by (simp add: stop_audit_def)
  qed
  ultimately show ?thesis using assms(5,8,9)
    by (auto simp: gate_then_def stop_flush_def clear_hold_def put_event_def put_line_def Let_def split: prod.splits)
qed

end

definition anth_args :: "json \<Rightarrow> string option" where
  "anth_args j = (case anthropic_event j of Some (Function_Args, d) \<Rightarrow> d | _ \<Rightarrow> None)"

definition resp_args :: "json \<Rightarrow> string option" where
  "resp_args j = (case responses_event j of Some (Call_Arguments, d) \<Rightarrow> d | _ \<Rightarrow> None)"

definition anth_stops :: "json \<Rightarrow> bool" where
  "anth_stops j \<longleftrightarrow> anthropic_event j = Some (Block_Stop, None)"

definition resp_stops :: "json \<Rightarrow> bool" where
  "resp_stops j \<longleftrightarrow> responses_event j = Some (Item_Done, None)"

lemma anth_args_event: "anth_args j = Some d \<Longrightarrow> anthropic_event j = Some (Function_Args, Some d)"
  by (auto simp: anth_args_def split: option.splits anth_kind.splits)

lemma resp_args_event: "resp_args j = Some d \<Longrightarrow> responses_event j = Some (Call_Arguments, Some d)"
  by (auto simp: resp_args_def split: option.splits resp_kind.splits)

interpretation anth: tool_gate "handle_anthropic_event e" e "build_block_event_anthropic (ge_lib e)"
  "\<lambda>j x. mk_anthropic_flush_event (ge_lib e) j x ''partial_json''" anth_args anth_stops for e
  by unfold_locales
    (simp_all add: handle_anthropic_event_def anth_stop_def anth_stops_def anth_args_event Let_def)

interpretation resp: tool_gate "handle_responses_event e" e "build_block_event_responses (ge_lib e)"
  "mk_responses_sse_event (ge_lib e)" resp_args resp_stops for e
  by unfold_locales
    (simp_all add: handle_responses_event_def resp_stop_def resp_stops_def resp_args_event Let_def)

text \<open>The verdict of the audit on a call, without an approval that could change it; the policy's refusal
  is one when the log line can be encoded (\<open>policy_refuses\<close>).\<close>

definition refuses :: "'p gate_env \<Rightarrow> string \<Rightarrow> string \<Rightarrow> bool" where
  "refuses e name args \<longleftrightarrow> (\<forall>s. snd (ge_audit e name args s) = Inr ''deny'')
     \<and> (ac_mode (ge_cfg e) = ''approve'' \<longrightarrow> ge_approve e name args \<noteq> Approved)"

lemma refuses_verdict: "refuses e name args \<Longrightarrow> snd (call_verdict e name args s) = Inr False"
  by (cases "ge_audit e name args s") (auto simp: refuses_def call_verdict_def dest!: spec [of _ s])

lemma policy_refuses:
  assumes "ge_audit e = audit_tool_call search dump now masking (ge_cfg e)"
    and "ac_enabled (ge_cfg e)" and "policy_typed (ac_policy (ge_cfg e))" and "call_denied search (ac_policy (ge_cfg e)) name args"
    and "verdict_encodable search dump now masking (ac_policy (ge_cfg e)) name args"
    and "ac_mode (ge_cfg e) = ''approve'' \<Longrightarrow> ge_approve e name args \<noteq> Approved"
  shows "refuses e name args"
  using assms audit_call_result(2) [OF assms(2,3), of _ search dump now masking name args]
  by (auto simp: refuses_def policy_verdict_def)

text \<open>
  C11. The arguments of a refused call do not reach the client of a Messages stream, within the
  bounds of the buffers: when the call has arguments, of at most 1 MB, in events of at most
  \<open>hold_max\<close> bytes together, then however they are cut into events, and whether the call is on hold
  or not when it ends, the client gets the block event and at most the event that ends the block.
  (Outside these bounds it does not hold: \<open>overflown_hold_still_sent\<close>, \<open>empty_call_not_audited\<close>.)
\<close>

theorem refused_args_stay_back:
  assumes "refuses e (tool_name g) (args_text anth_args evs)" and "ac_enabled (ge_cfg e)"
    and "\<not> g_hold g" and "g_args g = []" and "list_all (\<lambda>ev. anth_args (fst ev) \<noteq> None) evs" and "anth_stops j"
    and "args_text anth_args evs \<noteq> []" and "length (args_text anth_args evs) \<le> SSE_MAX_BUF"
    and "int (event_bytes evs) \<le> ac_hold_max (ge_cfg e)" and "build_block_event_anthropic (ge_lib e) = Inr b"
  shows "\<exists>g'. gate_run (handle_anthropic_event e) (evs @ [(j, line)]) g = Inr g' \<and> \<not> g_hold g' \<and> g_args g' = []
    \<and> (g_out g' = g_out g @ [b] \<or> g_out g' = g_out g @ [b, snd (ge_line e (g_pii g) line) @ blank_line])"
  by (rule anth.refused_call [OF assms(3-5,8,9,6,2,7,10) refuses_verdict [OF assms(1)]])

text \<open>
  The same for a Responses stream.
\<close>

theorem refused_args_stay_back_responses:
  assumes "refuses e (tool_name g) (args_text resp_args evs)" and "ac_enabled (ge_cfg e)"
    and "\<not> g_hold g" and "g_args g = []" and "list_all (\<lambda>ev. resp_args (fst ev) \<noteq> None) evs" and "resp_stops j"
    and "args_text resp_args evs \<noteq> []" and "length (args_text resp_args evs) \<le> SSE_MAX_BUF"
    and "int (event_bytes evs) \<le> ac_hold_max (ge_cfg e)" and "build_block_event_responses (ge_lib e) = Inr b"
  shows "\<exists>g'. gate_run (handle_responses_event e) (evs @ [(j, line)]) g = Inr g' \<and> \<not> g_hold g' \<and> g_args g' = []
    \<and> (g_out g' = g_out g @ [b] \<or> g_out g' = g_out g @ [b, snd (ge_line e (g_pii g) line) @ blank_line])"
  by (rule resp.refused_call [OF assms(3-5,8,9,6,2,7,10) refuses_verdict [OF assms(1)]])

text \<open>
  A hold that only starts at a later piece loses the pieces before it: when the audit then allows
  the call, the client of a Messages stream gets the later piece and the end of the block, but never
  the first piece, so the arguments it assembles are cut at the front.
\<close>

theorem late_hold_loses_start:
  assumes "\<not> g_hold g" and "g_args g = []" and "anth_args j1 = Some d1" and "anth_args j2 = Some d2" and "anth_stops j"
    and "\<not> audit_precheck (ge_cfg e) (tool_name g) d1" and "audit_precheck (ge_cfg e) (tool_name g) (d1 @ d2)"
    and "length (d1 @ d2) \<le> SSE_MAX_BUF" and "line \<noteq> []"
    and "snd (ge_audit e (tool_name g) (d1 @ d2) (g_log g)) = Inr ''allow''"
  shows "\<exists>g'. gate_run (handle_anthropic_event e) [(j1, line1), (j2, line2), (j, line)] g = Inr g'
    \<and> g_out g' = g_out (put_line e line (put_line e line2 g))"
proof -
  obtain s where "call_verdict e (tool_name g) (d1 @ d2) (g_log g) = (s, Inr True)"
    using assms(10) by (cases "ge_audit e (tool_name g) (d1 @ d2) (g_log g)") (auto simp: call_verdict_def)
  from anth.late_hold [OF assms(1-4,6-8,5,9) this] show ?thesis .
qed

text \<open>
  A hold that overflows is refused with a block event, but the collected arguments and the end of
  the call stay possible: the tool's name is forgotten, so the end is audited under the empty name,
  and when that is allowed, the client gets the complete arguments after all.
\<close>

theorem overflown_hold_still_sent:
  assumes "g_hold g" and "anth_args j1 = Some d" and "anth_stops j" and "g_args g @ d \<noteq> []"
    and "ac_hold_max (ge_cfg e) < int (length line1 + g_bytes g)" and "build_block_event_anthropic (ge_lib e) = Inr b"
    and "\<And>s. snd (ge_audit e [] (g_args g @ d) s) = Inr ''allow''"
    and "strip_partials (snd (ge_json e (g_pii g) (g_args g @ d))) \<noteq> []"
    and "mk_anthropic_flush_event (ge_lib e) j (strip_partials (snd (ge_json e (g_pii g) (g_args g @ d)))) ''partial_json'' = Inr ev"
  shows "\<exists>g' s. gate_run (handle_anthropic_event e) [(j1, line1), (j, line)] g = Inr g' \<and> g_out g' = g_out g @ [b, ev, s]"
proof -
  have "snd (call_verdict e [] (g_args g @ d) s) = Inr True" for s
    using assms(7) [of s] by (cases "ge_audit e [] (g_args g @ d) s") (auto simp: call_verdict_def)
  from anth.overflown_hold [OF assms(1,2,5,3,4,6) this assms(8,9)] show ?thesis .
qed

text \<open>
  A call without arguments is not audited at all: its start and its end pass, and nothing is
  logged, even when the policy denies the tool by name.
\<close>

theorem empty_call_not_audited:
  assumes "\<not> g_hold g" and "g_args g = []" and "anthropic_event j1 = Some (Block_Start, Some name)" and "name \<noteq> []"
    and "anth_stops j2"
  shows "\<exists>g'. gate_run (handle_anthropic_event e) [(j1, line1), (j2, line2)] g = Inr g'
    \<and> g_out g' = g_out (put_line e line2 (put_line e line1 g)) \<and> g_log g' = g_log g"
  using assms
  by (simp add: handle_anthropic_event_def anth_stops_def anth_stop_def stop_audit_def stop_flush_def gate_then_def
      put_line_def split: prod.split)

text \<open>
  A chat stream gets one block event for every collected call that has a name and is refused, and
  nothing else.
\<close>

definition chat_refused :: "'p gate_env \<Rightarrow> (string \<Rightarrow> string \<Rightarrow> bool) \<Rightarrow> tool_call \<Rightarrow> bool" where
  "chat_refused e bad tc \<longleftrightarrow> tc_name tc \<noteq> [] \<and> bad (tc_name tc) (tc_args tc)
     \<and> \<not> (ac_mode (ge_cfg e) = ''approve'' \<and> ge_approve e (tc_name tc) (tc_args tc) = Approved)"

lemma audit_chat_call_value:
  assumes "snd (ge_audit e (tc_name tc) (tc_args tc) s) = Inr (if bad (tc_name tc) (tc_args tc) then ''deny'' else ''allow'')"
  shows "snd (audit_chat_call e lg tc s) = Inr (chat_refused e bad tc)"
  using assms
  by (cases "ge_audit e (tc_name tc) (tc_args tc) s") (auto simp: audit_chat_call_def chat_refused_def Let_def)

lemma audit_chat_calls_blocks:
  assumes "\<And>n a s. snd (ge_audit e n a s) = Inr (if bad n a then ''deny'' else ''allow'')"
    and "build_block_event (ge_lib e) = Inr b"
  shows "snd (audit_chat_calls e lg tcs s) = Inr (replicate (length (filter (chat_refused e bad) tcs)) b)"
proof (induction tcs arbitrary: s)
  case (Cons tc tcs)
  obtain s2 where "audit_chat_call e lg tc s = (s2, Inr (chat_refused e bad tc))"
    using audit_chat_call_value [of e tc s bad lg, OF assms(1)] by (metis prod.collapse)
  with Cons.IH [of s2] assms(2) show ?case
    by (cases "audit_chat_calls e lg tcs s2") (auto split: bool.split)
qed simp

section \<open>Examples\<close>

definition gate_lib :: json_lib where
  "gate_lib = \<lparr>jloads = (\<lambda>_. None), jdumps = (\<lambda>_. Some ''{}''), std_loads = (\<lambda>_. None)\<rparr>"

definition gate_example :: "nat \<Rightarrow> unit gate_env" where
  "gate_example hold_max = \<lparr>ge_lib = gate_lib, ge_cfg = (block_cfg deny_policy)\<lparr>ac_hold_max := int hold_max\<rparr>,
     ge_audit = audit_tool_call (\<lambda>_ _. None) (\<lambda>_. []) 0 (\<lambda>x. x) ((block_cfg deny_policy)\<lparr>ac_hold_max := int hold_max\<rparr>),
     ge_approve = (\<lambda>_ _. Rejected), ge_line = (\<lambda>p s. (p, s)), ge_text = (\<lambda>p s. (p, s)), ge_json = (\<lambda>p s. (p, s)),
     ge_active = [], ge_pii_tokens = (\<lambda>_. None), ge_hints = (\<lambda>_. None)\<rparr>"

definition log_example :: audit_log where
  "log_example = \<lparr>al_path = [], al_ring = [], al_fails = 0, al_counts = None, al_alarms = 0, al_fs = (None, [])\<rparr>"

definition gate_start :: "string \<Rightarrow> unit gate" where
  "gate_start name = \<lparr>g_hold = False, g_buf = [], g_bytes = 0, g_tool = Some name, g_content = [], g_reason = [],
     g_args = [], g_out = [], g_log = log_example, g_pii = ()\<rparr>"

definition anth_delta :: "string \<Rightarrow> json" where
  "anth_delta d = JObj [jkey ''type'' ''content_block_delta'',
     (''delta'', JObj [jkey ''type'' ''input_json_delta'', jkey ''partial_json'' d])]"

definition anth_end :: json where
  "anth_end = JObj [jkey ''type'' ''content_block_stop'']"

definition resp_delta :: "string \<Rightarrow> json" where
  "resp_delta d = JObj [jkey ''type'' ''response.function_call_arguments.delta'', jkey ''delta'' d]"

definition resp_end :: json where
  "resp_end = JObj [jkey ''type'' ''response.output_item.done'']"

lemma example_events:
  "anth_args (anth_delta d) = Some d" "anth_stops anth_end" "resp_args (resp_delta d) = Some d" "resp_stops resp_end"
  by (simp_all add: anth_args_def anthropic_event_def anth_delta_def anth_end_def anth_stops_def resp_args_def
      responses_event_def resp_delta_def resp_end_def resp_stops_def RESP_KINDS_def dget_or_def prefix_def suffix_def Let_def)

lemma example_env [simp]:
  "ge_lib (gate_example m) = gate_lib" "ac_hold_max (ge_cfg (gate_example m)) = int m" "ac_enabled (ge_cfg (gate_example m))"
  "ac_mode (ge_cfg (gate_example m)) = ''block''" "ge_line (gate_example m) p s = (p, s)" "ge_json (gate_example m) p s = (p, s)"
  "ac_policy (ge_cfg (gate_example m)) = deny_policy"
  by (simp_all add: gate_example_def block_cfg_def)

lemma example_denied: "call_denied (\<lambda>_ _. None) deny_policy name args \<longleftrightarrow>
    name = ''wipe'' \<or> name \<in> set NETWORK_TOOLS \<and> target_external deny_policy args = Some True"
  by (auto simp: call_denied_def deny_policy_def dget_or_def py_in_def rules_of_def py_items_def)

lemma example_audit:
  "snd (ge_audit (gate_example m) name args s) =
     Inr (if name = ''wipe'' \<or> name \<in> set NETWORK_TOOLS \<and> target_external deny_policy args = Some True then ''deny'' else ''allow'')"
  using audit_call_result(2) [where cfg = "ge_cfg (gate_example m)" and search = "\<lambda>_ _. None" and dump = "\<lambda>_. []"
      and now = 0 and redact = "\<lambda>x. x" and name = name and args = args and s = s]
  by (simp add: gate_example_def block_cfg_def deny_policy_typed example_denied policy_verdict_def
      verdict_encodable_def encodable_def strip_ctrl_def split: sum.split prod.split)

lemma example_refuses: "refuses (gate_example m) ''wipe'' args"
  by (simp add: refuses_def example_audit)

lemma example_block: "build_block_event_anthropic gate_lib = Inr (sse_data ''{}'' @ sse_data ''{}'')"
  "build_block_event_responses gate_lib = Inr (sse_data ''{}'' @ sse_data ''{}'')"
  by (simp_all add: build_block_event_anthropic_def build_block_event_responses_def sse_two_def sse_json_def jdump_def gate_lib_def)

lemma example_flush: "mk_anthropic_flush_event gate_lib j x f = Inr (sse_data ''{}'')"
  by (simp add: mk_anthropic_flush_event_def sse_json_def jdump_def gate_lib_def Let_def)

theorem refused_args_stay_back_witness:
  "\<exists>g'. gate_run (handle_anthropic_event (gate_example 1000))
      ([(anth_delta ''{'', ''l1''), (anth_delta ''}'', ''l2'')] @ [(anth_end, ''l3'')]) (gate_start ''wipe'') = Inr g'
    \<and> (g_out g' = [sse_data ''{}'' @ sse_data ''{}''] \<or> g_out g' = [sse_data ''{}'' @ sse_data ''{}'', ''l3'' @ blank_line])"
  using refused_args_stay_back [of "gate_example 1000" "gate_start ''wipe''" "[(anth_delta ''{'', ''l1''), (anth_delta ''}'', ''l2'')]"
      anth_end "sse_data ''{}'' @ sse_data ''{}''" "''l3''"]
  by (simp add: gate_start_def tool_name_def example_refuses example_events example_block args_text_def SSE_MAX_BUF_def)
    blast

theorem refused_args_stay_back_responses_witness:
  "\<exists>g'. gate_run (handle_responses_event (gate_example 1000))
      ([(resp_delta ''{'', ''l1''), (resp_delta ''}'', ''l2'')] @ [(resp_end, ''l3'')]) (gate_start ''wipe'') = Inr g'
    \<and> (g_out g' = [sse_data ''{}'' @ sse_data ''{}''] \<or> g_out g' = [sse_data ''{}'' @ sse_data ''{}'', ''l3'' @ blank_line])"
  using refused_args_stay_back_responses [of "gate_example 1000" "gate_start ''wipe''" "[(resp_delta ''{'', ''l1''), (resp_delta ''}'', ''l2'')]"
      resp_end "sse_data ''{}'' @ sse_data ''{}''" "''l3''"]
  by (simp add: gate_start_def tool_name_def example_refuses example_events example_block args_text_def SSE_MAX_BUF_def)
    blast

lemma example_precheck:
  "\<not> audit_precheck (ge_cfg (gate_example m)) ''shell'' ''a''" "audit_precheck (ge_cfg (gate_example m)) ''shell'' ''a=rm''"
proof -
  have "''shell'' \<notin> set DANGEROUS_PREFIXES" "\<not> starts_any DANGEROUS_PREFIXES (py_lstrip ''a'')" by code_simp+
  moreover have "re_search PRECHECK_RE ''a'' = None" by code_simp
  ultimately show "\<not> audit_precheck (ge_cfg (gate_example m)) ''shell'' ''a''" by (simp add: audit_precheck_def)
  have "(re_search PRECHECK_RE ''a=rm'' \<noteq> None) = True" by code_simp
  then show "audit_precheck (ge_cfg (gate_example m)) ''shell'' ''a=rm''" by (simp add: audit_precheck_def)
qed

theorem late_hold_loses_start_witness:
  "\<exists>g'. gate_run (handle_anthropic_event (gate_example 1000))
      [(anth_delta ''a'', ''l1''), (anth_delta ''=rm'', ''l2''), (anth_end, ''l3'')] (gate_start ''shell'') = Inr g'
    \<and> g_out g' = [''l2'' @ blank_line, ''l3'' @ blank_line]"
  using late_hold_loses_start [of "gate_start ''shell''" "anth_delta ''a''" "''a''" "anth_delta ''=rm''" "''=rm''" anth_end
      "gate_example 1000" "''l3''" "''l1''" "''l2''"] example_precheck
  by (simp add: gate_start_def tool_name_def example_events example_audit put_line_def SSE_MAX_BUF_def NETWORK_TOOLS_def)

theorem overflown_hold_still_sent_witness:
  "\<exists>g' s. gate_run (handle_anthropic_event (gate_example 1)) [(anth_delta ''b'', ''l1''), (anth_end, ''l2'')]
      ((gate_start ''wipe'')\<lparr>g_hold := True, g_args := ''a''\<rparr>) = Inr g'
    \<and> g_out g' = [sse_data ''{}'' @ sse_data ''{}'', sse_data ''{}'', s]"
proof -
  have "strip_partials ''ab'' = ''ab''" by code_simp
  then show ?thesis
    using overflown_hold_still_sent [of "(gate_start ''wipe'')\<lparr>g_hold := True, g_args := ''a''\<rparr>" "anth_delta ''b''" "''b''"
        anth_end "gate_example 1" "''l1''" "sse_data ''{}'' @ sse_data ''{}''" "sse_data ''{}''" "''l2''"]
    by (simp add: gate_start_def example_events example_audit example_block NETWORK_TOOLS_def example_flush)
qed

theorem empty_call_not_audited_witness:
  "\<exists>g'. gate_run (handle_anthropic_event (gate_example 1000))
      [(JObj [jkey ''type'' ''content_block_start'', (''content_block'', JObj [jkey ''type'' ''tool_use'', jkey ''name'' ''wipe''])], ''l1''),
       (anth_end, ''l2'')] (gate_start ''none'') = Inr g'
    \<and> g_out g' = [''l1'' @ blank_line, ''l2'' @ blank_line] \<and> g_log g' = log_example"
  using empty_call_not_audited [of "gate_start ''none''"
      "JObj [jkey ''type'' ''content_block_start'', (''content_block'', JObj [jkey ''type'' ''tool_use'', jkey ''name'' ''wipe''])]"
      "''wipe''" anth_end "gate_example 1000" "''l1''" "''l2''"]
  by (simp add: gate_start_def example_events put_line_def anthropic_event_def)

end
