(* ===== verification/Pii_Check.thy ===== *)
theory Pii_Check
  imports Ip_Addr
begin

text \<open>
  The checks of the PII detector on a single value (\<open>_pii.py\<close>): the check digits of bank cards and of
  identity cards, and the masked form of a value that is kept as a sample.
\<close>

section \<open>Bank cards\<close>

text \<open>\<open>ord(ch) - 48\<close>, doubled at every second place from the right.\<close>

definition luhn_digit :: "bool \<Rightarrow> string \<Rightarrow> int" where
  "luhn_digit odd_place p =
     (let d = int (cp_code p) - 48 in
      if odd_place then (if 9 < d * 2 then d * 2 - 9 else d * 2) else d)"

fun luhn_sum :: "bool \<Rightarrow> string list \<Rightarrow> int" where
  "luhn_sum odd_place [] = 0"
| "luhn_sum odd_place (p # ps) = luhn_digit odd_place p + luhn_sum (\<not> odd_place) ps"

definition luhn_ok :: "string \<Rightarrow> bool" where
  "luhn_ok digits \<longleftrightarrow> luhn_sum False (rev (cps digits)) mod 10 = 0"

section \<open>Identity cards\<close>

definition ID_WEIGHTS :: "nat list" where
  "ID_WEIGHTS = [7, 9, 10, 5, 8, 4, 2, 1, 6, 3, 7, 9, 10, 5, 8, 4, 2]"

definition ID_CHECKS :: string where
  "ID_CHECKS = ''10X98765432''"

text \<open>
  \<open>isdigit\<close> and \<open>int\<close> of a digit; beyond the decimal digits \<open>isdigit\<close> also accepts superscripts, which
  the pattern the value comes from does not.
\<close>

definition nd_of :: "string \<Rightarrow> nat" where
  "nd_of p = (case nd_value p of None \<Rightarrow> 0 | Some d \<Rightarrow> d)"

definition id_total :: "string list \<Rightarrow> nat" where
  "id_total ps = sum_list (map2 (\<lambda>p w. nd_of p * w) ps ID_WEIGHTS)"

definition id_card_ok :: "string \<Rightarrow> bool" where
  "id_card_ok value \<longleftrightarrow>
     (let ps = cps value in
      length ps = 18 \<and> list_all is_nd (take 17 ps)
      \<and> (if ps ! 17 = ''x'' then ''X'' else ps ! 17) = [ID_CHECKS ! (id_total (take 17 ps) mod 11)])"

section \<open>Masked samples\<close>

definition py_at :: "nat \<Rightarrow> string \<Rightarrow> string" where
  "py_at i s = cps s ! i"

definition py_last :: "nat \<Rightarrow> string \<Rightarrow> string" where
  "py_last n s = concat (drop (py_len s - n) (cps s))"

definition stars :: string where
  "stars = ''****''"

definition mask_ends :: "nat \<Rightarrow> nat \<Rightarrow> string \<Rightarrow> string" where
  "mask_ends a b v = py_take a v @ stars @ py_last b v"

text \<open>The first and the last character, when there are two.\<close>

definition mask_outer :: "string \<Rightarrow> string" where
  "mask_outer v = (if 2 \<le> py_len v then mask_ends 1 1 v else ''***'')"

definition mask_default :: "string \<Rightarrow> string" where
  "mask_default v = (if py_len v < 6 then mask_outer v else mask_ends 3 3 v)"

text \<open>The part of a domain after its last dot.\<close>

definition after_last :: "char \<Rightarrow> string \<Rightarrow> string" where
  "after_last c s = last (split_on c s)"

definition mask_email :: "string \<Rightarrow> string" where
  "mask_email v =
     (if CHR ''@'' \<notin> set v then mask_default v
      else
        let domain = tl (dropWhile (\<lambda>c. c \<noteq> CHR ''@'') v) in
        if CHR ''.'' \<in> set domain then
          (let suffix = after_last (CHR ''.'') domain in if suffix = [] then ''***@***'' else ''***@***.'' @ suffix)
        else ''***@***'')"

definition mask_ipv4 :: "string \<Rightarrow> string" where
  "mask_ipv4 v =
     (case split_on (CHR ''.'') v of
        [a, b, c, d] \<Rightarrow> a @ ''.'' @ b @ ''.**.**''
      | _ \<Rightarrow> if 8 \<le> py_len v then mask_ends 4 4 v else mask_outer v)"

definition mask_pii_value :: "string \<Rightarrow> string \<Rightarrow> string" where
  "mask_pii_value kind value =
     (if value = [] then ''***''
      else
        let k = py_lower kind;
            masked =
              (if k = ''phone'' then (if 7 \<le> py_len value then mask_ends 3 4 value else mask_default value)
               else if k = ''email'' then mask_email value
               else if k = ''bank_card'' then
                 (if 4 \<le> py_len value then ''**** **** **** '' @ py_last 4 value else mask_outer value)
               else if k = ''ipv4'' then mask_ipv4 value
               else if k = ''ipv6'' \<or> k = ''api_key'' then
                 (if py_len value < 6 then mask_outer value
                  else if 8 \<le> py_len value then mask_ends 4 4 value else mask_ends 3 3 value)
               else mask_default value)
        in py_take 64 masked)"

section \<open>What the check digits catch\<close>

lemma luhn_sum_append: "luhn_sum b (xs @ ys) = luhn_sum b xs + luhn_sum (if even (length xs) then b else \<not> b) ys"
  by (induction xs arbitrary: b) auto

lemma cps_digits: "list_all is_digit s \<Longrightarrow> cps s = map (\<lambda>c. [c]) s"
  by (intro ascii_cps) (auto simp: ascii_def list_all_iff is_digit_def)

text \<open>The digit as a number.\<close>

definition dig :: "char \<Rightarrow> int" where
  "dig c = int (byte c) - 48"

lemma dig_bounds: "is_digit c \<Longrightarrow> 0 \<le> dig c \<and> dig c \<le> 9"
  by (auto simp: dig_def is_digit_def)

lemma dig_inj: "dig c = dig d \<longleftrightarrow> c = d"
  by (simp add: dig_def byte_def)

lemma luhn_digit_dig:
  "luhn_digit b [c] = (if b then (if 9 < dig c * 2 then dig c * 2 - 9 else dig c * 2) else dig c)"
  by (simp add: luhn_digit_def dig_def Let_def)

lemma mod10_diff:
  fixes a b u v :: int
  assumes "(u + a + v) mod 10 = 0" and "(u + b + v) mod 10 = 0"
  shows "10 dvd a - b"
proof -
  have "10 dvd (u + a + v) - (u + b + v)" using assms by (intro dvd_diff) (simp_all add: dvd_eq_mod_eq_0)
  then show ?thesis by simp
qed

definition doubled :: "int \<Rightarrow> int" where
  "doubled n = (if 9 < n * 2 then n * 2 - 9 else n * 2)"

lemma luhn_digit_doubled: "luhn_digit b [c] = (if b then doubled (dig c) else dig c)"
  by (simp add: luhn_digit_dig doubled_def)

lemma doubled_inj: "10 dvd doubled m - doubled n \<Longrightarrow> 0 \<le> m \<Longrightarrow> m \<le> 9 \<Longrightarrow> 0 \<le> n \<Longrightarrow> n \<le> 9 \<Longrightarrow> m = n"
  unfolding doubled_def by (simp split: if_splits) presburger+

lemma plain_inj: "10 dvd m - n \<Longrightarrow> 0 \<le> m \<Longrightarrow> m \<le> 9 \<Longrightarrow> 0 \<le> n \<Longrightarrow> n \<le> 9 \<Longrightarrow> m = (n :: int)"
  by presburger

lemma doubled_swap:
  assumes "10 dvd (doubled m + n) - (doubled n + m)" "0 \<le> m" "m \<le> 9" "0 \<le> n" "n \<le> 9"
  shows "m = n \<or> m = 0 \<and> n = 9 \<or> m = 9 \<and> n = 0"
  using assms unfolding doubled_def by (simp split: if_splits) presburger+

lemma luhn_one:
  assumes "is_digit c" "is_digit d" "(u + luhn_digit b [c] + v) mod 10 = 0" "(u + luhn_digit b [d] + v) mod 10 = 0"
  shows "c = d"
  using mod10_diff [OF assms(3,4)] dig_bounds [OF assms(1)] dig_bounds [OF assms(2)]
    doubled_inj [of "dig c" "dig d"] plain_inj [of "dig c" "dig d"]
  by (cases b) (simp_all add: luhn_digit_doubled dig_inj)

lemma luhn_two:
  assumes "is_digit c" "is_digit d"
    and "(u + (luhn_digit b [c] + luhn_digit (\<not> b) [d]) + v) mod 10 = 0"
    and "(u + (luhn_digit b [d] + luhn_digit (\<not> b) [c]) + v) mod 10 = 0"
  shows "c = d \<or> {c, d} = {CHR ''0'', CHR ''9''}"
proof -
  have "dig c = dig d \<or> dig c = 0 \<and> dig d = 9 \<or> dig c = 9 \<and> dig d = 0"
    using mod10_diff [OF assms(3,4)] dig_bounds [OF assms(1)] dig_bounds [OF assms(2)]
      doubled_swap [of "dig c" "dig d"] doubled_swap [of "dig d" "dig c"]
    by (cases b) (auto simp: luhn_digit_doubled add.commute)
  moreover have "dig (CHR ''0'') = 0" "dig (CHR ''9'') = 9" by (simp_all add: dig_def byte_def)
  ultimately show ?thesis by (metis dig_inj insert_commute)
qed

lemma luhn_rev:
  assumes "list_all is_digit s"
  shows "luhn_ok s \<longleftrightarrow> luhn_sum False (map (\<lambda>c. [c]) (rev s)) mod 10 = 0"
  by (simp add: luhn_ok_def cps_digits [OF assms] rev_map)

text \<open>
  The check of bank cards catches every single wrong digit, and every swap of two neighbouring
  digits but that of 0 and 9: two numbers that pass never differ in just that way.
\<close>

theorem luhn_catches_slips:
  assumes "list_all is_digit (x @ [c, d] @ y)" and "is_digit c'" and "luhn_ok (x @ [c, d] @ y)"
  shows "(luhn_ok (x @ [c', d] @ y) \<longleftrightarrow> c' = c)
    \<and> (luhn_ok (x @ [d, c] @ y) \<longrightarrow> c = d \<or> {c, d} = {CHR ''0'', CHR ''9''})"
proof (intro conjI impI iffI)
  let ?m = "map (\<lambda>c. [c])"
  let ?b = "if even (length y) then False else True"
  have split: "luhn_ok (x @ [p, q] @ y) \<longleftrightarrow>
      (luhn_sum False (?m (rev y)) + (luhn_digit ?b [q] + luhn_digit (\<not> ?b) [p])
        + luhn_sum ?b (?m (rev x))) mod 10 = 0" if "is_digit p" "is_digit q" for p q
    using assms(1) that by (simp add: luhn_rev luhn_sum_append algebra_simps)
  have cd: "is_digit c" "is_digit d" using assms(1) by auto
  note here = assms(3) [unfolded split [OF cd]]
  show "c' = c" if "luhn_ok (x @ [c', d] @ y)"
  proof (rule luhn_one [OF assms(2) cd(1)])
    show "(luhn_sum False (?m (rev y)) + luhn_digit ?b [d] + luhn_digit (\<not> ?b) [c'] + luhn_sum ?b (?m (rev x))) mod 10 = 0"
      using that [unfolded split [OF assms(2) cd(2)]] by (simp only: add.assoc)
    show "(luhn_sum False (?m (rev y)) + luhn_digit ?b [d] + luhn_digit (\<not> ?b) [c] + luhn_sum ?b (?m (rev x))) mod 10 = 0"
      using here by (simp only: add.assoc)
  qed
  show "luhn_ok (x @ [c', d] @ y)" if "c' = c" using that assms(3) by simp
  show "c = d \<or> {c, d} = {CHR ''0'', CHR ''9''}" if "luhn_ok (x @ [d, c] @ y)"
    using luhn_two [OF cd(2,1) here that [unfolded split [OF cd(2,1)]]] by (metis insert_commute)
qed

theorem luhn_catches_slips_witness:
  "luhn_ok ''4111111111111111'' \<and> \<not> luhn_ok ''4111111111111171''"
proof -
  have ok: "luhn_ok (''41111111111111'' @ [CHR ''1'', CHR ''1''] @ [])"
    by (subst luhn_rev) (simp_all add: is_digit_def byte_def luhn_digit_doubled dig_def doubled_def)
  with luhn_catches_slips [OF _ _ ok, of "CHR ''7''"] show ?thesis
    by (simp add: is_digit_def byte_def)
qed

text \<open>The weighted sum around one or two digits.\<close>

definition wsum :: "string list \<Rightarrow> nat list \<Rightarrow> nat" where
  "wsum ps ws = sum_list (map2 (\<lambda>p w. nd_of p * w) ps ws)"

lemma wsum_append: "wsum (xs @ ys) ws = wsum xs (take (length xs) ws) + wsum ys (drop (length xs) ws)"
  by (simp add: wsum_def zip_append1)

lemma wsum_Cons: "wsum (p # ps) (w # ws) = nd_of p * w + wsum ps ws"
  by (simp add: wsum_def)

lemma nd_of_digit: "is_digit c \<Longrightarrow> int (nd_of [c]) = dig c"
  by (auto simp: nd_of_def nd_value_def nd_zeros_def is_digit_def dig_def)

lemma is_nd_digit: "is_digit c \<Longrightarrow> is_nd [c]"
  by (simp add: is_nd_def nd_value_def nd_zeros_def is_digit_def)

lemma id_checks_inj: "i < 11 \<Longrightarrow> j < 11 \<Longrightarrow> ID_CHECKS ! i = ID_CHECKS ! j \<longleftrightarrow> i = j"
  unfolding ID_CHECKS_def by (rule nth_eq_iff_index_eq) simp_all

lemma dvd11_cancel:
  fixes a w :: int
  assumes "11 dvd a * w" and "- 9 \<le> a" "a \<le> 9" and "- 10 \<le> w" "w \<le> 10" "w \<noteq> 0"
  shows "a = 0"
proof -
  have "w \<in> {- 10, - 9, - 8, - 7, - 6, - 5, - 4, - 3, - 2, - 1, 1, 2, 3, 4, 5, 6, 7, 8, 9, 10}"
    using assms(4-6) by simp presburger
  then show ?thesis using assms(1-3) by (simp only: insert_iff empty_iff; elim disjE; simp; presburger)
qed

lemma mod11_diff:
  assumes "(u + a + v) mod 11 = (u + b + v) mod (11 :: nat)"
  shows "11 dvd int a - int b"
proof -
  have "int (u + a + v) mod 11 = int (u + b + v) mod 11" using assms by (metis of_nat_mod of_nat_numeral)
  then have "11 dvd int (u + a + v) - int (u + b + v)" by (rule mod_eq_dvd_iff [THEN iffD1])
  then show ?thesis by simp
qed

text \<open>A list of weights as the weights around a place: all between 1 and 10, neighbours differ.\<close>

lemma id_weights_at:
  assumes "i < 16"
  obtains w w' where "drop i ID_WEIGHTS = w # w' # drop (i + 2) ID_WEIGHTS"
    and "1 \<le> w" "w \<le> 10" "1 \<le> w'" "w' \<le> 10" "w \<noteq> w'"
proof -
  have len: "length ID_WEIGHTS = 17" by (simp add: ID_WEIGHTS_def)
  have d: "drop i ID_WEIGHTS = ID_WEIGHTS ! i # ID_WEIGHTS ! (i + 1) # drop (i + 2) ID_WEIGHTS"
    using assms Cons_nth_drop_Suc [of i ID_WEIGHTS] Cons_nth_drop_Suc [of "i + 1" ID_WEIGHTS] len by simp
  have "\<forall>j \<in> {0 ..< 16}. 1 \<le> ID_WEIGHTS ! j \<and> ID_WEIGHTS ! j \<le> 10 \<and> 1 \<le> ID_WEIGHTS ! (j + 1)
      \<and> ID_WEIGHTS ! (j + 1) \<le> 10 \<and> ID_WEIGHTS ! j \<noteq> ID_WEIGHTS ! (j + 1)"
    unfolding ID_WEIGHTS_def by code_simp
  with assms have "1 \<le> ID_WEIGHTS ! i \<and> ID_WEIGHTS ! i \<le> 10 \<and> 1 \<le> ID_WEIGHTS ! (i + 1)
      \<and> ID_WEIGHTS ! (i + 1) \<le> 10 \<and> ID_WEIGHTS ! i \<noteq> ID_WEIGHTS ! (i + 1)" by simp
  then show thesis using that [OF d] by blast
qed

lemma id_ok_total:
  assumes "list_all is_digit s" and "length s = 17" and "byte k < 128"
  shows "id_card_ok (s @ [k]) \<longleftrightarrow> (if k = CHR ''x'' then CHR ''X'' else k) = ID_CHECKS ! (wsum (map (\<lambda>c. [c]) s) ID_WEIGHTS mod 11)"
proof -
  have "cps (s @ [k]) = map (\<lambda>c. [c]) (s @ [k])"
    using assms by (intro ascii_cps) (auto simp: ascii_def list_all_iff is_digit_def)
  moreover have "list_all is_nd (map (\<lambda>c. [c]) s)"
    using assms(1) by (auto simp: list_all_iff is_nd_digit)
  ultimately show ?thesis
    using assms(2) by (simp add: id_card_ok_def id_total_def wsum_def Let_def nth_append)
qed

text \<open>
  The check of identity cards catches every single wrong digit and every swap of two neighbouring
  digits in the first seventeen places.
\<close>

theorem id_card_catches_slips:
  assumes "list_all is_digit (x @ [c, d] @ y)" and "length (x @ [c, d] @ y) = 17" and "is_digit c'"
    and "byte k < 128" and "id_card_ok (x @ [c, d] @ y @ [k])"
  shows "(id_card_ok (x @ [c', d] @ y @ [k]) \<longleftrightarrow> c' = c) \<and> (id_card_ok (x @ [d, c] @ y @ [k]) \<longleftrightarrow> c = d)"
proof -
  let ?m = "map (\<lambda>c. [c])"
  have len: "length x < 16" using assms(2) by simp
  obtain w w' where w: "drop (length x) ID_WEIGHTS = w # w' # drop (length x + 2) ID_WEIGHTS"
    and r: "1 \<le> w" "w \<le> 10" "1 \<le> w'" "w' \<le> 10" "w \<noteq> w'"
    using id_weights_at [OF len] by metis
  define u where "u = wsum (?m x) (take (length x) ID_WEIGHTS)"
  define v where "v = wsum (?m y) (drop (length x + 2) ID_WEIGHTS)"
  let ?t = "\<lambda>p q. (u + (nd_of [p] * w + nd_of [q] * w') + v) mod 11"
  have ok: "id_card_ok (x @ [p, q] @ y @ [k]) \<longleftrightarrow> (if k = CHR ''x'' then CHR ''X'' else k) = ID_CHECKS ! ?t p q"
    if "is_digit p" "is_digit q" for p q
  proof -
    have "wsum (?m (x @ [p, q] @ y)) ID_WEIGHTS = u + (nd_of [p] * w + nd_of [q] * w') + v"
      by (simp add: wsum_append w wsum_Cons u_def v_def)
    then show ?thesis using id_ok_total [of "x @ [p, q] @ y" k] assms(1,2,4) that by simp
  qed
  have cd: "is_digit c" "is_digit d" using assms(1) by auto
  have same: "id_card_ok (x @ [p, q] @ y @ [k]) \<longleftrightarrow> ?t c d = ?t p q" if "is_digit p" "is_digit q" for p q
    using assms(5) id_checks_inj [of "?t c d" "?t p q"] unfolding ok [OF that] ok [OF cd] by simp
  have "c' = c" if "?t c d = ?t c' d"
  proof -
    have "11 dvd int (nd_of [c] * w + nd_of [d] * w') - int (nd_of [c'] * w + nd_of [d] * w')"
      using mod11_diff [OF that] .
    then have "11 dvd (dig c - dig c') * int w"
      by (simp add: nd_of_digit cd assms(3) algebra_simps)
    from dvd11_cancel [OF this] show ?thesis
      using r dig_bounds [OF cd(1)] dig_bounds [OF assms(3)] by (simp add: dig_inj [symmetric])
  qed
  moreover have "c = d" if "?t c d = ?t d c"
  proof -
    have "11 dvd int (nd_of [c] * w + nd_of [d] * w') - int (nd_of [d] * w + nd_of [c] * w')"
      using mod11_diff [OF that] .
    then have "11 dvd (dig c - dig d) * (int w - int w')"
      by (simp add: nd_of_digit cd algebra_simps)
    from dvd11_cancel [OF this] show ?thesis
      using r dig_bounds [OF cd(1)] dig_bounds [OF cd(2)] by (simp add: dig_inj [symmetric])
  qed
  ultimately show ?thesis using same [OF assms(3) cd(2)] same [OF cd(2,1)] assms(5) by auto
qed

theorem id_card_catches_slips_witness:
  "id_card_ok ''11010519491231002X'' \<and> \<not> id_card_ok ''11010519491231020X'' \<and> \<not> id_card_ok ''11010519491231092X''"
proof -
  have ok: "id_card_ok (''110105194912310'' @ [CHR ''0'', CHR ''2''] @ [] @ ''X'')"
    using id_ok_total [of "''11010519491231002''" "CHR ''X''"]
    by (simp add: is_digit_def byte_def wsum_def ID_WEIGHTS_def ID_CHECKS_def nd_of_def nd_value_def nd_zeros_def)
  show ?thesis
    using id_card_catches_slips [OF _ _ _ _ ok, of "CHR ''9''"] ok by (simp add: is_digit_def byte_def)
qed

section \<open>What a masked sample shows\<close>

text \<open>Cutting a text into code points after taking some of them.\<close>

lemma cps_take: "cps (concat (take n (cps s))) = take n (cps s)"
proof (induction s arbitrary: n rule: cps.induct)
  case (2 c s)
  show ?case
  proof (cases n)
    case (Suc m)
    let ?h = "take (cp_width c) (c # s)" and ?t = "drop (cp_width c) (c # s)"
    obtain w where w: "cp_width c = Suc w" using cp_width_pos [of c] gr0_conv_Suc by blast
    show ?thesis
    proof (cases "?t = []")
      case True
      then have "?h = c # s" by simp
      with Suc True show ?thesis by simp
    next
      case False
      then have "length (take w s) = w" using w by simp
      then have "cps (?h @ r) = ?h # cps r" for r using w by simp
      with Suc 2 show ?thesis by simp
    qed
  qed simp
qed simp

lemma py_len_take: "py_len (py_take n s) = min n (py_len s)"
  by (simp add: py_len_def py_take_def cps_take)

lemma mask_bounded: "py_len (mask_pii_value kind v) \<le> 64"
proof (cases "v = []")
  case True
  then show ?thesis by (simp add: mask_pii_value_def py_len_def cp_width_def byte_def)
qed (simp add: mask_pii_value_def py_len_take Let_def)

lemma py_take_last: "n \<le> py_len s \<Longrightarrow> py_take n s @ py_last (py_len s - n) s = s"
  by (simp add: py_take_def py_last_def py_len_def flip: concat_append)

text \<open>
  A sample of a value of two characters shows both, and one of six characters all six: the mask only
  stands between them.  So a name of two characters, the usual length of a Chinese one, is kept in
  clear.
\<close>

lemma short_sample_shows_all:
  assumes "py_lower kind \<notin> set [''phone'', ''email'', ''bank_card'', ''ipv4'', ''ipv6'', ''api_key'']"
    and "py_len v = 2 \<or> py_len v = 6"
  shows "\<exists>a b. v = a @ b \<and> mask_pii_value kind v = py_take 64 (a @ stars @ b)"
proof -
  from assms(2) have "v \<noteq> []" by auto
  with assms show ?thesis
    using py_take_last [of 1 v] py_take_last [of 3 v]
    by (auto simp: mask_pii_value_def mask_default_def mask_outer_def mask_ends_def Let_def)
      metis+
qed

end
