(* ===== verification/Pii_Scan.thy ===== *)
theory Pii_Scan
  imports Pii_Check Pii_Vault Audit_Text Regex_Facts
begin

text \<open>
  What the PII detector finds in a text (\<open>_pii.py\<close>): the built-in patterns with their second checks,
  the custom rules with the budget that stops a slow one, the list of sensitive names, and the places
  that are left alone.  Positions count code points.  The search of a custom pattern (\<open>re\<close> on a text
  from a file, in a thread with a time limit) is an argument.
\<close>

section \<open>Patterns\<close>

definition asc :: "(char \<Rightarrow> bool) \<Rightarrow> string \<Rightarrow> bool" where
  "asc P p \<longleftrightarrow> (\<exists>c. p = [c] \<and> byte c < 128 \<and> P c)"

lemma asc_code [code]: "asc P p = (case p of [c] \<Rightarrow> byte c < 128 \<and> P c | _ \<Rightarrow> False)"
  by (auto simp: asc_def split: list.splits)

definition COARSE_FILTER_RE :: rx where
  "COARSE_FILTER_RE = One (\<lambda>p. is_nd p \<or> asc (alnum_or ''@.-'') p)"

definition DATA_URL_RE :: rx where
  "DATA_URL_RE = rx_cat [lit ''data:image/'', plus (nset '';''), lit '';base64,'',
     plus (One (\<lambda>p. asc (alnum_or ''+/='') p \<or> is_ws p))]"

definition PROTECTED_TOKEN_RE :: rx where
  "PROTECTED_TOKEN_RE = rx_alt [rx_cat [lit ''__VG_CRED_'', Rep True 4 None rx_d, lit ''__''],
     rx_cat [lit ''__PII_'', plus rx_d, ch CHR ''_'', times 8 8 (acls hex_any), lit ''__'']]"

definition URL_PARAMS :: "string list" where
  "URL_PARAMS = [''id'', ''order'', ''sn'', ''amount'', ''uid'', ''tid'', ''no'', ''num'', ''count'', ''page'',
     ''limit'', ''offset'', ''ts'', ''time'', ''date'', ''price'', ''total'', ''code'', ''code2'']"

definition URL_QUERY_PARAM_RE :: rx where
  "URL_QUERY_PARAM_RE = rx_cat [cset ''?&'', rx_alt (map lit_ci URL_PARAMS), star rx_s, ch CHR ''='', star rx_s,
     Rep True 10 None rx_d]"

definition EMAIL_RE :: rx where
  "EMAIL_RE = rx_cat [Behind False (asc (alnum_or ''_.+-'')), plus (acls (alnum_or ''._%+-'')), ch CHR ''@'',
     plus (acls (alnum_or ''.-'')), ch CHR ''.'', Rep True 2 None (acls is_alpha_ascii),
     Ahead False (acls (alnum_or ''_.-''))]"

definition PHONE_RE :: rx where
  "PHONE_RE = rx_cat [Behind False is_nd, opt (rx_cat [opt (ch CHR ''+''), lit ''86'', opt (cset ''- '')]),
     ch CHR ''1'', cset ''3456789'', times 9 9 rx_d, Ahead False rx_d]"

definition ID_CARD_RE :: rx where
  "ID_CARD_RE = rx_cat [Behind False is_nd, times 17 17 rx_d, One (\<lambda>p. is_nd p \<or> p = ''X'' \<or> p = ''x''),
     Ahead False rx_d]"

definition BANK_CARD_RE :: rx where
  "BANK_CARD_RE = rx_cat [Behind False is_nd,
     rx_alt [Cat (rx_alt [lit ''62'', lit ''60'', Cat (ch CHR ''3'') (cset ''47'')]) (times 11 17 rx_d),
       Cat (cset ''45'') (times 12 18 rx_d)], Ahead False rx_d]"

definition IPV4_RE4 :: rx where
  "IPV4_RE4 = rx_cat [Behind False (\<lambda>p. is_nd p \<or> p = ''.''), times 3 3 (Cat (times 1 3 rx_d) (ch CHR ''.'')),
     times 1 3 rx_d, Ahead False rx_d]"

definition hexc :: "string \<Rightarrow> rx" where
  "hexc cs = acls (\<lambda>c. hex_any c \<or> c \<in> set cs)"

definition IPV6_RE6 :: rx where
  "IPV6_RE6 = rx_cat [Behind False (asc (alnum_or '':.'')), Rep True 2 None (Cat (times 0 4 (hexc [])) (ch CHR '':'')),
     star (hexc '':.'')]"

definition API_KEY_RE :: rx where
  "API_KEY_RE = rx_cat [Behind False (asc (alnum_or ''-'')),
     rx_alt [rx_cat [lit ''sk-'', opt (rx_alt [lit ''proj-'', lit ''ant-'']), Rep True 16 None (acls (alnum_or ''_-''))],
       rx_cat [lit ''gh'', cset ''pous'', ch CHR ''_'', Rep True 16 None (acls (alnum_or []))],
       Cat (lit ''AKIA'') (times 16 16 (acls (\<lambda>c. is_digit c \<or> is_upper c)))],
     Ahead False (acls (alnum_or ''-''))]"

definition KINDS :: "string list" where
  "KINDS = [''email'', ''phone'', ''id_card'', ''bank_card'', ''ipv4'', ''ipv6'', ''api_key'']"

text \<open>The patterns joined by \<open>|\<close>, each in a group of its name; the lookahead of IPv6 is outside its group.\<close>

definition COMBINED_RE :: rx where
  "COMBINED_RE = rx_alt [Grp 1 EMAIL_RE, Grp 2 PHONE_RE, Grp 3 ID_CARD_RE, Grp 4 BANK_CARD_RE, Grp 5 IPV4_RE4,
     Cat (Grp 6 IPV6_RE6) (Ahead False (acls (alnum_or '':.''))), Grp 7 API_KEY_RE]"

section \<open>Spans\<close>

record span =
  sp_kind :: string
  sp_value :: string
  sp_start :: nat
  sp_end :: nat

type_synonym places = "(nat \<times> nat) list"

definition overlaps :: "places \<Rightarrow> nat \<Rightarrow> nat \<Rightarrow> bool" where
  "overlaps spans start fin \<longleftrightarrow>
     list_ex (\<lambda>(s, e). s \<le> start \<and> start < e \<or> s < fin \<and> fin \<le> e \<or> start \<le> s \<and> e \<le> fin) spans"

definition rx_places :: "rx \<Rightarrow> string list \<Rightarrow> places" where
  "rx_places r ps = map (\<lambda>(k, st). (k, fst st)) (rx_all r ps 0)"

definition protected_places :: "string list \<Rightarrow> places" where
  "protected_places ps = rx_places DATA_URL_RE ps @ rx_places PROTECTED_TOKEN_RE ps"

text \<open>Every place of every credential, also those that overlap.\<close>

definition credential_spans :: "string list \<Rightarrow> string list \<Rightarrow> places" where
  "credential_spans creds ps =
     concat (map (\<lambda>v. if v = [] then []
        else map (\<lambda>i. (i, i + py_len v)) (filter (\<lambda>i. prefix (cps v) (drop i ps)) [0 ..< length ps])) creds)"

section \<open>The built-in patterns\<close>

definition group_kind :: "rx_st \<Rightarrow> string option" where
  "group_kind st = (case snd st of [] \<Rightarrow> None | (k, ab) # caps \<Rightarrow> Some (KINDS ! (k - 1)))"

text \<open>The address without trailing punctuation when that is one, else the whole match when it is.\<close>

definition rstrip_points :: "string \<Rightarrow> string list \<Rightarrow> string list" where
  "rstrip_points cs ps = rev (dropWhile (\<lambda>p. \<exists>c \<in> set cs. p = [c]) (rev ps))"

definition ip_value :: "(string \<Rightarrow> bool) \<Rightarrow> string \<Rightarrow> string option" where
  "ip_value valid v =
     (let core = concat (rstrip_points ''.,;)]}'' (cps v)) in
      if core \<noteq> [] \<and> valid core then Some core else if valid v then Some v else None)"

definition in_url_param :: "string list \<Rightarrow> nat \<Rightarrow> nat \<Rightarrow> bool" where
  "in_url_param ps s e = (re_search URL_QUERY_PARAM_RE (slice ps (s - 64) (min (length ps) (e + 16))) \<noteq> None)"

text \<open>The value of a match, unless one of the second checks drops it.\<close>

definition checked_value :: "string list \<Rightarrow> string \<Rightarrow> nat \<Rightarrow> nat \<Rightarrow> string option" where
  "checked_value ps kind s e =
     (let v0 = slice ps s e in
      case (if kind = ''ipv6'' then ip_value is_valid_ipv6 v0
            else if kind = ''ipv4'' then ip_value is_valid_ipv4 v0 else Some v0) of
        None \<Rightarrow> None
      | Some v \<Rightarrow>
          if kind = ''bank_card'' \<and> in_url_param ps s e then None
          else if kind = ''id_card'' \<and> \<not> id_card_ok v then None
          else if kind = ''bank_card'' \<and> \<not> luhn_ok v then None
          else if (kind = ''ipv4'' \<or> kind = ''ipv6'') \<and> is_reserved_ip (kind = ''ipv6'') v then None
          else Some v)"

definition builtin_hit :: "string list \<Rightarrow> places \<Rightarrow> places \<Rightarrow> nat \<times> rx_st \<Rightarrow> span option" where
  "builtin_hit ps prot cred m =
     (let s = fst m; e = fst (snd m) in
      if overlaps prot s e then None
      else case group_kind (snd m) of
        None \<Rightarrow> None
      | Some kind \<Rightarrow>
          (case checked_value ps kind s e of
             None \<Rightarrow> None
           | Some v \<Rightarrow>
               if overlaps cred s (s + py_len v) then None
               else Some \<lparr>sp_kind = kind, sp_value = v, sp_start = s, sp_end = s + py_len v\<rparr>))"

definition scan_builtin :: "string list \<Rightarrow> places \<Rightarrow> places \<Rightarrow> span list" where
  "scan_builtin ps prot cred =
     (if rx_from COARSE_FILTER_RE ps 0 = None then []
      else List.map_filter (builtin_hit ps prot cred) (rx_all COMBINED_RE ps 0))"

section \<open>Custom rules\<close>

definition PII_SCAN_INPUT_LIMIT :: nat where "PII_SCAN_INPUT_LIMIT = 1048576"
definition PII_RE_DOS_STRIKES :: nat where "PII_RE_DOS_STRIKES = 3"

datatype find_result = Found places | Timed_Out | Find_Error

record rule =
  ru_name :: string
  ru_src :: string

record detector =
  de_rules :: "rule list"
  de_names :: "string list"
  de_strikes :: "(string, nat) dict"
  de_disabled :: "string list"
  de_dict :: "(string \<times> string) list"
  de_ver :: nat
  de_flag :: "nat option"
  de_combined :: "string option"

definition detector_init :: detector where
  "detector_init = \<lparr>de_rules = [], de_names = [], de_strikes = [], de_disabled = [], de_dict = [], de_ver = 0,
     de_flag = None, de_combined = None\<rparr>"

definition scan_overlap :: "rule list \<Rightarrow> nat" where
  "scan_overlap rules =
     (let longest = foldr (\<lambda>r m. max (py_len (ru_src r)) m) rules 0
      in if 256 < longest then min longest 4096 else 256)"

definition scan_chunks :: "rule list \<Rightarrow> string list \<Rightarrow> (nat \<times> string list) list" where
  "scan_chunks rules ps =
     (let step = PII_SCAN_INPUT_LIMIT - scan_overlap rules in
      if PII_SCAN_INPUT_LIMIT < length ps then
        map (\<lambda>k. (k * step, take PII_SCAN_INPUT_LIMIT (drop (k * step) ps))) [0 ..< (length ps + step - 1) div step]
      else [(0, ps)])"

type_synonym hits = "places \<times> span list"

definition add_match :: "string \<Rightarrow> places \<Rightarrow> places \<Rightarrow> nat \<times> string list \<Rightarrow> nat \<times> nat \<Rightarrow> hits \<Rightarrow> hits" where
  "add_match name prot cred c m acc =
     (let s = fst c + fst m; e = fst c + snd m in
      if (s, e) \<in> set (fst acc) then acc
      else if overlaps prot s e \<or> overlaps cred s e then acc
      else ((s, e) # fst acc,
            snd acc @ [\<lparr>sp_kind = name, sp_value = slice (snd c) (fst m) (snd m), sp_start = s, sp_end = e\<rparr>]))"

datatype rule_end = Rule_Done | Rule_Timeout | Rule_Error

fun scan_rule ::
  "(string \<Rightarrow> string \<Rightarrow> find_result) \<Rightarrow> rule \<Rightarrow> places \<Rightarrow> places \<Rightarrow> (nat \<times> string list) list \<Rightarrow> hits \<Rightarrow> rule_end \<times> hits" where
  "scan_rule look r prot cred [] acc = (Rule_Done, acc)"
| "scan_rule look r prot cred (c # cs) acc =
     (case look (ru_src r) (concat (snd c)) of
        Timed_Out \<Rightarrow> (Rule_Timeout, acc)
      | Find_Error \<Rightarrow> (Rule_Error, acc)
      | Found ms \<Rightarrow> scan_rule look r prot cred cs (foldl (\<lambda>a m. add_match (ru_name r) prot cred c m a) acc ms))"

text \<open>A rule that ran to its end starts again from no strikes; at three in a row it is switched off.\<close>

definition strike :: "string \<Rightarrow> detector \<Rightarrow> detector" where
  "strike name d =
     (let n = dget_or (de_strikes d) name 0 + 1; d1 = d\<lparr>de_strikes := dset name n (de_strikes d)\<rparr> in
      if PII_RE_DOS_STRIKES \<le> n then
        (let dis = List.insert name (de_disabled d1)
         in d1\<lparr>de_disabled := dis, de_flag := map_option (\<lambda>_. length dis) (de_flag d1)\<rparr>)
      else d1)"

fun scan_rules ::
  "(string \<Rightarrow> string \<Rightarrow> find_result) \<Rightarrow> places \<Rightarrow> places \<Rightarrow> (nat \<times> string list) list \<Rightarrow> rule list
     \<Rightarrow> detector \<Rightarrow> hits \<Rightarrow> detector \<times> hits" where
  "scan_rules look prot cred cs [] d acc = (d, acc)"
| "scan_rules look prot cred cs (r # rs) d acc =
     (if ru_name r \<in> set (de_disabled d) then scan_rules look prot cred cs rs d acc
      else case scan_rule look r prot cred cs acc of
        (Rule_Done, acc') \<Rightarrow> scan_rules look prot cred cs rs (d\<lparr>de_strikes := ddel (ru_name r) (de_strikes d)\<rparr>) acc'
      | (Rule_Timeout, acc') \<Rightarrow> scan_rules look prot cred cs rs (strike (ru_name r) d) acc'
      | (Rule_Error, acc') \<Rightarrow> scan_rules look prot cred cs rs d acc')"

definition scan_custom ::
  "(string \<Rightarrow> string \<Rightarrow> find_result) \<Rightarrow> string list \<Rightarrow> places \<Rightarrow> places \<Rightarrow> detector \<Rightarrow> detector \<times> span list" where
  "scan_custom look ps prot cred d =
     (if de_rules d = [] \<or> ps = [] then (d, [])
      else case scan_rules look prot cred (scan_chunks (de_rules d) ps) (de_rules d) d ([], []) of
        (d', acc) \<Rightarrow> (d', snd acc))"

section \<open>Sensitive names\<close>

text \<open>The longest names first; names of one length in the order of the file.\<close>

definition load_dict :: "(string \<times> string) list option \<Rightarrow> detector \<Rightarrow> detector" where
  "load_dict entries d =
     (case entries of
        None \<Rightarrow> d
      | Some es \<Rightarrow> d\<lparr>de_dict := sort_key (\<lambda>e. - int (py_len (fst e))) es, de_ver := de_ver d + 1\<rparr>)"

text \<open>The next name from a position on: a name that is found is left behind, an empty one by one step.\<close>

function dict_find :: "string list \<Rightarrow> string list \<Rightarrow> nat \<Rightarrow> (string \<times> nat) list" where
  "dict_find names ps i =
     (if length ps < i then []
      else case find (\<lambda>n. prefix (cps n) (drop i ps)) names of
        None \<Rightarrow> dict_find names ps (i + 1)
      | Some n \<Rightarrow> (n, i) # dict_find names ps (if n = [] then i + 1 else i + py_len n))"
  by pat_completeness auto
termination
proof (relation "measure (\<lambda>(names, ps, i). length ps + 1 - i)")
  fix names :: "string list" and ps i n
  assume "\<not> length ps < i"
  moreover have "0 < (if n = [] then 1 else py_len n)" using py_len_0 [of n] neq0_conv [of "py_len n"] by (cases "n = []") simp_all
  ultimately show "((names, ps, if n = [] then i + 1 else i + py_len n), (names, ps, i))
      \<in> measure (\<lambda>(names, ps, i). length ps + 1 - i)"
    by (auto split: if_splits)
qed auto

declare dict_find.simps [simp del]

definition is_cjk :: "string \<Rightarrow> bool" where
  "is_cjk p \<longleftrightarrow> 0x4e00 \<le> cp_code p \<and> cp_code p \<le> 0x9fff"

definition ascii_alnum :: "string \<Rightarrow> bool" where
  "ascii_alnum p \<longleftrightarrow> cp_code p < 128 \<and> is_alnum p"

definition dict_boundary_ok :: "bool \<Rightarrow> string list \<Rightarrow> nat \<Rightarrow> nat \<Rightarrow> string \<Rightarrow> bool" where
  "dict_boundary_ok hardening ps start fin typ \<longleftrightarrow>
     (let before = (\<lambda>P. 0 < start \<and> P (ps ! (start - 1))); after = (\<lambda>P. fin < length ps \<and> P (ps ! fin));
          glue = (\<lambda>p. is_alnum p \<or> is_cjk p) in
      if typ = ''name'' \<or> typ = ''person'' then
        (if hardening then \<not> (before glue \<or> after glue) else \<not> (before ascii_alnum \<or> after glue))
      else \<not> (before ascii_alnum \<or> after ascii_alnum))"

definition dict_type :: "(string \<times> string) list \<Rightarrow> string \<Rightarrow> string" where
  "dict_type entries name = (case find (\<lambda>e. fst e = name) entries of None \<Rightarrow> ''name'' | Some e \<Rightarrow> snd e)"

definition dict_span ::
  "bool \<Rightarrow> (string \<times> string) list \<Rightarrow> string list \<Rightarrow> places \<Rightarrow> string \<times> nat \<Rightarrow> span option" where
  "dict_span hardening entries ps cred m =
     (let name = fst m; s = snd m; e = s + py_len name; typ = dict_type entries name in
      if overlaps cred s e \<or> \<not> dict_boundary_ok hardening ps s e typ then None
      else Some \<lparr>sp_kind = typ, sp_value = name, sp_start = s, sp_end = e\<rparr>)"

definition scan_dict_spans :: "bool \<Rightarrow> (string \<times> string) list \<Rightarrow> string list \<Rightarrow> places \<Rightarrow> span list" where
  "scan_dict_spans hardening entries ps cred =
     (if entries = [] \<or> ps = [] then []
      else List.map_filter (dict_span hardening entries ps cred) (dict_find (map fst entries) ps 0))"

section \<open>The whole scan\<close>

definition scan_spans ::
  "bool \<Rightarrow> (string \<Rightarrow> string \<Rightarrow> find_result) \<Rightarrow> string list \<Rightarrow> string \<Rightarrow> detector \<Rightarrow> detector \<times> span list" where
  "scan_spans hardening look creds text d =
     (let ps = cps text; prot = protected_places ps; cred = credential_spans creds ps in
      if text = [] then (d, [])
      else case scan_custom look ps prot cred d of
        (d', custom) \<Rightarrow>
          (d', scan_builtin ps prot cred @ custom @ scan_dict_spans hardening (de_dict d) ps cred))"

section \<open>Every value is the text at its place\<close>

definition span_exact :: "string list \<Rightarrow> span \<Rightarrow> bool" where
  "span_exact ps x \<longleftrightarrow> sp_start x \<le> sp_end x \<and> sp_end x \<le> length ps \<and> sp_value x = slice ps (sp_start x) (sp_end x)"

text \<open>What \<open>re\<close> promises of the matches it finds: they are in the text.\<close>

definition finder_ok :: "(string \<Rightarrow> string \<Rightarrow> find_result) \<Rightarrow> bool" where
  "finder_ok look \<longleftrightarrow> (\<forall>src t ms a b. look src t = Found ms \<and> (a, b) \<in> set ms \<longrightarrow> a \<le> b \<and> b \<le> py_len t)"

lemma cps_drop: "cps (concat (drop n (cps s))) = drop n (cps s)"
proof (induction s arbitrary: n rule: cps.induct)
  case (2 c s)
  then show ?case by (cases n) (simp_all del: drop_Cons' add: drop_Suc_Cons)
qed simp

lemma cps_part: "cps (concat (take n (drop k (cps s)))) = take n (drop k (cps s))"
  using cps_take [of n "concat (drop k (cps s))"] by (simp only: cps_drop)

lemma cps_slice: "cps (slice (cps s) a b) = take (b - a) (drop a (cps s))"
  by (simp add: slice_def cps_part)

lemma slice_part:
  assumes "b \<le> length (take n (drop k ps))"
  shows "slice (take n (drop k ps)) a b = slice ps (k + a) (k + b)"
proof -
  have "b - a \<le> n - a" using assms by (intro diff_le_mono) simp
  then have "take (b - a) (drop a (take n (drop k ps))) = take (b - a) (drop (k + a) ps)"
    by (simp add: drop_take add.commute min_def)
  then show ?thesis by (simp add: slice_def)
qed

lemma rstrip_points_take: "\<exists>k \<le> length ps. rstrip_points cs ps = take k ps"
proof (induction ps rule: rev_induct)
  case (snoc p ps)
  show ?case
  proof (cases "\<exists>c \<in> set cs. p = [c]")
    case True
    then have "rstrip_points cs (ps @ [p]) = rstrip_points cs ps" by (simp add: rstrip_points_def)
    moreover obtain k where "k \<le> length ps" "rstrip_points cs ps = take k ps" using snoc by blast
    ultimately show ?thesis by (intro exI [of _ k]) simp
  qed (auto simp: rstrip_points_def intro!: exI [of _ "Suc (length ps)"])
qed (simp add: rstrip_points_def)

lemma ip_value_part:
  assumes "ip_value valid (slice (cps s) a b) = Some v" and "a \<le> b" and "b \<le> py_len s"
  shows "a + py_len v \<le> b \<and> v = slice (cps s) a (a + py_len v)"
proof -
  let ?qs = "take (b - a) (drop a (cps s))"
  from assms(1) have "v = concat (rstrip_points ''.,;)]}'' ?qs) \<or> v = concat ?qs"
    by (auto simp: ip_value_def Let_def cps_part slice_def [of _ a b] split: if_splits)
  moreover obtain j where "rstrip_points ''.,;)]}'' ?qs = take j ?qs" using rstrip_points_take by blast
  ultimately obtain k where k: "v = concat (take k ?qs)" by (metis take_all_iff order_refl)
  have "cps v = take k ?qs" using cps_part [of "min k (b - a)" a s] by (simp add: k)
  then have "py_len v = min k (b - a)" using assms(2,3) by (simp add: py_len_def)
  with k show ?thesis using assms(2) by (simp add: slice_def)
qed

lemma checked_value_part:
  assumes "checked_value (cps s) kind a b = Some v" and "a \<le> b" and "b \<le> py_len s"
  shows "a + py_len v \<le> b \<and> v = slice (cps s) a (a + py_len v)"
proof -
  from assms(1) have "ip_value is_valid_ipv6 (slice (cps s) a b) = Some v
      \<or> ip_value is_valid_ipv4 (slice (cps s) a b) = Some v \<or> v = slice (cps s) a b"
    by (auto simp: checked_value_def Let_def split: option.splits if_splits)
  moreover have "py_len (slice (cps s) a b) = b - a"
    using assms(2,3) by (simp add: py_len_def cps_slice)
  ultimately show ?thesis using ip_value_part [OF _ assms(2,3)] assms(2) by auto
qed

lemma rx_all_in: "(k, st) \<in> set (rx_all r ps i) \<Longrightarrow> i \<le> k \<and> k < fst st \<and> fst st \<le> length ps"
proof (induction r ps i rule: rx_all.induct)
  case (1 r ps i)
  show ?case
  proof (cases "rx_from r ps i")
    case None
    with "1.prems" show ?thesis by (subst (asm) rx_all.simps) simp
  next
    case (Some m)
    obtain j u where m: "m = (j, u)" by (cases m)
    show ?thesis
    proof (cases "i \<le> j \<and> j < fst u \<and> fst u \<le> length ps")
      case True
      with "1.prems" Some m have "k = j \<and> st = u \<or> (k, st) \<in> set (rx_all r ps (fst u))"
        by (subst (asm) rx_all.simps) auto
      with "1.IH"(1) [OF Some m [symmetric] True] True show ?thesis by auto
    next
      case False
      with "1.prems" Some m have "i < length ps \<and> (k, st) \<in> set (rx_all r ps (i + 1))"
        by (subst (asm) rx_all.simps) (auto split: if_splits)
      with "1.IH"(2) [OF Some m [symmetric] False] show ?thesis by auto
    qed
  qed
qed

text \<open>Not overlapping: entirely before or after.\<close>

definition apart :: "places \<Rightarrow> span \<Rightarrow> bool" where
  "apart pl x \<longleftrightarrow> (\<forall>(a, b) \<in> set pl. sp_end x \<le> a \<or> b \<le> sp_start x)"

definition places_ok :: "places \<Rightarrow> bool" where
  "places_ok pl \<longleftrightarrow> (\<forall>(a, b) \<in> set pl. a \<le> b)"

lemma not_overlaps_apart:
  assumes "\<not> overlaps pl s e" and "places_ok pl" and "s \<le> e" and "sp_start x = s" and "sp_end x \<le> e"
  shows "apart pl x"
  unfolding apart_def
proof (clarify, goal_cases)
  case (1 a b)
  then have "a \<le> b" "\<not> (a \<le> s \<and> s < b \<or> a < e \<and> e \<le> b \<or> s \<le> a \<and> b \<le> e)"
    using assms(1,2) by (auto simp: overlaps_def places_ok_def list_ex_iff)
  with 1 assms(3-5) show ?case by linarith
qed

lemma protected_places_ok: "places_ok (protected_places ps)"
  by (auto simp: places_ok_def protected_places_def rx_places_def dest!: rx_all_in)

lemma credential_spans_ok: "places_ok (credential_spans creds ps)"
  by (auto simp: places_ok_def credential_spans_def split: if_splits)

definition span_good :: "string list \<Rightarrow> places \<Rightarrow> span \<Rightarrow> bool" where
  "span_good ps pl x \<longleftrightarrow> span_exact ps x \<and> apart pl x"

lemma apart_append: "apart (pl @ ql) x \<longleftrightarrow> apart pl x \<and> apart ql x"
  by (auto simp: apart_def)

lemma map_filter_set: "y \<in> set (List.map_filter f xs) \<longleftrightarrow> (\<exists>x \<in> set xs. f x = Some y)"
  by (auto simp: List.map_filter_def image_iff)

lemma builtin_good:
  assumes "places_ok prot" and "places_ok cred" and "x \<in> set (scan_builtin (cps text) prot cred)"
  shows "span_good (cps text) (prot @ cred) x"
proof -
  from assms(3) obtain k st where m: "(k, st) \<in> set (rx_all COMBINED_RE (cps text) 0)"
    and h: "builtin_hit (cps text) prot cred (k, st) = Some x"
    by (auto simp: scan_builtin_def map_filter_set split: if_splits)
  from rx_all_in [OF m] have b: "k \<le> fst st" "fst st \<le> py_len text" by (simp_all add: py_len_def)
  from h obtain kind v where v: "checked_value (cps text) kind k (fst st) = Some v"
    and np: "\<not> overlaps prot k (fst st)" and nc: "\<not> overlaps cred k (k + py_len v)"
    and x: "x = \<lparr>sp_kind = kind, sp_value = v, sp_start = k, sp_end = k + py_len v\<rparr>"
    by (auto simp: builtin_hit_def Let_def split: if_splits option.splits)
  from checked_value_part [OF v b] have e: "k + py_len v \<le> fst st" "v = slice (cps text) k (k + py_len v)" by auto
  have "apart prot x" by (rule not_overlaps_apart [OF np assms(1)]) (use b e x in simp_all)
  moreover have "apart cred x" by (rule not_overlaps_apart [OF nc assms(2)]) (simp_all add: x)
  moreover have "span_exact (cps text) x"
    using b e by (simp add: span_exact_def x py_len_def)
  ultimately show ?thesis by (simp add: span_good_def apart_append)
qed

text \<open>A chunk is a part of the text, with the position at which it begins.\<close>

definition chunk_ok :: "string list \<Rightarrow> nat \<times> string list \<Rightarrow> bool" where
  "chunk_ok ps c \<longleftrightarrow> fst c \<le> length ps \<and> (\<exists>n. snd c = take n (drop (fst c) ps))"

lemma scan_chunks_ok: "c \<in> set (scan_chunks rules ps) \<Longrightarrow> chunk_ok ps c"
proof -
  have "k * step \<le> n" if "k < (n + step - 1) div step" for k n step :: nat
  proof (cases "step = 0")
    case False
    have "Suc k * step \<le> (n + step - 1) div step * step" using that by (intro mult_le_mono1) simp
    also have "\<dots> \<le> n + step - 1" by simp
    finally show ?thesis using False by simp
  qed simp
  then show "c \<in> set (scan_chunks rules ps) \<Longrightarrow> chunk_ok ps c"
    by (auto simp: scan_chunks_def chunk_ok_def Let_def split: if_splits intro: exI [of _ "length ps"])
qed

lemma add_match_good:
  assumes "chunk_ok (cps text) c" and "fst m \<le> snd m" "snd m \<le> py_len (concat (snd c))"
    and "places_ok prot" "places_ok cred" and "\<forall>x \<in> set (snd acc). span_good (cps text) (prot @ cred) x"
  shows "\<forall>x \<in> set (snd (add_match name prot cred c m acc)). span_good (cps text) (prot @ cred) x"
proof -
  obtain n where c: "snd c = take n (drop (fst c) (cps text))" "fst c \<le> length (cps text)"
    using assms(1) by (auto simp: chunk_ok_def)
  define x where "x = \<lparr>sp_kind = name, sp_value = slice (snd c) (fst m) (snd m), sp_start = fst c + fst m,
    sp_end = fst c + snd m\<rparr>"
  have inside: "snd m \<le> length (take n (drop (fst c) (cps text)))"
    using assms(3) cps_part [of n "fst c" "text"] by (simp add: py_len_def c(1))
  then have inside': "fst c + snd m \<le> length (cps text)" using c(2) by (auto simp: le_diff_conv2)
  have "span_exact (cps text) x"
    using slice_part [OF inside, of "fst m"] inside' assms(2) by (simp add: span_exact_def x_def c(1))
  moreover have "apart prot x" if "\<not> overlaps prot (fst c + fst m) (fst c + snd m)"
    by (rule not_overlaps_apart [OF that assms(4)]) (use assms(2) in \<open>simp_all add: x_def\<close>)
  moreover have "apart cred x" if "\<not> overlaps cred (fst c + fst m) (fst c + snd m)"
    by (rule not_overlaps_apart [OF that assms(5)]) (use assms(2) in \<open>simp_all add: x_def\<close>)
  ultimately have new: "span_good (cps text) (prot @ cred) x"
    if "\<not> overlaps prot (fst c + fst m) (fst c + snd m)" "\<not> overlaps cred (fst c + fst m) (fst c + snd m)"
    using that by (simp add: span_good_def apart_append)
  show ?thesis using assms(6) new by (auto simp: add_match_def Let_def x_def)
qed

definition hits_good :: "string list \<Rightarrow> places \<Rightarrow> hits \<Rightarrow> bool" where
  "hits_good ps pl acc \<longleftrightarrow> (\<forall>x \<in> set (snd acc). span_good ps pl x)"

lemma add_matches_good:
  assumes "chunk_ok (cps text) c" and "\<forall>(a, b) \<in> set ms. a \<le> b \<and> b \<le> py_len (concat (snd c))"
    and "places_ok prot" "places_ok cred" and "hits_good (cps text) (prot @ cred) acc"
  shows "hits_good (cps text) (prot @ cred) (foldl (\<lambda>a m. add_match name prot cred c m a) acc ms)"
  using assms(2,5)
proof (induction ms arbitrary: acc)
  case (Cons m ms)
  have "hits_good (cps text) (prot @ cred) (add_match name prot cred c m acc)"
    unfolding hits_good_def
    by (rule add_match_good [OF assms(1) _ _ assms(3,4)]) (use Cons.prems in \<open>auto simp: hits_good_def split: prod.splits\<close>)
  with Cons show ?case by simp
qed simp

lemma scan_rule_good:
  "places_ok prot \<Longrightarrow> places_ok cred \<Longrightarrow> finder_ok look \<Longrightarrow> \<forall>c \<in> set cs. chunk_ok (cps text) c \<Longrightarrow> hits_good (cps text) (prot @ cred) acc
    \<Longrightarrow> hits_good (cps text) (prot @ cred) (snd (scan_rule look r prot cred cs acc))"
proof (induction look r prot cred cs acc rule: scan_rule.induct)
  case (2 look r prot cred c cs acc)
  show ?case
  proof (cases "look (ru_src r) (concat (snd c))")
    case (Found ms)
    then have "\<forall>(a, b) \<in> set ms. a \<le> b \<and> b \<le> py_len (concat (snd c))"
      using 2(4) unfolding finder_ok_def by blast
    with 2(2,3,5,6) have "hits_good (cps text) (prot @ cred) (foldl (\<lambda>a m. add_match (ru_name r) prot cred c m a) acc ms)"
      by (intro add_matches_good) simp_all
    with 2 Found show ?thesis by simp
  qed (use 2 in simp_all)
qed simp

lemma scan_rules_good:
  assumes "finder_ok look" and "places_ok prot" "places_ok cred" and "\<forall>c \<in> set cs. chunk_ok (cps text) c"
  shows "hits_good (cps text) (prot @ cred) acc
    \<Longrightarrow> hits_good (cps text) (prot @ cred) (snd (scan_rules look prot cred cs rs d acc))"
proof (induction rs arbitrary: d acc)
  case (Cons r rs)
  obtain res acc' where r: "scan_rule look r prot cred cs acc = (res, acc')" by (rule prod.exhaust)
  have "hits_good (cps text) (prot @ cred) acc'"
    using scan_rule_good [OF assms(2,3,1,4) Cons.prems, of r] r by simp
  with Cons show ?case by (simp add: r split: rule_end.split)
qed simp

lemma custom_good:
  assumes "finder_ok look" and "places_ok prot" "places_ok cred"
    and "x \<in> set (snd (scan_custom look (cps text) prot cred d))"
  shows "span_good (cps text) (prot @ cred) x"
proof -
  have "hits_good (cps text) (prot @ cred)
      (snd (scan_rules look prot cred (scan_chunks (de_rules d) (cps text)) (de_rules d) d ([], [])))"
    by (rule scan_rules_good) (use assms in \<open>auto simp: hits_good_def dest: scan_chunks_ok\<close>)
  with assms(4) show ?thesis by (auto simp: scan_custom_def hits_good_def split: if_splits prod.splits)
qed

lemma dict_find_in:
  "(n, i) \<in> set (dict_find names ps k) \<Longrightarrow> n \<in> set names \<and> i \<le> length ps \<and> prefix (cps n) (drop i ps)"
proof (induction names ps k rule: dict_find.induct)
  case (1 names ps k)
  show ?case
  proof (cases "find (\<lambda>n. prefix (cps n) (drop k ps)) names")
    case None
    with "1.prems" have "\<not> length ps < k" "(n, i) \<in> set (dict_find names ps (k + 1))"
      by (subst (asm) dict_find.simps; simp split: if_splits)+
    with "1.IH"(1) [OF _ None] show ?thesis by simp
  next
    case (Some m)
    then have m: "m \<in> set names" "prefix (cps m) (drop k ps)" by (auto simp: find_Some_iff)
    from "1.prems" Some have "\<not> length ps < k"
      and "(n, i) = (m, k) \<or> (n, i) \<in> set (dict_find names ps (if m = [] then k + 1 else k + py_len m))"
      by (subst (asm) dict_find.simps; simp split: if_splits)+
    with "1.IH"(2) [OF _ Some] m show ?thesis by auto
  qed
qed

lemma dict_good:
  assumes "places_ok cred" and "x \<in> set (scan_dict_spans hardening entries (cps text) cred)"
  shows "span_good (cps text) cred x"
proof -
  from assms(2) obtain n i where m: "(n, i) \<in> set (dict_find (map fst entries) (cps text) 0)"
    and h: "dict_span hardening entries (cps text) cred (n, i) = Some x"
    by (auto simp: scan_dict_spans_def map_filter_set split: if_splits)
  from dict_find_in [OF m] obtain r where r: "drop i (cps text) = cps n @ r" and i: "i \<le> py_len text"
    by (auto simp: prefix_def py_len_def)
  from h have x: "sp_start x = i" "sp_end x = i + py_len n" "sp_value x = n" "\<not> overlaps cred i (i + py_len n)"
    by (auto simp: dict_span_def Let_def split: if_splits)
  have "length (drop i (cps text)) = py_len n + length r" by (simp only: r py_len_def length_append)
  with i have "i + py_len n \<le> length (cps text)" by (simp add: py_len_def)
  moreover have "slice (cps text) i (i + py_len n) = n" by (simp add: slice_def r py_len_def)
  moreover have "apart cred x" by (rule not_overlaps_apart [OF x(4) assms(1)]) (simp_all add: x)
  ultimately show ?thesis by (simp add: span_good_def span_exact_def x)
qed

lemma scan_spans_good:
  assumes "finder_ok look" and "x \<in> set (snd (scan_spans hardening look creds text d))"
  shows "span_exact (cps text) x \<and> apart (credential_spans creds (cps text)) x
    \<and> (de_dict d = [] \<longrightarrow> apart (protected_places (cps text)) x)"
proof -
  let ?prot = "protected_places (cps text)" and ?cred = "credential_spans creds (cps text)"
  have "x \<in> set (scan_builtin (cps text) ?prot ?cred) \<or> x \<in> set (snd (scan_custom look (cps text) ?prot ?cred d))
      \<or> x \<in> set (scan_dict_spans hardening (de_dict d) (cps text) ?cred)"
    using assms(2) by (auto simp: scan_spans_def Let_def split: if_splits prod.splits)
  then have "span_good (cps text) (?prot @ ?cred) x \<or> de_dict d \<noteq> [] \<and> span_good (cps text) ?cred x"
    using builtin_good custom_good [OF assms(1)] dict_good protected_places_ok credential_spans_ok
    by (metis empty_iff list.set(1) scan_dict_spans_def)
  then show ?thesis by (auto simp: span_good_def apart_append)
qed

end
