(* ===== verification/Pii_Redact.thy ===== *)
theory Pii_Redact
  imports Pii_Scan Json_Walk
begin

text \<open>
  What is done with the places the detector finds (\<open>detect_and_redact\<close> and its callers in \<open>_pii.py\<close>):
  overlapping places are thinned out, the longest first, the values that are left are registered in the
  PII vault and replaced by their tokens.  The random part of the \<open>n\<close>th registration is \<open>rnd n\<close>.
\<close>

section \<open>The places that are kept\<close>

definition sp_len :: "span \<Rightarrow> int" where
  "sp_len x = int (sp_end x) - int (sp_start x)"

definition by_length :: "span list \<Rightarrow> span list" where
  "by_length spans = sort_key (\<lambda>x. - sp_len x) (sort_key sp_start spans)"

fun keep_free :: "places \<Rightarrow> span list \<Rightarrow> span list" where
  "keep_free occupied [] = []"
| "keep_free occupied (x # xs) =
     (if overlaps occupied (sp_start x) (sp_end x) then keep_free occupied xs
      else x # keep_free (occupied @ [(sp_start x, sp_end x)]) xs)"

definition select_spans :: "span list \<Rightarrow> span list" where
  "select_spans spans = sort_key sp_start (keep_free [] (by_length spans))"

section \<open>Replacing them\<close>

fun weave :: "(span \<Rightarrow> string) \<Rightarrow> string list \<Rightarrow> nat \<Rightarrow> span list \<Rightarrow> string" where
  "weave f ps cursor [] = concat (drop cursor ps)"
| "weave f ps cursor (x # xs) = slice ps cursor (sp_start x) @ f x @ weave f ps (sp_end x) xs"

record pii_world =
  pw_det :: detector
  pw_bound :: bool
  pw_tokens :: pii_tokens
  pw_draws :: nat

fun register_values ::
  "(nat \<Rightarrow> string) \<Rightarrow> bool \<Rightarrow> string list \<Rightarrow> pii_world \<Rightarrow> (string, string) dict
     \<Rightarrow> pii_world \<times> (string, string) dict py_result" where
  "register_values rnd side [] w tab = (w, Inr tab)"
| "register_values rnd side (v # vs) w tab =
     (if dhas tab v then register_values rnd side vs w tab
      else case pii_register (rnd (pw_draws w)) v side (pw_tokens w) of
        (s, Inl e) \<Rightarrow> (w\<lparr>pw_tokens := s, pw_draws := pw_draws w + 1\<rparr>, Inl e)
      | (s, Inr tok) \<Rightarrow>
          register_values rnd side vs (w\<lparr>pw_tokens := s, pw_draws := pw_draws w + 1\<rparr>) (dset v tok tab))"

definition token_for :: "(string, string) dict \<Rightarrow> span \<Rightarrow> string" where
  "token_for tab x =
     (let value = sp_value x; token = dget_or tab value [] in if token \<noteq> value then token else value)"

text \<open>What the detector is given: the switch \<open>PII_DETECTION_HARDENING\<close>, \<open>re\<close> and the random parts.\<close>

record pii_env =
  pe_hardening :: bool
  pe_look :: "string \<Rightarrow> string \<Rightarrow> find_result"
  pe_rnd :: "nat \<Rightarrow> string"

definition detect_and_redact ::
  "pii_env \<Rightarrow> string list \<Rightarrow> bool \<Rightarrow> string \<Rightarrow> pii_world \<Rightarrow> pii_world \<times> string py_result" where
  "detect_and_redact env creds side text w =
     (if text = [] then (w, Inr text)
      else case scan_spans (pe_hardening env) (pe_look env) creds text (pw_det w) of
        (d, spans) \<Rightarrow>
          let w1 = w\<lparr>pw_det := d\<rparr>; selected = select_spans spans in
          if spans = [] then (w1, Inr text)
          else if \<not> pw_bound w then (w1, Inr (weave (\<lambda>x. redacted_tag (sp_kind x)) (cps text) 0 selected))
          else case register_values (pe_rnd env) side (map sp_value selected) w1 [] of
            (w2, Inl e) \<Rightarrow> (w2, Inl e)
          | (w2, Inr tab) \<Rightarrow> (w2, Inr (weave (token_for tab) (cps text) 0 selected)))"

section \<open>The host's methods\<close>

definition pii_redact ::
  "pii_env \<Rightarrow> bool \<Rightarrow> string list \<Rightarrow> bool \<Rightarrow> string \<Rightarrow> pii_world \<Rightarrow> pii_world \<times> string py_result" where
  "pii_redact env enabled creds side text w =
     (if \<not> enabled \<or> text = [] then (w, Inr text) else detect_and_redact env creds side text w)"

definition detect_leaf :: "pii_env \<Rightarrow> string list \<Rightarrow> bool \<Rightarrow> pii_world leaf_fn" where
  "detect_leaf env creds side w str =
     (case detect_and_redact env creds side str w of
        (w', Inl e) \<Rightarrow> (w', None)
      | (w', Inr r) \<Rightarrow> (w', Some r))"

definition pii_redact_json_aware ::
  "nat \<Rightarrow> json_lib \<Rightarrow> pii_env \<Rightarrow> bool \<Rightarrow> string list \<Rightarrow> bool \<Rightarrow> string \<Rightarrow> pii_world
     \<Rightarrow> pii_world \<times> string py_result" where
  "pii_redact_json_aware stack lib env enabled creds side text w =
     (if \<not> enabled \<or> text = [] then (w, Inr text)
      else if \<not> looks_json (py_lstrip (lstrip_bom text)) then pii_redact env enabled creds side text w
      else case jloads lib (lstrip_bom text) of
        None \<Rightarrow> pii_redact env enabled creds side text w
      | Some obj \<Rightarrow>
          (case json_walk_async stack lib (detect_leaf env creds side) 5 w obj of
             (w', redacted) \<Rightarrow>
               (case jdumps lib redacted of
                  None \<Rightarrow> pii_redact env enabled creds side text w'
                | Some out \<Rightarrow> (w', Inr (validate_json_roundtrip lib text out)))))"

definition pii_scan_hits ::
  "pii_env \<Rightarrow> bool \<Rightarrow> string list \<Rightarrow> string \<Rightarrow> pii_world \<Rightarrow> pii_world \<times> (string \<times> string) list" where
  "pii_scan_hits env enabled creds text w =
     (if \<not> enabled \<or> text = [] then (w, [])
      else case scan_spans (pe_hardening env) (pe_look env) creds text (pw_det w) of
        (d, spans) \<Rightarrow> (w\<lparr>pw_det := d\<rparr>, map (\<lambda>x. (sp_kind x, sp_value x)) spans))"

section \<open>What is kept\<close>

definition span_wf :: "span \<Rightarrow> bool" where
  "span_wf x \<longleftrightarrow> sp_start x \<le> sp_end x"

definition place :: "span \<Rightarrow> nat \<times> nat" where
  "place x = (sp_start x, sp_end x)"

lemma overlaps_append: "overlaps (pl @ ql) s e \<longleftrightarrow> overlaps pl s e \<or> overlaps ql s e"
  by (simp add: overlaps_def)

lemma overlaps_self: "overlaps [place x] (sp_start x) (sp_end x)"
  by (simp add: overlaps_def place_def)

lemma overlaps_member: "overlaps pl s e \<longleftrightarrow> (\<exists>q \<in> set pl. overlaps [q] s e)"
  by (force simp: overlaps_def list_ex_iff)

lemma keep_free_sub: "set (keep_free occ xs) \<subseteq> set xs"
  by (induction occ xs rule: keep_free.induct) auto

lemma keep_free_occ: "x \<in> set (keep_free occ xs) \<Longrightarrow> \<not> overlaps occ (sp_start x) (sp_end x)"
  by (induction occ xs rule: keep_free.induct) (auto simp: overlaps_append split: if_splits)

lemma keep_free_apart:
  "sorted_wrt (\<lambda>x y. \<not> overlaps [place x] (sp_start y) (sp_end y)) (keep_free occ xs)"
  by (induction occ xs rule: keep_free.induct) (auto simp: place_def overlaps_append dest: keep_free_occ)

text \<open>Whatever is dropped overlaps something that is kept and at least as long.\<close>

lemma keep_free_covers:
  "sorted_wrt (\<lambda>x y. sp_len y \<le> sp_len x) xs \<Longrightarrow> x \<in> set xs \<Longrightarrow> \<not> overlaps occ (sp_start x) (sp_end x)
     \<Longrightarrow> \<exists>y \<in> set (keep_free occ xs). overlaps [place y] (sp_start x) (sp_end x) \<and> sp_len x \<le> sp_len y"
proof (induction occ xs rule: keep_free.induct)
  case (2 occ a xs)
  show ?case
  proof (cases "x = a")
    case True
    with 2(5) show ?thesis using overlaps_self by auto
  next
    case x: False
    show ?thesis
    proof (cases "overlaps occ (sp_start a) (sp_end a)")
      case True
      with 2 x show ?thesis by simp
    next
      case a: False
      show ?thesis
      proof (cases "overlaps [place a] (sp_start x) (sp_end x)")
        case True
        with 2 x a show ?thesis by auto
      next
        case False
        with 2 x a show ?thesis by (auto simp: overlaps_append place_def)
      qed
    qed
  qed
qed simp

lemma not_overlaps_place:
  assumes "\<not> overlaps [place x] (sp_start y) (sp_end y)" and "span_wf x" "span_wf y"
  shows "(sp_end y \<le> sp_start x \<or> sp_end x \<le> sp_start y) \<and> sp_start x \<noteq> sp_start y"
  using assms by (simp add: overlaps_def place_def span_wf_def; linarith)

definition in_order :: "span list \<Rightarrow> bool" where
  "in_order xs \<longleftrightarrow> sorted_wrt (\<lambda>x y. sp_start x < sp_start y \<and> sp_end x \<le> sp_start y) xs"

lemma sorted_wrt_sort_key: "sorted_wrt (\<lambda>x y. f x \<le> f y) (sort_key f xs)"
  using sorted_sort_key [of f xs] by (simp add: sorted_map)

lemma select_set: "set (select_spans spans) = set (keep_free [] (by_length spans))"
  by (simp add: select_spans_def)

lemma set_by_length [simp]: "set (by_length spans) = set spans"
  by (simp add: by_length_def)

lemma select_sub: "set (select_spans spans) \<subseteq> set spans"
  using keep_free_sub [of "[]" "by_length spans"] by (simp add: select_set)

lemma distinct_pairs:
  assumes "sorted_wrt R xs" and "x \<in> set xs" "y \<in> set xs" "x \<noteq> y"
  shows "R x y \<or> R y x"
  using assms by (induction xs) auto

lemma sorted_wrt_distinct: "sorted_wrt R xs \<Longrightarrow> (\<And>x. \<not> R x x) \<Longrightarrow> distinct xs"
  by (induction xs) auto

lemma select_in_order:
  assumes "\<forall>x \<in> set spans. span_wf x"
  shows "in_order (select_spans spans)"
proof -
  let ?k = "keep_free [] (by_length spans)" and ?R = "\<lambda>x y. \<not> overlaps [place x] (sp_start y) (sp_end y)"
  have wf: "span_wf x" if "x \<in> set ?k" for x
    using that assms keep_free_sub [of "[]" "by_length spans"] by auto
  have pair: "?R x y \<or> ?R y x" if "x \<in> set ?k" "y \<in> set ?k" "x \<noteq> y" for x y
    using distinct_pairs [OF keep_free_apart that] .
  have far: "(sp_end y \<le> sp_start x \<or> sp_end x \<le> sp_start y) \<and> sp_start x \<noteq> sp_start y"
    if "x \<in> set ?k" "y \<in> set ?k" "x \<noteq> y" for x y
    using pair [OF that] not_overlaps_place [of x y] not_overlaps_place [of y x] wf that by metis
  have "distinct ?k"
    by (rule sorted_wrt_distinct [OF keep_free_apart]) (simp add: overlaps_self)
  then have d: "distinct (select_spans spans)" by (simp add: select_spans_def)
  show ?thesis
    unfolding in_order_def sorted_wrt_iff_nth_less
  proof (intro allI impI)
    fix i j assume ij: "i < j" "j < length (select_spans spans)"
    let ?x = "select_spans spans ! i" and ?y = "select_spans spans ! j"
    have mem: "?x \<in> set ?k" "?y \<in> set ?k" using ij by (simp_all flip: select_set)
    have "?x \<noteq> ?y" using d ij by (simp add: nth_eq_iff_index_eq)
    moreover have "sp_start ?x \<le> sp_start ?y"
      using sorted_wrt_nth_less [OF sorted_wrt_sort_key ij(1)] ij(2) by (simp add: select_spans_def)
    ultimately show "sp_start ?x < sp_start ?y \<and> sp_end ?x \<le> sp_start ?y"
      using far [OF mem] wf [OF mem(2)] by (auto simp: span_wf_def)
  qed
qed

lemma by_length_sorted: "sorted_wrt (\<lambda>x y. sp_len y \<le> sp_len x) (by_length spans)"
  using sorted_wrt_sort_key [of "\<lambda>x. - sp_len x" "sort_key sp_start spans"] by (simp add: by_length_def)

lemma select_covers:
  "x \<in> set spans \<Longrightarrow> \<exists>y \<in> set (select_spans spans). overlaps [place y] (sp_start x) (sp_end x) \<and> sp_len x \<le> sp_len y"
  using keep_free_covers [OF by_length_sorted, of x spans "[]"] by (simp add: select_set overlaps_def)

section \<open>Weaving\<close>

fun pieces :: "string list \<Rightarrow> nat \<Rightarrow> span list \<Rightarrow> segment list" where
  "pieces ps cursor [] = map Copied (concat (drop cursor ps))"
| "pieces ps cursor (x # xs) = map Copied (slice ps cursor (sp_start x))
     @ (if sp_value x = [] then [] else [Secret (sp_value x)]) @ pieces ps (sp_end x) xs"

lemma masked_append: "masked tok (xs @ ys) = masked tok xs @ masked tok ys"
  by (induction xs rule: unmasked.induct) auto

lemma unmasked_append: "unmasked (xs @ ys) = unmasked xs @ unmasked ys"
  by (induction xs rule: unmasked.induct) auto

lemma secrets_append: "secrets_of (xs @ ys) = secrets_of xs @ secrets_of ys"
  by (induction xs rule: secrets_of.induct) auto

lemma map_Copied [simp]:
  "masked tok (map Copied s) = s" "unmasked (map Copied s) = s" "secrets_of (map Copied s) = []"
  by (induction s) auto

lemma masked_pieces:
  "tok [] = [] \<Longrightarrow> masked tok (pieces ps cursor xs) = weave (\<lambda>x. tok (sp_value x)) ps cursor xs"
  by (induction xs arbitrary: cursor) (auto simp: masked_append)

lemma secrets_pieces: "set (secrets_of (pieces ps cursor xs)) = sp_value ` set xs - {[]}"
  by (induction xs arbitrary: cursor) (auto simp: secrets_append)

lemma slice_drop: "i \<le> j \<Longrightarrow> slice ps i j @ concat (drop j ps) = concat (drop i ps)"
  by (metis add_diff_cancel_left' append_take_drop_id concat_append drop_drop le_add_diff_inverse2 slice_def)

lemma unmasked_pieces:
  assumes "in_order xs" and "\<forall>x \<in> set xs. span_exact ps x"
  shows "(xs \<noteq> [] \<longrightarrow> cursor \<le> sp_start (hd xs)) \<Longrightarrow> unmasked (pieces ps cursor xs) = concat (drop cursor ps)"
  using assms
proof (induction xs arbitrary: cursor)
  case (Cons x xs)
  have "unmasked (pieces ps (sp_end x) xs) = concat (drop (sp_end x) ps)"
    using Cons by (cases xs) (auto simp: in_order_def)
  moreover have "slice ps (sp_start x) (sp_end x) @ concat (drop (sp_end x) ps) = concat (drop (sp_start x) ps)"
    using Cons.prems by (intro slice_drop) (auto simp: span_exact_def)
  moreover have "slice ps cursor (sp_start x) @ concat (drop (sp_start x) ps) = concat (drop cursor ps)"
    using Cons.prems by (intro slice_drop) simp
  ultimately show ?case using Cons.prems by (auto simp: unmasked_append span_exact_def)
qed simp

section \<open>Registering\<close>

text \<open>The keys \<open>V\<close> are the last ones of a table, those that are evicted last.\<close>

definition newest :: "(string, string) dict \<Rightarrow> string set \<Rightarrow> bool" where
  "newest d V \<longleftrightarrow> (\<exists>a c. d = a @ c \<and> fst ` set c = V)"

lemma newest_empty: "newest d {}"
  by (auto simp: newest_def)

lemma move_to_end_known: "dget d v = Some t \<Longrightarrow> move_to_end v d = ddel v d @ [(v, t)]"
  by (simp add: move_to_end_def)

lemma newest_move:
  assumes "newest d V" and "dget d v = Some t"
  shows "newest (move_to_end v d) (insert v V)"
proof -
  obtain a c where d: "d = a @ c" "fst ` set c = V" using assms(1) by (auto simp: newest_def)
  have "move_to_end v d = ddel v a @ (ddel v c @ [(v, t)])"
    using move_to_end_known [OF assms(2)] by (simp add: d(1) AList.delete_eq)
  moreover have "fst ` set (ddel v c @ [(v, t)]) = insert v V" using keys_ddel [of v c] d(2) by auto
  ultimately show ?thesis unfolding newest_def by blast
qed

lemma suffix_of_shorter: "a @ c = b @ d \<Longrightarrow> length c \<le> length d \<Longrightarrow> \<exists>x. d = x @ c"
  by (auto simp: append_eq_append_conv2)

lemma newest_evict:
  assumes "newest d V" and "dget d v = None" and "dict_ok (dset v t d)"
    and "card (insert v V) \<le> PII_MAX_ENTRIES"
    and "dset v t d = b @ d'" and "length d' = min (length (dset v t d)) PII_MAX_ENTRIES"
  shows "newest d' (insert v V) \<and> (\<forall>p \<in> insert v V. dget d' p = dget (dset v t d) p)"
proof -
  obtain a c where d: "d = a @ c" "fst ` set c = V" using assms(1) by (auto simp: newest_def)
  let ?c = "c @ [(v, t)]"
  have whole: "dset v t d = a @ ?c" using dset_new [OF assms(2), of t] by (simp add: d(1))
  have keys: "fst ` set ?c = insert v V" using d(2) by auto
  have "distinct (map fst ?c)" using assms(3) by (simp only: whole dict_ok_def map_append distinct_append)
  then have "length ?c = card (insert v V)" using distinct_card [of "map fst ?c"] keys
    by (metis length_map list.set_map)
  then have "length ?c \<le> length d'" using assms(4,6) whole by simp
  moreover have "a @ ?c = b @ d'" using assms(5) whole by simp
  ultimately obtain x where x: "d' = x @ ?c" using suffix_of_shorter by blast
  have "dict_ok d'" using assms(3,5) by (simp add: dict_ok_def)
  have "dget d' p = dget (dset v t d) p" if "p \<in> insert v V" for p
  proof -
    from that keys obtain u where "(p, u) \<in> set ?c" by (metis imageE prod.collapse)
    then have "(p, u) \<in> set d'" "(p, u) \<in> set (dset v t d)" by (auto simp: x whole)
    with \<open>dict_ok d'\<close> assms(3) show ?thesis by (metis dget_set)
  qed
  then show ?thesis using x keys unfolding newest_def by blast
qed

lemma evict_suffix_length:
  "pii_evict d e k = (d', e', k') \<Longrightarrow> (\<exists>b. d = b @ d') \<and> length d' = min (length d) PII_MAX_ENTRIES"
proof (induction d e k rule: pii_evict.induct)
  case (2 v tok p2t t2p evicted)
  show ?case
  proof (cases "length ((v, tok) # p2t) > PII_MAX_ENTRIES")
    case True
    with 2(2) have "pii_evict p2t (ddel tok t2p) (evicted + 1) = (d', e', k')" by simp
    from 2(1) [OF True this] obtain b where b: "p2t = b @ d'" "length d' = min (length p2t) PII_MAX_ENTRIES" by blast
    have "(v, tok) # p2t = ((v, tok) # b) @ d'" using b(1) by simp
    moreover have "length d' = min (length ((v, tok) # p2t)) PII_MAX_ENTRIES" using b(2) True by simp
    ultimately show ?thesis by blast
  next
    case False
    with 2(2) have "d' = (v, tok) # p2t" by simp
    then have "(v, tok) # p2t = [] @ d'" "length d' = min (length ((v, tok) # p2t)) PII_MAX_ENTRIES"
      using False by simp_all
    then show ?thesis by blast
  qed
qed simp

lemma register_newest:
  assumes ok: "pii_ok s" and r: "hex8 rand8" and v: "v \<noteq> []" "\<not> pii_refused v"
    and new: "newest (table_p2t b s) V" "card (insert v V) \<le> PII_MAX_ENTRIES"
    and reg: "pii_register rand8 v b s = (s', res)"
  shows "newest (table_p2t b s') (insert v V) \<and> (\<forall>p \<in> V - {v}. dget (table_p2t b s') p = dget (table_p2t b s) p)
    \<and> (\<exists>t. res = Inr t \<and> dget (table_p2t b s') v = Some t)"
proof (cases "dget (table_p2t b s) v")
  case None
  let ?tok = "make_pii_token (next_available_index s) rand8"
  note n = pii_register_new [OF ok v r None reg]
  obtain d e k where ev: "pii_evict (dset v ?tok (table_p2t b s)) (dset ?tok v (table_t2p b s)) 0 = (d, e, k)"
    by (metis prod_cases3)
  have tab: "table_p2t b s' = d" using reg v None by (auto simp: pii_register_def Let_def ev)
  from evict_suffix_length [OF ev] obtain x where x: "dset v ?tok (table_p2t b s) = x @ d"
    and len: "length d = min (length (dset v ?tok (table_p2t b s))) PII_MAX_ENTRIES" by blast
  have "dict_ok (dset v ?tok (table_p2t b s))" using ok by (simp add: pii_ok_def pii_table_ok_def)
  from newest_evict [OF new(1) None this new(2) x len] n show ?thesis by (simp add: tab)
next
  case (Some t)
  have "s' = set_tables b (move_to_end v (table_p2t b s)) (move_to_end t (table_t2p b s))
      (s\<lparr>pii_ctx := map_option (\<lambda>(h, m). (h + 1, m)) (pii_ctx s)\<rparr>)" "res = Inr t"
    using reg v Some by (simp_all add: pii_register_def)
  with newest_move [OF new(1) Some] Some show ?thesis by simp
qed

text \<open>
  The values of one text, registered one after the other: at the end each of them is in the table with
  the token that is put in its place, as long as they fit in the table.
\<close>

definition tab_held :: "bool \<Rightarrow> pii_tokens \<Rightarrow> (string, string) dict \<Rightarrow> bool" where
  "tab_held side s tab \<longleftrightarrow> (\<forall>v t. dget tab v = Some t \<longrightarrow>
     (if v = [] then t = [] else dget (table_p2t side s) v = Some t))"

definition held_keys :: "(string, string) dict \<Rightarrow> string set" where
  "held_keys tab = fst ` set tab - {[]}"

lemma register_values_held:
  assumes "\<And>n. hex8 (rnd n)"
  shows "register_values rnd side vs w tab = (w', Inr tab') \<Longrightarrow> pii_ok (pw_tokens w)
    \<Longrightarrow> newest (table_p2t side (pw_tokens w)) (held_keys tab) \<Longrightarrow> tab_held side (pw_tokens w) tab
    \<Longrightarrow> card (held_keys tab \<union> set vs - {[]}) \<le> PII_MAX_ENTRIES
    \<Longrightarrow> tab_held side (pw_tokens w') tab' \<and> (\<forall>v \<in> set vs. dhas tab' v) \<and> (\<forall>v. dhas tab v \<longrightarrow> dhas tab' v)"
proof (induction vs arbitrary: w tab)
  case (Cons v vs)
  show ?case
  proof (cases "dhas tab v")
    case True
    then have "v \<in> fst ` set tab" by (auto simp: dhas_def dest: dget_Some_key)
    then have "held_keys tab \<union> set (v # vs) - {[]} = held_keys tab \<union> set vs - {[]}" by (auto simp: held_keys_def)
    with Cons True show ?thesis by auto
  next
    case False
    let ?s = "pw_tokens w"
    obtain s tok where reg: "pii_register (rnd (pw_draws w)) v side ?s = (s, Inr tok)"
      and rest: "register_values rnd side vs (w\<lparr>pw_tokens := s, pw_draws := pw_draws w + 1\<rparr>) (dset v tok tab) = (w', Inr tab')"
      using Cons.prems(1) False by (auto split: prod.splits sum.splits)
    have keys: "held_keys (dset v tok tab) = insert v (held_keys tab) - {[]}" by (auto simp: held_keys_def keys_dset)
    have ok: "pii_ok s" using pii_register_ok [OF Cons.prems(2) assms [of "pw_draws w"], of v side] reg by simp
    have "held_keys tab \<union> set (v # vs) - {[]} = held_keys (dset v tok tab) \<union> set vs - {[]}"
      unfolding keys unfolding held_keys_def by auto
    moreover have "newest (table_p2t side s) (held_keys (dset v tok tab)) \<and> tab_held side s (dset v tok tab)"
    proof (cases "v = []")
      case True
      then have "s = ?s" "tok = []" using reg by (simp_all add: pii_register_def)
      moreover have "insert [] (held_keys tab) - {[]} = held_keys tab" by (auto simp: held_keys_def)
      ultimately show ?thesis using True Cons.prems(3,4) unfolding keys by (simp add: tab_held_def)
    next
      case v: False
      then have ok': "\<not> pii_refused v" using reg by (auto simp: pii_register_def)
      have "insert v (held_keys tab) \<subseteq> held_keys tab \<union> set (v # vs) - {[]}" using v by (auto simp: held_keys_def)
      then have c: "card (insert v (held_keys tab)) \<le> PII_MAX_ENTRIES"
        by (intro le_trans [OF card_mono Cons.prems(5)]) (simp_all add: held_keys_def)
      note N = register_newest [OF Cons.prems(2) assms v ok' Cons.prems(3) c reg]
      have "if u = [] then t = [] else dget (table_p2t side s) u = Some t" if "dget (dset v tok tab) u = Some t" for u t
      proof (cases "u = v")
        case True
        with that N v show ?thesis by auto
      next
        case False
        with that have u: "dget tab u = Some t" by simp
        then have "u \<in> fst ` set tab" by (rule dget_Some_key)
        with u N False Cons.prems(4) show ?thesis by (simp add: tab_held_def held_keys_def split: if_splits)
      qed
      then have "tab_held side s (dset v tok tab)" unfolding tab_held_def by blast
      moreover have "insert v (held_keys tab) - {[]} = insert v (held_keys tab)" using v by (auto simp: held_keys_def)
      ultimately show ?thesis using N unfolding keys by simp
    qed
    ultimately have "tab_held side (pw_tokens w') tab' \<and> (\<forall>v \<in> set vs. dhas tab' v)
        \<and> (\<forall>u. dhas (dset v tok tab) u \<longrightarrow> dhas tab' u)"
      using Cons.IH [OF rest] ok Cons.prems(5) by simp
    then show ?thesis by (auto simp: dhas_def)
  qed
qed simp

section \<open>Redacting and restoring\<close>

lemma register_values_run:
  assumes "\<And>n. hex8 (rnd n)"
  shows "pii_run cb c (pw_tokens w) \<Longrightarrow> pii_run cb c (pw_tokens (fst (register_values rnd side vs w tab)))"
proof (induction vs arbitrary: w tab)
  case (Cons v vs)
  have "pii_run cb c (fst (pii_register (rnd (pw_draws w)) v side (pw_tokens w)))"
    using Cons.prems assms by (rule pii_run.register)
  with Cons show ?case by (auto split: prod.split sum.split)
qed simp

text \<open>What the detector chooses in a text.\<close>

definition chosen :: "pii_env \<Rightarrow> string list \<Rightarrow> string \<Rightarrow> detector \<Rightarrow> span list" where
  "chosen env creds text d = select_spans (snd (scan_spans (pe_hardening env) (pe_look env) creds text d))"

lemma chosen_exact:
  assumes "finder_ok (pe_look env)" and "x \<in> set (chosen env creds text d)"
  shows "span_exact (cps text) x"
  using scan_spans_good [OF assms(1)] select_sub assms(2) unfolding chosen_def by blast

lemma chosen_in_order:
  assumes "finder_ok (pe_look env)"
  shows "in_order (chosen env creds text d)"
  unfolding chosen_def
  by (rule select_in_order) (use scan_spans_good [OF assms] in \<open>auto simp: span_wf_def span_exact_def\<close>)

lemma select_nil [simp]: "select_spans [] = []"
  by (simp add: select_spans_def by_length_def)

lemma weave_cong: "(\<And>x. x \<in> set xs \<Longrightarrow> f x = g x) \<Longrightarrow> weave f ps cursor xs = weave g ps cursor xs"
  by (induction xs arbitrary: cursor) auto

lemma detect_tokens:
  assumes "detect_and_redact env creds side text w = (w', Inr out)" and "pw_bound w" and "text \<noteq> []"
  shows "\<exists>tab. register_values (pe_rnd env) side (map sp_value (chosen env creds text (pw_det w)))
      (w\<lparr>pw_det := fst (scan_spans (pe_hardening env) (pe_look env) creds text (pw_det w))\<rparr>) [] = (w', Inr tab)
    \<and> out = weave (token_for tab) (cps text) 0 (chosen env creds text (pw_det w))"
  using assms by (auto simp: detect_and_redact_def chosen_def Let_def split: prod.splits sum.splits if_splits)

lemma detect_restore:
  assumes run: "pii_run cb cleared (pw_tokens w)" and rnd: "\<And>n. hex8 (pe_rnd env n)" and fin: "finder_ok (pe_look env)"
    and det: "detect_and_redact env creds False text w = (w', Inr out)" and bound: "pw_bound w"
    and room: "card (sp_value ` set (chosen env creds text (pw_det w)) - {[]}) \<le> PII_MAX_ENTRIES"
    and stem: "\<forall>st. pii_stem st \<longrightarrow> \<not> sublist st text"
  shows "snd (pii_restore False out (pw_tokens w')) = text"
proof (cases "text = []")
  case True
  with det show ?thesis by (simp add: detect_and_redact_def pii_restore_def)
next
  case False
  let ?xs = "chosen env creds text (pw_det w)"
  let ?w = "w\<lparr>pw_det := fst (scan_spans (pe_hardening env) (pe_look env) creds text (pw_det w))\<rparr>"
  from detect_tokens [OF det bound False] obtain tab
    where reg: "register_values (pe_rnd env) False (map sp_value ?xs) ?w [] = (w', Inr tab)"
      and out: "out = weave (token_for tab) (cps text) 0 ?xs" by blast
  have run': "pii_run cb cleared (pw_tokens w')"
    using register_values_run [where rnd = "pe_rnd env", OF rnd, where c = cleared and cb = cb and w = ?w and side = False and vs = "map sp_value ?xs"
      and tab = "[]"] run reg by simp
  have held: "tab_held False (pw_tokens w') tab \<and> (\<forall>v \<in> sp_value ` set ?xs. dhas tab v)"
    using register_values_held [where rnd = "pe_rnd env", OF rnd reg] pii_run_inv [OF run] room
    by (simp add: newest_empty tab_held_def held_keys_def)
  let ?tok = "\<lambda>v. if v = [] then [] else dget_or tab v []" and ?segs = "pieces (cps text) 0 ?xs"
  have "token_for tab x = ?tok (sp_value x)" if "x \<in> set ?xs" for x
    using that held by (auto simp: token_for_def Let_def dget_or_def dhas_def tab_held_def split: option.splits)
  then have "out = masked ?tok ?segs" by (simp add: out masked_pieces cong: weave_cong)
  moreover have whole: "unmasked ?segs = text"
    using unmasked_pieces [OF chosen_in_order [OF fin], of creds "text" "pw_det w" "cps text" 0] chosen_exact [OF fin]
    by auto
  moreover have "dget (pii_p2t (pw_tokens w')) v = Some t" if "dget tab v = Some t" "v \<noteq> []" for v t
    using held that by (force simp: tab_held_def table_p2t_def)
  then have "\<forall>p \<in> set (secrets_of ?segs). dget (pii_p2t (pw_tokens w')) p = Some (?tok p)"
    using held by (fastforce simp: secrets_pieces dhas_def dget_or_def)
  ultimately show ?thesis
    using pii.restore_masked [OF pii_run_inv [OF run'], of ?segs ?tok] stem
    by (simp add: pii_restore_out pii_scan_def pii_reveal_def [abs_def])
qed

text \<open>
  C20. What the detector takes out of a text does not overlap and comes in the order of the text; every
  value is exactly the text at its place and lies outside every occurrence of a credential, and, when no
  list of names is loaded, outside every token; and whatever was found but left out overlaps a place that
  is taken and is at least as long.
\<close>

theorem redaction_places:
  assumes "finder_ok (pe_look env)"
  shows "in_order (chosen env creds text d)
    \<and> (\<forall>x \<in> set (chosen env creds text d). span_exact (cps text) x \<and> apart (credential_spans creds (cps text)) x
        \<and> (de_dict d = [] \<longrightarrow> apart (protected_places (cps text)) x))
    \<and> (\<forall>x \<in> set (snd (scan_spans (pe_hardening env) (pe_look env) creds text d)).
        \<exists>y \<in> set (chosen env creds text d). overlaps [place y] (sp_start x) (sp_end x) \<and> sp_len x \<le> sp_len y)"
  using chosen_in_order [OF assms] scan_spans_good [OF assms] select_sub select_covers
  unfolding chosen_def by blast

text \<open>A name of two characters, alone in a text.\<close>

definition zhang :: string where
  "zhang = bytes [229, 188, 160, 228, 184, 137]"

definition zhang_env :: pii_env where
  "zhang_env = \<lparr>pe_hardening = True, pe_look = (\<lambda>src t. Found []), pe_rnd = (\<lambda>n. ''0badcafe'')\<rparr>"

definition zhang_world :: pii_world where
  "zhang_world = \<lparr>pw_det = load_dict (Some [(zhang, ''name'')]) detector_init, pw_bound = True,
     pw_tokens = pii_init True, pw_draws = 0\<rparr>"

lemma zhang_cps: "cps zhang = [bytes [229, 188, 160], bytes [228, 184, 137]]"
  by (simp add: zhang_def bytes_def cp_width_def byte_def)

lemma zhang_one: "\<not> (\<exists>c. bytes [229, 188, 160] = [c] \<and> P c)" "\<not> (\<exists>c. bytes [228, 184, 137] = [c] \<and> P c)"
  by (simp_all add: bytes_def)

lemma zhang_nd: "\<not> is_nd (bytes [229, 188, 160])" "\<not> is_nd (bytes [228, 184, 137])"
  by (simp_all add: is_nd_def nd_value_def nd_zeros_def bytes_def byte_def)

lemma zhang_byte: "bytes [229, 188, 160] \<noteq> [c]" "bytes [228, 184, 137] \<noteq> [c]"
  by (simp_all add: bytes_def)

lemma zhang_quiet: "protected_places (cps zhang) = []" "rx_from COARSE_FILTER_RE (cps zhang) 0 = None"
  by (simp_all add: zhang_cps protected_places_def rx_places_def rx_all.simps rx_from_def rx_match_def DATA_URL_RE_def
   PROTECTED_TOKEN_RE_def COARSE_FILTER_RE_def lit_def ch_def asc_def zhang_nd zhang_byte)

lemma zhang_len: "zhang \<noteq> []" "py_len zhang = 2"
  by (simp_all add: zhang_def bytes_def py_len_def cp_width_def byte_def)

lemma zhang_find: "dict_find [zhang] (cps zhang) 0 = [(zhang, 0)]"
  using zhang_len
  by (simp add: dict_find.simps zhang_cps)

lemma zhang_scan:
  "snd (scan_spans True (pe_look zhang_env) [] zhang (pw_det zhang_world))
    = [\<lparr>sp_kind = ''name'', sp_value = zhang, sp_start = 0, sp_end = 2\<rparr>]"
  using zhang_len
  by (simp add: scan_spans_def zhang_quiet scan_builtin_def scan_custom_def zhang_world_def load_dict_def detector_init_def
   scan_dict_spans_def zhang_env_def credential_spans_def Let_def zhang_find dict_span_def dict_type_def overlaps_def
   dict_boundary_ok_def List.map_filter_simps py_len_def)

lemma zhang_finder: "finder_ok (pe_look zhang_env)"
  by (simp add: finder_ok_def zhang_env_def)

lemma zhang_chosen:
  "chosen zhang_env [] zhang (pw_det zhang_world) = [\<lparr>sp_kind = ''name'', sp_value = zhang, sp_start = 0, sp_end = 2\<rparr>]"
  using zhang_scan
  by (simp add: chosen_def select_spans_def by_length_def zhang_env_def overlaps_def)

theorem redaction_places_witness:
  "in_order (chosen zhang_env [] zhang (pw_det zhang_world)) \<and> length (chosen zhang_env [] zhang (pw_det zhang_world)) = 1"
  using redaction_places [OF zhang_finder, of "[]" zhang "pw_det zhang_world"] zhang_chosen by simp

text \<open>
  C19. A text that was redacted on its way out comes back as it was: when the redaction succeeds, and the
  text has no beginning of a PII token of its own and at most a thousand different values, restoring the
  redacted text in exact mode, in the state the redaction leaves, gives the original byte by byte, whatever
  the vault held before and whatever the detector finds within these bounds.
\<close>

theorem pii_redact_roundtrip:
  assumes "pii_run cb cleared (pw_tokens w)" and "\<And>n. hex8 (pe_rnd env n)" and "finder_ok (pe_look env)"
    and "detect_and_redact env creds False text w = (w', Inr out)" and "pw_bound w"
    and "card (sp_value ` set (chosen env creds text (pw_det w)) - {[]}) \<le> PII_MAX_ENTRIES"
    and "\<forall>st. pii_stem st \<longrightarrow> \<not> sublist st text"
  shows "snd (pii_restore False out (pw_tokens w')) = text"
  using assms by (rule detect_restore)

lemma zhang_refused: "\<not> pii_refused zhang"
  by (simp add: pii_refused_def PII_TOKEN_PREFIX_def CRED_TOKEN_PREFIX_def sublist_code pii_match_def pii_head_def
      zhang_def bytes_def char_of_def)

lemma zhang_redacted:
  "\<exists>w'. detect_and_redact zhang_env [] False zhang zhang_world = (w', Inr (make_pii_token 1 ''0badcafe''))"
proof -
  have "scan_spans True (pe_look zhang_env) [] zhang (pw_det zhang_world)
      = (pw_det zhang_world, [\<lparr>sp_kind = ''name'', sp_value = zhang, sp_start = 0, sp_end = 2\<rparr>])"
    using zhang_scan by (auto simp: scan_spans_def scan_custom_def zhang_world_def load_dict_def detector_init_def Let_def)
  moreover have "\<exists>s. pii_register ''0badcafe'' zhang False (pii_init True) = (s, Inr (make_pii_token 1 ''0badcafe''))"
    using zhang_len zhang_refused
    by (simp add: pii_register_def pii_init_def table_p2t_def table_t2p_def Let_def
        next_available_index_def used_seqs_def List.map_filter_simps next_from.simps [of "[]"] split: prod.split)
  then obtain s where "pii_register ''0badcafe'' zhang False (pw_tokens zhang_world) = (s, Inr (make_pii_token 1 ''0badcafe''))"
    by (auto simp: zhang_world_def)
  ultimately show ?thesis
    using zhang_len zhang_chosen
    by (simp add: detect_and_redact_def zhang_env_def zhang_world_def chosen_def Let_def dhas_def token_for_def dget_or_def
        slice_def py_len_def)
qed

lemma zhang_no_stem: "pii_stem st \<Longrightarrow> \<not> sublist st zhang"
  by (auto simp: pii_stem_def PII_TOKEN_PREFIX_def sublist_code zhang_def bytes_def char_of_def)

theorem pii_redact_roundtrip_witness:
  "\<exists>w'. detect_and_redact zhang_env [] False zhang zhang_world = (w', Inr (make_pii_token 1 ''0badcafe''))
     \<and> snd (pii_restore False (make_pii_token 1 ''0badcafe'') (pw_tokens w')) = zhang"
proof -
  obtain w' where d: "detect_and_redact zhang_env [] False zhang zhang_world = (w', Inr (make_pii_token 1 ''0badcafe''))"
    using zhang_redacted by blast
  have "pii_run True False (pw_tokens zhang_world)" by (simp add: zhang_world_def pii_run.start)
  moreover have "hex8 (pe_rnd zhang_env n)" for n
    by (simp add: zhang_env_def hex8_def hex_lower_def is_digit_def byte_def)
  moreover have "card (sp_value ` set (chosen zhang_env [] zhang (pw_det zhang_world)) - {[]}) \<le> PII_MAX_ENTRIES"
    by (rule le_trans [OF card_mono [of "{zhang}"]]) (auto simp: zhang_chosen PII_MAX_ENTRIES_def)
  ultimately have "snd (pii_restore False (make_pii_token 1 ''0badcafe'') (pw_tokens w')) = zhang"
    using pii_redact_roundtrip [OF _ _ zhang_finder d] zhang_no_stem by (auto simp: zhang_world_def)
  with d show ?thesis by blast
qed

section \<open>A value the vault refuses\<close>

lemma register_error: "pii_register r v side s = (s', Inl e) \<Longrightarrow> e = ValueError"
  by (auto simp: pii_register_def Let_def split: if_splits option.splits prod.splits)

lemma register_refused: "pii_register r v side s = (s', Inr t) \<Longrightarrow> v = [] \<or> \<not> pii_refused v"
  by (auto simp: pii_register_def split: if_splits)

lemma register_values_stops:
  "v \<in> set vs \<Longrightarrow> v \<noteq> [] \<Longrightarrow> pii_refused v \<Longrightarrow> \<forall>u \<in> fst ` set tab. u = [] \<or> \<not> pii_refused u
    \<Longrightarrow> \<exists>w'. register_values rnd side vs w tab = (w', Inl ValueError)"
proof (induction vs arbitrary: w tab)
  case (Cons u vs)
  show ?case
  proof (cases "dhas tab u")
    case True
    then have "u \<in> fst ` set tab" by (auto simp: dhas_def dest: dget_Some_key)
    with Cons.prems have "u \<noteq> v" by auto
    with Cons True show ?thesis by auto
  next
    case False
    obtain s res where reg: "pii_register (rnd (pw_draws w)) u side (pw_tokens w) = (s, res)" by (rule prod.exhaust)
    show ?thesis
    proof (cases res)
      case (Inl e)
      with reg register_error False show ?thesis by (fastforce split: prod.split)
    next
      case (Inr tok)
      with reg register_refused have u: "u = [] \<or> \<not> pii_refused u" by blast
      with Cons.prems have "v \<in> set vs" by auto
      moreover have "\<forall>a \<in> fst ` set (dset u tok tab). a = [] \<or> \<not> pii_refused a"
        unfolding keys_dset using u Cons.prems(4) by blast
      ultimately show ?thesis using Cons.IH Cons.prems(2,3) False reg Inr by simp
    qed
  qed
qed simp

text \<open>
  C22. One value that contains the beginning of a token (an address like \<open>a__PII_b@c.cn\<close>, the match of a
  custom rule) makes the redaction of its whole text fail; and the JSON walk then keeps the string as it
  is, with everything else in it that should have been replaced.
\<close>

theorem refused_value_keeps_text:
  assumes "x \<in> set (chosen env creds text (pw_det w))" and "sp_value x \<noteq> []" and "pii_refused (sp_value x)"
    and "pw_bound w"
  shows "\<exists>w'. detect_and_redact env creds side text w = (w', Inl ValueError)
    \<and> walk_leaf lib (detect_leaf env creds side) w text = (w', text)"
proof -
  obtain d spans where sc: "scan_spans (pe_hardening env) (pe_look env) creds text (pw_det w) = (d, spans)"
    by (rule prod.exhaust)
  have ne: "spans \<noteq> []" "text \<noteq> []"
    using assms(1) sc by (auto simp: chosen_def scan_spans_def)
  obtain w' where "register_values (pe_rnd env) side (map sp_value (select_spans spans)) (w\<lparr>pw_det := d\<rparr>) [] = (w', Inl ValueError)"
    using register_values_stops [of "sp_value x" "map sp_value (select_spans spans)" "[]" "pe_rnd env" side "w\<lparr>pw_det := d\<rparr>"]
      assms(1-3) sc by (auto simp: chosen_def)
  then have "detect_and_redact env creds side text w = (w', Inl ValueError)"
    using ne sc assms(4) by (simp add: detect_and_redact_def Let_def)
  then show ?thesis by (simp add: walk_leaf_def detect_leaf_def)
qed

definition refused_env :: pii_env where
  "refused_env = \<lparr>pe_hardening = True, pe_look = (\<lambda>src t. Found (if t = ''__PII_'' then [(0, 6)] else [])),
     pe_rnd = (\<lambda>n. ''0badcafe'')\<rparr>"

definition refused_world :: pii_world where
  "refused_world = \<lparr>pw_det = detector_init\<lparr>de_rules := [\<lparr>ru_name = ''own'', ru_src = ''\<newline>''\<rparr>]\<rparr>, pw_bound = True,
     pw_tokens = pii_init True, pw_draws = 0\<rparr>"

lemma refused_cps: "cps ''__PII_'' = [''_'', ''_'', ''P'', ''I'', ''I'', ''_'']"
  by (simp add: cp_width_def byte_def)

lemma rx_all_none: "rx_from r ps i = None \<Longrightarrow> rx_all r ps i = []"
  by (subst rx_all.simps) simp

lemma refused_places: "protected_places (cps ''__PII_'') = []"
proof -
  let ?ps = "[''_'', ''_'', ''P'', ''I'', ''I'', ''_'']"
  have "rx_from DATA_URL_RE ?ps 0 = None" "rx_from PROTECTED_TOKEN_RE ?ps 0 = None"
    by (simp_all add: rx_from_def rx_match_def DATA_URL_RE_def PROTECTED_TOKEN_RE_def lit_def ch_def plus_def rx_d_def upt_rec)
  then show ?thesis unfolding refused_cps by (simp add: protected_places_def rx_places_def rx_all_none)
qed

lemma refused_found:
  "\<lparr>sp_kind = ''own'', sp_value = ''__PII_'', sp_start = 0, sp_end = 6\<rparr>
     \<in> set (snd (scan_spans True (pe_look refused_env) [] ''__PII_'' (pw_det refused_world)))"
  by (simp add: scan_spans_def refused_places [unfolded refused_cps] scan_custom_def refused_world_def detector_init_def
      refused_env_def credential_spans_def Let_def scan_chunks_def PII_SCAN_INPUT_LIMIT_def refused_cps add_match_def
      overlaps_def slice_def del: cps.simps)

theorem refused_value_keeps_text_witness:
  "\<exists>w'. detect_and_redact refused_env [] False ''__PII_'' refused_world = (w', Inl ValueError)
     \<and> walk_leaf \<lparr>jloads = (\<lambda>s. None), jdumps = (\<lambda>j. None), std_loads = (\<lambda>s. None)\<rparr> (detect_leaf refused_env [] False)
         refused_world ''__PII_'' = (w', ''__PII_'')"
proof -
  let ?x = "\<lparr>sp_kind = ''own'', sp_value = ''__PII_'', sp_start = 0, sp_end = 6\<rparr>"
  have fin: "finder_ok (pe_look refused_env)"
    by (auto simp: finder_ok_def refused_env_def py_len_def refused_cps simp del: cps.simps split: if_splits)
  obtain y where y: "y \<in> set (chosen refused_env [] ''__PII_'' (pw_det refused_world))" and len: "sp_len ?x \<le> sp_len y"
    using select_covers [OF refused_found] by (auto simp: chosen_def refused_env_def)
  from chosen_exact [OF fin y] len have "sp_start y = 0" "sp_end y = 6" "sp_value y = slice (cps ''__PII_'') (sp_start y) (sp_end y)"
    by (auto simp: span_exact_def sp_len_def refused_cps simp del: cps.simps)
  then have val: "sp_value y = ''__PII_''" by (simp add: refused_cps slice_def del: cps.simps)
  with y have "pii_refused (sp_value y)" by (simp add: pii_refused_def PII_TOKEN_PREFIX_def sublist_code)
  moreover have "pw_bound refused_world" by (simp add: refused_world_def)
  ultimately show ?thesis using refused_value_keeps_text [OF y] val by simp
qed

section \<open>Names inside tokens\<close>

definition old_token :: string where
  "old_token = ''__PII_1_0badcafe__''"

lemma old_token_cps: "cps old_token = [''_'', ''_'', ''P'', ''I'', ''I'', ''_'', ''1'', ''_'', ''0'', ''b'', ''a'', ''d'', ''c'', ''a'', ''f'', ''e'', ''_'', ''_'']"
  using ascii_cps [of old_token] by (simp add: ascii_def old_token_def byte_def del: cps.simps)

lemma is_nd_ascii: "byte c < 128 \<Longrightarrow> is_nd [c] = is_digit c"
  using nd_value_ascii [of c] nd_value_digit [of c] by (auto simp: is_nd_def)

lemmas rx_iter_numeral = rx_iter.simps(2) [of "pred_numeral k" for k, folded numeral_eq_Suc]

lemma old_token_protected: "(0, 18) \<in> set (protected_places (cps old_token))"
proof -
  have "rx_match PROTECTED_TOKEN_RE (cps old_token) 0 = Some (18, [])"
    by (simp add: rx_match_def PROTECTED_TOKEN_RE_def old_token_cps lit_def ch_def plus_def rx_d_def
        times_def acls_def dec_opt_def is_nd_ascii byte_def is_digit_def hex_any_def hex_lower_def
        rx_iter_numeral)
  then have "rx_from PROTECTED_TOKEN_RE (cps old_token) 0 = Some (0, 18, [])"
    by (simp add: rx_from_def upt_rec)
  then have "(0, 18, []) \<in> set (rx_all PROTECTED_TOKEN_RE (cps old_token) 0)"
    by (subst rx_all.simps) (simp add: old_token_cps)
  then show ?thesis by (force simp: protected_places_def rx_places_def)
qed

text \<open>
  The list of names ignores the tokens: a name like \<open>PII\<close> is found inside a token of an earlier
  round, where the patterns and the custom rules would not look.
\<close>

theorem names_inside_tokens:
  "\<exists>x \<in> set (snd (scan_spans hardening look [] old_token (load_dict (Some [(''PII'', ''host'')]) detector_init))).
     sp_value x = ''PII'' \<and> \<not> apart (protected_places (cps old_token)) x"
proof -
  let ?x = "\<lparr>sp_kind = ''host'', sp_value = ''PII'', sp_start = 2, sp_end = 5\<rparr>"
  have "(''PII'', 2) \<in> set (dict_find [''PII''] (cps old_token) 0)"
    by (simp add: dict_find.simps old_token_cps cp_width_def byte_def)
  moreover have "dict_span hardening [(''PII'', ''host'')] (cps old_token) [] (''PII'', 2) = Some ?x"
    by (simp add: dict_span_def dict_type_def dict_boundary_ok_def overlaps_def old_token_cps py_len_def
        cp_width_def byte_def ascii_alnum_def is_alnum_def is_digit_def is_alpha_ascii_def)
  ultimately have "?x \<in> set (scan_dict_spans hardening [(''PII'', ''host'')] (cps old_token) [])"
    by (auto simp: scan_dict_spans_def map_filter_set old_token_def)
  then have "?x \<in> set (snd (scan_spans hardening look [] old_token (load_dict (Some [(''PII'', ''host'')]) detector_init)))"
    by (simp add: scan_spans_def load_dict_def detector_init_def old_token_def credential_spans_def Let_def scan_custom_def)
  moreover have "\<not> apart (protected_places (cps old_token)) ?x" using old_token_protected by (force simp: apart_def)
  ultimately show ?thesis by (intro bexI [of _ ?x]) simp_all
qed

end
