(* ===== verification/Pii_Host.thy ===== *)
theory Pii_Host
  imports Pii_Redact Audit_Log Stream_Text
begin

text \<open>
  What the host of the PII detector keeps besides the vault (\<open>_pii.py\<close>, \<open>_metrics.py\<close>): the record of
  a malformed token, the counts of what was found and the masked samples of it.  The hash of a value is
  an argument.
\<close>

section \<open>Malformed tokens\<close>

text \<open>The category and the length of the token, never the token.\<close>

definition pii_audit_record :: "real \<Rightarrow> string \<Rightarrow> string \<Rightarrow> audit_rec" where
  "pii_audit_record now category token =
     \<lparr>ar_ts = now, ar_tool = ''pii_restore'', ar_verdict = ''malformed'', ar_rule = category,
      ar_summary = redacted_tag category,
      ar_note = ''pii_restore_malformed category='' @ category @ '' token_len='' @ dec (py_len token)\<rparr>"

text \<open>A failed write is only logged.\<close>

definition pii_audit_cb :: "(audit_rec \<Rightarrow> string) \<Rightarrow> real \<Rightarrow> string \<Rightarrow> string \<Rightarrow> audit_log \<Rightarrow> audit_log" where
  "pii_audit_cb dump now category token s =
     (let r = pii_audit_record now category token;
          s1 = (if al_path s = [] then s else s\<lparr>al_fs := fst (append_audit_log (al_path s) (dump r) (al_fs s))\<rparr>)
      in s1\<lparr>al_ring := ring_push r (al_ring s1)\<rparr>)"

section \<open>Counts and samples\<close>

definition sanitize_kind :: "string \<Rightarrow> string list \<Rightarrow> string" where
  "sanitize_kind raw custom_names =
     (if raw = [] then ''custom_other''
      else if 32 < py_len raw then ''custom_other''
      else if sublist ''__'' raw then ''custom_other''
      else if CHR 0x00 \<in> set raw then ''custom_other''
      else let norm = py_lower raw in
        if norm \<in> set KINDS then norm
        else if norm \<in> set (map py_lower custom_names) then norm
        else ''custom_other'')"

definition count_detected :: "string list \<Rightarrow> (string \<times> string) list \<Rightarrow> (string, nat) dict" where
  "count_detected custom_names hs =
     foldl (\<lambda>d h. let k = sanitize_kind (fst h) custom_names in dset k (dget_or d k 0 + 1) d) [] hs"

type_synonym bucket = "(string, nat \<times> string) dict"
type_synonym samples = "(string, bucket) dict"

definition add_sample :: "(string \<Rightarrow> string) \<Rightarrow> string list \<Rightarrow> samples \<Rightarrow> string \<times> string \<Rightarrow> samples" where
  "add_sample hash custom_names pvs h =
     (let sk = sanitize_kind (fst h) custom_names;
          masked = py_take 64 (mask_pii_value sk (snd h));
          bucket = dget_or pvs sk []
      in dset sk (case dget bucket masked of
           None \<Rightarrow> dset masked (1, hash (snd h)) bucket
         | Some (n, x) \<Rightarrow> dset masked (n + 1, x) bucket) pvs)"

record pii_stats =
  ps_counts :: "(string, nat) dict option"
  ps_samples :: "samples option"

definition merge_counts :: "(string, nat) dict \<Rightarrow> (string, nat) dict \<Rightarrow> (string, nat) dict" where
  "merge_counts d e = foldl (\<lambda>d p. dset (fst p) (dget_or d (fst p) 0 + snd p) d) d e"

text \<open>
  \<open>PiiDetector.scan\<close>: counted when there is a collector; sampled only in a conversation, when samples
  are switched on and the request has a place for them.
\<close>

definition record_hits ::
  "(string \<Rightarrow> string) \<Rightarrow> bool \<Rightarrow> string list \<Rightarrow> string option \<Rightarrow> (string \<times> string) list \<Rightarrow> pii_stats \<Rightarrow> pii_stats" where
  "record_hits hash sampling custom_names tail hs s =
     (let s1 = (if hs = [] then s
            else s\<lparr>ps_counts := map_option (\<lambda>d. merge_counts d (count_detected custom_names hs)) (ps_counts s)\<rparr>)
      in case tail of
        None \<Rightarrow> s1
      | Some t \<Rightarrow>
          if hs \<noteq> [] \<and> sampling \<and> is_chat_tail t
          then s1\<lparr>ps_samples := map_option (\<lambda>pvs. foldl (add_sample hash custom_names) pvs hs) (ps_samples s1)\<rparr>
          else s1)"

section \<open>What is kept\<close>

definition kind_known :: "string list \<Rightarrow> string \<Rightarrow> bool" where
  "kind_known custom_names k \<longleftrightarrow> k \<in> set KINDS \<or> k \<in> set (map py_lower custom_names) \<or> k = ''custom_other''"

lemma sanitize_kind_known: "kind_known custom_names (sanitize_kind raw custom_names)"
  by (auto simp: kind_known_def sanitize_kind_def Let_def)

definition samples_ok :: "string list \<Rightarrow> samples \<Rightarrow> bool" where
  "samples_ok custom_names pvs \<longleftrightarrow> dict_ok pvs \<and> (\<forall>k b. dget pvs k = Some b \<longrightarrow> kind_known custom_names k \<and> dict_ok b
     \<and> (\<forall>m n x. dget b m = Some (n, x) \<longrightarrow> py_len m \<le> 64 \<and> 0 < n))"

definition bucket_total :: "bucket \<Rightarrow> nat" where
  "bucket_total b = sum_list (map (fst \<circ> snd) b)"

definition samples_total :: "samples \<Rightarrow> nat" where
  "samples_total pvs = sum_list (map (bucket_total \<circ> snd) pvs)"

text \<open>A new value at a key: the sum of the values grows by as much as the value there.\<close>

lemma sum_dset:
  assumes "dict_ok d"
  shows "sum_list (map (f \<circ> snd) (dset k v d)) + (case dget d k of None \<Rightarrow> 0 | Some u \<Rightarrow> f u) = sum_list (map (f \<circ> snd) d) + (f v :: nat)"
  using assms
proof (induction d)
  case (Cons p d)
  then have "dict_ok d" by (simp add: dict_ok_def)
  show ?case
  proof (cases "fst p = k")
    case True
    then have "dget d k = None" using Cons.prems by (auto simp: dict_ok_def map_of_eq_None_iff)
    with True show ?thesis by (cases p) auto
  next
    case False
    with Cons.IH [OF \<open>dict_ok d\<close>] show ?thesis by (cases p) (auto split: option.splits)
  qed
qed simp

lemma add_sample_ok:
  assumes "samples_ok cn pvs"
  shows "samples_ok cn (add_sample hash cn pvs h) \<and> samples_total (add_sample hash cn pvs h) = samples_total pvs + 1"
proof -
  let ?sk = "sanitize_kind (fst h) cn"
  let ?m = "py_take 64 (mask_pii_value ?sk (snd h))" and ?b = "dget_or pvs ?sk []"
  define b' where "b' = (case dget ?b ?m of None \<Rightarrow> dset ?m (1, hash (snd h)) ?b | Some (n, x) \<Rightarrow> dset ?m (n + 1, x) ?b)"
  have add: "add_sample hash cn pvs h = dset ?sk b' pvs" by (simp add: add_sample_def b'_def Let_def)
  have ok: "dict_ok pvs" "dict_ok ?b" and ent: "\<forall>m n x. dget ?b m = Some (n, x) \<longrightarrow> py_len m \<le> 64 \<and> 0 < n"
    using assms by (auto simp: samples_ok_def dget_or_def split: option.split)
  have m: "py_len ?m \<le> 64" by (simp add: py_len_take)
  have b': "dict_ok b'" "\<forall>m n x. dget b' m = Some (n, x) \<longrightarrow> py_len m \<le> 64 \<and> 0 < n" "bucket_total b' = bucket_total ?b + 1"
  proof -
    show "dict_ok b'" "\<forall>m n x. dget b' m = Some (n, x) \<longrightarrow> py_len m \<le> 64 \<and> 0 < n"
      using ok(2) ent m by (auto simp: b'_def split: option.splits)
    show "bucket_total b' = bucket_total ?b + 1"
    proof (cases "dget ?b ?m")
      case None
      then show ?thesis using sum_dset [OF ok(2), of fst ?m "(1, hash (snd h))"] by (simp add: b'_def bucket_total_def)
    next
      case (Some e)
      then show ?thesis
        using sum_dset [OF ok(2), of fst ?m "(fst e + 1, snd e)"] by (cases e) (simp add: b'_def bucket_total_def)
    qed
  qed
  have old: "bucket_total ?b = (case dget pvs ?sk of None \<Rightarrow> 0 | Some u \<Rightarrow> bucket_total u)"
    by (simp add: dget_or_def bucket_total_def split: option.split)
  have "samples_total (dset ?sk b' pvs) + bucket_total ?b = samples_total pvs + bucket_total b'"
    using sum_dset [OF ok(1), of bucket_total ?sk b'] unfolding samples_total_def old .
  moreover have "samples_ok cn (dset ?sk b' pvs)"
    using assms b' sanitize_kind_known [of cn "fst h"] by (auto simp: samples_ok_def split: if_splits)
  ultimately show ?thesis using b'(3) by (simp add: add)
qed

text \<open>
  The samples never keep more than they should: whatever was found, under whatever name, the keys are
  the built-in kinds, the names of the loaded rules or \<open>custom_other\<close>, every sample has at most 64
  characters, and the counts add up to exactly the number of values that were found.
\<close>

theorem samples_bounded:
  assumes "samples_ok cn pvs"
  shows "samples_ok cn (foldl (add_sample hash cn) pvs hs)
    \<and> samples_total (foldl (add_sample hash cn) pvs hs) = samples_total pvs + length hs"
  using assms
proof (induction hs arbitrary: pvs)
  case (Cons h hs)
  with add_sample_ok [OF Cons.prems, of hash h] show ?case by simp
qed simp

theorem samples_bounded_witness:
  "samples_total (foldl (add_sample id []) [] [(''phone'', ''13800138000''), (''__x'', ''secret'')]) = 2"
  using samples_bounded [of "[]" "[]" id "[(''phone'', ''13800138000''), (''__x'', ''secret'')]"]
  by (simp add: samples_ok_def samples_total_def)

text \<open>
  The audit record of a malformed or unknown token says nothing of the token but its length: two
  tokens of one length give the same record and leave the same log.
\<close>

theorem malformed_token_not_logged:
  "py_len t = py_len u \<Longrightarrow> pii_audit_cb dump now category t s = pii_audit_cb dump now category u s"
  by (simp add: pii_audit_cb_def pii_audit_record_def)

theorem malformed_token_not_logged_witness:
  "pii_audit_cb (\<lambda>r. []) 0 ''malformed'' ''__PII_9_secret__'' \<lparr>al_path = [], al_ring = [], al_fails = 0, al_counts = None,
      al_alarms = 0, al_fs = (None, [])\<rparr>
    = pii_audit_cb (\<lambda>r. []) 0 ''malformed'' ''__PII_9_public__'' \<lparr>al_path = [], al_ring = [], al_fails = 0, al_counts = None,
      al_alarms = 0, al_fs = (None, [])\<rparr>"
  by (rule malformed_token_not_logged) (simp add: py_len_def cp_width_def byte_def)

end
