(* ===== verification/Pii_Rules.thy ===== *)
theory Pii_Rules
  imports Pii_Scan
begin

text \<open>
  The custom rules of the PII detector (\<open>_pii.py\<close>): which of them are loaded, the literal beginnings
  they give to the stream filter as hints, and the strikes that switch off a rule that is too slow.
  Python's regular expression compiler is an argument: \<open>compile p\<close> gives the names of the groups, or
  \<open>None\<close> for an \<open>re.error\<close>, and \<open>probe p\<close> tells whether the search in the sample of 64 letters returns.
\<close>

section \<open>Loading rules\<close>

text \<open>The place of the parenthesis that closes the first one; escapes are not looked at.\<close>

fun close_at :: "string \<Rightarrow> int \<Rightarrow> nat \<Rightarrow> nat option" where
  "close_at [] depth j = None"
| "close_at (c # s) depth j =
     (if c = CHR ''('' then close_at s (depth + 1) (j + 1)
      else if c = CHR '')'' then (if depth - 1 = 0 then Some j else close_at s (depth - 1) (j + 1))
      else close_at s depth (j + 1))"

definition group_place :: "string \<Rightarrow> string \<Rightarrow> (nat \<times> nat) option" where
  "group_place pattern name =
     (case find_sub (''(?P<'' @ name @ ''>'') pattern of
        None \<Rightarrow> None
      | Some idx \<Rightarrow> map_option (Pair idx) (close_at (drop idx pattern) 0 idx))"

definition has_nested_named_groups :: "string \<Rightarrow> string list \<Rightarrow> bool" where
  "has_nested_named_groups pattern names =
     (let positions = List.map_filter (group_place pattern) names in
      list_ex (\<lambda>(s1, e1). list_ex (\<lambda>(s2, e2). s1 < s2 \<and> s2 < e1) positions) positions)"

text \<open>What keeps a pair of a name and a pattern from being loaded, in the order of the checks.\<close>

definition rule_accepted ::
  "(string \<Rightarrow> string list option) \<Rightarrow> (string \<Rightarrow> bool) \<Rightarrow> string list \<Rightarrow> string list \<Rightarrow> string \<times> string \<Rightarrow> bool" where
  "rule_accepted compile probe loaded new p =
     (case p of (name, pattern) \<Rightarrow>
        if name \<in> set KINDS then False
        else if name \<in> set loaded then False
        else if name \<in> set new then False
        else case compile pattern of
          None \<Rightarrow> False
        | Some names \<Rightarrow>
            if sublist [CHR 0x5C, CHR ''b''] pattern then False
            else if has_nested_named_groups pattern names then False
            else probe pattern)"

fun accept_rules ::
  "(string \<Rightarrow> string list option) \<Rightarrow> (string \<Rightarrow> bool) \<Rightarrow> string list \<Rightarrow> rule list \<Rightarrow> (string \<times> string) list \<Rightarrow> rule list"
  where
  "accept_rules compile probe loaded new [] = new"
| "accept_rules compile probe loaded new (p # ps) =
     (if rule_accepted compile probe loaded (map ru_name new) p
      then accept_rules compile probe loaded (new @ [\<lparr>ru_name = fst p, ru_src = snd p\<rparr>]) ps
      else accept_rules compile probe loaded new ps)"

definition rebuild_custom_combined :: "(string \<Rightarrow> string list option) \<Rightarrow> detector \<Rightarrow> detector" where
  "rebuild_custom_combined compile d =
     (let whole = join_with ''|'' (map ru_src (de_rules d)) in
      d\<lparr>de_combined := (if de_rules d = [] then None else if compile whole = None then None else Some whole)\<rparr>)"

definition load_custom_patterns ::
  "(string \<Rightarrow> string list option) \<Rightarrow> (string \<Rightarrow> bool) \<Rightarrow> (string \<times> string) list option \<Rightarrow> detector \<Rightarrow> detector" where
  "load_custom_patterns compile probe patterns d =
     (let new = accept_rules compile probe (de_names d) [] (case patterns of None \<Rightarrow> [] | Some ps \<Rightarrow> ps) in
      if new = [] then d
      else rebuild_custom_combined compile
        (d\<lparr>de_rules := de_rules d @ new, de_names := de_names d @ map ru_name new\<rparr>))"

section \<open>Hints\<close>

definition GROUP_HEAD_RE :: rx where
  "GROUP_HEAD_RE = rx_cat [lit ''(?P<'', plus (nset ''>''), ch CHR ''>'']"

definition FLAG_HEAD_RE :: rx where
  "FLAG_HEAD_RE = rx_cat [Bos, plus (rx_alt [rx_cat [lit ''(?'',
     star (acls (\<lambda>c. is_alpha_ascii c \<or> c = CHR ''-'')), ch CHR '')''], ch CHR ''^''])]"

definition META :: string where
  "META = [CHR 0x5C] @ ''[()?*+{|^$.''"

definition custom_literal_run :: "string \<Rightarrow> nat \<Rightarrow> string" where
  "custom_literal_run src min_len =
     (let rest = (case re_search GROUP_HEAD_RE src of
            Some m \<Rightarrow> py_drop (m_end m) src
          | None \<Rightarrow> re_sub FLAG_HEAD_RE (\<lambda>m. []) src);
          run = take 32 (takeWhile (\<lambda>p. \<not> (\<exists>c \<in> set META. p = [c])) (cps rest))
      in if min_len \<le> length run then concat run else [])"

text \<open>At most 64 hints of at most 64 characters, none twice.\<close>

definition add_hint :: "string \<Rightarrow> string list \<Rightarrow> string list" where
  "add_hint h hints =
     (if h = [] \<or> 64 \<le> length hints then hints
      else let h' = py_take 64 h in if h' \<noteq> [] \<and> h' \<notin> set hints then hints @ [h'] else hints)"

definition all_hints :: "detector \<Rightarrow> string list" where
  "all_hints d =
     foldl (\<lambda>hs e. add_hint (fst e) hs)
       (foldl (\<lambda>hs r. let run = custom_literal_run (ru_src r) 2 in if run = [] then hs else add_hint run hs) [] (de_rules d))
       (de_dict d)"

text \<open>A hint is of use when the end of the text holds it or ends with a beginning of it.\<close>

definition hint_matches :: "string list \<Rightarrow> string \<Rightarrow> bool" where
  "hint_matches window h \<longleftrightarrow>
     sublist (cps h) window \<or>
     list_ex (\<lambda>k. suffix (take k (cps h)) window) (rev [1 ..< min (py_len h) (length window) + 1])"

definition partial_prefix_hints :: "detector \<Rightarrow> string option \<Rightarrow> string list" where
  "partial_prefix_hints d tail =
     (let hints = all_hints d in
      case tail of
        None \<Rightarrow> hints
      | Some t \<Rightarrow>
          if t = [] then []
          else filter (hint_matches (drop (py_len t - 64) (cps t))) hints)"

section \<open>Hints are few and short\<close>

definition hints_ok :: "string list \<Rightarrow> bool" where
  "hints_ok hs \<longleftrightarrow> length hs \<le> 64 \<and> distinct hs \<and> (\<forall>h \<in> set hs. h \<noteq> [] \<and> py_len h \<le> 64)"

lemma add_hint_ok: "hints_ok hs \<Longrightarrow> hints_ok (add_hint h hs)"
  by (auto simp: hints_ok_def add_hint_def Let_def py_len_take)

lemma foldl_inv: "P a \<Longrightarrow> (\<And>a x. P a \<Longrightarrow> P (f a x)) \<Longrightarrow> P (foldl f a xs)"
  by (induction xs arbitrary: a) auto

lemma all_hints_ok: "hints_ok (all_hints d)"
  unfolding all_hints_def
  by (intro foldl_inv [where P = hints_ok]) (auto simp: Let_def add_hint_ok hints_ok_def [of "[]"])

lemma suffix_of_drop:
  assumes "suffix xs ys" and "length xs \<le> n"
  shows "suffix xs (drop (length ys - n) ys)"
proof -
  obtain zs where ys: "ys = zs @ xs" using assms(1) by (auto simp: suffix_def)
  then have "drop (length ys - n) ys = drop (length ys - n) zs @ xs" using assms(2) by simp
  then show ?thesis by (simp only: suffix_appendI suffix_order.refl)
qed

text \<open>
  There are at most 64 hints of at most 64 characters, none empty and none twice; and a text that ends
  with the first characters of one, however few, gets that hint, so the beginning of a custom value at
  the end of a chunk is never overlooked.
\<close>

theorem hints_complete:
  "hints_ok (partial_prefix_hints d tail) \<and> set (partial_prefix_hints d tail) \<subseteq> set (all_hints d)
   \<and> (\<forall>h t k. tail = Some t \<and> h \<in> set (all_hints d) \<and> 0 < k \<and> k \<le> py_len h \<and> suffix (take k (cps h)) (cps t)
        \<longrightarrow> h \<in> set (partial_prefix_hints d tail))"
proof (intro conjI allI impI)
  show "hints_ok (partial_prefix_hints d tail)"
    using all_hints_ok [of d] le_trans [OF length_filter_le]
    by (auto simp: partial_prefix_hints_def Let_def hints_ok_def split: option.split)
  show "set (partial_prefix_hints d tail) \<subseteq> set (all_hints d)"
    by (auto simp: partial_prefix_hints_def Let_def split: option.split)
next
  fix h t k
  assume a: "tail = Some t \<and> h \<in> set (all_hints d) \<and> 0 < k \<and> k \<le> py_len h \<and> suffix (take k (cps h)) (cps t)"
  then have "py_len h \<le> 64" using all_hints_ok [of d] by (auto simp: hints_ok_def)
  with a have suf: "suffix (take k (cps h)) (drop (py_len t - 64) (cps t))"
    unfolding py_len_def by (intro suffix_of_drop) auto
  then have "length (take k (cps h)) \<le> length (drop (py_len t - 64) (cps t))" by (rule suffix_length_le)
  then have "k \<le> length (drop (py_len t - 64) (cps t))" using a by (simp add: py_len_def)
  with a have "k \<in> set (rev [1 ..< min (py_len h) (length (drop (py_len t - 64) (cps t))) + 1])" by auto
  with suf have "hint_matches (drop (py_len t - 64) (cps t)) h"
    unfolding hint_matches_def list_ex_iff by blast
  moreover have "t \<noteq> []" using a by auto
  ultimately show "h \<in> set (partial_prefix_hints d tail)" using a by (simp add: partial_prefix_hints_def Let_def)
qed

theorem hints_complete_witness:
  "''Alice'' \<in> set (partial_prefix_hints (detector_init\<lparr>de_dict := [(''Alice'', ''name'')]\<rparr>) (Some ''call Al''))"
proof -
  let ?d = "detector_init\<lparr>de_dict := [(''Alice'', ''name'')]\<rparr>"
  have "all_hints ?d = [''Alice'']"
    by (simp add: all_hints_def add_hint_def detector_init_def py_take_def cp_width_def byte_def)
  moreover have "suffix (take 2 (cps ''Alice'')) (cps ''call Al'')" "py_len ''Alice'' = 5"
    by (simp_all add: py_len_def cp_width_def byte_def suffix_def)
  ultimately show ?thesis
    using hints_complete [of ?d "Some ''call Al''", THEN conjunct2, THEN conjunct2, rule_format, of "''call Al''" "''Alice''" 2]
    by (simp del: cps.simps)
qed

section \<open>Strikes\<close>

text \<open>A rule that may still run has fewer than three strikes.\<close>

definition strikes_ok :: "detector \<Rightarrow> bool" where
  "strikes_ok d \<longleftrightarrow> distinct (de_disabled d)
     \<and> (\<forall>n. n \<notin> set (de_disabled d) \<longrightarrow> dget_or (de_strikes d) n 0 < PII_RE_DOS_STRIKES)"

lemma dget_or_dset: "dget_or (dset k v d) k' e = (if k' = k then v else dget_or d k' e)"
  by (simp add: dget_or_def)

lemma dget_or_ddel: "dget_or (ddel k d) k' e = (if k' = k then e else dget_or d k' e)"
  by (simp add: dget_or_def)

lemma strike_ok: "strikes_ok d \<Longrightarrow> name \<notin> set (de_disabled d) \<Longrightarrow> strikes_ok (strike name d)"
  by (auto simp: strikes_ok_def strike_def Let_def dget_or_dset distinct_insert)

lemma strike_frame [simp]: "de_rules (strike n d) = de_rules d" "set (de_disabled d) \<subseteq> set (de_disabled (strike n d))"
  by (auto simp: strike_def Let_def)

lemma scan_rules_ok: "strikes_ok d \<Longrightarrow> strikes_ok (fst (scan_rules look prot cred cs rs d acc))"
proof (induction rs arbitrary: d acc)
  case (Cons r rs)
  have "strikes_ok (d\<lparr>de_strikes := ddel (ru_name r) (de_strikes d)\<rparr>)"
    using Cons.prems by (auto simp: strikes_ok_def dget_or_ddel PII_RE_DOS_STRIKES_def)
  with Cons strike_ok [of d "ru_name r"] show ?case by (auto split: prod.split rule_end.split)
qed simp

lemma scan_rules_frame:
  "de_rules (fst (scan_rules look prot cred cs rs d acc)) = de_rules d
   \<and> set (de_disabled d) \<subseteq> set (de_disabled (fst (scan_rules look prot cred cs rs d acc)))"
proof (induction rs arbitrary: d acc)
  case (Cons r rs)
  have "set (de_disabled d) \<subseteq> set (de_disabled (fst (scan_rules look prot cred cs rs (strike (ru_name r) d) a)))" for a
    using Cons [of "strike (ru_name r) d" a] strike_frame(2) by (blast intro: subset_trans)
  moreover have "set (de_disabled d) \<subseteq> set (de_disabled (fst (scan_rules look prot cred cs rs
      (d\<lparr>de_strikes := s\<rparr>) a)))" for s a
    using Cons [of "d\<lparr>de_strikes := s\<rparr>" a] by simp
  ultimately show ?case using Cons by (auto split: prod.split rule_end.split)
qed simp

text \<open>Only the rules of a list change the strikes of their names.\<close>

lemma scan_rules_other:
  "n \<notin> ru_name ` set rs \<Longrightarrow>
     dget_or (de_strikes (fst (scan_rules look prot cred cs rs d acc))) n 0 = dget_or (de_strikes d) n 0
   \<and> (n \<in> set (de_disabled (fst (scan_rules look prot cred cs rs d acc))) \<longleftrightarrow> n \<in> set (de_disabled d))"
proof (induction rs arbitrary: d acc)
  case (Cons r rs)
  then have "dget_or (de_strikes (strike (ru_name r) d)) n 0 = dget_or (de_strikes d) n 0"
    "n \<in> set (de_disabled (strike (ru_name r) d)) \<longleftrightarrow> n \<in> set (de_disabled d)"
    "dget_or (ddel (ru_name r) (de_strikes d)) n 0 = dget_or (de_strikes d) n 0"
    by (auto simp: strike_def Let_def dget_or_dset dget_or_ddel)
  with Cons show ?case by (auto split: prod.split rule_end.split)
qed simp

lemma timeout_strike:
  assumes "distinct (map ru_name rs)" and "r \<in> set rs" and "\<And>t. look (ru_src r) t = Timed_Out" and "cs \<noteq> []"
    and "ru_name r \<notin> set (de_disabled d)"
  shows "let d' = fst (scan_rules look prot cred cs rs d acc); n = dget_or (de_strikes d) (ru_name r) 0 + 1 in
    dget_or (de_strikes d') (ru_name r) 0 = n \<and> (PII_RE_DOS_STRIKES \<le> n \<longrightarrow> ru_name r \<in> set (de_disabled d'))"
  using assms(1,2,5)
proof (induction rs arbitrary: d acc)
  case (Cons q rs)
  show ?case
  proof (cases "q = r")
    case True
    obtain c cs' where "cs = c # cs'" using assms(4) by (cases cs) auto
    then have run: "scan_rule look r prot cred cs acc = (Rule_Timeout, acc)" using assms(3) by simp
    have "ru_name r \<notin> ru_name ` set rs" using Cons.prems True by auto
    from scan_rules_other [OF this, of look prot cred cs "strike (ru_name r) d" acc] Cons.prems True run
    show ?thesis by (auto simp: Let_def strike_def dget_or_dset)
  next
    case False
    with Cons.prems have r: "r \<in> set rs" "ru_name q \<noteq> ru_name r" by auto
    then have same: "dget_or (de_strikes (strike (ru_name q) d)) (ru_name r) 0 = dget_or (de_strikes d) (ru_name r) 0"
      "ru_name r \<notin> set (de_disabled (strike (ru_name q) d))"
      "dget_or (ddel (ru_name q) (de_strikes d)) (ru_name r) 0 = dget_or (de_strikes d) (ru_name r) 0"
      using Cons.prems(3) by (auto simp: strike_def Let_def dget_or_dset dget_or_ddel)
    have "distinct (map ru_name rs)" using Cons.prems by simp
    note IH = Cons.IH [OF this r(1)]
    show ?thesis
      using IH [of d] IH [of "strike (ru_name q) d"] IH [of "d\<lparr>de_strikes := ddel (ru_name q) (de_strikes d)\<rparr>"]
        same Cons.prems(3) by (auto simp: Let_def split: prod.split rule_end.split)
  qed
qed simp

text \<open>A detector between the start and now: rules and names loaded, texts scanned.\<close>

inductive det_run :: "detector \<Rightarrow> bool" where
  start: "det_run detector_init"
| load: "det_run d \<Longrightarrow> det_run (load_custom_patterns compile probe patterns d)"
| names: "det_run d \<Longrightarrow> det_run (load_dict entries d)"
| collector: "det_run d \<Longrightarrow> det_run (d\<lparr>de_flag := Some 0\<rparr>)"
| scan: "det_run d \<Longrightarrow> det_run (fst (scan_spans hardening look creds text d))"

definition rules_ok :: "detector \<Rightarrow> bool" where
  "rules_ok d \<longleftrightarrow> distinct (map ru_name (de_rules d)) \<and> set (map ru_name (de_rules d)) \<subseteq> set (de_names d)
     \<and> set (map ru_name (de_rules d)) \<inter> set KINDS = {}"

lemma accept_rules_ok:
  "distinct (map ru_name new) \<Longrightarrow> set (map ru_name new) \<inter> (set loaded \<union> set KINDS) = {}
    \<Longrightarrow> distinct (map ru_name (accept_rules compile probe loaded new ps))
      \<and> set (map ru_name (accept_rules compile probe loaded new ps)) \<inter> (set loaded \<union> set KINDS) = {}"
proof (induction compile probe loaded new ps rule: accept_rules.induct)
  case (2 compile probe loaded new p ps)
  show ?case
  proof (cases "rule_accepted compile probe loaded (map ru_name new) p")
    case True
    then have "fst p \<notin> set KINDS" "fst p \<notin> set loaded" "fst p \<notin> ru_name ` set new"
      by (auto simp: rule_accepted_def split: prod.splits if_splits)
    with 2 True show ?thesis by auto
  qed (use 2 in simp)
qed simp

lemma load_custom_ok: "rules_ok d \<and> strikes_ok d \<Longrightarrow>
    rules_ok (load_custom_patterns compile probe patterns d) \<and> strikes_ok (load_custom_patterns compile probe patterns d)"
  using accept_rules_ok [of "[]" "de_names d" compile probe "case patterns of None \<Rightarrow> [] | Some ps \<Rightarrow> ps"]
  by (auto simp: load_custom_patterns_def rebuild_custom_combined_def Let_def rules_ok_def strikes_ok_def)

lemma scan_custom_frame:
  "de_rules (fst (scan_custom look ps prot cred d)) = de_rules d \<and> de_names (fst (scan_custom look ps prot cred d)) = de_names d
   \<and> (strikes_ok d \<longrightarrow> strikes_ok (fst (scan_custom look ps prot cred d)))"
proof -
  have "de_names (fst (scan_rules look prot cred cs rs e acc)) = de_names e" for cs rs e acc
    by (induction rs arbitrary: e acc) (auto simp: strike_def Let_def split: prod.split rule_end.split)
  then show ?thesis
    using scan_rules_frame scan_rules_ok by (auto simp: scan_custom_def split: prod.split) (metis fst_conv)+
qed

lemma scan_spans_det: "fst (scan_spans hardening look creds text d)
    = (if text = [] then d else fst (scan_custom look (cps text) (protected_places (cps text)) (credential_spans creds (cps text)) d))"
  by (simp add: scan_spans_def Let_def split: prod.split)

lemma det_run_ok: "det_run d \<Longrightarrow> rules_ok d \<and> strikes_ok d"
proof (induction rule: det_run.induct)
  case start
  show ?case by (simp add: rules_ok_def strikes_ok_def detector_init_def dget_or_def PII_RE_DOS_STRIKES_def)
next
  case (load d compile probe patterns)
  from load.IH show ?case by (rule load_custom_ok)
next
  case (scan d hardening look creds t)
  then show ?case using scan_custom_frame by (auto simp: scan_spans_det rules_ok_def)
qed (auto simp: rules_ok_def strikes_ok_def load_dict_def split: option.split)

text \<open>A rule that is switched off is not searched for.\<close>

lemma scan_rules_skips:
  assumes "\<And>q t. q \<in> set rs \<Longrightarrow> ru_name q \<noteq> n \<Longrightarrow> look (ru_src q) t = look' (ru_src q) t"
  shows "n \<in> set (de_disabled d) \<Longrightarrow> scan_rules look prot cred cs rs d acc = scan_rules look' prot cred cs rs d acc"
  using assms
proof (induction rs arbitrary: d acc)
  case (Cons q rs)
  show ?case
  proof (cases "ru_name q \<in> set (de_disabled d)")
    case False
    then have "ru_name q \<noteq> n" using Cons.prems by auto
    then have "scan_rule look q prot cred cs acc = scan_rule look' q prot cred cs acc"
      using Cons.prems(2) [of q] by (induction cs arbitrary: acc) (auto split: find_result.split)
    moreover have "n \<in> set (de_disabled (strike (ru_name q) d))" using Cons.prems(1) strike_frame(2) by blast
    ultimately show ?thesis using Cons False by (auto split: prod.split rule_end.split)
  qed (use Cons in simp)
qed simp

lemma scan_chunks_nonempty: "ps \<noteq> [] \<Longrightarrow> scan_chunks rules ps \<noteq> []"
proof -
  have "step \<le> n + step - 1" if "0 < n" for n step :: nat using that by simp
  then have "0 < (n + step - 1) div step" if "0 < n" "0 < step" for n step :: nat
    using that by (simp add: div_greater_zero_iff)
  moreover have "0 < PII_SCAN_INPUT_LIMIT - scan_overlap rules"
    by (auto simp: PII_SCAN_INPUT_LIMIT_def scan_overlap_def Let_def min_def)
  moreover assume "ps \<noteq> []"
  ultimately have "0 < (length ps + (PII_SCAN_INPUT_LIMIT - scan_overlap rules) - 1) div (PII_SCAN_INPUT_LIMIT - scan_overlap rules)"
    by blast
  then show "scan_chunks rules ps \<noteq> []" unfolding scan_chunks_def Let_def by (simp del: One_nat_def)
qed

lemma scan_custom_timeout:
  assumes "rules_ok d" and "r \<in> set (de_rules d)" and "\<And>t. look (ru_src r) t = Timed_Out" and "ps \<noteq> []"
    and "ru_name r \<notin> set (de_disabled d)"
  shows "let d' = fst (scan_custom look ps prot cred d); n = dget_or (de_strikes d) (ru_name r) 0 + 1 in
    dget_or (de_strikes d') (ru_name r) 0 = n \<and> (PII_RE_DOS_STRIKES \<le> n \<longrightarrow> ru_name r \<in> set (de_disabled d'))"
proof -
  have dist: "distinct (map ru_name (de_rules d))" using assms(1) by (simp add: rules_ok_def)
  have "scan_custom look ps prot cred d = (case scan_rules look prot cred (scan_chunks (de_rules d) ps) (de_rules d) d ([], [])
      of (d', acc) \<Rightarrow> (d', snd acc))"
    using assms(2,4) by (auto simp: scan_custom_def)
  then show ?thesis
    using timeout_strike [where look = look, OF dist assms(2) assms(3) scan_chunks_nonempty [OF assms(4)] assms(5)]
    by (simp add: case_prod_beta)
qed

text \<open>
  C35. A custom rule whose search runs out of its time in three scans in a row is switched off, in any
  history of the detector; and once it is, its pattern is not searched for any more: the scan does not
  depend on what the search would do.
\<close>

theorem slow_rule_switched_off:
  assumes "det_run d" and "r \<in> set (de_rules d)" and "\<And>t. look (ru_src r) t = Timed_Out"
    and "ps1 \<noteq> []" and "ps2 \<noteq> []" and "ps3 \<noteq> []"
    and "d3 = fst (scan_custom look ps3 p3 c3 (fst (scan_custom look ps2 p2 c2 (fst (scan_custom look ps1 p1 c1 d)))))"
    and "\<And>q t. q \<in> set (de_rules d) \<Longrightarrow> q \<noteq> r \<Longrightarrow> fast (ru_src q) t = slow (ru_src q) t"
  shows "ru_name r \<in> set (de_disabled d3) \<and> scan_custom fast ps prot cred d3 = scan_custom slow ps prot cred d3"
proof
  define n where "n = ru_name r"
  define d1 where "d1 = fst (scan_custom look ps1 p1 c1 d)"
  define d2 where "d2 = fst (scan_custom look ps2 p2 c2 d1)"
  have d3: "d3 = fst (scan_custom look ps3 p3 c3 d2)" by (simp add: assms(7) d1_def d2_def)
  have ok: "rules_ok d" using det_run_ok [OF assms(1)] by simp
  have fr: "de_rules d1 = de_rules d" "de_rules d2 = de_rules d" "de_rules d3 = de_rules d" "rules_ok d1" "rules_ok d2"
    using ok by (simp_all add: d3 d1_def d2_def scan_custom_frame rules_ok_def)
  have keep: "n \<in> set (de_disabled e) \<Longrightarrow> n \<in> set (de_disabled (fst (scan_custom look ps prot cred e)))" for ps prot cred e
    using subsetD [OF scan_rules_frame [THEN conjunct2]] by (simp add: scan_custom_def case_prod_beta)
  note t = scan_custom_timeout [where look = look and r = r, OF _ _ assms(3), unfolded Let_def]
  show off: "ru_name r \<in> set (de_disabled d3)"
  proof (rule ccontr)
    assume a: "ru_name r \<notin> set (de_disabled d3)"
    then have "n \<notin> set (de_disabled d2)" "n \<notin> set (de_disabled d1)" "n \<notin> set (de_disabled d)"
      using keep unfolding d3 d2_def d1_def n_def by blast+
    then have "dget_or (de_strikes d1) n 0 = dget_or (de_strikes d) n 0 + 1"
      "dget_or (de_strikes d2) n 0 = dget_or (de_strikes d1) n 0 + 1"
      "PII_RE_DOS_STRIKES \<le> dget_or (de_strikes d2) n 0 + 1 \<longrightarrow> n \<in> set (de_disabled d3)"
      using t [OF ok assms(2,4), of p1 c1] t [OF fr(4) _ assms(5), of p2 c2] t [OF fr(5) _ assms(6), of p3 c3] assms(2)
      by (auto simp: n_def d1_def [symmetric] d2_def [symmetric] d3 [symmetric] fr)
    with a show False by (simp add: n_def PII_RE_DOS_STRIKES_def)
  qed
  have "scan_rules fast prot cred cs (de_rules d3) d3 acc = scan_rules slow prot cred cs (de_rules d3) d3 acc" for cs acc
    by (rule scan_rules_skips [OF _ off]) (use assms(8) fr(3) in auto)
  then show "scan_custom fast ps prot cred d3 = scan_custom slow ps prot cred d3" by (simp add: scan_custom_def)
qed

definition slow_detector :: detector where
  "slow_detector = load_custom_patterns (\<lambda>p. Some []) (\<lambda>p. True) (Some [(''own'', ''(a+)+b'')]) detector_init"

lemma slow_rules: "de_rules slow_detector = [\<lparr>ru_name = ''own'', ru_src = ''(a+)+b''\<rparr>]"
  by (simp add: slow_detector_def load_custom_patterns_def rule_accepted_def detector_init_def KINDS_def sublist_code
      has_nested_named_groups_def List.map_filter_simps rebuild_custom_combined_def Let_def)

theorem slow_rule_switched_off_witness:
  "''own'' \<in> set (de_disabled (fst (scan_custom (\<lambda>s t. Timed_Out) [''a''] [] []
     (fst (scan_custom (\<lambda>s t. Timed_Out) [''a''] [] [] (fst (scan_custom (\<lambda>s t. Timed_Out) [''a''] [] [] slow_detector)))))))"
proof -
  have "det_run slow_detector" unfolding slow_detector_def by (intro det_run.intros)
  then show ?thesis
    using slow_rule_switched_off [where d = slow_detector and r = "\<lparr>ru_name = ''own'', ru_src = ''(a+)+b''\<rparr>"
        and look = "\<lambda>s t. Timed_Out", OF _ _ _ _ _ _ refl] slow_rules by simp
qed

end
