(* ===== verification/Pii_Config.thy ===== *)
theory Pii_Config
  imports Pii_Rules Audit_Policy
begin

text \<open>
  The configuration of the PII detector (\<open>_pii.py\<close>): the environment variables, the files with rules and
  names, and what is taken out of them.  The environment is a map, the file system gives the size and the
  decoded text of a file (\<open>None\<close> when it cannot be read), \<open>json.loads\<close> is \<open>std_loads\<close> of a \<open>json_lib\<close>,
  \<open>float\<close> is \<open>flt\<close> and \<open>str\<close> of a value that is no string is \<open>show\<close>.
\<close>

section \<open>Raw files\<close>

record pii_file =
  pf_size :: nat
  pf_text :: "string option"

datatype raw_error = Too_Big | No_Stat | Read_Failed | Empty_File | Bad_Json | Bad_Yaml

definition load_pii_raw_file ::
  "json_lib \<Rightarrow> (string \<Rightarrow> json option) \<Rightarrow> (string \<Rightarrow> pii_file option) \<Rightarrow> string \<Rightarrow> raw_error + json" where
  "load_pii_raw_file lib flt files path =
     (case files path of
        None \<Rightarrow> Inl No_Stat
      | Some f \<Rightarrow>
          if 1048576 < pf_size f then Inl Too_Big
          else case pf_text f of
            None \<Rightarrow> Inl Read_Failed
          | Some text \<Rightarrow>
              if py_lstrip text = [] then Inl Empty_File
              else if looks_json (py_lstrip text) then
                (case std_loads lib text of None \<Rightarrow> Inl Bad_Json | Some j \<Rightarrow> Inr j)
              else (case parse_simple_yaml lib flt text of Inl e \<Rightarrow> Inl Bad_Yaml | Inr d \<Rightarrow> Inr (JObj d)))"

section \<open>Rules and names in the data\<close>

definition py_str :: "(json \<Rightarrow> string) \<Rightarrow> json \<Rightarrow> string" where
  "py_str show j = (case j of JStr s \<Rightarrow> s | _ \<Rightarrow> show j)"

text \<open>\<open>d.get(k1) or d.get(k2) or ...\<close>\<close>

fun first_of :: "(string \<times> json) list \<Rightarrow> string list \<Rightarrow> json" where
  "first_of d [] = JNull"
| "first_of d (k # ks) =
     (let v = (case dget d k of None \<Rightarrow> JNull | Some v \<Rightarrow> v) in
      if jtruthy v \<or> ks = [] then v else first_of d ks)"

definition or_str :: "string \<Rightarrow> string \<Rightarrow> string" where
  "or_str a b = (if a = [] then b else a)"

definition is_str :: "json \<Rightarrow> bool" where
  "is_str j \<longleftrightarrow> jstr j \<noteq> None"

definition pattern_item :: "(json \<Rightarrow> string) \<Rightarrow> json \<Rightarrow> (string \<times> string) option" where
  "pattern_item show item =
     (case item of
        JObj d \<Rightarrow>
          (let name = first_of d [''name'', ''type'', ''kind'', ''id''];
               pat = first_of d [''pattern'', ''regex'', ''re'', ''value''] in
           if jtruthy name \<and> jtruthy pat then Some (py_str show name, py_str show pat) else None)
      | JArr [a, b] \<Rightarrow> Some (py_str show a, py_str show b)
      | _ \<Rightarrow> None)"

definition name_item :: "(json \<Rightarrow> string) \<Rightarrow> json \<Rightarrow> (string \<times> string) option" where
  "name_item show item =
     (case item of
        JStr s \<Rightarrow> if py_strip s = [] then None else Some (py_strip s, ''name'')
      | JObj d \<Rightarrow>
          (let name = first_of d [''name'', ''value'', ''word'', ''key''];
               typ0 = first_of d [''type'', ''kind'', ''category''];
               typ = (if jtruthy typ0 then typ0 else JStr ''name'') in
           if jtruthy name
           then Some (py_strip (py_str show name), or_str (py_strip (py_str show typ)) ''name'') else None)
      | JArr [a, b] \<Rightarrow> Some (py_strip (py_str show a), or_str (py_strip (py_str show b)) ''name'')
      | _ \<Rightarrow> None)"

definition PATTERN_KEYS :: "string list" where
  "PATTERN_KEYS = [''patterns'', ''custom_patterns'', ''customPatterns'', ''pii_patterns'', ''rules'', ''custom_rules'']"

definition NAME_KEYS :: "string list" where
  "NAME_KEYS = [''names'', ''sensitive_names'', ''sensitiveNames'', ''dict'', ''entries'', ''dictionary'', ''words'',
     ''custom_dict'', ''sensitive_dict'', ''people'', ''personnel'']"

text \<open>The value of the first known key that is a list or a dictionary.\<close>

fun known_value :: "(string \<times> json) list \<Rightarrow> string list \<Rightarrow> json option" where
  "known_value d [] = None"
| "known_value d (k # ks) =
     (case dget d k of
        Some (JArr xs) \<Rightarrow> Some (JArr xs)
      | Some (JObj e) \<Rightarrow> Some (JObj e)
      | _ \<Rightarrow> known_value d ks)"

definition flat_map :: "string list \<Rightarrow> (string \<times> json) list \<Rightarrow> bool" where
  "flat_map foreign d \<longleftrightarrow> d \<noteq> [] \<and> list_all (\<lambda>(k, v). is_str v) d \<and> \<not> list_ex (dhas d) foreign"

definition extract_patterns :: "(json \<Rightarrow> string) \<Rightarrow> json \<Rightarrow> (string \<times> string) list" where
  "extract_patterns show data =
     (case data of
        JArr xs \<Rightarrow> List.map_filter (pattern_item show) xs
      | JObj d \<Rightarrow>
          (case known_value d PATTERN_KEYS of
             Some (JArr xs) \<Rightarrow> List.map_filter (pattern_item show) xs
           | Some (JObj e) \<Rightarrow> List.map_filter (\<lambda>(k, v). map_option (Pair k) (jstr v)) e
           | _ \<Rightarrow>
               if flat_map [''names'', ''sensitive_names'', ''sensitiveNames'', ''dict'', ''entries'', ''words''] d
               then map (\<lambda>(k, v). (k, py_str show v)) d else [])
      | _ \<Rightarrow> [])"

definition extract_dict :: "(json \<Rightarrow> string) \<Rightarrow> json \<Rightarrow> (string \<times> string) list" where
  "extract_dict show data =
     (case data of
        JArr xs \<Rightarrow> List.map_filter (name_item show) xs
      | JObj d \<Rightarrow>
          (case known_value d NAME_KEYS of
             Some (JArr xs) \<Rightarrow> List.map_filter (name_item show) xs
           | Some (JObj e) \<Rightarrow> map (\<lambda>(k, v). (k, case jstr v of None \<Rightarrow> ''name'' | Some s \<Rightarrow> s)) e
           | _ \<Rightarrow>
               if flat_map [''patterns'', ''custom_patterns'', ''rules''] d
               then List.map_filter (\<lambda>(k, v). if py_strip k = [] then None
                 else Some (py_strip k, or_str (py_strip (py_str show v)) ''name'')) d
               else [])
      | _ \<Rightarrow> [])"

section \<open>The environment\<close>

type_synonym environ = "string \<Rightarrow> string option"

datatype problem =
    Not_Positive string
  | Not_Integer string
  | Not_A_Switch string string
  | No_File string string
  | Bad_File string string raw_error

record pii_config =
  cf_enabled :: bool
  cf_response :: bool
  cf_hold :: int
  cf_fuzzy :: bool
  cf_hardening :: bool
  cf_prompt_on :: bool
  cf_prompt :: string
  cf_sample :: bool
  cf_persist :: bool
  cf_patterns :: "(string \<times> string) list"
  cf_names :: "(string \<times> string) list"
  cf_errors :: "problem list"

definition truthy_env :: "environ \<Rightarrow> string \<Rightarrow> bool" where
  "truthy_env env k \<longleftrightarrow> env k \<in> Some ` set [''1'', ''true'', ''True'', ''yes'']"

text \<open>A switch that only takes \<open>0\<close> and \<open>1\<close>.\<close>

definition switch_env :: "environ \<Rightarrow> string \<Rightarrow> bool \<times> problem list" where
  "switch_env env k =
     (case env k of
        None \<Rightarrow> (False, [])
      | Some v \<Rightarrow> if v = ''0'' \<or> v = ''1'' then (v = ''1'', []) else (False, [Not_A_Switch k v]))"

definition hold_env :: "environ \<Rightarrow> int \<times> problem list" where
  "hold_env env =
     (let raw = (case env ''PII_HOLD_MAX'' of None \<Rightarrow> ''64'' | Some v \<Rightarrow> v) in
      case py_int raw of
        None \<Rightarrow> (64, [Not_Integer raw])
      | Some n \<Rightarrow> if n < 1 then (64, [Not_Positive raw]) else (n, []))"

definition FORBIDDEN_RE :: rx where
  "FORBIDDEN_RE = rx_alt [rx_cat [lit ''__PII_'', plus rx_d, ch CHR ''_'', times 8 8 (acls hex_any), lit ''__''],
     rx_cat [lit ''__VG_CRED_'', plus rx_d, lit ''__'']]"

definition prompt_env :: "environ \<Rightarrow> bool \<times> string" where
  "prompt_env env =
     (let raw = py_lower (py_strip (case env ''PII_PLACEHOLDER_PROMPT'' of None \<Rightarrow> [] | Some v \<Rightarrow> v));
          on = (raw \<notin> set [''0'', ''false'', ''no'']);
          txt = (case env ''PII_PLACEHOLDER_PROMPT_TEXT'' of None \<Rightarrow> [] | Some v \<Rightarrow> v) in
      (on, if on \<and> py_strip txt \<noteq> [] \<and> re_search FORBIDDEN_RE txt = None then py_take 4096 txt else []))"

definition first_env :: "environ \<Rightarrow> string list \<Rightarrow> string" where
  "first_env env ks =
     py_strip (case find (\<lambda>k. env k \<noteq> None \<and> env k \<noteq> Some []) ks of None \<Rightarrow> [] | Some k \<Rightarrow> the (env k))"

text \<open>The lines of a list of names: neither blank nor a comment.\<close>

definition name_lines :: "string \<Rightarrow> (string \<times> string) list" where
  "name_lines s =
     map (\<lambda>ln. (ln, ''name'')) (filter (\<lambda>ln. ln \<noteq> [] \<and> \<not> prefix ''#'' ln) (map py_strip (split_on (CHR ''\<newline>'') s)))"

definition load_patterns_file ::
  "json_lib \<Rightarrow> (string \<Rightarrow> json option) \<Rightarrow> (json \<Rightarrow> string) \<Rightarrow> (string \<Rightarrow> pii_file option) \<Rightarrow> string \<Rightarrow> string
     \<Rightarrow> (string \<times> string) list \<times> problem list" where
  "load_patterns_file lib flt show files p label =
     (if p = [] then ([], [])
      else if files p = None then ([], [No_File label p])
      else case load_pii_raw_file lib flt files p of
        Inl e \<Rightarrow> ([], [Bad_File label p e])
      | Inr data \<Rightarrow> (extract_patterns show data, []))"

definition load_dict_file ::
  "json_lib \<Rightarrow> (string \<Rightarrow> json option) \<Rightarrow> (json \<Rightarrow> string) \<Rightarrow> (string \<Rightarrow> pii_file option) \<Rightarrow> string \<Rightarrow> string
     \<Rightarrow> (string \<times> string) list \<times> problem list" where
  "load_dict_file lib flt show files p label =
     (if p = [] then ([], [])
      else case files p of
        None \<Rightarrow> ([], [No_File label p])
      | Some f \<Rightarrow>
          (let by_line = (case pf_text f of None \<Rightarrow> [] | Some s \<Rightarrow> name_lines s) in
           case load_pii_raw_file lib flt files p of
             Inl e \<Rightarrow> if by_line \<noteq> [] then (by_line, []) else ([], [Bad_File label p e])
           | Inr data \<Rightarrow>
               if extract_dict show data \<noteq> [] then (extract_dict show data, []) else (by_line, [])))"

definition load_rules_file ::
  "json_lib \<Rightarrow> (string \<Rightarrow> json option) \<Rightarrow> (json \<Rightarrow> string) \<Rightarrow> (string \<Rightarrow> pii_file option) \<Rightarrow> string
     \<Rightarrow> (string \<times> string) list \<times> (string \<times> string) list \<times> problem list" where
  "load_rules_file lib flt show files p =
     (if p = [] then ([], [], [])
      else if files p = None then ([], [], [No_File ''PII_CUSTOM_RULES_FILE'' p])
      else case load_pii_raw_file lib flt files p of
        Inl e \<Rightarrow> ([], [], [Bad_File ''PII_CUSTOM_RULES_FILE'' p e])
      | Inr data \<Rightarrow> (extract_patterns show data, extract_dict show data, []))"

definition parse_pii_env_config ::
  "json_lib \<Rightarrow> (string \<Rightarrow> json option) \<Rightarrow> (json \<Rightarrow> string) \<Rightarrow> (string \<Rightarrow> pii_file option) \<Rightarrow> environ \<Rightarrow> pii_config" where
  "parse_pii_env_config lib flt show files env =
     (let response = (if env ''PII_RESPONSE_SIDE'' = None then True else truthy_env env ''PII_RESPONSE_SIDE'');
          (hold, e1) = hold_env env;
          (fuzzy, e2) = switch_env env ''PII_FUZZY_RESTORE'';
          (hardening, e3) = switch_env env ''PII_DETECTION_HARDENING'';
          (prompt_on, prompt) = prompt_env env;
          (sample, e4) = switch_env env ''PII_VALUE_SAMPLE_ENABLED'';
          (persist, e5) = switch_env env ''PII_VALUE_SAMPLE_PERSIST'';
          (ps1, ns1, e6) = load_rules_file lib flt show files
             (first_env env [''PII_CUSTOM_RULES_FILE'', ''PII_RULES_FILE'']);
          (ps2, e7) = load_patterns_file lib flt show files
             (first_env env [''PII_CUSTOM_PATTERNS_FILE'', ''PII_CUSTOM_PATTERN_FILE'']) ''PII_CUSTOM_PATTERNS_FILE'';
          (ns2, e8) = load_dict_file lib flt show files
             (first_env env [''PII_DICT_FILE'', ''PII_SENSITIVE_DICT_FILE'', ''PII_SENSITIVE_NAMES_FILE'']) ''PII_DICT_FILE''
      in \<lparr>cf_enabled = truthy_env env ''PII_REDACTION_ENABLED'', cf_response = response, cf_hold = hold, cf_fuzzy = fuzzy,
          cf_hardening = hardening, cf_prompt_on = prompt_on, cf_prompt = prompt, cf_sample = sample \<or> persist,
          cf_persist = persist, cf_patterns = ps1 @ ps2, cf_names = ns1 @ ns2,
          cf_errors = e1 @ e2 @ e3 @ e4 @ e5 @ e6 @ e7 @ e8\<rparr>)"

section \<open>A pattern that looks at nothing but what it matches\<close>

fun rx_plain :: "rx \<Rightarrow> bool" where
  "rx_plain (Cat a b) = (rx_plain a \<and> rx_plain b)"
| "rx_plain (Alt a b) = (rx_plain a \<and> rx_plain b)"
| "rx_plain (Rep g lo hi a) = rx_plain a"
| "rx_plain (Grp k a) = rx_plain a"
| "rx_plain (One P) = True"
| "rx_plain Eps = True"
| "rx_plain _ = False"

lemma rx_iter_mono:
  assumes "\<And>st st'. fst st \<le> n \<Longrightarrow> st' \<in> set (m st) \<Longrightarrow> fst st' \<le> n \<and> st' \<in> set (m' st)"
  shows "fst st \<le> n \<Longrightarrow> st' \<in> set (rx_iter fuel m greedy lo hi st) \<Longrightarrow> st' \<in> set (rx_iter (fuel + k) m' greedy lo hi st)"
proof (induction fuel arbitrary: lo hi st)
  case 0
  then have "lo = 0" "st' = st" by (auto split: if_splits)
  then show ?case by (cases k) (simp_all add: Let_def)
next
  case (Suc fuel)
  from Suc.prems(2) consider "lo = 0" "st' = st" | "hi \<noteq> Some 0"
      "\<exists>st1 \<in> set (m st). (0 < lo \<or> fst st < fst st1) \<and> st' \<in> set (rx_iter fuel m greedy (lo - 1) (dec_opt hi) st1)"
    by (fastforce simp: Let_def split: if_splits)
  then show ?case
  proof cases
    case 2
    then obtain st1 where hi: "hi \<noteq> Some 0" and st1: "st1 \<in> set (m st)" "0 < lo \<or> fst st < fst st1"
      and st': "st' \<in> set (rx_iter fuel m greedy (lo - 1) (dec_opt hi) st1)" by blast
    have b: "fst st1 \<le> n" "st1 \<in> set (m' st)" using assms [OF Suc.prems(1) st1(1)] by auto
    have "st' \<in> set (concat (map (rx_iter (fuel + k) m' greedy (lo - 1) (dec_opt hi))
        (filter (\<lambda>u. 0 < lo \<or> fst st < fst u) (m' st))))"
      unfolding set_concat set_map set_filter using Suc.IH [OF b(1) st'] b(2) st1(2) by blast
    with hi show ?thesis by (cases greedy) (simp_all add: Let_def)
  qed (simp add: Let_def)
qed

lemma rx_run_longer:
  "rx_plain r \<Longrightarrow> fst st \<le> length ps \<Longrightarrow> st' \<in> set (rx_run r ps st) \<Longrightarrow> st' \<in> set (rx_run r (ps @ qs) st)"
proof (induction r arbitrary: st st')
  case (Cat a b)
  from Cat.prems(3) obtain st1 where s: "st1 \<in> set (rx_run a ps st)" "st' \<in> set (rx_run b ps st1)" by auto
  have "fst st1 \<le> length ps" using rx_run_bounds [OF Cat.prems(2) s(1)] by simp
  then have "st1 \<in> set (rx_run a (ps @ qs) st)" "st' \<in> set (rx_run b (ps @ qs) st1)"
    using Cat.IH(1) [OF _ Cat.prems(2) s(1)] Cat.IH(2) [OF _ _ s(2)] Cat.prems(1) by simp_all
  then show ?case by auto
next
  case (Rep g lo hi a)
  have "st' \<in> set (rx_iter ((lo + (length ps - fst st)) + length qs) (rx_run a (ps @ qs)) g lo hi st)"
  proof (rule rx_iter_mono [where n = "length ps" and m = "rx_run a ps"])
    show "fst st \<le> length ps" by (rule Rep.prems(2))
    show "st' \<in> set (rx_iter (lo + (length ps - fst st)) (rx_run a ps) g lo hi st)" using Rep.prems(3) by simp
    fix u u' :: rx_st assume u: "fst u \<le> length ps" "u' \<in> set (rx_run a ps u)"
    then show "fst u' \<le> length ps \<and> u' \<in> set (rx_run a (ps @ qs) u)"
      using rx_run_bounds [OF u] Rep.IH [of u u'] Rep.prems(1) by simp
  qed
  then show ?case using Rep.prems(2) by (simp add: add.assoc)
qed (auto simp: nth_append)

lemma re_search_shorter:
  assumes "rx_plain r" and "re_search r s = None"
  shows "re_search r (py_take n s) = None"
proof -
  have none: "rx_from r ps 0 = None \<longleftrightarrow> (\<forall>k \<le> length ps. rx_run r ps (k, []) = [])" for ps
  proof -
    let ?m = "\<lambda>k. rx_match r ps k \<noteq> None"
    have "rx_from r ps 0 = None \<longleftrightarrow> find ?m [0 ..< length ps + 1] = None"
    proof (cases "find ?m [0 ..< length ps + 1]")
      case (Some k)
      then have "?m k" by (auto simp: find_Some_iff)
      with Some show ?thesis by (auto simp: rx_from_def)
    qed (simp add: rx_from_def)
    also have "\<dots> \<longleftrightarrow> (\<forall>k \<in> set [0 ..< length ps + 1]. rx_match r ps k = None)" unfolding find_None_iff by metis
    also have "\<dots> \<longleftrightarrow> (\<forall>k \<le> length ps. rx_run r ps (k, []) = [])"
    proof -
      have "rx_match r ps k = None \<longleftrightarrow> rx_run r ps (k, []) = []" for k by (simp add: rx_match_def split: list.split)
      moreover have "set [0 ..< length ps + 1] = {k. k \<le> length ps}" by auto
      ultimately show ?thesis by simp
    qed
    finally show ?thesis .
  qed
  have "rx_run r (take n (cps s)) (k, []) = []" if "k \<le> length (take n (cps s))" for k
  proof (rule ccontr)
    assume "rx_run r (take n (cps s)) (k, []) \<noteq> []"
    then obtain st where "st \<in> set (rx_run r (take n (cps s)) (k, []))"
      by (cases "rx_run r (take n (cps s)) (k, [])") auto
    from rx_run_longer [OF assms(1) _ this, of "drop n (cps s)"] that have "st \<in> set (rx_run r (cps s) (k, []))" by simp
    then show False using assms(2) none [of "cps s"] that by (auto simp: re_search_def)
  qed
  then show ?thesis using none [of "take n (cps s)"] by (auto simp: re_search_def py_take_def cps_take)
qed

section \<open>What a configuration can be\<close>

lemma rx_plain_build [simp]:
  "rx_plain (lit s)" "rx_plain (ch c)" "rx_plain (plus a) = rx_plain a" "rx_plain rx_d" "rx_plain (acls P)"
  "rx_plain (times i j a) = rx_plain a"
proof -
  show "rx_plain (ch c)" for c by (simp add: ch_def)
  then have "rx_plain (rx_cat (map ch s))" by (induction s rule: induct_list012) simp_all
  then show "rx_plain (lit s)" by (simp add: lit_def)
qed (simp_all add: plus_def rx_d_def acls_def times_def)

text \<open>
  Whatever the environment holds, the configuration that comes out is usable: the hold limit is
  positive, keeping samples implies taking them, and the text that explains the placeholders has at most
  4096 characters and holds no complete token, also where it was cut off.
\<close>

theorem config_sane:
  "1 \<le> cf_hold (parse_pii_env_config lib flt show files env)
   \<and> (cf_persist (parse_pii_env_config lib flt show files env) \<longrightarrow> cf_sample (parse_pii_env_config lib flt show files env))
   \<and> py_len (cf_prompt (parse_pii_env_config lib flt show files env)) \<le> 4096
   \<and> re_search FORBIDDEN_RE (cf_prompt (parse_pii_env_config lib flt show files env)) = None"
proof -
  have plain: "rx_plain FORBIDDEN_RE" by (simp add: FORBIDDEN_RE_def)
  have "re_search FORBIDDEN_RE [] = None"
    by (simp add: re_search_def rx_from_def rx_match_def FORBIDDEN_RE_def lit_def ch_def)
  then have "py_len (snd (prompt_env env)) \<le> 4096 \<and> re_search FORBIDDEN_RE (snd (prompt_env env)) = None"
    using re_search_shorter [OF plain] by (auto simp: prompt_env_def Let_def py_len_take)
  moreover have "1 \<le> fst (hold_env env)"
    by (auto simp: hold_env_def Let_def split: option.split)
  ultimately show ?thesis by (simp add: parse_pii_env_config_def Let_def case_prod_beta)
qed

theorem config_sane_witness:
  "1 \<le> cf_hold (parse_pii_env_config \<lparr>jloads = (\<lambda>s. None), jdumps = (\<lambda>j. None), std_loads = (\<lambda>s. None)\<rparr>
     (\<lambda>s. None) (\<lambda>j. []) (\<lambda>p. None) (\<lambda>k. if k = ''PII_VALUE_SAMPLE_PERSIST'' then Some ''1'' else Some ''x''))"
  using config_sane by blast

text \<open>
  A file of names that cannot be used as what it is, because it is too big, broken JSON or broken YAML,
  is not refused: its lines are taken as names and no error is reported.
\<close>

theorem broken_names_file_taken:
  assumes "files p = Some f" and "pf_text f = Some s" and "load_pii_raw_file lib flt files p = Inl e"
    and "name_lines s \<noteq> []" and "p \<noteq> []"
  shows "load_dict_file lib flt show files p label = (name_lines s, [])"
  using assms by (auto simp: load_dict_file_def load_pii_raw_file_def split: if_splits)

theorem broken_names_file_taken_witness:
  "load_dict_file \<lparr>jloads = (\<lambda>s. None), jdumps = (\<lambda>j. None), std_loads = (\<lambda>s. None)\<rparr> (\<lambda>s. None) (\<lambda>j. [])
     (\<lambda>p. Some \<lparr>pf_size = 2, pf_text = Some ''[a''\<rparr>) ''names.json'' ''PII_DICT_FILE'' = ([(''[a'', ''name'')], [])"
proof -
  let ?lib = "\<lparr>jloads = (\<lambda>s. None), jdumps = (\<lambda>j. None), std_loads = (\<lambda>s. None)\<rparr>"
    and ?files = "\<lambda>p. Some \<lparr>pf_size = 2, pf_text = Some ''[a''\<rparr>"
  have strip: "py_lstrip ''[a'' = ''[a''" "py_strip ''[a'' = ''[a''"
    by (simp_all add: py_strip_def py_lstrip_def py_rstrip_def is_ws_def bytes_def cp_width_def byte_def)
  then have "load_pii_raw_file ?lib (\<lambda>s. None) ?files ''names.json'' = Inl Bad_Json"
    by (simp add: load_pii_raw_file_def looks_json_def starts_any_def)
  moreover have "name_lines ''[a'' = [(''[a'', ''name'')]" using strip by (simp add: name_lines_def)
  ultimately show ?thesis
    using broken_names_file_taken [of ?files "''names.json''" _ "''[a''" ?lib "\<lambda>s. None" Bad_Json] by simp
qed

text \<open>
  A plain map of names to types in the file for both is read as rules too: the type becomes a pattern of
  its own, which is then searched for everywhere.
\<close>

lemma flat_map_read_twice:
  assumes "py_strip k = k" "k \<noteq> []" and "py_strip t = t" "t \<noteq> []" and "k \<notin> set (PATTERN_KEYS @ NAME_KEYS)"
  shows "extract_patterns show (JObj [(k, JStr t)]) = [(k, t)] \<and> extract_dict show (JObj [(k, JStr t)]) = [(k, t)]"
proof -
  have "known_value [(k, JStr t)] ks = None" for ks by (induction ks) auto
  moreover have "flat_map ks [(k, JStr t)]" if "k \<notin> set ks" for ks
    using that by (induction ks) (auto simp: flat_map_def is_str_def dhas_def)
  moreover have "k \<notin> set [''names'', ''sensitive_names'', ''sensitiveNames'', ''dict'', ''entries'', ''words'']"
    "k \<notin> set [''patterns'', ''custom_patterns'', ''rules'']"
    using assms(5) by (auto simp: PATTERN_KEYS_def NAME_KEYS_def)
  ultimately show ?thesis
    using assms(1-4) by (simp add: extract_patterns_def extract_dict_def py_str_def or_str_def List.map_filter_simps)
qed

end
