(* ===== verification/Pii_Prompt.thy ===== *)
theory Pii_Prompt
  imports Pii_Vault Json_Walk
begin

text \<open>
  The explanation of the placeholders that is put into a request (\<open>_pii.py\<close>, \<open>inject_placeholder_prompt\<close>):
  as a system message or as the end of the one that is there, in the three protocols.
\<close>

section \<open>The text\<close>

text \<open>The default text, in UTF-8.\<close>

definition PII_PLACEHOLDER_PROMPT_DEFAULT :: string where
  "PII_PLACEHOLDER_PROMPT_DEFAULT = bytes
     [232, 175, 180, 230, 152, 142, 239, 188, 154, 230, 182, 136, 230, 129, 175, 228, 184, 173, 229, 189,
      162, 229, 166, 130, 32, 95, 95, 80, 73, 73, 95, 42, 95, 95, 32, 229, 146, 140, 32, 95, 95, 86, 71,
      95, 67, 82, 69, 68, 95, 42, 95, 95, 32, 231, 154, 132, 230, 160, 135, 232, 174, 176, 230, 152, 175,
      229, 174, 137, 229, 133, 168, 231, 189, 145, 229, 133, 179, 231, 154, 132, 230, 149, 143, 230, 132,
      159, 228, 191, 161, 230, 129, 175, 232, 132, 177, 230, 149, 143, 229, 141, 160, 228, 189, 141, 231,
      172, 166, 239, 188, 140, 228, 187, 163, 232, 161, 168, 232, 162, 171, 230, 155, 191, 230, 141, 162,
      231, 154, 132, 229, 142, 159, 229, 167, 139, 229, 128, 188, 239, 188, 136, 229, 166, 130, 230, 137,
      139, 230, 156, 186, 229, 143, 183, 227, 128, 129, 73, 80, 32, 229, 156, 176, 229, 157, 128, 227,
      128, 129, 233, 147, 182, 232, 161, 140, 229, 141, 161, 229, 143, 183, 227, 128, 129, 229, 175, 134,
      233, 146, 165, 231, 173, 137, 239, 188, 137, 227, 128, 130, 233, 135, 141, 232, 166, 129, 239, 188,
      154, 232, 191, 153, 228, 186, 155, 229, 141, 160, 228, 189, 141, 231, 172, 166, 229, 135, 186, 231,
      142, 176, 231, 154, 132, 228, 189, 141, 231, 189, 174, 239, 188, 140, 229, 133, 182, 229, 142, 159,
      229, 167, 139, 229, 134, 133, 229, 174, 185, 229, 183, 178, 232, 162, 171, 229, 174, 137, 229, 133,
      168, 231, 189, 145, 229, 133, 179, 230, 155, 191, 230, 141, 162, 239, 188, 140, 228, 189, 160, 230,
      151, 160, 230, 179, 149, 231, 155, 180, 230, 142, 165, 231, 156, 139, 229, 136, 176, 229, 142, 159,
      230, 150, 135, 239, 188, 155, 229, 155, 160, 230, 173, 164, 228, 184, 141, 232, 166, 129, 230, 138,
      138, 229, 141, 160, 228, 189, 141, 231, 172, 166, 229, 189, 147, 228, 189, 156, 231, 156, 159, 229,
      174, 158, 230, 149, 176, 230, 141, 174, 239, 188, 136, 228, 184, 141, 232, 166, 129, 231, 148, 168,
      229, 174, 131, 229, 129, 154, 230, 160, 183, 228, 190, 139, 227, 128, 129, 230, 175, 148, 229, 175,
      185, 227, 128, 129, 230, 142, 168, 230, 150, 173, 229, 142, 159, 230, 150, 135, 239, 188, 140, 228,
      185, 159, 228, 184, 141, 232, 166, 129, 229, 129, 135, 232, 174, 190, 229, 142, 159, 230, 150, 135,
      229, 176, 177, 230, 152, 175, 229, 141, 160, 228, 189, 141, 231, 172, 166, 229, 189, 162, 230, 128,
      129, 239, 188, 137, 227, 128, 130, 232, 175, 183, 229, 142, 159, 230, 160, 183, 228, 191, 157, 231,
      149, 153, 232, 191, 153, 228, 186, 155, 229, 141, 160, 228, 189, 141, 231, 172, 166, 239, 188, 136,
      229, 140, 133, 230, 139, 172, 32, 99, 111, 110, 116, 101, 110, 116, 32, 228, 184, 142, 32, 116,
      111, 111, 108, 32, 99, 97, 108, 108, 115, 47, 102, 117, 110, 99, 116, 105, 111, 110, 32, 229, 143,
      130, 230, 149, 176, 228, 184, 173, 231, 154, 132, 239, 188, 137, 239, 188, 154, 228, 184, 141, 232,
      166, 129, 228, 191, 174, 230, 148, 185, 230, 160, 188, 229, 188, 143, 227, 128, 129, 228, 184, 141,
      232, 166, 129, 230, 160, 161, 233, 170, 140, 229, 133, 182, 229, 144, 136, 230, 179, 149, 230, 128,
      167, 227, 128, 129, 228, 184, 141, 232, 166, 129, 230, 142, 168, 230, 150, 173, 230, 136, 150, 232,
      161, 165, 229, 133, 168, 229, 134, 133, 229, 174, 185, 239, 188, 140, 228, 185, 159, 228, 184, 141,
      232, 166, 129, 232, 167, 134, 228, 184, 186, 232, 190, 147, 229, 133, 165, 233, 148, 153, 232, 175,
      175, 227, 128, 130, 229, 174, 131, 228, 187, 172, 228, 184, 141, 230, 152, 175, 230, 160, 188, 229,
      188, 143, 233, 151, 174, 233, 162, 152, 239, 188, 140, 231, 155, 180, 230, 142, 165, 228, 189, 191,
      231, 148, 168, 229, 141, 179, 229, 143, 175, 227, 128, 130, 232, 139, 165, 228, 189, 160, 233, 156,
      128, 232, 166, 129, 230, 159, 165, 231, 156, 139, 232, 162, 171, 230, 155, 191, 230, 141, 162, 231,
      154, 132, 229, 142, 159, 230, 150, 135, 232, 191, 155, 232, 161, 140, 229, 136, 134, 230, 158, 144,
      239, 188, 140, 232, 175, 183, 230, 148, 185, 231, 148, 168, 228, 184, 141, 231, 187, 143, 231, 148,
      177, 230, 173, 164, 231, 189, 145, 229, 133, 179, 231, 154, 132, 233, 128, 154, 233, 129, 147, 239,
      188, 136, 229, 166, 130, 231, 155, 180, 230, 142, 165, 229, 156, 168, 229, 143, 151, 228, 191, 161,
      228, 187, 187, 231, 142, 175, 229, 162, 131, 230, 137, 167, 232, 161, 140, 229, 145, 189, 228, 187,
      164, 239, 188, 137, 239, 188, 140, 228, 184, 141, 232, 166, 129, 229, 176, 157, 232, 175, 149, 228,
      187, 142, 229, 141, 160, 228, 189, 141, 231, 172, 166, 230, 156, 172, 232, 186, 171, 232, 191, 152,
      229, 142, 159, 227, 128, 130]"

definition pii_placeholder_text :: "string \<Rightarrow> string" where
  "pii_placeholder_text custom = (if py_strip custom = [] then PII_PLACEHOLDER_PROMPT_DEFAULT else py_strip custom)"

section \<open>Injection\<close>

definition prompt_gap :: string where
  "prompt_gap = [CHR 0x0A, CHR 0x0A]"

definition text_block :: "string \<Rightarrow> json" where
  "text_block prompt = JObj [(''type'', JStr ''text''), (''text'', JStr prompt)]"

definition system_message :: "string \<Rightarrow> json" where
  "system_message prompt = JObj [(''role'', JStr ''system''), (''content'', JStr prompt)]"

definition last_text :: "json list \<Rightarrow> ((string \<times> json) list \<times> string) option" where
  "last_text xs =
     (if xs = [] then None
      else case last xs of
        JObj d \<Rightarrow>
          (if dget d ''type'' = Some (JStr ''text'')
           then map_option (Pair d) (Option.bind (dget d ''text'') jstr) else None)
      | _ \<Rightarrow> None)"

definition append_text :: "string \<Rightarrow> json \<Rightarrow> json" where
  "append_text prompt field =
     (case field of
        JStr s \<Rightarrow> if s = [] then JStr prompt else JStr (s @ prompt_gap @ prompt)
      | JArr xs \<Rightarrow>
          (case last_text xs of
             Some (d, t) \<Rightarrow> JArr (butlast xs @ [JObj (dset ''text'' (JStr (t @ prompt_gap @ prompt)) d)])
           | None \<Rightarrow> JArr (xs @ [text_block prompt]))
      | _ \<Rightarrow> field)"

definition str_or_list :: "json \<Rightarrow> bool" where
  "str_or_list j \<longleftrightarrow> (case j of JStr s \<Rightarrow> True | JArr xs \<Rightarrow> True | _ \<Rightarrow> False)"

text \<open>The messages with the text; \<open>first.get('content') or ''\<close> when the content is neither text nor a list.\<close>

definition inject_first :: "string \<Rightarrow> (string \<times> json) list \<Rightarrow> json" where
  "inject_first prompt d =
     (case dget d ''content'' of
        Some c \<Rightarrow>
          JObj (dset ''content'' (append_text prompt (if str_or_list c \<or> jtruthy c then c else JStr [])) d)
      | None \<Rightarrow> JObj (dset ''content'' (append_text prompt (JStr [])) d))"

definition inject_messages :: "string \<Rightarrow> json list \<Rightarrow> json list" where
  "inject_messages prompt msgs =
     (case msgs of
        JObj d # rest \<Rightarrow>
          if dget d ''role'' = Some (JStr ''system'') then inject_first prompt d # rest
          else system_message prompt # msgs
      | _ \<Rightarrow> system_message prompt # msgs)"

definition message_key :: "string \<Rightarrow> string" where
  "message_key protocol = (if protocol = ''responses'' then ''input'' else ''messages'')"

text \<open>\<open>None\<close> is \<open>False\<close>: no place to put the text.\<close>

definition inject_obj :: "string \<Rightarrow> string \<Rightarrow> (string \<times> json) list \<Rightarrow> (string \<times> json) list option" where
  "inject_obj protocol prompt d =
     (if protocol = ''anthropic'' then
        (case dget d ''system'' of
           Some JNull \<Rightarrow> Some (dset ''system'' (JStr prompt) d)
         | Some f \<Rightarrow> if str_or_list f then Some (dset ''system'' (append_text prompt f) d) else None
         | None \<Rightarrow> Some (dset ''system'' (JStr prompt) d))
      else case dget d (message_key protocol) of
        Some (JArr msgs) \<Rightarrow> Some (dset (message_key protocol) (JArr (inject_messages prompt msgs)) d)
      | _ \<Rightarrow> None)"

definition schema_ok :: "string \<Rightarrow> (string \<times> json) list \<Rightarrow> bool" where
  "schema_ok protocol d \<longleftrightarrow>
     (if protocol = ''anthropic'' then
        (case dget d ''system'' of None \<Rightarrow> True | Some f \<Rightarrow> f = JNull \<or> str_or_list f)
      else (case dget d (message_key protocol) of Some (JArr msgs) \<Rightarrow> True | _ \<Rightarrow> False))"

text \<open>The host: the switch, the custom text and the count of failed checks.\<close>

record prompt_host =
  ph_on :: bool
  ph_text :: string
  ph_failed :: nat

definition inject_placeholder_prompt ::
  "json_lib \<Rightarrow> string \<Rightarrow> string \<Rightarrow> prompt_host \<Rightarrow> prompt_host \<times> string" where
  "inject_placeholder_prompt lib protocol body h =
     (if body = [] \<or> \<not> ph_on h then (h, body)
      else if \<not> looks_json (py_lstrip (lstrip_bom body)) then (h, body)
      else case jloads lib (lstrip_bom body) of
        Some (JObj d) \<Rightarrow>
          (case inject_obj protocol (pii_placeholder_text (ph_text h)) d of
             None \<Rightarrow> (h, body)
           | Some d' \<Rightarrow>
               if \<not> schema_ok protocol d' then (h\<lparr>ph_failed := ph_failed h + 1\<rparr>, body)
               else (case jdumps lib (JObj d') of None \<Rightarrow> (h, body) | Some out \<Rightarrow> (h, out)))
      | _ \<Rightarrow> (h, body))"

section \<open>What the injection changes\<close>

lemma inject_schema: "inject_obj protocol prompt d = Some d' \<Longrightarrow> schema_ok protocol d'"
  by (auto simp: inject_obj_def schema_ok_def append_text_def str_or_list_def
      split: if_splits option.splits json.splits)

lemma inject_other_keys:
  "inject_obj protocol prompt d = Some d' \<Longrightarrow>
     k \<noteq> (if protocol = ''anthropic'' then ''system'' else message_key protocol) \<Longrightarrow> dget d' k = dget d k"
  by (auto simp: inject_obj_def split: if_splits option.splits json.splits)

text \<open>What becomes of the messages: one more in front, or a longer first one.\<close>

definition grown :: "string \<Rightarrow> json list \<Rightarrow> json list \<Rightarrow> bool" where
  "grown prompt old new \<longleftrightarrow> new = system_message prompt # old
     \<or> (\<exists>e rest. old = JObj e # rest \<and> dget e ''role'' = Some (JStr ''system'') \<and> new = inject_first prompt e # rest)"

lemma inject_grown: "grown prompt old (inject_messages prompt old)"
  by (auto simp: grown_def inject_messages_def split: list.split json.split)

lemma inject_messages_grown:
  assumes "inject_obj protocol prompt d = Some d'" and "protocol \<noteq> ''anthropic''"
  shows "\<exists>old new. dget d (message_key protocol) = Some (JArr old) \<and> dget d' (message_key protocol) = Some (JArr new)
    \<and> grown prompt old new"
  using assms inject_grown by (auto simp: inject_obj_def split: option.splits json.splits)

lemma inject_first_text:
  "dget e ''content'' = Some (JStr s) \<Longrightarrow> s \<noteq> [] \<Longrightarrow> inject_first prompt e = JObj (dset ''content'' (JStr (s @ prompt_gap @ prompt)) e)"
  by (simp add: inject_first_def append_text_def str_or_list_def)

text \<open>
  The explanation is only ever added: every other field of the request stays, all its messages stay
  in their order, only a system message at the head may grow at its end or be put in front; the check
  of the result never fails, so its counter stays as it is; and a request that is no JSON object, or has
  no place for the text, goes out as it came.
\<close>

theorem prompt_only_added:
  "fst (inject_placeholder_prompt lib protocol body h) = h
   \<and> (snd (inject_placeholder_prompt lib protocol body h) = body
      \<or> (\<exists>d d'. jloads lib (lstrip_bom body) = Some (JObj d)
          \<and> jdumps lib (JObj d') = Some (snd (inject_placeholder_prompt lib protocol body h))
          \<and> (\<forall>k. k \<noteq> (if protocol = ''anthropic'' then ''system'' else message_key protocol) \<longrightarrow> dget d' k = dget d k)
          \<and> (protocol \<noteq> ''anthropic'' \<longrightarrow> (\<exists>old new. dget d (message_key protocol) = Some (JArr old)
               \<and> dget d' (message_key protocol) = Some (JArr new) \<and> grown (pii_placeholder_text (ph_text h)) old new))))"
proof -
  let ?p = "pii_placeholder_text (ph_text h)"
  consider "inject_placeholder_prompt lib protocol body h = (h, body)"
    | d d' where "jloads lib (lstrip_bom body) = Some (JObj d)" "inject_obj protocol ?p d = Some d'"
        "fst (inject_placeholder_prompt lib protocol body h) = h"
        "jdumps lib (JObj d') = Some (snd (inject_placeholder_prompt lib protocol body h))"
  proof (cases "(body = [] \<or> \<not> ph_on h) \<or> \<not> looks_json (py_lstrip (lstrip_bom body))")
    case True
    then have "inject_placeholder_prompt lib protocol body h = (h, body)"
      by (auto simp: inject_placeholder_prompt_def)
    with that(1) show ?thesis .
  next
    case False
    then have run: "inject_placeholder_prompt lib protocol body h = (case jloads lib (lstrip_bom body) of
        Some (JObj d) \<Rightarrow> (case inject_obj protocol ?p d of None \<Rightarrow> (h, body)
          | Some d' \<Rightarrow> if \<not> schema_ok protocol d' then (h\<lparr>ph_failed := ph_failed h + 1\<rparr>, body)
              else (case jdumps lib (JObj d') of None \<Rightarrow> (h, body) | Some out \<Rightarrow> (h, out)))
      | _ \<Rightarrow> (h, body))"
      by (simp add: inject_placeholder_prompt_def)
    show ?thesis
    proof (cases "\<exists>d d' out. jloads lib (lstrip_bom body) = Some (JObj d) \<and> inject_obj protocol ?p d = Some d' \<and> jdumps lib (JObj d') = Some out")
      case True
      then obtain d d' out where d: "jloads lib (lstrip_bom body) = Some (JObj d)" "inject_obj protocol ?p d = Some d'"
        "jdumps lib (JObj d') = Some out" by blast
      with run inject_schema [OF d(2)] have "inject_placeholder_prompt lib protocol body h = (h, out)" by simp
      with d show ?thesis by (intro that(2)) simp_all
    next
      case False
      with run inject_schema show ?thesis by (intro that(1)) (auto split: option.splits json.splits)
    qed
  qed
  then show ?thesis
  proof cases
    case 2
    have "dget d' k = dget d k" if "k \<noteq> (if protocol = ''anthropic'' then ''system'' else message_key protocol)" for k
      using inject_other_keys [OF 2(2) that] .
    with 2 inject_messages_grown [OF 2(2)] show ?thesis by blast
  qed simp
qed

theorem prompt_only_added_witness:
  "\<exists>new. jdumps \<lparr>jloads = (\<lambda>s. Some (JObj [(''messages'', JArr [])])), jdumps = (\<lambda>j. Some ''[]''), std_loads = (\<lambda>s. None)\<rparr>
       (JObj new) = Some ''[]'' \<and> grown (pii_placeholder_text ''note'') [] [system_message (pii_placeholder_text ''note'')]"
proof -
  let ?lib = "\<lparr>jloads = (\<lambda>s. Some (JObj [(''messages'', JArr [])])), jdumps = (\<lambda>j. Some ''[]''), std_loads = (\<lambda>s. None)\<rparr>"
    and ?h = "\<lparr>ph_on = True, ph_text = ''note'', ph_failed = 0\<rparr>"
  have "lstrip_bom ''{}'' = ''{}''" "py_lstrip ''{}'' = ''{}''"
    by (simp_all add: lstrip_bom_def py_lstrip_def is_ws_def bom_def bytes_def cp_width_def byte_def)
  then have "snd (inject_placeholder_prompt ?lib ''openai'' ''{}'' ?h) = ''[]''"
    by (simp add: inject_placeholder_prompt_def looks_json_def starts_any_def inject_obj_def message_key_def schema_ok_def)
  then show ?thesis
    using prompt_only_added [of ?lib "''openai''" "''{}''" ?h] by (auto simp: grown_def)
qed

end
