(* ===== verification/Pii_Response.thy ===== *)
theory Pii_Response
  imports Pii_Redact Cred_Json Stream_Text "HOL-Library.Multiset"
begin

text \<open>
  What the reverse proxy does to the text of an answer (\<open>LlmMixin\<close> of \<open>_llm.py\<close>): the tokens of
  requests are restored and the places of the restored values remembered, personal data the model itself
  wrote is masked, everywhere but at those places; string by string in JSON, line by line in an event
  stream; and for a whole answer the leftovers of tokens are stripped and the result is checked.
  One piece of text runs to completion before the next begins.  What a scan adds to the counters is in
  Pii_Host.
\<close>

section \<open>Restoring and marking\<close>

text \<open>\<open>pattern.sub(f, text)\<close> with a replacement that is told where the match starts, on code points.\<close>

function scan_marks :: "matcher \<Rightarrow> ('s \<Rightarrow> nat \<Rightarrow> string \<Rightarrow> 's \<times> string option) \<Rightarrow> 's \<Rightarrow> nat \<Rightarrow> string list \<Rightarrow> 's \<times> string list"
  where
  "scan_marks m f s i [] = (s, [])"
| "scan_marks m f s i (p # ps) =
     (case m (concat (p # ps)) of
        None \<Rightarrow> (case scan_marks m f s (i + 1) ps of (s', y) \<Rightarrow> (s', p # y))
      | Some n \<Rightarrow>
          let tok = take n (concat (p # ps)); k = py_len tok
          in if k = 0 then (case scan_marks m f s (i + 1) ps of (s', y) \<Rightarrow> (s', p # y))
             else (case f s i tok of
               (s1, r) \<Rightarrow> (case scan_marks m f s1 (i + k) (drop k (p # ps)) of
                  (s', y) \<Rightarrow> (s', (case r of None \<Rightarrow> take k (p # ps) | Some t \<Rightarrow> cps t) @ y))))"
  by pat_completeness auto
termination
  by (relation "measure (\<lambda>(m, f, s, i, ps). length ps)") (simp_all del: py_len_0)

text \<open>The places of restored values, in the text that results: start, end, value.\<close>

type_synonym marks = "(int \<times> int \<times> string) list"

definition mark_repl ::
  "pii_tokens \<times> int \<times> marks \<Rightarrow> nat \<Rightarrow> string \<Rightarrow> (pii_tokens \<times> int \<times> marks) \<times> string option" where
  "mark_repl st start tok =
     (case st of (s, delta, spans) \<Rightarrow>
        (case dget (pii_t2p s) tok of
           Some plain \<Rightarrow>
             let final_start = int start + delta
             in ((touch_pii tok plain s, delta + (int (py_len plain) - int (py_len tok)),
                  spans @ [(final_start, final_start + int (py_len plain), plain)]), Some plain)
         | None \<Rightarrow>
             (case dget (resp_t2p s) tok of
                Some plain \<Rightarrow> ((touch_resp tok plain s, delta, spans), None)
              | None \<Rightarrow> ((audit_malformed tok s, delta, spans), None))))"

definition restore_marks :: "string \<Rightarrow> pii_tokens \<Rightarrow> pii_tokens \<times> string \<times> marks" where
  "restore_marks text s =
     (case scan_marks pii_match mark_repl (s, 0, []) 0 (cps text) of
        ((s1, delta, spans), ys) \<Rightarrow>
          let restored = concat ys;
              s2 = (if audit_on s1
                then foldl (\<lambda>u t. if \<not> dhas (pii_t2p s1) t \<and> \<not> dhas (resp_t2p s1) t
                       then audit_malformed t u else u) s1 (scan_all pii_loose restored)
                else s1)
          in (s2, restored, spans))"

section \<open>Masking what is new\<close>

text \<open>\<open>text.find(value, from)\<close> for all starts, one after the other; and whether a place is a restored one.\<close>

definition occurrences :: "string \<Rightarrow> string list \<Rightarrow> nat list" where
  "occurrences v ps = filter (\<lambda>i. prefix (cps v) (drop i ps)) [0 ..< Suc (length ps)]"

definition in_marks :: "marks \<Rightarrow> nat \<Rightarrow> nat \<Rightarrow> bool" where
  "in_marks spans pos n \<longleftrightarrow> list_ex (\<lambda>(s, e, p). int pos < e \<and> int (pos + n) > s) spans"

definition fresh_places :: "marks \<Rightarrow> string list \<Rightarrow> string \<Rightarrow> nat list" where
  "fresh_places spans ps v = filter (\<lambda>i. \<not> in_marks spans i (py_len v)) (occurrences v ps)"

definition new_values :: "marks \<Rightarrow> string list \<Rightarrow> (string \<times> string) list \<Rightarrow> string list" where
  "new_values spans ps seen =
     (let filtered = filter (\<lambda>(typ, v). fresh_places spans ps v \<noteq> []) seen
      in sort_key (\<lambda>v. - int (py_len v)) (rev (remdups (rev (map snd filtered)))))"

type_synonym ranges = "(nat \<times> nat \<times> string) list"

fun mask_ranges ::
  "(nat \<Rightarrow> string) \<Rightarrow> marks \<Rightarrow> string list \<Rightarrow> string list \<Rightarrow> pii_world \<Rightarrow> pii_world \<times> ranges py_result" where
  "mask_ranges rnd spans ps [] w = (w, Inr [])"
| "mask_ranges rnd spans ps (v # vs) w =
     (case pii_register (rnd (pw_draws w)) v True (pw_tokens w) of
        (s, Inl e) \<Rightarrow> (w\<lparr>pw_tokens := s, pw_draws := pw_draws w + 1\<rparr>, Inl e)
      | (s, Inr token) \<Rightarrow>
          (case mask_ranges rnd spans ps vs (w\<lparr>pw_tokens := s, pw_draws := pw_draws w + 1\<rparr>) of
             (w', Inl e) \<Rightarrow> (w', Inl e)
           | (w', Inr rs) \<Rightarrow>
               (w', Inr ((if token = v then [] else map (\<lambda>i. (i, i + py_len v, token)) (fresh_places spans ps v)) @ rs))))"

text \<open>From the right end of the text to the left.\<close>

definition put_range :: "string list \<Rightarrow> nat \<times> nat \<times> string \<Rightarrow> string list" where
  "put_range ps r = (case r of (s, e, tok) \<Rightarrow> take s ps @ cps tok @ drop e ps)"

definition put_ranges :: "string list \<Rightarrow> ranges \<Rightarrow> string list" where
  "put_ranges ps rs = foldl put_range ps (sort_key (\<lambda>r. - int (fst r)) rs)"

definition mask_hits ::
  "(nat \<Rightarrow> string) \<Rightarrow> marks \<Rightarrow> (string \<times> string) list \<Rightarrow> string \<Rightarrow> pii_world \<Rightarrow> pii_world \<times> string py_result" where
  "mask_hits rnd spans seen text w =
     (case mask_ranges rnd spans (cps text) (new_values spans (cps text) seen) w of
        (w', Inl e) \<Rightarrow> (w', Inl e)
      | (w', Inr rs) \<Rightarrow> (w', Inr (concat (put_ranges (cps text) rs))))"

section \<open>The host\<close>

text \<open>
  The detector and the vault of personal data, the credential vault, and the cache of the last scan: the
  vault's counter, the text, the places and the result.
\<close>

record resp_world =
  rw_pii :: pii_world
  rw_vault :: cred_vault
  rw_cache :: "(nat \<times> string \<times> marks \<times> string) option"

text \<open>The switches, whether the request has a scope, the tokens of the request and the libraries.\<close>

record resp_env =
  re_pii :: pii_env
  re_enabled :: bool
  re_side :: bool
  re_scoped :: bool
  re_active :: "nat \<times> (string, string) dict"
  re_lib :: json_lib
  re_stack :: nat

definition response_scan_uncached :: "resp_env \<Rightarrow> string \<Rightarrow> marks \<Rightarrow> resp_world \<Rightarrow> resp_world \<times> string py_result" where
  "response_scan_uncached env text spans w =
     (if \<not> re_enabled env \<or> text = [] \<or> \<not> re_side env \<or> \<not> re_scoped env then (w, Inr text)
      else case pii_scan_hits (re_pii env) True (map fst (pwd_to_token (rw_vault w))) text (rw_pii w) of
        (p1, seen) \<Rightarrow>
          (case mask_hits (pe_rnd (re_pii env)) spans seen text p1 of (p2, r) \<Rightarrow> (w\<lparr>rw_pii := p2\<rparr>, r)))"

definition response_scan :: "resp_env \<Rightarrow> string \<Rightarrow> marks \<Rightarrow> resp_world \<Rightarrow> resp_world \<times> string py_result" where
  "response_scan env text spans w =
     (if \<not> re_enabled env \<or> text = [] \<or> \<not> re_side env \<or> \<not> re_scoped env then (w, Inr text)
      else
        let fp = pii_seq (pw_tokens (rw_pii w));
            run = (case response_scan_uncached env text spans w of
                (w', Inl e) \<Rightarrow> (w', Inl e)
              | (w', Inr r) \<Rightarrow> (w'\<lparr>rw_cache := Some (fp, text, spans, r)\<rparr>, Inr r))
        in (case rw_cache w of
              None \<Rightarrow> run
            | Some (fp', text', spans', r) \<Rightarrow> if fp' = fp \<and> text' = text \<and> spans' = spans then (w, Inr r) else run))"

text \<open>\<open>_pii_restore\<close> with a scope: the credentials first.\<close>

definition response_restore :: "resp_env \<Rightarrow> string \<Rightarrow> resp_world \<Rightarrow> resp_world \<times> string \<times> marks" where
  "response_restore env text w =
     (case restore text (Some (re_active env)) (rw_vault w) of
        (v1, restored) \<Rightarrow>
          (case restore_marks restored (pw_tokens (rw_pii w)) of
             (s1, out, spans) \<Rightarrow> (w\<lparr>rw_vault := v1, rw_pii := (rw_pii w)\<lparr>pw_tokens := s1\<rparr>\<rparr>, out, spans)))"

definition response_process :: "resp_env \<Rightarrow> string \<Rightarrow> resp_world \<Rightarrow> resp_world \<times> string py_result" where
  "response_process env text w =
     (if \<not> re_scoped env then
        (case restore text (Some (re_active env)) (rw_vault w) of (v1, r) \<Rightarrow> (w\<lparr>rw_vault := v1\<rparr>, Inr r))
      else case response_restore env text w of (w1, restored, spans) \<Rightarrow> response_scan env restored spans w1)"

section \<open>JSON\<close>

definition response_leaf :: "resp_env \<Rightarrow> resp_world leaf_fn" where
  "response_leaf env w str =
     (case response_process env str w of (w', Inl e) \<Rightarrow> (w', None) | (w', Inr r) \<Rightarrow> (w', Some r))"

text \<open>The walk that is tried when the dump of the shared one fails; an exception of a leaf ends it.\<close>

definition raising_leaf :: "json_lib \<Rightarrow> 's leaf_fn \<Rightarrow> 's \<Rightarrow> string \<Rightarrow> 's \<times> json option" where
  "raising_leaf lib leaf s str =
     (case leaf s str of
        (s', None) \<Rightarrow> (s', None)
      | (s', Some new_s) \<Rightarrow> (s', Some (JStr (if new_s \<noteq> str \<and> jdumps lib (JStr new_s) = None then str else new_s))))"

primrec response_walk :: "nat \<Rightarrow> json_lib \<Rightarrow> 's leaf_fn \<Rightarrow> nat \<Rightarrow> 's \<Rightarrow> json \<Rightarrow> 's \<times> json option" where
  "response_walk 0 lib leaf depth s node = (s, None)"
| "response_walk (Suc stack) lib leaf depth s node =
     (if 5 < depth then
        (case node of JStr str \<Rightarrow> raising_leaf lib leaf s str | _ \<Rightarrow> (s, Some node))
      else
        (case node of
           JStr str \<Rightarrow>
             (case inner_json lib str of
                None \<Rightarrow> raising_leaf lib leaf s str
              | Some inner \<Rightarrow>
                  (case response_walk stack lib leaf (depth + 1) s inner of
                     (s', None) \<Rightarrow> raising_leaf lib leaf s' str
                   | (s', Some walked) \<Rightarrow>
                       (case jdumps lib walked of
                          None \<Rightarrow> raising_leaf lib leaf s' str
                        | Some out \<Rightarrow> (s', Some (JStr out)))))
         | JObj d \<Rightarrow> map_prod id (map_option JObj) (async_dict_loop (response_walk stack lib leaf depth) s d [])
         | JArr xs \<Rightarrow> map_prod id (map_option JArr) (async_list_loop (response_walk stack lib leaf depth) s xs [])
         | _ \<Rightarrow> (s, Some node)))"

definition is_container :: "json \<Rightarrow> bool" where
  "is_container j = (case j of JObj d \<Rightarrow> True | JArr xs \<Rightarrow> True | _ \<Rightarrow> False)"

text \<open>\<open>_pii_response_process_json_aware\<close>; \<open>parsed\<close> is what the caller has parsed already.\<close>

definition response_process_json_aware ::
  "resp_env \<Rightarrow> string \<Rightarrow> json option \<Rightarrow> resp_world \<Rightarrow> resp_world \<times> string py_result" where
  "response_process_json_aware env text parsed w =
     (let lib = re_lib env; leaf = response_leaf env
      in if \<not> looks_json (py_lstrip (lstrip_bom text)) then response_process env text w
         else case (case parsed of Some j \<Rightarrow> Some j | None \<Rightarrow> jloads lib (lstrip_bom text)) of
           None \<Rightarrow> response_process env text w
         | Some obj \<Rightarrow>
             (case (if is_container obj
                    then (case json_walk_async (re_stack env) lib leaf 5 w obj of
                       (w1, walked) \<Rightarrow> (w1, map_option (validate_json_roundtrip lib text) (jdumps lib walked)))
                    else (w, None)) of
                (w1, Some out) \<Rightarrow> (w1, Inr out)
              | (w1, None) \<Rightarrow>
                  (case response_walk (re_stack env) lib leaf 0 w1 obj of
                     (w2, None) \<Rightarrow> response_process env text w2
                   | (w2, Some new_obj) \<Rightarrow>
                       (case jdumps lib new_obj of
                          None \<Rightarrow> response_process env text w2
                        | Some out \<Rightarrow> (w2, Inr (validate_json_roundtrip lib text out))))))"

section \<open>Lines of an event stream\<close>

definition lstrip_blank :: "string \<Rightarrow> string" where
  "lstrip_blank s = dropWhile (\<lambda>c. c = CHR '' '' \<or> c = CHR 0x09) s"

text \<open>A \<open>data:\<close> line; \<open>whole\<close> is returned as it is for an empty payload and for \<open>[DONE]\<close>.\<close>

definition process_data ::
  "resp_env \<Rightarrow> string \<Rightarrow> string \<Rightarrow> json option \<Rightarrow> resp_world \<Rightarrow> resp_world \<times> string py_result" where
  "process_data env whole payload parsed w =
     (let stripped = py_strip (lstrip_bom payload);
          data = (\<lambda>(w', r). (w', map_sum id (\<lambda>t. ''data: '' @ t) r))
      in if stripped = [] \<or> stripped = ''[DONE]'' then (w, Inr whole)
         else if \<not> looks_json stripped then data (response_process env payload w)
         else case response_process_json_aware env payload parsed w of
           (w1, Inl e) \<Rightarrow> data (response_process env payload w1)
         | (w1, Inr r) \<Rightarrow> data (w1, Inr r))"

fun process_block ::
  "resp_env \<Rightarrow> json option \<Rightarrow> string list \<Rightarrow> resp_world \<Rightarrow> resp_world \<times> string list py_result" where
  "process_block env parsed [] w = (w, Inr [])"
| "process_block env parsed (part # parts) w =
     (let stripped = py_strip part
      in if stripped = [] then process_block env parsed parts w
         else case (if prefix ''data:'' stripped then process_data env part (lstrip_blank (drop 5 stripped)) parsed w
                    else (w, Inr part)) of
           (w1, Inl e) \<Rightarrow> (w1, Inl e)
         | (w1, Inr out) \<Rightarrow>
             (case process_block env parsed parts w1 of
                (w2, Inl e) \<Rightarrow> (w2, Inl e)
              | (w2, Inr outs) \<Rightarrow> (w2, Inr (out # outs))))"

definition is_data_line :: "string \<Rightarrow> bool" where
  "is_data_line part = prefix ''data:'' (py_strip part)"

definition process_sse_line ::
  "resp_env \<Rightarrow> string \<Rightarrow> json option \<Rightarrow> resp_world \<Rightarrow> resp_world \<times> string py_result" where
  "process_sse_line env line parsed w =
     (if CHR ''\<newline>'' \<in> set line then
        let parts = split_on (CHR ''\<newline>'') line;
            reuse = (if length (filter is_data_line parts) = 1 then parsed else None)
        in map_prod id (map_sum id (join_with ''\<newline>'')) (process_block env reuse parts w)
      else if \<not> prefix ''data:'' (py_lstrip line) then (w, Inr line)
      else process_data env line (lstrip_blank (drop 5 (py_lstrip line))) parsed w)"

section \<open>Whole answers\<close>

text \<open>\<open>_strip_token_forms_json_aware\<close>: leftovers of tokens, string by string.\<close>

definition strip_token_forms_json_aware :: "nat \<Rightarrow> json_lib \<Rightarrow> string \<Rightarrow> string" where
  "strip_token_forms_json_aware stack lib content =
     (if \<not> looks_json (py_lstrip (lstrip_bom content)) then strip_token_forms content
      else case jloads lib (lstrip_bom content) of
        None \<Rightarrow> strip_token_forms content
      | Some obj \<Rightarrow>
          (case jdumps lib (snd (json_walk stack lib (\<lambda>u s. (u, Some (strip_token_forms s))) 5 () obj)) of
             None \<Rightarrow> strip_token_forms content
           | Some out \<Rightarrow> validate_json_roundtrip lib content out))"

text \<open>The body sent for a whole answer: restored and masked, stripped, and checked to be JSON again.\<close>

definition nonstream_text :: "resp_env \<Rightarrow> bool \<Rightarrow> string \<Rightarrow> resp_world \<Rightarrow> resp_world \<times> string py_result" where
  "nonstream_text env dialog text w =
     (let lib = re_lib env
      in case (if dialog then response_process_json_aware env text None w else (w, Inr text)) of
        (w1, Inl e) \<Rightarrow> (w1, Inl e)
      | (w1, Inr r) \<Rightarrow>
          let out = strip_token_forms_json_aware (re_stack env) lib r;
              checked = (snd (re_active env) \<noteq> [] \<or> re_scoped env) \<and> looks_json (py_lstrip (lstrip_bom text));
              broken = jloads lib (lstrip_bom text) = None \<or> jloads lib (lstrip_bom out) = None
          in (w1, Inr (if checked \<and> broken then text else out)))"


section \<open>The marked places\<close>

text \<open>Whole code points: a list of them is what its text is cut into again.\<close>

definition whole :: "string \<Rightarrow> bool" where
  "whole p \<longleftrightarrow> p \<noteq> [] \<and> length p = cp_width (hd p)"

lemma cps_concat: "list_all whole ps \<Longrightarrow> cps (concat ps) = ps"
proof (induction ps)
  case (Cons p ps)
  then obtain c q where p: "p = c # q" "length (c # q) = cp_width c" by (cases p) (auto simp: whole_def)
  have "cps (p @ concat ps) = take (length p) (p @ concat ps) # cps (drop (length p) (p @ concat ps))"
    by (simp only: p append_Cons cps.simps(2))
  with Cons show ?case by simp
qed simp

lemma cps_parts: "p \<in> set (cps s) \<Longrightarrow> p \<noteq> []"
proof (induction s rule: cps.induct)
  case (2 c s)
  from 2(2) have "p = take (cp_width c) (c # s) \<or> p \<in> set (cps (drop (cp_width c) (c # s)))" by (simp only: cps.simps) auto
  then show ?case using 2(1) cp_width_pos [of c] by (metis neq0_conv take_eq_Nil list.distinct(1) less_irrefl)
qed simp

lemma utf8_whole: "utf8 s \<Longrightarrow> list_all whole (cps s)"
  using cps_parts by (auto simp: utf8_def whole_def list_all_iff)

definition quiet_marks :: "pii_tokens \<Rightarrow> pii_tokens \<times> int \<times> marks \<Rightarrow> bool" where
  "quiet_marks s st \<longleftrightarrow> pii_quiet s (fst st)"

lemma pii_quiet_t2p: "pii_quiet s u \<Longrightarrow> dget (pii_t2p u) = dget (pii_t2p s) \<and> dget (resp_t2p u) = dget (resp_t2p s)"
  unfolding pii_quiet_def by (metis table_t2p_def)

text \<open>The places a replacement marks, seen from the text behind them.\<close>

definition marks_in :: "int \<Rightarrow> string list \<Rightarrow> marks \<Rightarrow> bool" where
  "marks_in base ys new \<longleftrightarrow> sorted_wrt (\<lambda>x y. fst (snd x) \<le> fst y) new
     \<and> (\<forall>(a, b, v) \<in> set new. base \<le> a \<and> b = a + int (py_len v) \<and> b \<le> base + int (length ys)
          \<and> slice ys (nat (a - base)) (nat (b - base)) = v)"

lemma slice_shift: "slice (us @ ys) (length us + a) (length us + b) = slice ys a b"
  by (simp add: slice_def)

lemma marks_in_shift:
  assumes "marks_in (base + int (length us)) ys new"
  shows "marks_in base (us @ ys) new"
  unfolding marks_in_def
proof (intro conjI ballI, goal_cases)
  case 1
  then show ?case using assms by (simp add: marks_in_def)
next
  case (2 x)
  obtain a b v where x: "x = (a, b, v)" by (metis prod_cases3)
  with 2 assms have f: "base + int (length us) \<le> a" "b = a + int (py_len v)" "b \<le> base + int (length us) + int (length ys)"
    "slice ys (nat (a - (base + int (length us)))) (nat (b - (base + int (length us)))) = v"
    by (auto simp: marks_in_def)
  have "nat (a - base) = length us + nat (a - (base + int (length us)))"
    "nat (b - base) = length us + nat (b - (base + int (length us)))" using f by linarith+
  with f show ?case by (simp add: x slice_shift)
qed

lemma marks_in_front:
  assumes "marks_in (base + int (py_len v)) ys new"
  shows "marks_in base (cps v @ ys) ((base, base + int (py_len v), v) # new)"
proof -
  have "marks_in base (cps v @ ys) new" using marks_in_shift [of base "cps v" ys new] assms by (simp add: py_len_def)
  moreover have "\<forall>y \<in> set new. base + int (py_len v) \<le> fst y" using assms by (auto simp: marks_in_def)
  moreover have "slice (cps v @ ys) 0 (py_len v) = v" by (simp add: slice_def py_len_def)
  ultimately show ?thesis by (auto simp: marks_in_def py_len_def)
qed

lemma mark_repl_quiet: "pii_quiet (fst st) (fst (fst (mark_repl st i tok)))"
  using pii_quiet_touch pii_quiet_audit
  by (auto simp: mark_repl_def Let_def split: prod.split option.split)

lemma scan_marks_step:
  "scan_marks m f st i (p # ps) =
     (case m (concat (p # ps)) of
        None \<Rightarrow> map_prod id (Cons p) (scan_marks m f st (i + 1) ps)
      | Some n \<Rightarrow>
          let tok = take n (concat (p # ps)); k = py_len tok
          in if k = 0 then map_prod id (Cons p) (scan_marks m f st (i + 1) ps)
             else map_prod id (append (case snd (f st i tok) of None \<Rightarrow> take k (p # ps) | Some t \<Rightarrow> cps t))
               (scan_marks m f (fst (f st i tok)) (i + k) (drop k (p # ps))))"
  by (simp only: scan_marks.simps(2) map_prod_def case_prod_beta id_apply Let_def)

declare scan_marks.simps(2) [simp del]

lemma scan_marks_quiet: "pii_quiet (fst st) (fst (fst (scan_marks m mark_repl st i ps)))"
proof (induction "length ps" arbitrary: ps st i rule: less_induct)
  case less
  show ?case
  proof (cases ps)
    case (Cons p qs)
    have one: "pii_quiet (fst st) (fst (fst (scan_marks m mark_repl st (Suc i) qs)))" using less [of qs st "Suc i"] Cons by simp
    have two: "pii_quiet (fst st) (fst (fst (scan_marks m mark_repl (fst (mark_repl st i tok)) (i + k) (drop k (p # qs)))))"
      if "k \<noteq> 0" for tok k
      by (rule pii_quiet_trans [OF mark_repl_quiet less]) (use that Cons in simp)
    show ?thesis
      by (auto simp: Cons scan_marks_step Let_def one two split: option.split simp del: py_len_0 concat.simps)
  qed (simp add: pii_quiet_refl)
qed

lemma scan_marks_found:
  assumes "list_all whole ps" and "\<forall>t p. dget (pii_t2p s) t = Some p \<longrightarrow> utf8 p"
    and "scan_marks m mark_repl (s, delta, spans) i ps = ((s', delta', spans'), ys)"
  shows "list_all whole ys \<and> (\<exists>new. spans' = spans @ new \<and> marks_in (int i + delta) ys new)"
  using assms
proof (induction "length ps" arbitrary: ps s delta spans i ys rule: less_induct)
  case less
  have none: "marks_in b ys []" for b ys by (simp add: marks_in_def)
  show ?case
  proof (cases ps)
    case Nil
    with less.prems show ?thesis using none by simp
  next
    case (Cons p qs)
    define n where "n = m (concat (p # qs))"
    define tok where "tok = take (the n) (concat (p # qs))"
    have step: "((s', delta', spans'), ys) = (if n = None \<or> py_len tok = 0
        then map_prod id (Cons p) (scan_marks m mark_repl (s, delta, spans) (i + 1) qs)
        else map_prod id (append (case snd (mark_repl (s, delta, spans) i tok) of None \<Rightarrow> take (py_len tok) (p # qs) | Some t \<Rightarrow> cps t))
          (scan_marks m mark_repl (fst (mark_repl (s, delta, spans) i tok)) (i + py_len tok) (drop (py_len tok) (p # qs))))"
      using less.prems(3) [symmetric] unfolding Cons scan_marks_step n_def [symmetric]
      by (cases n) (simp_all only: tok_def Let_def option.case option.sel option.distinct simp_thms if_True if_False)
    let ?n = n and ?tok = tok
    show ?thesis
    proof (cases "?n = None \<or> py_len ?tok = 0")
      case True
      then obtain zs where zs: "scan_marks m mark_repl (s, delta, spans) (i + 1) qs = ((s', delta', spans'), zs)" "ys = p # zs"
        using step by (simp add: map_prod_def split: prod.splits)
      from less.hyps [OF _ _ less.prems(2) zs(1)] less.prems(1) obtain new
        where "spans' = spans @ new" "marks_in (int (i + 1) + delta) zs new" "list_all whole zs" by (auto simp: Cons)
      with marks_in_shift [of "int i + delta" "[p]" zs new] less.prems(1) show ?thesis by (auto simp: zs(2) Cons add.commute add.left_commute)
    next
      case False
      let ?k = "py_len ?tok" and ?r = "mark_repl (s, delta, spans) i ?tok"
      from False obtain zs where zs: "scan_marks m mark_repl (fst ?r) (i + ?k) (drop ?k (p # qs)) = ((s', delta', spans'), zs)"
          "ys = (case snd ?r of None \<Rightarrow> take ?k (p # qs) | Some t \<Rightarrow> cps t) @ zs"
        using step unfolding if_not_P [OF False] map_prod_def by (simp only: case_prod_beta id_apply prod.inject) (metis prod.collapse)
      have sm: "length (drop ?k (p # qs)) < length ps" "list_all whole (drop ?k (p # qs))" "list_all whole (take ?k (p # qs))"
        using False less.prems(1) unfolding Cons list_all_iff by (simp del: py_len_0, blast dest: in_set_dropD, blast dest: in_set_takeD)
      obtain s1 delta1 spans1 where st: "fst ?r = (s1, delta1, spans1)" by (metis prod_cases3)
      have t1: "\<forall>t p. dget (pii_t2p s1) t = Some p \<longrightarrow> utf8 p"
        using less.prems(2) pii_quiet_t2p [OF mark_repl_quiet, of "(s, delta, spans)" i ?tok] st by simp
      from less.hyps [OF sm(1,2) t1 zs(1) [unfolded st]] obtain new
        where new: "list_all whole zs" "spans' = spans1 @ new" "marks_in (int (i + ?k) + delta1) zs new" by auto
      show ?thesis
      proof (cases "dget (pii_t2p s) ?tok")
        case (Some plain)
        then have r: "snd ?r = Some plain" "delta1 = delta + (int (py_len plain) - int ?k)"
            "spans1 = spans @ [(int i + delta, int i + delta + int (py_len plain), plain)]"
          using st by (auto simp: mark_repl_def Let_def)
        have "utf8 plain" using less.prems(2) Some by blast
        then have w: "list_all whole (cps plain)" by (rule utf8_whole)
        have "marks_in (int i + delta + int (py_len plain)) zs new" using new(3) by (simp add: r(2) algebra_simps)
        from marks_in_front [OF this] w new(1,2) show ?thesis by (auto simp: zs(2) r)
      next
        case n: None
        then have r: "snd ?r = None" "delta1 = delta" "spans1 = spans"
          using st by (auto simp: mark_repl_def Let_def split: option.splits)
        show ?thesis
        proof (cases "?k \<le> length (p # qs)")
          case True
          then have "int (length (take ?k (p # qs))) = int ?k" by (simp only: length_take min_absorb2)
          then have "marks_in (int i + delta) (take ?k (p # qs) @ zs) new"
            using new(3) by (intro marks_in_shift) (simp only: r of_nat_add add.commute add.left_commute)
          with new(1,2) sm(3) show ?thesis by (auto simp: zs(2) r simp del: take_Cons' concat.simps)
        next
          case False
          then have "drop ?k (p # qs) = []" by (simp only: drop_eq_Nil)
          with zs(1) st r have "new = []" "zs = []" using new(2) by auto
          with new sm(3) none show ?thesis by (auto simp: zs(2) r simp del: take_Cons' concat.simps)
        qed
      qed
    qed
  qed
qed

text \<open>
  C39. What is marked is exact: behind the restoration every mark is the place of its value in the new text,
  counted in code points, and the marks follow each other without overlap.
\<close>

theorem marks_exact:
  assumes "utf8 text" and "\<forall>t p. dget (pii_t2p s) t = Some p \<longrightarrow> utf8 p"
    and "restore_marks text s = (s', out, spans)"
  shows "sorted_wrt (\<lambda>x y. fst (snd x) \<le> fst y) spans
    \<and> (\<forall>(a, b, v) \<in> set spans. 0 \<le> a \<and> b \<le> int (py_len out) \<and> b = a + int (py_len v)
         \<and> slice (cps out) (nat a) (nat b) = v)"
proof -
  obtain s1 delta ys where ys: "scan_marks pii_match mark_repl (s, 0, []) 0 (cps text) = ((s1, delta, spans), ys)" "out = concat ys"
    using assms(3) by (auto simp: restore_marks_def Let_def split: prod.splits)
  from scan_marks_found [OF utf8_whole [OF assms(1)] assms(2) ys(1)]
  have "list_all whole ys" "marks_in 0 ys spans" by auto
  then show ?thesis by (auto simp: marks_in_def ys(2) cps_concat py_len_def)
qed

section \<open>The two restorations agree\<close>

text \<open>UTF-8 whose continuation bytes are no ASCII characters, the type invariant of \<open>str\<close> in full.\<close>

definition strict_cp :: "string \<Rightarrow> bool" where
  "strict_cp p \<longleftrightarrow> whole p \<and> list_all (\<lambda>c. 128 \<le> byte c) (tl p)"

definition strict_utf8 :: "string \<Rightarrow> bool" where
  "strict_utf8 s \<longleftrightarrow> list_all strict_cp (cps s)"

lemma pii_match_shape:
  assumes "pii_match s = Some n"
  shows "prefix ''_'' s \<and> 0 < n \<and> n \<le> length s \<and> byte (s ! (n - 1)) < 128"
proof -
  obtain k where k: "pii_head s = Some k" "prefix ''__'' (drop (k + 8) s)" "n = k + 10"
    using assms by (auto simp: pii_match_def bind_eq_Some_conv hex_tail_def split: if_splits)
  then have "prefix ''_'' s" by (auto simp: pii_head_def PII_TOKEN_PREFIX_def prefix_def split: if_splits)
  moreover have l: "n \<le> length s" using k(2,3) by (auto dest: prefix_length_le)
  moreover have "s ! (n - 1) = CHR ''_''"
  proof -
    obtain r where r: "drop (k + 8) s = CHR ''_'' # CHR ''_'' # r" using k(2) by (auto simp: prefix_def)
    have "s ! (n - 1) = drop (k + 8) s ! 1" using l k(3) by (simp add: add.commute)
    with r show ?thesis by simp
  qed
  ultimately show ?thesis using k(3) by (simp add: byte_def)
qed

lemma pii_match_high: "128 \<le> byte c \<Longrightarrow> pii_match (c # s) = None"
  using pii_match_shape [of "c # s"] by (cases "pii_match (c # s)") (auto simp: byte_def)

lemma scan_high:
  "list_all (\<lambda>c. 128 \<le> byte c) q \<Longrightarrow> scan_sub pii_match g (q @ x) = q @ scan_sub pii_match g x
     \<and> scan_all pii_match (q @ x) = scan_all pii_match x"
  by (induction q) (simp_all add: pii_match_high)

lemma scan_one:
  assumes "strict_cp p" and "pii_match (p @ x) = None"
  shows "scan_sub pii_match g (p @ x) = p @ scan_sub pii_match g x \<and> scan_all pii_match (p @ x) = scan_all pii_match x"
proof -
  obtain c q where p: "p = c # q" "list_all (\<lambda>c. 128 \<le> byte c) q" using assms(1) by (cases p) (auto simp: strict_cp_def whole_def)
  with assms(2) scan_high [OF p(2), of g x] show ?thesis by simp
qed

lemma aligned:
  assumes "list_all strict_cp ps" and "0 < n" "n \<le> length (concat ps)" "byte (concat ps ! (n - 1)) < 128"
  shows "\<exists>k \<le> length ps. take n (concat ps) = concat (take k ps) \<and> drop n (concat ps) = concat (drop k ps)"
  using assms
proof (induction ps arbitrary: n)
  case (Cons p ps)
  show ?case
  proof (cases "n \<le> length p")
    case True
    have p: "whole p" "list_all (\<lambda>c. 128 \<le> byte c) (tl p)" using Cons.prems(1) by (simp_all add: strict_cp_def)
    have low: "byte (p ! (n - 1)) < 128" using Cons.prems(2,4) True
      by (auto simp: nth_append split: if_splits)
    have "n - 1 = 0"
    proof (rule ccontr)
      assume "n - 1 \<noteq> 0"
      then have "p ! (n - 1) \<in> set (tl p)" using True Cons.prems(2)
        by (cases p) (auto simp: nth_Cons' intro!: nth_mem)
      with p(2) low show False by (auto simp: list_all_iff)
    qed
    with Cons.prems(2) have n: "n = 1" by simp
    with low p(1) have "length p = 1" by (cases p) (auto simp: whole_def cp_width_def Let_def)
    then have "take n (concat (p # ps)) = concat (take 1 (p # ps))" "drop n (concat (p # ps)) = concat (drop 1 (p # ps))"
      by (simp_all add: n)
    then show ?thesis by (intro exI [of _ 1]) simp
  next
    case False
    then have "\<not> n - 1 < length p" "n - length p - 1 = n - 1 - length p" by linarith+
    with False Cons.prems have "0 < n - length p" "n - length p \<le> length (concat ps)" "byte (concat ps ! (n - length p - 1)) < 128"
      by (simp_all add: nth_append)
    from Cons.IH [OF _ this] Cons.prems(1) obtain k where
      "k \<le> length ps" "take (n - length p) (concat ps) = concat (take k ps)" "drop (n - length p) (concat ps) = concat (drop k ps)" by auto
    with False have "Suc k \<le> length (p # ps) \<and> take n (concat (p # ps)) = concat (take (Suc k) (p # ps))
        \<and> drop n (concat (p # ps)) = concat (drop (Suc k) (p # ps))" by simp
    then show ?thesis by blast
  qed
qed simp

lemma strict_whole: "list_all strict_cp ps \<Longrightarrow> list_all whole ps"
  by (auto simp: list_all_iff strict_cp_def)

text \<open>A match takes whole code points.\<close>

lemma match_whole:
  assumes "list_all strict_cp ps" and "pii_match (concat ps) = Some n"
  shows "let k = py_len (take n (concat ps)) in 0 < k \<and> k \<le> length ps \<and> take n (concat ps) = concat (take k ps)
    \<and> drop n (concat ps) = concat (drop k ps)"
proof -
  note sh = pii_match_shape [OF assms(2)]
  obtain k where k: "k \<le> length ps" "take n (concat ps) = concat (take k ps)" "drop n (concat ps) = concat (drop k ps)"
    using aligned [OF assms(1)] sh by blast
  have "list_all whole (take k ps)" using strict_whole [OF assms(1)] by (auto simp: list_all_iff dest: in_set_takeD)
  then have "py_len (take n (concat ps)) = k" using k(1,2) by (simp add: py_len_def cps_concat)
  moreover have "k \<noteq> 0"
  proof
    assume "k = 0"
    with k(2) have "take n (concat ps) = []" by simp
    then have "n = 0 \<or> concat ps = []" by (simp only: take_eq_Nil)
    with sh show False by (auto simp del: concat_eq_Nil_conv)
  qed
  ultimately show ?thesis using k by (simp add: Let_def)
qed

lemma scan_step_match:
  assumes "pii_match x = Some n"
  shows "scan_sub pii_match g x = g (take n x) @ scan_sub pii_match g (drop n x)
    \<and> scan_all pii_match x = take n x # scan_all pii_match (drop n x)"
  using assms pii_match_shape [OF assms] by (cases x) auto

lemma scan_marks_text:
  assumes "list_all strict_cp ps" and "\<forall>t. dget (pii_t2p s) t = dget tab t"
    and "scan_marks pii_match mark_repl (s, delta, spans) i ps = ((s', delta', spans'), ys)"
  shows "concat ys = scan_sub pii_match (\<lambda>t. dget_or tab t t) (concat ps)
    \<and> map (snd \<circ> snd) spans' = map (snd \<circ> snd) spans @ List.map_filter (dget tab) (scan_all pii_match (concat ps))"
  using assms
proof (induction "length ps" arbitrary: ps s delta spans i ys rule: less_induct)
  case less
  show ?case
  proof (cases ps)
    case Nil
    with less.prems show ?thesis by (simp add: List.map_filter_def)
  next
    case (Cons p qs)
    show ?thesis
    proof (cases "pii_match (concat (p # qs))")
      case None
      then obtain zs where zs: "scan_marks pii_match mark_repl (s, delta, spans) (i + 1) qs = ((s', delta', spans'), zs)" "ys = p # zs"
        using less.prems(3) unfolding Cons scan_marks_step by (simp add: map_prod_def split: prod.splits)
      from less.hyps [OF _ _ less.prems(2) zs(1)] scan_one [of p "concat qs"] less.prems(1) None
      show ?thesis by (simp add: Cons zs(2))
    next
      case (Some n)
      let ?tok = "take n (concat (p # qs))" and ?k = "py_len (take n (concat (p # qs)))"
      have m: "0 < ?k" "?tok = concat (take ?k (p # qs))" "drop n (concat (p # qs)) = concat (drop ?k (p # qs))"
        using match_whole [of "p # qs" n] less.prems(1) Some unfolding Cons Let_def by blast+
      let ?r = "mark_repl (s, delta, spans) i ?tok"
      have "((s', delta', spans'), ys) = map_prod id (append (case snd ?r of None \<Rightarrow> take ?k (p # qs) | Some t \<Rightarrow> cps t))
          (scan_marks pii_match mark_repl (fst ?r) (i + ?k) (drop ?k (p # qs)))"
        using less.prems(3) [symmetric] m(1) unfolding Cons scan_marks_step Some Let_def option.case by (simp only: if_not_P neq0_conv)
      then obtain zs where zs: "scan_marks pii_match mark_repl (fst ?r) (i + ?k) (drop ?k (p # qs)) = ((s', delta', spans'), zs)"
          "ys = (case snd ?r of None \<Rightarrow> take ?k (p # qs) | Some t \<Rightarrow> cps t) @ zs"
        unfolding map_prod_def by (simp only: case_prod_beta id_apply prod.inject) (metis prod.collapse)
      obtain s1 delta1 spans1 where st: "fst ?r = (s1, delta1, spans1)" by (metis prod_cases3)
      have t1: "\<forall>t. dget (pii_t2p s1) t = dget tab t"
        using less.prems(2) pii_quiet_t2p [OF mark_repl_quiet, of "(s, delta, spans)" i ?tok] st by simp
      have sm: "length (drop ?k (p # qs)) < length ps" "list_all strict_cp (drop ?k (p # qs))"
        using m(1) less.prems(1) unfolding Cons list_all_iff by (simp, blast dest: in_set_dropD)
      have r: "concat (case snd ?r of None \<Rightarrow> take ?k (p # qs) | Some t \<Rightarrow> cps t) = dget_or tab ?tok ?tok"
        "map (snd \<circ> snd) spans1 = map (snd \<circ> snd) spans @ List.map_filter (dget tab) [?tok]"
        using st m(2) less.prems(2)
        by (auto simp: mark_repl_def Let_def dget_or_def List.map_filter_def split: option.splits)
      show ?thesis
        using less.hyps [OF sm t1 zs(1) [unfolded st]] r scan_step_match [OF Some] m(3)
        by (simp only: Cons zs(2) concat_append List.map_filter_def) simp
    qed
  qed
qed

lemma marks_text:
  assumes "strict_utf8 t" and "restore_marks t s = (s', out, spans)"
  shows "out = snd (pii_restore False t s) \<and> map (snd \<circ> snd) spans = List.map_filter (dget (pii_t2p s)) (scan_all pii_match t)"
proof -
  obtain s1 delta ys where ys: "scan_marks pii_match mark_repl (s, 0, []) 0 (cps t) = ((s1, delta, spans), ys)" "out = concat ys"
    using assms(2) by (auto simp: restore_marks_def Let_def split: prod.splits)
  have "pii_reveal False (pii_t2p s) = (\<lambda>t. dget_or (pii_t2p s) t t)" by (simp add: fun_eq_iff pii_reveal_def)
  with scan_marks_text [OF _ _ ys(1), of "pii_t2p s"] assms(1) show ?thesis
    unfolding pii_restore_split by (simp add: Let_def strict_utf8_def ys(2) pii_scan_def)
qed

text \<open>
  C40. The copy of the restoration in the response side agrees with the vault's own: on every text it returns
  what \<open>GlobalPiiTokens.restore\<close> returns in exact mode (with \<open>PII_FUZZY_RESTORE\<close> the two differ), and it marks exactly the
  values that were put in, in their order.
\<close>

theorem marks_restore_agrees:
  assumes "strict_utf8 text" and "restore_marks text s = (s', out, spans)"
  shows "out = snd (pii_restore False text s)
    \<and> map (\<lambda>(a, b, v). v) spans = List.map_filter (dget (pii_t2p s)) (scan_all pii_match text)"
proof -
  have "(\<lambda>(a :: int, b :: int, v :: string). v) = snd \<circ> snd" by (auto simp: fun_eq_iff)
  with marks_text [OF assms] show ?thesis by simp
qed

text \<open>A vault with one value, and an answer that repeats its token twice.\<close>

definition echo_vault :: pii_tokens where
  "echo_vault = (pii_init False)\<lparr>pii_p2t := [(''Ann'', make_pii_token 1 ''0badcafe'')], pii_t2p := [(make_pii_token 1 ''0badcafe'', ''Ann'')]\<rparr>"

definition echo_token :: string where
  "echo_token = make_pii_token 1 ''0badcafe''"

lemma echo_token_text: "echo_token = ''__PII_1_0badcafe__''"
  by code_simp

lemma ascii_strict: "ascii s \<Longrightarrow> strict_utf8 s"
  by (simp only: strict_utf8_def ascii_cps) (auto simp: list_all_iff strict_cp_def whole_def ascii_def cp_width_def Let_def)

lemma hex8_cafe: "hex8 ''0badcafe''"
  by (simp add: hex8_def hex_lower_def is_digit_def byte_def)

lemma echo_match: "pii_match (echo_token @ x) = Some 18"
  using pii_match_token [OF hex8_cafe, of 1 x] make_pii_token_length [OF hex8_cafe, of 1]
  by (simp add: echo_token_def dec.simps)

lemma echo_length: "length echo_token = 18"
  by (simp add: echo_token_text)

lemma echo_scan:
  "scan_sub pii_match g (echo_token @ x) = g echo_token @ scan_sub pii_match g x"
  "scan_all pii_match (echo_token @ x) = echo_token # scan_all pii_match x"
  using scan_step_match [OF echo_match, of g x] scan_step_match [OF echo_match, of "\<lambda>t. t" x] echo_length by simp_all

lemma echo_scan_all: "scan_all pii_match (echo_token @ CHR '' '' # echo_token) = [echo_token, echo_token]"
proof -
  have "pii_match (CHR '' '' # y) = None" for y
    using pii_match_shape [of "CHR '' '' # y"] by (cases "pii_match (CHR '' '' # y)") auto
  then show ?thesis using echo_scan(2) [of "CHR '' '' # echo_token"] echo_scan(2) [of "[]"] by simp
qed

lemma ascii_echo: "ascii (echo_token @ CHR '' '' # echo_token)"
  by (simp add: echo_token_text ascii_def byte_def)

lemma marks_restore_agrees_witness:
  "\<exists>s' out spans. restore_marks (echo_token @ '' '' @ echo_token) echo_vault = (s', out, spans)
     \<and> map (\<lambda>(a, b, v). v) spans = [''Ann'', ''Ann''] \<and> out = snd (pii_restore False (echo_token @ '' '' @ echo_token) echo_vault)"
proof -
  obtain s' out spans where r: "restore_marks (echo_token @ '' '' @ echo_token) echo_vault = (s', out, spans)" by (metis prod_cases3)
  have "strict_utf8 (echo_token @ '' '' @ echo_token)" using ascii_strict [OF ascii_echo] by simp
  from marks_restore_agrees [OF this r] echo_scan_all r show ?thesis
    by (simp add: echo_vault_def List.map_filter_def echo_token_def)
qed

lemma utf8_strict: "strict_utf8 s \<Longrightarrow> utf8 s"
  by (auto simp: strict_utf8_def utf8_def strict_cp_def whole_def list_all_iff)

lemma marks_exact_witness:
  "\<exists>s' out spans. restore_marks (echo_token @ '' '' @ echo_token) echo_vault = (s', out, spans)
     \<and> (\<forall>(a, b, v) \<in> set spans. slice (cps out) (nat a) (nat b) = v)"
proof -
  obtain s' out spans where r: "restore_marks (echo_token @ '' '' @ echo_token) echo_vault = (s', out, spans)" by (metis prod_cases3)
  have u: "utf8 (echo_token @ '' '' @ echo_token)" using utf8_strict [OF ascii_strict [OF ascii_echo]] by simp
  have "utf8 ''Ann''" by (rule ascii_utf8) (simp add: ascii_def byte_def)
  then have v: "\<forall>t p. dget (pii_t2p echo_vault) t = Some p \<longrightarrow> utf8 p" by (simp add: echo_vault_def)
  from marks_exact [OF u v r] r show ?thesis by auto
qed

section \<open>What is masked\<close>

text \<open>Masking from the right is weaving from the left.\<close>

definition range_span :: "string list \<Rightarrow> nat \<times> nat \<times> string \<Rightarrow> span" where
  "range_span ps r = (case r of (s, e, tok) \<Rightarrow> \<lparr>sp_kind = tok, sp_value = slice ps s e, sp_start = s, sp_end = e\<rparr>)"

lemma range_span_sel [simp]:
  "sp_start (range_span ps r) = fst r" "sp_end (range_span ps r) = fst (snd r)" "sp_kind (range_span ps r) = snd (snd r)"
  "sp_value (range_span ps r) = slice ps (fst r) (fst (snd r))"
  by (simp_all add: range_span_def split: prod.split)

lemma put_weave:
  assumes "in_order (map (range_span ps) rs)" and "\<forall>r \<in> set rs. c \<le> fst r \<and> fst r \<le> fst (snd r) \<and> fst (snd r) \<le> length ps"
    and "c \<le> length ps"
  shows "take c (foldl put_range ps (rev rs)) = take c ps
    \<and> concat (drop c (foldl put_range ps (rev rs))) = weave sp_kind ps c (map (range_span ps) rs)"
  using assms
proof (induction rs arbitrary: c)
  case (Cons r rs)
  obtain a b tok where r: "r = (a, b, tok)" by (metis prod_cases3)
  have "in_order (map (range_span ps) rs)" "\<forall>x \<in> set rs. b \<le> fst x \<and> fst x \<le> fst (snd x) \<and> fst (snd x) \<le> length ps"
      "c \<le> a" "a \<le> b" "b \<le> length ps"
    using Cons.prems by (auto simp: in_order_def r)
  note f = this Cons.IH [OF this(1,2,5)]
  let ?q = "foldl put_range ps (rev rs)"
  have q: "foldl put_range ps (rev (r # rs)) = take a ?q @ cps tok @ drop b ?q" by (simp add: r put_range_def)
  have tk: "take a ?q = take a ps" using f(4,6) by (metis min.absorb2 min.commute take_take)
  then have len: "length (take a ?q) = a" using f(4,5) by simp
  have "take c (take a ?q @ cps tok @ drop b ?q) = take c ps" using tk f(3) len by (simp add: min_def)
  moreover have "concat (drop c (take a ?q @ cps tok @ drop b ?q)) = slice ps c a @ tok @ concat (drop b ?q)"
    using tk f(3) len by (simp add: slice_def drop_take)
  ultimately show ?case using f(6) by (simp only: q) (simp add: r)
qed simp

definition is_mask :: "string \<Rightarrow> bool" where
  "is_mask tok \<longleftrightarrow> (\<exists>n r. hex8 r \<and> tok = make_pii_token n r)"

lemma mask_not_value: "\<not> pii_refused v \<Longrightarrow> is_mask tok \<Longrightarrow> tok \<noteq> v"
  by (auto simp: is_mask_def pii_refused_def make_pii_token_def)

lemma register_mask:
  assumes "pii_ok s" and "hex8 r" and "v \<noteq> []" and "pii_register r v side s = (s', Inr tok)"
  shows "pii_ok s' \<and> is_mask tok \<and> tok \<noteq> v"
proof -
  have v: "\<not> pii_refused v" using register_refused [OF assms(4)] assms(3) by blast
  have "pii_ok s' \<and> is_mask tok"
  proof (cases "dget (table_p2t side s) v")
    case None
    from pii_register_new [OF assms(1,3) v assms(2) None assms(4)] assms(2) show ?thesis by (auto simp: is_mask_def)
  next
    case (Some t)
    have "pii_entry_ok v t" using assms(1) Some by (auto simp: pii_ok_def pii_table_ok_def)
    with pii_register_known [OF assms(1,3) v Some assms(4)] show ?thesis by (auto simp: pii_entry_ok_def is_mask_def)
  qed
  with mask_not_value [OF v] show ?thesis by blast
qed

lemma mask_ranges_list:
  assumes "mask_ranges rnd spans ps vs w = (w', Inr rs)" and "pii_ok (pw_tokens w)" and "\<forall>k. hex8 (rnd k)"
    and "\<forall>v \<in> set vs. v \<noteq> []" and "distinct vs"
  shows "\<exists>T. rs = concat (map (\<lambda>v. map (\<lambda>i. (i, i + py_len v, T v)) (fresh_places spans ps v)) vs) \<and> (\<forall>v \<in> set vs. is_mask (T v))"
  using assms
proof (induction vs arbitrary: w rs)
  case (Cons v vs)
  obtain s tok where reg: "pii_register (rnd (pw_draws w)) v True (pw_tokens w) = (s, Inr tok)"
    using Cons.prems(1) by (auto split: prod.splits sum.splits)
  then obtain rs' where rs': "mask_ranges rnd spans ps vs (w\<lparr>pw_tokens := s, pw_draws := pw_draws w + 1\<rparr>) = (w', Inr rs')"
      "rs = (if tok = v then [] else map (\<lambda>i. (i, i + py_len v, tok)) (fresh_places spans ps v)) @ rs'"
    using Cons.prems(1) by (auto split: prod.splits sum.splits)
  have m: "pii_ok s" "is_mask tok" "tok \<noteq> v" using register_mask [OF _ _ _ reg] Cons.prems(2-4) by auto
  from Cons.IH [OF rs'(1)] m Cons.prems(3-5) obtain T where
    T: "rs' = concat (map (\<lambda>v. map (\<lambda>i. (i, i + py_len v, T v)) (fresh_places spans ps v)) vs)" "\<forall>v \<in> set vs. is_mask (T v)" by auto
  have eq: "map (\<lambda>u. map (\<lambda>i. (i, i + py_len u, (T(v := tok)) u)) (fresh_places spans ps u)) vs
      = map (\<lambda>u. map (\<lambda>i. (i, i + py_len u, T u)) (fresh_places spans ps u)) vs"
    using Cons.prems(5) by (intro map_cong) auto
  have "rs = concat (map (\<lambda>u. map (\<lambda>i. (i, i + py_len u, (T(v := tok)) u)) (fresh_places spans ps u)) (v # vs))"
    using m(3) unfolding rs'(2) T(1) list.map concat.simps eq by simp
  moreover have "\<forall>u \<in> set (v # vs). is_mask ((T(v := tok)) u)" using T(2) m(2) by simp
  ultimately show ?case by blast
qed simp

definition apart_places :: "marks \<Rightarrow> string list \<Rightarrow> string set \<Rightarrow> bool" where
  "apart_places spans ps V \<longleftrightarrow> (\<forall>v \<in> V. \<forall>u \<in> V. \<forall>i \<in> set (fresh_places spans ps v). \<forall>j \<in> set (fresh_places spans ps u).
     (i, v) \<noteq> (j, u) \<longrightarrow> i + py_len v \<le> j \<or> j + py_len u \<le> i)"

lemma apart_mono: "apart_places spans ps V \<Longrightarrow> U \<subseteq> V \<Longrightarrow> apart_places spans ps U"
  by (simp add: apart_places_def subset_iff)

lemma apart_starts:
  assumes "apart_places spans ps (set vs)" and "\<forall>v \<in> set vs. v \<noteq> []" and "distinct vs"
  shows "distinct (concat (map (fresh_places spans ps) vs))"
  using assms
proof (induction vs)
  case (Cons v vs)
  have "False" if "i \<in> set (fresh_places spans ps v)" "u \<in> set vs" "i \<in> set (fresh_places spans ps u)" for i u
  proof -
    have "u \<noteq> v" "u \<noteq> []" "v \<noteq> []" using that Cons.prems(2,3) by auto
    then have "py_len u \<noteq> 0" "py_len v \<noteq> 0" by simp_all
    moreover have "i + py_len v \<le> i \<or> i + py_len u \<le> i"
      using Cons.prems(1) that \<open>u \<noteq> v\<close> unfolding apart_places_def by (meson Pair_inject list.set_intros)
    ultimately show False by simp
  qed
  moreover have "apart_places spans ps (set vs)" using Cons.prems(1) by (simp add: apart_places_def)
  moreover have "distinct (fresh_places spans ps v)" by (simp add: fresh_places_def occurrences_def del: upt_Suc)
  ultimately show ?case using Cons by auto
qed simp

lemma fresh_value:
  assumes "i \<in> set (fresh_places spans (cps t) v)"
  shows "slice (cps t) i (i + py_len v) = v \<and> i + py_len v \<le> py_len t \<and> \<not> in_marks spans i (py_len v)"
proof -
  obtain r where r: "drop i (cps t) = cps v @ r" "i \<le> length (cps t)" using assms
    by (auto simp: fresh_places_def occurrences_def prefix_def simp del: upt_Suc)
  have "i + py_len v \<le> py_len t" using arg_cong [OF r(1), of length] r(2) by (simp add: py_len_def)
  with r assms show ?thesis by (auto simp: slice_def py_len_def fresh_places_def)
qed

lemma new_values_set:
  "set (new_values spans ps hs) = {v \<in> snd ` set hs. fresh_places spans ps v \<noteq> []}" "distinct (new_values spans ps hs)"
  by (auto simp: new_values_def Let_def distinct_rev)

text \<open>
  C33. What the model itself wrote is masked and nothing else: when the places of the values found do not
  overlap, the text goes out with exactly the occurrences outside the restored places replaced, each by a text
  of the shape of a vault token, and with everything else, the restored values too, as it was.
\<close>

theorem new_values_masked:
  assumes "pii_ok (pw_tokens w)" and "\<forall>k. hex8 (rnd k)" and "\<forall>v \<in> snd ` set hs. v \<noteq> []"
    and "mask_hits rnd spans hs text w = (w', Inr out)"
    and "apart_places spans (cps text) (snd ` set hs)"
  shows "\<exists>xs. out = weave sp_kind (cps text) 0 xs \<and> in_order xs
    \<and> (\<forall>x \<in> set xs. is_mask (sp_kind x) \<and> sp_end x = sp_start x + py_len (sp_value x)
         \<and> slice (cps text) (sp_start x) (sp_end x) = sp_value x \<and> \<not> in_marks spans (sp_start x) (py_len (sp_value x)))
    \<and> (\<forall>v i. (\<exists>x \<in> set xs. sp_start x = i \<and> sp_value x = v)
         \<longleftrightarrow> v \<in> snd ` set hs \<and> i \<in> set (fresh_places spans (cps text) v))"
proof -
  let ?ps = "cps text" and ?vs = "new_values spans (cps text) hs"
  obtain rs where rs: "mask_ranges rnd spans ?ps ?vs w = (w', Inr rs)" "out = concat (put_ranges ?ps rs)"
    using assms(4) by (auto simp: mask_hits_def split: prod.splits sum.splits)
  have vs: "\<forall>v \<in> set ?vs. v \<noteq> []" "distinct ?vs" "set ?vs \<subseteq> snd ` set hs" using assms(3) new_values_set [of spans ?ps hs] by auto
  have ap: "apart_places spans ?ps (set ?vs)" using apart_mono [OF assms(5) vs(3)] .
  obtain T where T: "rs = concat (map (\<lambda>v. map (\<lambda>i. (i, i + py_len v, T v)) (fresh_places spans ?ps v)) ?vs)"
      "\<forall>v \<in> set ?vs. is_mask (T v)"
    using mask_ranges_list [OF rs(1) assms(1,2) vs(1,2)] by blast
  have mem: "r \<in> set rs \<longleftrightarrow> (\<exists>v \<in> set ?vs. \<exists>i \<in> set (fresh_places spans ?ps v). r = (i, i + py_len v, T v))" for r
    by (auto simp: T(1))
  have "map fst rs = concat (map (fresh_places spans ?ps) ?vs)" by (simp add: T(1) map_concat comp_def)
  with apart_starts [OF ap vs(1,2)] have dist: "distinct (map fst rs)" by simp
  define L where "L = rev (sort_key (\<lambda>r. - int (fst r)) rs)"
  have setL: "set L = set rs" by (simp add: L_def)
  have "distinct (map fst L)"
  proof -
    have "mset (map fst L) = mset (map fst rs)" by (simp add: L_def)
    from mset_eq_imp_distinct_iff [OF this] dist show ?thesis by blast
  qed
  moreover have "sorted (map fst L)"
    using sorted_wrt_sort_key [of "\<lambda>r. - int (fst r)" rs] by (simp add: L_def sorted_map sorted_wrt_rev)
  ultimately have "sorted_wrt (<) (map fst L)" by (simp add: strict_sorted_iff)
  then have lt: "sorted_wrt (\<lambda>x y. fst x < fst y) L" by (simp add: sorted_wrt_map)
  have ends: "fst (snd x) \<le> fst y" if "x \<in> set L" "y \<in> set L" "fst x < fst y" for x y
  proof -
    from that(1,2) obtain v i u j where x: "v \<in> set ?vs" "i \<in> set (fresh_places spans ?ps v)" "x = (i, i + py_len v, T v)"
      and y: "u \<in> set ?vs" "j \<in> set (fresh_places spans ?ps u)" "y = (j, j + py_len u, T u)" by (auto simp: setL mem)
    with that(3) have "i + py_len v \<le> j \<or> j + py_len u \<le> i" using ap unfolding apart_places_def by (metis fst_conv less_irrefl Pair_inject)
    with that(3) show ?thesis by (auto simp: x(3) y(3))
  qed
  have ord: "in_order (map (range_span ?ps) L)"
    unfolding in_order_def sorted_wrt_map by (rule sorted_wrt_mono_rel [OF _ lt]) (use ends in auto)
  have bounds: "\<forall>r \<in> set L. 0 \<le> fst r \<and> fst r \<le> fst (snd r) \<and> fst (snd r) \<le> length ?ps"
    using fresh_value [of _ spans "text"] by (auto simp: setL mem py_len_def)
  have "out = weave sp_kind ?ps 0 (map (range_span ?ps) L)"
    using put_weave [OF ord bounds] by (simp add: rs(2) put_ranges_def L_def)
  moreover have "\<forall>x \<in> set (map (range_span ?ps) L). is_mask (sp_kind x) \<and> sp_end x = sp_start x + py_len (sp_value x)
         \<and> slice ?ps (sp_start x) (sp_end x) = sp_value x \<and> \<not> in_marks spans (sp_start x) (py_len (sp_value x))"
    using T(2) fresh_value [of _ spans "text"] by (auto simp: setL mem)
  moreover have "(\<exists>x \<in> set (map (range_span ?ps) L). sp_start x = i \<and> sp_value x = v)
         \<longleftrightarrow> v \<in> snd ` set hs \<and> i \<in> set (fresh_places spans ?ps v)" for v i
  proof
    assume "\<exists>x \<in> set (map (range_span ?ps) L). sp_start x = i \<and> sp_value x = v"
    with fresh_value [of _ spans "text"] subsetD [OF vs(3)] show "v \<in> snd ` set hs \<and> i \<in> set (fresh_places spans ?ps v)" by (auto simp: setL mem)
  next
    assume a: "v \<in> snd ` set hs \<and> i \<in> set (fresh_places spans ?ps v)"
    then have "v \<in> set ?vs" by (auto simp: new_values_set(1))
    with a have "(i, i + py_len v, T v) \<in> set L" by (auto simp: setL mem)
    with fresh_value [of i spans "text" v] a show "\<exists>x \<in> set (map (range_span ?ps) L). sp_start x = i \<and> sp_value x = v"
      by (intro bexI [of _ "range_span ?ps (i, i + py_len v, T v)"]) auto
  qed
  ultimately show ?thesis using ord by (intro exI [of _ "map (range_span ?ps) L"]) blast
qed

lemma mail_fresh: "fresh_places [] (cps ''a@b.co!'') ''a@b.co'' = [0]"
  by code_simp

lemma new_values_masked_witness:
  "\<exists>w' out xs. mask_hits (\<lambda>k. ''0badcafe'') [] [(''email'', ''a@b.co'')] ''a@b.co!''
       \<lparr>pw_det = detector_init, pw_bound = True, pw_tokens = pii_init False, pw_draws = 0\<rparr> = (w', Inr out)
     \<and> out = weave sp_kind (cps ''a@b.co!'') 0 xs \<and> (\<exists>x \<in> set xs. sp_start x = 0 \<and> sp_value x = ''a@b.co'')"
proof -
  let ?w = "\<lparr>pw_det = detector_init, pw_bound = True, pw_tokens = pii_init False, pw_draws = 0\<rparr>"
  have ok: "pii_ok (pii_init False)" by (rule pii_run_inv [OF pii_run.start])
  have nr: "\<not> pii_refused ''a@b.co''" by code_simp
  have "dget (table_p2t True (pii_init False)) ''a@b.co'' = None" by (simp add: table_p2t_def pii_init_def)
  then obtain s tok where reg: "pii_register ''0badcafe'' ''a@b.co'' True (pii_init False) = (s, Inr tok)"
    using pii_register_new [OF ok _ nr hex8_cafe, of True] by (metis list.distinct(1) prod.collapse)
  have nv: "new_values [] (cps ''a@b.co!'') [(''email'', ''a@b.co'')] = [''a@b.co'']" by (simp only: new_values_def Let_def) (simp add: mail_fresh del: cps.simps)
  obtain w' out where m: "mask_hits (\<lambda>k. ''0badcafe'') [] [(''email'', ''a@b.co'')] ''a@b.co!'' ?w = (w', Inr out)"
    unfolding mask_hits_def nv by (simp add: reg del: cps.simps)
  have ap: "apart_places [] (cps ''a@b.co!'') (snd ` set [(''email'', ''a@b.co'')])" by (simp add: apart_places_def mail_fresh del: cps.simps)
  have p: "pii_ok (pw_tokens ?w)" "\<forall>k. hex8 ((\<lambda>k. ''0badcafe'') k)" "\<forall>v \<in> snd ` set [(''email'', ''a@b.co'')]. v \<noteq> []"
    using ok hex8_cafe by simp_all
  obtain xs where xs: "out = weave sp_kind (cps ''a@b.co!'') 0 xs"
      "\<forall>v i. (\<exists>x \<in> set xs. sp_start x = i \<and> sp_value x = v)
         \<longleftrightarrow> v \<in> snd ` set [(''email'', ''a@b.co'')] \<and> i \<in> set (fresh_places [] (cps ''a@b.co!'') v)"
    using new_values_masked [OF p m ap] by blast
  have "\<exists>x \<in> set xs. sp_start x = 0 \<and> sp_value x = ''a@b.co''" unfolding spec [OF spec [OF xs(2)]] by (simp add: mail_fresh del: cps.simps)
  with m xs(1) show ?thesis by blast
qed

text \<open>
  When a value begins another one that also occurs, the shorter one is found inside the longer one: both
  places are replaced, and the text that goes out ends in a broken token.
\<close>

lemma overlap_breaks:
  "fresh_places [] (cps ''a@b.com a@b.co'') ''a@b.com'' = [0] \<and> fresh_places [] (cps ''a@b.com a@b.co'') ''a@b.co'' = [0, 8]
   \<and> concat (put_ranges (cps ''a@b.com a@b.co'')
       [(0, 7, ''__PII_1_0badcafe__''), (0, 6, ''__PII_2_0badcafe__''), (8, 14, ''__PII_2_0badcafe__'')])
     = ''__PII_2_0badcafe__1_0badcafe__ __PII_2_0badcafe__''"
  by code_simp

section \<open>Streams and whole answers\<close>

lemma process_data_line:
  "process_data env whl payload parsed w = (w', Inr out) \<Longrightarrow> out = whl \<or> prefix ''data: '' out"
  by (auto simp: process_data_def Let_def map_sum_def split: if_splits prod.splits sum.splits)

lemma process_block_lines:
  "process_block env parsed parts w = (w', Inr outs) \<Longrightarrow>
     list_all2 (\<lambda>p q. if is_data_line p then q = p \<or> prefix ''data: '' q else q = p) (filter (\<lambda>p. py_strip p \<noteq> []) parts) outs"
proof (induction parts arbitrary: w outs)
  case (Cons part parts)
  show ?case
  proof (cases "py_strip part = []")
    case True
    with Cons show ?thesis by simp
  next
    case False
    let ?one = "if prefix ''data:'' (py_strip part) then process_data env part (lstrip_blank (drop 5 (py_strip part))) parsed w else (w, Inr part)"
    from Cons.prems False obtain w1 q qs where q: "?one = (w1, Inr q)" "process_block env parsed parts w1 = (w', Inr qs)" "outs = q # qs"
      by (auto simp: Let_def split: prod.splits sum.splits)
    have "if is_data_line part then q = part \<or> prefix ''data: '' q else q = part"
      using q(1) process_data_line by (auto simp: is_data_line_def split: if_splits)
    with Cons.IH [OF q(2)] False show ?thesis by (simp add: q(3))
  qed
qed simp

text \<open>
  In a block of an event stream only the data is touched: every line that is not blank is sent, in its
  place, the lines of other fields and the comments unchanged, the data lines as data lines.
\<close>

theorem sse_fields_kept:
  assumes "process_sse_line env line parsed w = (w', Inr out)" and "CHR ''\<newline>'' \<in> set line"
  shows "\<exists>outs. out = join_with ''\<newline>'' outs
    \<and> list_all2 (\<lambda>p q. if is_data_line p then q = p \<or> prefix ''data: '' q else q = p)
        (filter (\<lambda>p. py_strip p \<noteq> []) (split_on (CHR ''\<newline>'') line)) outs"
proof -
  let ?parts = "split_on (CHR ''\<newline>'') line" and ?r = "if length (filter is_data_line (split_on (CHR ''\<newline>'') line)) = 1 then parsed else None"
  obtain outs where outs: "process_block env ?r ?parts w = (w', Inr outs)" "out = join_with ''\<newline>'' outs"
    using assms by (cases "process_block env ?r ?parts w"; cases "snd (process_block env ?r ?parts w)") (auto simp: process_sse_line_def Let_def)
  with process_block_lines show ?thesis by blast
qed

text \<open>A whole answer that is JSON is sent as JSON.\<close>

lemma answer_stays_json:
  assumes "nonstream_text env dialog answer w = (w', Inr out)" and "re_scoped env \<or> snd (re_active env) \<noteq> []"
    and "looks_json (py_lstrip (lstrip_bom answer))" and "jloads (re_lib env) (lstrip_bom answer) \<noteq> None"
  shows "jloads (re_lib env) (lstrip_bom out) \<noteq> None"
  using assms by (auto simp: nonstream_text_def Let_def split: prod.splits sum.splits if_splits)

section \<open>An echo\<close>

text \<open>
  What a request's text was replaced by comes back as the text, with the detection of the response side
  switched on: whatever it finds in the restored text, it leaves alone where the value was restored.
\<close>

lemma mask_nothing:
  assumes "\<forall>v \<in> snd ` set hs. fresh_places spans (cps t) v = []"
  shows "mask_hits rnd spans hs t w = (w, Inr t)"
proof -
  have "new_values spans (cps t) hs = []" unfolding set_empty [symmetric] new_values_set using assms by auto
  then show ?thesis by (simp add: mask_hits_def put_ranges_def)
qed

lemma restore_no_credentials: "restore t (Some (mid, [])) v = (v, t)"
  by (simp add: restore_def)

text \<open>
  An answer that repeats what a request was redacted to comes back as the request's text, with the
  detection of the response side switched on: what it finds there, it leaves alone at the restored places.
\<close>

theorem echo_comes_back:
  assumes "pii_run cb cleared (pw_tokens (rw_pii w))" and "\<And>n. hex8 (pe_rnd (re_pii env) n)" and "finder_ok (pe_look (re_pii env))"
    and "detect_and_redact (re_pii env) creds False plain (rw_pii w) = (p1, Inr red)" and "pw_bound (rw_pii w)"
    and "card (sp_value ` set (chosen (re_pii env) creds plain (pw_det (rw_pii w))) - {[]}) \<le> PII_MAX_ENTRIES"
    and "\<forall>st. pii_stem st \<longrightarrow> \<not> sublist st plain"
    and "strict_utf8 red" and "re_scoped env" and "snd (re_active env) = []"
    and "\<forall>v \<in> snd ` set (snd (pii_scan_hits (re_pii env) True (map fst (pwd_to_token (rw_vault w))) plain
          (p1\<lparr>pw_tokens := fst (restore_marks red (pw_tokens p1))\<rparr>))).
        fresh_places (snd (snd (restore_marks red (pw_tokens p1)))) (cps plain) v = []"
  shows "snd (response_process env red (w\<lparr>rw_pii := p1, rw_cache := None\<rparr>)) = Inr plain"
proof -
  obtain s2 out spans where marks: "restore_marks red (pw_tokens p1) = (s2, out, spans)" by (metis prod_cases3)
  obtain mid where act: "re_active env = (mid, [])" using assms(10) by (cases "re_active env") simp
  have "out = snd (pii_restore False red (pw_tokens p1))" using marks_text [OF assms(8) marks] by blast
  with detect_restore [OF assms(1-7)] have out: "out = plain" by simp
  let ?w = "w\<lparr>rw_cache := None, rw_pii := p1\<lparr>pw_tokens := s2\<rparr>\<rparr>"
  obtain p2 hs where hs: "pii_scan_hits (re_pii env) True (map fst (pwd_to_token (rw_vault w))) plain (p1\<lparr>pw_tokens := s2\<rparr>) = (p2, hs)"
    by (metis prod.exhaust)
  have "\<forall>v \<in> snd ` set hs. fresh_places spans (cps plain) v = []" using assms(11) by (simp add: marks hs)
  note quiet = mask_nothing [OF this, of "pe_rnd (re_pii env)" p2]
  have "snd (response_scan_uncached env plain spans ?w) = Inr plain"
    by (simp add: response_scan_uncached_def hs quiet)
  then have "snd (response_scan env plain spans ?w) = Inr plain"
    by (simp add: response_scan_def Let_def split: prod.split sum.split) (metis snd_conv sum.inject(2) sum.distinct(1))
  then show ?thesis
    by (simp add: response_process_def response_restore_def assms(9) act restore_no_credentials marks out)
qed

lemma register_values_det:
  "register_values rnd side vs w tab = (w', r) \<Longrightarrow> pw_det w' = pw_det w"
  by (induction rnd side vs w tab rule: register_values.induct) (auto split: if_splits prod.splits sum.splits)

lemma detect_det:
  "detect_and_redact env creds side t w = (w', r) \<Longrightarrow> t \<noteq> [] \<Longrightarrow>
     pw_det w' = fst (scan_spans (pe_hardening env) (pe_look env) creds t (pw_det w))"
  using register_values_det by (fastforce simp: detect_and_redact_def Let_def split: if_splits prod.splits sum.splits)

definition zhang_resp :: resp_env where
  "zhang_resp = \<lparr>re_pii = zhang_env, re_enabled = True, re_side = True, re_scoped = True, re_active = (0, []),
     re_lib = demo_lib, re_stack = 10\<rparr>"

lemma zhang_fresh: "fresh_places [(0, 2, zhang)] (cps zhang) zhang = []"
  by (simp add: fresh_places_def occurrences_def in_marks_def zhang_cps zhang_byte upt_rec zhang_len)

text \<open>The state after the request, the marks of its echo, and what the detector finds in the restored text.\<close>

lemma echo_comes_back_witness:
  "\<exists>p1 red. detect_and_redact zhang_env [] False zhang zhang_world = (p1, Inr red) \<and> red \<noteq> zhang
     \<and> snd (response_process zhang_resp red \<lparr>rw_pii = p1, rw_vault = cred_vault_init, rw_cache = None\<rparr>) = Inr zhang"
proof -
  define red where "red = echo_token"
  obtain p1 where d: "detect_and_redact zhang_env [] False zhang zhang_world = (p1, Inr red)"
    using zhang_redacted by (auto simp: red_def echo_token_def)
  have red_text: "red = ''__PII_1_0badcafe__''" by (simp only: red_def echo_token_text)
  let ?w = "\<lparr>rw_pii = zhang_world, rw_vault = cred_vault_init, rw_cache = None\<rparr>"
  obtain s2 out spans where marks: "restore_marks red (pw_tokens p1) = (s2, out, spans)" by (metis prod_cases3)
  have run: "pii_run True False (pw_tokens zhang_world)" by (simp add: zhang_world_def pii_run.start)
  have hex: "hex8 (pe_rnd zhang_env n)" for n by (simp add: zhang_env_def hex8_cafe)
  have room: "card (sp_value ` set (chosen zhang_env [] zhang (pw_det zhang_world)) - {[]}) \<le> PII_MAX_ENTRIES"
    by (rule le_trans [OF card_mono [of "{zhang}"]]) (auto simp: zhang_chosen PII_MAX_ENTRIES_def)
  have bound: "pw_bound zhang_world" by (simp add: zhang_world_def)
  have str: "strict_utf8 red" unfolding red_text by (rule ascii_strict) (simp add: ascii_def byte_def)
  have rest: "snd (pii_restore False red (pw_tokens p1)) = zhang"
    using detect_restore [OF run hex zhang_finder d bound room] zhang_no_stem by blast
  have one: "scan_all pii_match red = [red]" "scan_sub pii_match g red = g red" for g
    using echo_scan(1) [of g "[]"] echo_scan(2) [of "[]"] by (simp_all add: red_def)
  have got: "dget (pii_t2p (pw_tokens p1)) red = Some zhang"
  proof (rule ccontr)
    assume n: "dget (pii_t2p (pw_tokens p1)) red \<noteq> Some zhang"
    have "snd (pii_restore False red (pw_tokens p1)) = dget_or (pii_t2p (pw_tokens p1)) red red"
      by (simp add: pii_restore_split Let_def pii_scan_def one pii_reveal_def)
    with rest n have "zhang = red" by (auto simp: dget_or_def split: option.splits)
    then show False unfolding red_text by (simp add: zhang_def bytes_def)
  qed
  have out: "out = zhang" "map (snd \<circ> snd) spans = [zhang]"
    using marks_text [OF str marks] rest got by (simp_all add: one List.map_filter_def)
  have sp: "spans = [(0, 2, zhang)]"
  proof -
    obtain s1 delta ys where ys: "scan_marks pii_match mark_repl (pw_tokens p1, 0, []) 0 (cps red) = ((s1, delta, spans), ys)"
      "out = concat ys" using marks by (auto simp: restore_marks_def Let_def split: prod.splits)
    obtain c cs where c: "cps red = c # cs" by (cases "cps red") (auto simp: red_text)
    have cat: "concat (c # cs) = red" by (simp only: c [symmetric] concat_cps)
    have n: "pii_match (concat (c # cs)) = Some 18" "take 18 red = red"
      using echo_match [of "[]"] echo_length by (simp_all only: cat) (simp_all add: red_def)
    have len: "py_len red = length (c # cs)" by (simp only: py_len_def c)
    have ne: "py_len red \<noteq> 0" by (simp add: len del: py_len_0)
    have "scan_marks pii_match mark_repl (pw_tokens p1, 0, []) 0 (c # cs)
        = map_prod id (append (cps zhang)) (scan_marks pii_match mark_repl
            (touch_pii red zhang (pw_tokens p1), 0 + (int 2 - int (py_len red)), [(0, 2, zhang)]) (py_len red) [])"
      unfolding scan_marks_step n(1) option.case Let_def unfolding cat n(2) if_not_P [OF ne]
      by (simp add: mark_repl_def got zhang_len len)
    with ys(1) show ?thesis by (simp add: c)
  qed
  have hs: "snd (pii_scan_hits zhang_env True (map fst (pwd_to_token cred_vault_init)) zhang (p1\<lparr>pw_tokens := s2\<rparr>)) = [(''name'', zhang)]"
  proof -
    have "pw_det p1 = fst (scan_spans True (pe_look zhang_env) [] zhang (pw_det zhang_world))"
      using detect_det [OF d zhang_len(1)] by (simp add: zhang_env_def)
    also have "\<dots> = pw_det zhang_world"
      by (simp add: scan_spans_def scan_custom_def zhang_world_def load_dict_def detector_init_def Let_def zhang_len)
    finally show ?thesis using zhang_scan
      by (cases "scan_spans True (pe_look zhang_env) [] zhang (pw_det zhang_world)")
        (simp add: pii_scan_hits_def zhang_len zhang_env_def cred_vault_init_def)
  qed
  have "snd (response_process zhang_resp red (?w\<lparr>rw_pii := p1, rw_cache := None\<rparr>)) = Inr zhang"
    by (rule echo_comes_back [of True False ?w zhang_resp "[]"])
       (use run hex zhang_finder d bound room zhang_no_stem str hs sp in
         \<open>simp_all add: zhang_resp_def marks zhang_fresh\<close>)
  moreover have "red \<noteq> zhang" unfolding red_text by (simp add: zhang_def bytes_def)
  ultimately show ?thesis using d by auto
qed

definition done_block :: string where
  "done_block = ''event: x'' @ [CHR ''\<newline>''] @ ''data: [DONE]''"

lemma done_block_text:
  "split_on (CHR ''\<newline>'') done_block = [''event: x'', ''data: [DONE]'']"
  "CHR ''\<newline>'' \<in> set done_block"
  "py_strip ''event: x'' = ''event: x''" "py_strip ''data: [DONE]'' = ''data: [DONE]''"
  "py_strip (lstrip_bom (lstrip_blank (drop 5 ''data: [DONE]''))) = ''[DONE]''"
  by code_simp+

lemma sse_fields_kept_witness:
  "\<exists>w' out outs. process_sse_line zhang_resp done_block None w = (w', Inr out) \<and> out = join_with ''\<newline>'' outs \<and> outs ! 0 = ''event: x''"
proof -
  have d: "process_data zhang_resp ''data: [DONE]'' (lstrip_blank (drop 5 ''data: [DONE]'')) None w = (w, Inr ''data: [DONE]'')"
    unfolding process_data_def Let_def done_block_text by simp
  have r: "process_sse_line zhang_resp done_block None w = (w, Inr (join_with ''\<newline>'' [''event: x'', ''data: [DONE]'']))"
    using d done_block_text by (simp add: process_sse_line_def Let_def is_data_line_def)
  obtain outs where outs: "join_with ''\<newline>'' [''event: x'', ''data: [DONE]''] = join_with ''\<newline>'' outs"
      "list_all2 (\<lambda>p q. if is_data_line p then q = p \<or> prefix ''data: '' q else q = p)
        (filter (\<lambda>p. py_strip p \<noteq> []) (split_on (CHR ''\<newline>'') done_block)) outs"
    using sse_fields_kept [OF r done_block_text(2)] by blast
  have "\<not> is_data_line ''event: x''" by (simp add: is_data_line_def done_block_text)
  with outs(2) have "outs ! 0 = ''event: x''" by (cases outs) (simp_all add: done_block_text)
  with r outs(1) show ?thesis by auto
qed

end
