(* ===== verification/Clock_Keys.thy ===== *)
theory Clock_Keys
  imports Prelude
begin

text \<open>
  The keys of the aggregates (\<open>_day_key\<close> and \<open>_hour_key\<close> of \<open>_metrics.py\<close>): \<open>time.strftime\<close> of
  \<open>time.gmtime\<close>, for moments from 1970 on, and the order of the keys as texts.
\<close>

section \<open>The calendar\<close>

definition leap :: "nat \<Rightarrow> bool" where
  "leap y \<longleftrightarrow> y mod 4 = 0 \<and> (y mod 100 \<noteq> 0 \<or> y mod 400 = 0)"

definition year_len :: "nat \<Rightarrow> nat" where
  "year_len y = (if leap y then 366 else 365)"

definition month_lens :: "nat \<Rightarrow> nat list" where
  "month_lens y = [31, if leap y then 29 else 28, 31, 30, 31, 30, 31, 31, 30, 31, 30, 31]"

text \<open>Day \<open>d\<close> counted from the first of January of year \<open>y\<close>: its year and the day in that year.\<close>

function year_of :: "nat \<Rightarrow> nat \<Rightarrow> nat \<times> nat" where
  "year_of y d = (if d < year_len y then (y, d) else year_of (y + 1) (d - year_len y))"
  by auto
termination by (relation "measure snd") (auto simp: year_len_def split: if_splits)

declare year_of.simps [simp del]

fun month_of :: "nat list \<Rightarrow> nat \<Rightarrow> nat \<Rightarrow> nat \<times> nat" where
  "month_of [] m d = (m, d)"
| "month_of (n # ns) m d = (if d < n then (m, d) else month_of ns (m + 1) (d - n))"

definition date_of :: "nat \<Rightarrow> nat \<times> nat \<times> nat" where
  "date_of days = (let (y, d) = year_of 1970 days; (m, d') = month_of (month_lens y) 1 d in (y, m, d' + 1))"

text \<open>The whole seconds of a moment.\<close>

definition secs :: "real \<Rightarrow> nat" where
  "secs ts = nat \<lfloor>ts\<rfloor>"

definition date_text :: "nat \<Rightarrow> string" where
  "date_text days = (let (y, m, d) = date_of days in zpad 4 (dec y) @ ''-'' @ zpad 2 (dec m) @ ''-'' @ zpad 2 (dec d))"

definition day_key :: "real \<Rightarrow> string" where
  "day_key ts = date_text (secs ts div 86400)"

definition hour_text :: "nat \<Rightarrow> string" where
  "hour_text h = date_text (h div 24) @ ''T'' @ zpad 2 (dec (h mod 24)) @ '':00:00Z''"

definition hour_key :: "real \<Rightarrow> string" where
  "hour_key ts = hour_text (secs ts div 3600)"

text \<open>\<open>a < b\<close> for two texts of ASCII characters.\<close>

fun text_less :: "string \<Rightarrow> string \<Rightarrow> bool" where
  "text_less a [] = False"
| "text_less [] (c # b) = True"
| "text_less (c # a) (d # b) = (byte c < byte d \<or> c = d \<and> text_less a b)"

section \<open>The order of the keys is the order of time\<close>

lemma text_less_irrefl [simp]: "\<not> text_less a a"
  by (induction a) auto

lemma text_less_asym: "text_less a b \<Longrightarrow> \<not> text_less b a"
  by (induction a b rule: text_less.induct) auto

lemma text_less_append:
  "length p = length p' \<Longrightarrow> text_less (p @ q) (p' @ q') \<longleftrightarrow> text_less p p' \<or> p = p' \<and> text_less q q'"
  by (induction p p' rule: list_induct2) auto

lemma undec_Cons: "undec (c # s) = (byte c - 48) * 10 ^ length s + undec s"
  by (induction s rule: rev_induct) (simp_all add: undec_snoc algebra_simps flip: append_Cons, simp add: undec_def)

lemma undec_bound: "list_all is_digit s \<Longrightarrow> undec s < 10 ^ length s"
proof (induction s)
  case (Cons c s)
  then have "(byte c - 48) * 10 ^ length s \<le> 9 * 10 ^ length s"
    by (intro mult_right_mono) (auto simp: is_digit_def)
  moreover have "undec s < 10 ^ length s" using Cons by simp
  ultimately have "(byte c - 48) * 10 ^ length s + undec s < 9 * 10 ^ length s + 10 ^ length s" by (rule add_le_less_mono)
  then show ?case by (simp add: undec_Cons)
qed (simp add: undec_def)

lemma byte_inj: "byte c = byte d \<longleftrightarrow> c = d"
  by (simp add: byte_def)

lemma text_less_digits:
  assumes "length a = length b" "list_all is_digit a" "list_all is_digit b" "undec a < undec b"
  shows "text_less a b"
  using assms
proof (induction a b rule: list_induct2)
  case (Cons c a d b)
  consider "byte c < byte d" | "c = d" | "byte d < byte c" by (metis byte_inj linorder_neqE_nat)
  then show ?case
  proof cases
    case 3
    then have "(byte d - 48 + 1) * 10 ^ length a \<le> (byte c - 48) * 10 ^ length a"
      using Cons.prems by (intro mult_right_mono) (auto simp: is_digit_def)
    moreover have "undec b < 10 ^ length a" using Cons undec_bound [of b] by simp
    ultimately show ?thesis using Cons by (simp add: undec_Cons)
  qed (use Cons in \<open>auto simp: undec_Cons\<close>)
qed simp

lemma length_dec_le: "n < 10 ^ w \<Longrightarrow> 0 < w \<Longrightarrow> length (dec n) \<le> w"
proof (induction n arbitrary: w rule: dec.induct)
  case (1 n)
  show ?case
  proof (cases "n < 10")
    case False
    with 1(2,3) obtain v where w: "w = Suc v" "0 < v" by (cases w; cases "w - 1") auto
    then have "n div 10 < 10 ^ v" using 1(2) by auto
    with 1(1) [OF False, of v] False w show ?thesis by (subst dec.simps) simp
  qed (use 1(3) in \<open>simp add: dec.simps\<close>)
qed

lemma length_zpad_dec: "n < 10 ^ w \<Longrightarrow> 0 < w \<Longrightarrow> length (zpad w (dec n)) = w"
  using length_dec_le [of n w] by (simp add: zpad_def)

lemma zpad_less: "m < n \<Longrightarrow> n < 10 ^ w \<Longrightarrow> 0 < w \<Longrightarrow> text_less (zpad w (dec m)) (zpad w (dec n))"
  by (rule text_less_digits) (simp_all add: length_zpad_dec zpad_digits)

lemma year_of_mono:
  assumes "d < e"
  shows "fst (year_of y d) < fst (year_of y e) \<or> fst (year_of y d) = fst (year_of y e) \<and> snd (year_of y d) < snd (year_of y e)"
proof -
  have ge: "y \<le> fst (year_of y d)" for y d
    by (induction y d rule: year_of.induct) (subst year_of.simps, auto dest: Suc_leD)
  show ?thesis using assms
  proof (induction y d arbitrary: e rule: year_of.induct)
    case (1 y d)
    show ?case
    proof (cases "d < year_len y")
      case True
      then show ?thesis
        using 1(2) ge [of "y + 1" "e - year_len y"] by (simp add: year_of.simps [of y])
    next
      case False
      then have "d - year_len y < e - year_len y" "\<not> e < year_len y" using 1(2) by auto
      with 1(1) [OF False] False show ?thesis by (simp add: year_of.simps [of y])
    qed
  qed
qed

lemma year_of_bounds: "fst (year_of y d) \<le> y + d div 365 \<and> snd (year_of y d) < year_len (fst (year_of y d))"
proof (induction y d rule: year_of.induct)
  case (1 y d)
  show ?case
  proof (cases "d < year_len y")
    case False
    then have "(d - year_len y) div 365 + 1 \<le> d div 365"
      using div_le_mono [of "d - year_len y + 365" d 365] by (simp add: year_len_def split: if_splits)
    with 1 False show ?thesis by (simp add: year_of.simps [of y])
  qed (simp add: year_of.simps [of y])
qed

lemma month_of_mono:
  "d < e \<Longrightarrow> fst (month_of ns m d) < fst (month_of ns m e)
     \<or> fst (month_of ns m d) = fst (month_of ns m e) \<and> snd (month_of ns m d) < snd (month_of ns m e)"
proof (induction ns m d arbitrary: e rule: month_of.induct)
  case (2 n ns m d)
  have "m \<le> fst (month_of ns m d)" for ns m d by (induction ns m d rule: month_of.induct) (auto dest: Suc_leD)
  from this [of "m + 1"] 2 show ?case by (auto simp: Suc_le_eq less_diff_conv2)
qed simp

lemma month_of_bounds:
  "d < sum_list ns \<Longrightarrow> fst (month_of ns m d) < m + length ns \<and> snd (month_of ns m d) < Max (set ns)"
proof (induction ns m d rule: month_of.induct)
  case (2 n ns m d)
  then show ?case
  proof (cases "d < n")
    case True
    then have "d < Max (set (n # ns))" by (meson List.finite_set Max_ge less_le_trans list.set_intros(1))
    with True show ?thesis by simp
  next
    case False
    with 2 have "ns \<noteq> []" by auto
    moreover have "d - n < sum_list ns" using 2(2) False by auto
    ultimately show ?thesis using 2(1) [OF False] False by auto
  qed
qed simp

lemma date_of_bounds:
  assumes "days < 2930000"
  shows "fst (date_of days) < 10 ^ 4 \<and> fst (snd (date_of days)) < 10 ^ 2 \<and> snd (snd (date_of days)) < 10 ^ 2"
proof -
  obtain y d where yd: "year_of 1970 days = (y, d)" by fastforce
  obtain m e where me: "month_of (month_lens y) 1 d = (m, e)" by fastforce
  have "sum_list (month_lens y) = year_len y" by (simp add: month_lens_def year_len_def)
  then have "m < 1 + 12 \<and> e < Max (set (month_lens y))"
    using year_of_bounds [of 1970 days] month_of_bounds [of d "month_lens y" 1] yd me by (simp add: month_lens_def)
  moreover have "y < 10000"
  proof -
    have "days div 365 \<le> 2930000 div 365" using assms by (intro div_le_mono) simp
    then show ?thesis using year_of_bounds [of 1970 days] yd by simp
  qed
  moreover have "Max (set (month_lens y)) = 31" by (simp add: month_lens_def)
  ultimately show ?thesis using me by (simp add: date_of_def yd)
qed

lemma date_text_less:
  assumes "a < b" "b < 2930000"
  shows "text_less (date_text a) (date_text b)"
proof -
  obtain y m d where A: "date_of a = (y, m, d)" by (metis prod.exhaust)
  obtain y' m' d' where B: "date_of b = (y', m', d')" by (metis prod.exhaust)
  have bA: "y < 10 ^ 4" "m < 10 ^ 2" "d < 10 ^ 2" and bB: "y' < 10 ^ 4" "m' < 10 ^ 2" "d' < 10 ^ 2"
    using date_of_bounds [of a] date_of_bounds [of b] assms A B by auto
  have "y < y' \<or> y = y' \<and> (m < m' \<or> m = m' \<and> d < d')"
    using year_of_mono [OF assms(1), of 1970] month_of_mono [of _ _ "month_lens y" 1] A B
    by (fastforce simp: date_of_def split: prod.splits)
  then show ?thesis
    using bA bB by (auto simp: date_text_def A B text_less_append length_zpad_dec zpad_less)
qed

lemma length_date_text: "a < 2930000 \<Longrightarrow> length (date_text a) = 10"
  using date_of_bounds [of a] by (auto simp: date_text_def length_zpad_dec split: prod.split)

lemma hour_text_less:
  assumes "a < b" "b < 70320000"
  shows "text_less (hour_text a) (hour_text b)"
proof -
  have "a div 24 < b div 24 \<or> a div 24 = b div 24 \<and> a mod 24 < b mod 24"
    using div_le_mono [of a b 24] div_mult_mod_eq [of a 24] div_mult_mod_eq [of b 24] assms(1) by linarith
  moreover have "a div 24 < 2930000" "b div 24 < 2930000" using assms by auto
  moreover have "b mod 24 < 10 ^ 2" "a mod 24 < 10 ^ 2"
    using mod_less_divisor [of 24 b] mod_less_divisor [of 24 a] by simp_all
  ultimately show ?thesis
  proof (elim disjE conjE)
    assume "a div 24 < b div 24" "b div 24 < 2930000"
    then show ?thesis using date_text_less [of "a div 24" "b div 24"]
      by (simp add: hour_text_def text_less_append length_date_text)
  next
    assume "a div 24 = b div 24" "a mod 24 < b mod 24" "b mod 24 < 10 ^ 2" "a mod 24 < 10 ^ 2"
    then show ?thesis using zpad_less [of "a mod 24" "b mod 24" 2]
      by (simp add: hour_text_def text_less_append length_zpad_dec)
  qed
qed

text \<open>A text before another is an earlier day, and an earlier hour.\<close>

lemma date_text_order: "a < 2930000 \<Longrightarrow> b < 2930000 \<Longrightarrow> text_less (date_text a) (date_text b) \<longleftrightarrow> a < b"
  by (metis date_text_less linorder_neqE_nat text_less_asym text_less_irrefl)

lemma hour_text_order: "a < 70320000 \<Longrightarrow> b < 70320000 \<Longrightarrow> text_less (hour_text a) (hour_text b) \<longleftrightarrow> a < b"
  by (metis hour_text_less linorder_neqE_nat text_less_asym text_less_irrefl)

lemma date_text_eq: "a < 2930000 \<Longrightarrow> b < 2930000 \<Longrightarrow> date_text a = date_text b \<longleftrightarrow> a = b"
  by (metis date_text_less linorder_neqE_nat text_less_irrefl)

lemma hour_text_eq: "a < 70320000 \<Longrightarrow> b < 70320000 \<Longrightarrow> hour_text a = hour_text b \<longleftrightarrow> a = b"
  by (metis hour_text_less linorder_neqE_nat text_less_irrefl)

end
