(* ===== verification/Metrics_Redact.thy ===== *)
theory Metrics_Redact
  imports Pii_Redact
begin

text \<open>
  The summary of a request that is kept for the dashboard (\<open>redact_summary\<close> and
  \<open>_redact_extra_pii\<close> of \<open>_metrics.py\<close>): tokens, keys, addresses and telephone numbers are replaced by
  their patterns, identity and card numbers and IP addresses by the detector's patterns with their
  second checks.  The argument \<open>imported\<close> says whether the detector's module could be imported.
\<close>

section \<open>Patterns\<close>

definition PII_TOKEN_RE :: rx where
  "PII_TOKEN_RE = Alt
     (rx_cat [lit ''__PII_'', plus rx_d, ch CHR ''_'', times 8 8 (acls hex_any), lit ''__''])
     (rx_cat [lit ''__VG_CRED_'', Rep True 4 None rx_d, lit ''__''])"

definition METRICS_KEY_RE :: rx where
  "METRICS_KEY_RE = rx_cat [Bnd, rx_alt
     [Cat (lit_ci ''sk-'') (Rep True 16 None (alnum_or_ci ''_-'')),
      rx_cat [lit_ci ''xox'', rx_alt (map (\<lambda>c. lit_ci [c]) ''baprs''), lit_ci ''-'', Rep True 10 None (alnum_or_ci ''-'')],
      Cat (lit_ci ''ghp_'') (Rep True 30 None (alnum_or_ci ''_'')),
      Cat (lit_ci ''gho_'') (Rep True 30 None (alnum_or_ci ''_'')),
      Cat (lit_ci ''github_pat_'') (Rep True 20 None (alnum_or_ci ''_'')),
      Cat (lit_ci ''AKIA'') (times 16 16 (alnum_or_ci [])),
      rx_cat [lit_ci ''Bearer'', plus rx_s, lit_ci ''eyJ'', Rep True 20 None (alnum_or_ci ''_-.'')],
      Cat (lit_ci ''sk-'') (Rep True 20 None (alnum_or_ci ''_-''))], Bnd]"

definition METRICS_EMAIL_RE :: rx where
  "METRICS_EMAIL_RE =
     (let w_or = (\<lambda>cs. One (\<lambda>p. is_wordc p \<or> (\<exists>c \<in> set cs. p = [c])))
      in rx_cat [Bnd, plus (w_or ''.+-''), ch CHR ''@'', plus (w_or ''-''), ch CHR ''.'', Rep True 2 None (w_or ''.-''), Bnd])"

definition METRICS_PHONE_RE :: rx where
  "METRICS_PHONE_RE = rx_cat [Behind False is_nd,
     opt (Cat (rx_alt [lit ''86'', lit ''+86'']) (opt (cset ''- ''))),
     rx_alt [rx_cat [ch CHR ''1'', cset ''3456789'', times 9 9 rx_d],
       rx_cat [ch CHR ''1'', cset ''3456789'', rx_d, opt (cset ''- ''), times 4 4 rx_d, opt (cset ''- ''), times 4 4 rx_d]],
     Ahead False rx_d]"

definition EXTRA_KINDS :: "string list" where
  "EXTRA_KINDS = [''id_card'', ''bank_card'', ''ipv4'', ''ipv6'']"

section \<open>Numbers and addresses\<close>

text \<open>
  What a match stands for, or nothing when one of the checks drops it.  The text around a card number is
  cut out of \<open>cur\<close>, the text as it is after the replacements so far, at the places of the first text.
\<close>

definition extra_value :: "string list \<Rightarrow> string list \<Rightarrow> string \<Rightarrow> nat \<Rightarrow> nat \<Rightarrow> string option" where
  "extra_value cur ps kind s e =
     (let v0 = slice ps s e in
      if kind = ''bank_card'' \<and> in_url_param cur s e then None
      else if kind = ''id_card'' \<and> \<not> id_card_ok v0 then None
      else if kind = ''bank_card'' \<and> \<not> luhn_ok v0 then None
      else case (if kind = ''ipv6'' then ip_value is_valid_ipv6 v0
            else if kind = ''ipv4'' then ip_value is_valid_ipv4 v0 else Some v0) of
        None \<Rightarrow> None
      | Some v \<Rightarrow> if (kind = ''ipv4'' \<or> kind = ''ipv6'') \<and> is_reserved_ip (kind = ''ipv6'') v then None else Some v)"

definition touches :: "places \<Rightarrow> nat \<Rightarrow> nat \<Rightarrow> bool" where
  "touches spans start fin \<longleftrightarrow> list_ex (\<lambda>(s, e). start < e \<and> s < fin) spans"

definition extra_step :: "string list \<Rightarrow> places \<Rightarrow> string \<Rightarrow> nat \<times> rx_st \<Rightarrow> string" where
  "extra_step ps prot out m =
     (let s = fst m; e = fst (snd m) in
      case group_kind (snd m) of
        None \<Rightarrow> out
      | Some kind \<Rightarrow>
          if kind \<notin> set EXTRA_KINDS then out
          else if touches prot s e then out
          else case extra_value (cps out) ps kind s e of
            None \<Rightarrow> out
          | Some v \<Rightarrow> replace v (redacted_tag kind) out)"

definition redact_extra_pii :: "bool \<Rightarrow> string \<Rightarrow> string" where
  "redact_extra_pii imported out =
     (if \<not> imported then ''[REDACTED:unverified]''
      else let ps = cps out
        in foldl (extra_step ps (rx_places PROTECTED_TOKEN_RE ps)) out (rx_all COMBINED_RE ps 0))"

section \<open>The summary\<close>

definition mask_shapes :: "string \<Rightarrow> string" where
  "mask_shapes raw = foldl (\<lambda>s (r, kind). re_sub r (\<lambda>m. redacted_tag kind) s) raw
     [(PII_TOKEN_RE, ''token''), (METRICS_KEY_RE, ''key''), (METRICS_EMAIL_RE, ''email''), (METRICS_PHONE_RE, ''phone'')]"

definition metrics_summary :: "bool \<Rightarrow> string \<Rightarrow> nat \<Rightarrow> string" where
  "metrics_summary imported raw0 limit =
     (if raw0 = [] then []
      else let raw = (if limit * 3 + 512 < py_len raw0 then py_take (limit * 3 + 512) raw0 else raw0);
               out = redact_extra_pii imported (mask_shapes raw)
        in if py_len out \<le> limit then out
           else concat (filter (\<lambda>p. \<not> is_surrogate p) (take (limit - 1) (cps out))) @ ELLIPSIS)"

section \<open>What the patterns match\<close>

text \<open>Every code point that a match of the pattern takes satisfies \<open>Q\<close>; a match takes at least so many.\<close>

primrec rx_only :: "(string \<Rightarrow> bool) \<Rightarrow> rx \<Rightarrow> bool" where
  "rx_only Q (One P) = (\<forall>p. P p \<longrightarrow> Q p)"
| "rx_only Q Eps = True"
| "rx_only Q (Cat a b) = (rx_only Q a \<and> rx_only Q b)"
| "rx_only Q (Alt a b) = (rx_only Q a \<and> rx_only Q b)"
| "rx_only Q (Rep g lo hi a) = rx_only Q a"
| "rx_only Q (Grp k a) = rx_only Q a"
| "rx_only Q Bnd = True"
| "rx_only Q Bos = True"
| "rx_only Q Eos = True"
| "rx_only Q Eol = True"
| "rx_only Q (Ahead pos a) = True"
| "rx_only Q (Behind pos P) = True"

primrec rx_least :: "rx \<Rightarrow> nat" where
  "rx_least (One P) = 1"
| "rx_least Eps = 0"
| "rx_least (Cat a b) = rx_least a + rx_least b"
| "rx_least (Alt a b) = min (rx_least a) (rx_least b)"
| "rx_least (Rep g lo hi a) = lo * rx_least a"
| "rx_least (Grp k a) = rx_least a"
| "rx_least Bnd = 0"
| "rx_least Bos = 0"
| "rx_least Eos = 0"
| "rx_least Eol = 0"
| "rx_least (Ahead pos a) = 0"
| "rx_least (Behind pos P) = 0"

lemma rx_iter_step:
  "st' \<in> set (rx_iter (Suc fuel) m greedy lo hi st)
    \<Longrightarrow> lo = 0 \<and> st' = st \<or> (\<exists>st1 \<in> set (m st). st' \<in> set (rx_iter fuel m greedy (lo - 1) (dec_opt hi) st1))"
  by (auto simp: Let_def split: if_splits)

lemma rx_iter_only:
  assumes "\<And>st st'. st' \<in> set (m st) \<Longrightarrow> \<forall>i. fst st \<le> i \<and> i < fst st' \<longrightarrow> Q i"
  shows "st' \<in> set (rx_iter fuel m greedy lo hi st) \<Longrightarrow> fst st \<le> i \<Longrightarrow> i < fst st' \<Longrightarrow> Q i"
proof (induction fuel arbitrary: lo hi st)
  case (Suc fuel)
  from rx_iter_step [OF Suc.prems(1)] show ?case
  proof (elim disjE bexE conjE)
    fix st1 assume st1: "st1 \<in> set (m st)" "st' \<in> set (rx_iter fuel m greedy (lo - 1) (dec_opt hi) st1)"
    show ?thesis
    proof (cases "i < fst st1")
      case True
      with assms st1(1) Suc.prems(2) show ?thesis by blast
    next
      case False
      with Suc.IH [OF st1(2)] Suc.prems(3) show ?thesis by simp
    qed
  qed (use Suc.prems in simp)
qed (auto split: if_splits)

lemma rx_run_only:
  "rx_only Q r \<Longrightarrow> st' \<in> set (rx_run r ps st) \<Longrightarrow> \<forall>i. fst st \<le> i \<and> i < fst st' \<longrightarrow> Q (ps ! i)"
proof (induction r arbitrary: st st')
  case (Cat a b)
  from Cat.prems(2) obtain st1 where st1: "st1 \<in> set (rx_run a ps st)" "st' \<in> set (rx_run b ps st1)" by auto
  show ?case
  proof (intro allI impI)
    fix i assume "fst st \<le> i \<and> i < fst st'"
    then show "Q (ps ! i)"
      using Cat.IH(1) [OF _ st1(1)] Cat.IH(2) [OF _ st1(2)] Cat.prems(1) by (cases "i < fst st1") auto
  qed
next
  case (Rep greedy lo hi a)
  from Rep.prems(2) have "st' \<in> set (rx_iter (lo + (length ps - fst st)) (rx_run a ps) greedy lo hi st)" by simp
  then show ?case using Rep.IH Rep.prems(1) by (intro allI impI) (rule rx_iter_only [where Q = "\<lambda>i. Q (ps ! i)"], auto)
next
  case (One P)
  then show ?case by (auto split: if_splits simp: less_Suc_eq_le dest: le_antisym)
next
  case (Alt a b)
  from Alt.prems(2) have "st' \<in> set (rx_run a ps st) \<or> st' \<in> set (rx_run b ps st)" by simp
  with Alt.IH Alt.prems(1) show ?case by fastforce
next
  case (Grp k a)
  from Grp.prems(2) obtain st1 where "st1 \<in> set (rx_run a ps st)" "fst st' = fst st1" by auto
  with Grp.IH [of st1 st] Grp.prems(1) show ?case by simp
qed (auto split: if_splits)

lemma rx_iter_least:
  assumes "\<And>st st'. st' \<in> set (m st) \<Longrightarrow> fst st + k \<le> fst st'"
  shows "st' \<in> set (rx_iter fuel m greedy lo hi st) \<Longrightarrow> fst st + lo * k \<le> fst st'"
proof (induction fuel arbitrary: lo hi st)
  case (Suc fuel)
  from rx_iter_step [OF Suc.prems(1)] show ?case
  proof (elim disjE bexE conjE)
    fix st1 assume st1: "st1 \<in> set (m st)" "st' \<in> set (rx_iter fuel m greedy (lo - 1) (dec_opt hi) st1)"
    from Suc.IH [OF st1(2)] assms [OF st1(1)] show ?thesis by (cases lo) auto
  qed simp
qed (auto split: if_splits)

lemma rx_run_least: "st' \<in> set (rx_run r ps st) \<Longrightarrow> fst st + rx_least r \<le> fst st'"
proof (induction r arbitrary: st st')
  case (Cat a b)
  from Cat.prems obtain st1 where "st1 \<in> set (rx_run a ps st)" "st' \<in> set (rx_run b ps st1)" by auto
  with Cat.IH [of st1 st] Cat.IH(2) [of st' st1] show ?case by fastforce
next
  case (Rep greedy lo hi a)
  from Rep.prems have "st' \<in> set (rx_iter (lo + (length ps - fst st)) (rx_run a ps) greedy lo hi st)" by simp
  then have "fst st + lo * rx_least a \<le> fst st'" by (rule rx_iter_least [rotated]) (rule Rep.IH)
  then show ?case by simp
next
  case (Alt a b)
  from Alt.prems have "st' \<in> set (rx_run a ps st) \<or> st' \<in> set (rx_run b ps st)" by simp
  with Alt.IH [of st' st] show ?case by auto
next
  case (Grp k a)
  from Grp.prems obtain st1 where "st1 \<in> set (rx_run a ps st)" "fst st' = fst st1" by auto
  with Grp.IH [of st1 st] show ?case by simp
qed (auto split: if_splits)


section \<open>Replacing\<close>

lemma sublist_around: "c \<notin> set v \<Longrightarrow> sublist v (x @ c # y) \<Longrightarrow> sublist v x \<or> sublist v y"
proof (induction x)
  case Nil
  then show ?case by (cases v) (auto simp: sublist_Cons_right)
next
  case (Cons d x)
  from Cons.prems(2) consider "prefix v (d # x @ c # y)" | "sublist v (x @ c # y)" by (auto simp: sublist_Cons_right)
  then show ?case
  proof cases
    case 1
    have "prefix v (d # x)"
    proof (rule ccontr)
      assume "\<not> prefix v (d # x)"
      with 1 have "prefix (d # x @ [c]) v"
        using prefix_same_cases [of v "d # x @ c # y" "d # x @ [c]"]
        by (metis append.assoc append_Cons append_Nil prefix_append prefix_order.eq_iff prefix_snoc self_append_conv same_prefix_prefix prefixI)
      then have "c \<in> set v" by (auto dest: set_mono_prefix)
      with Cons.prems show False by simp
    qed
    then show ?thesis by blast
  next
    case 2
    with Cons show ?thesis by (auto simp: sublist_Cons_right)
  qed
qed

definition bracketed :: "string \<Rightarrow> string \<Rightarrow> bool" where
  "bracketed t u \<longleftrightarrow> t = CHR ''['' # u @ [CHR '']'']"

lemma replace_prefix:
  "bracketed t u \<Longrightarrow> CHR ''['' \<notin> set v \<Longrightarrow> prefix v (replace a t s) \<Longrightarrow> prefix v s"
proof (induction a t s arbitrary: v rule: replace.induct)
  case (2 a t c s)
  show ?case
  proof (cases "a \<noteq> [] \<and> prefix a (c # s)")
    case True
    with 2(3-5) show ?thesis by (cases v) (auto simp: bracketed_def)
  next
    case False
    with 2(2) [OF False 2(3)] 2(4,5) show ?thesis by (cases v) auto
  qed
qed simp

lemma replace_sublist:
  assumes "set v \<inter> {CHR ''['', CHR '']''} = {}" "v \<noteq> []" "\<not> sublist v u"
  shows "bracketed t u \<Longrightarrow> sublist v (replace a t s) \<Longrightarrow> sublist v s \<and> a \<noteq> v"
proof (induction a t s rule: replace.induct)
  case (1 a t)
  with assms show ?case by simp
next
  case (2 a t c s)
  show ?case
  proof (cases "a \<noteq> [] \<and> prefix a (c # s)")
    case True
    let ?r = "replace a t (drop (length a) (c # s))"
    have "sublist v (CHR ''['' # u @ CHR '']'' # ?r)" using True 2(3,4) by (simp add: bracketed_def)
    then have "sublist v u \<or> sublist v ?r"
      using sublist_around [of "CHR ''[''" v "[]" "u @ CHR '']'' # ?r"] sublist_around [of "CHR '']''" v u ?r] assms(1,2)
      by auto
    with assms(3) have "sublist v ?r" by blast
    from 2(1) [OF True 2(3) this] show ?thesis
      using sublist_order.order.trans [of v "drop (length a) (c # s)" "c # s"] suffix_imp_sublist [OF suffix_drop] by blast
  next
    case False
    then consider "prefix v (c # replace a t s)" | "sublist v (replace a t s)"
      using 2(4) by (auto simp: sublist_Cons_right)
    then show ?thesis
    proof cases
      case pre: 1
      then have p: "prefix v (c # s)" using replace_prefix [OF 2(3), of "tl v" a s] assms(1) by (cases v) auto
      with False assms(2) have "a \<noteq> v" by auto
      with p show ?thesis by auto
    next
      case sub: 2
      from 2(2) [OF False 2(3) sub] show ?thesis by (auto simp: sublist_Cons_right)
    qed
  qed
qed


section \<open>What the values look like\<close>

text \<open>The encoding is well-formed as far as the argument needs it: no ASCII byte inside a longer code point.\<close>

definition well_formed :: "string \<Rightarrow> bool" where
  "well_formed s \<longleftrightarrow> list_all (\<lambda>p. length p = 1 \<or> list_all (\<lambda>c. 128 \<le> byte c) p) (cps s)"

definition num_char :: "string \<Rightarrow> bool" where
  "num_char p \<longleftrightarrow> is_nd p \<or> (\<exists>c. p = [c] \<and> byte c < 128 \<and> (hex_any c \<or> c \<in> set ''Xx:.''))"

text \<open>The digits among the bytes, and what is part of a longer digit.\<close>

definition numeric :: "char \<Rightarrow> bool" where
  "numeric c \<longleftrightarrow> is_digit c \<or> 128 \<le> byte c"

lemma concat_set: "c \<in> set (concat ps) \<longleftrightarrow> (\<exists>p \<in> set ps. c \<in> set p)"
  by auto

lemma filter_sublist: "sublist v u \<Longrightarrow> length (filter P v) \<le> length (filter P u)"
  by (auto simp: sublist_def)

lemma nd_numeric: "is_nd p \<Longrightarrow> length p = 1 \<or> list_all (\<lambda>c. 128 \<le> byte c) p \<Longrightarrow> p \<noteq> [] \<Longrightarrow> list_all numeric p"
  by (cases p) (auto simp: numeric_def length_Suc_conv list_all_iff dest: is_nd_ascii [THEN iffD1, rotated])

lemma num_char_plain: "num_char p \<Longrightarrow> length p = 1 \<or> list_all (\<lambda>c. 128 \<le> byte c) p \<Longrightarrow> p \<noteq> []
    \<Longrightarrow> c \<in> set p \<Longrightarrow> c \<notin> set ''[]%''"
  using nd_numeric [of p] by (fastforce simp: num_char_def numeric_def list_all_iff hex_any_def hex_lower_def is_digit_def byte_def)

lemma cps_nonempty: "p \<in> set (cps s) \<Longrightarrow> p \<noteq> []"
proof (induction s rule: cps.induct)
  case (2 c s)
  from 2(2) have "p = take (cp_width c) (c # s) \<or> p \<in> set (cps (drop (cp_width c) (c # s)))" by (simp only: cps.simps) auto
  then show ?case using 2(1) cp_width_pos [of c] by (metis neq0_conv take_eq_Nil list.distinct(1) less_irrefl)
qed simp

lemma rx_all_run: "(k, st) \<in> set (rx_all r ps i) \<Longrightarrow> st \<in> set (rx_run r ps (k, []))"
proof (induction r ps i rule: rx_all.induct)
  case (1 r ps i)
  show ?case
  proof (cases "rx_from r ps i")
    case None
    with "1.prems" show ?thesis by (subst (asm) rx_all.simps) simp
  next
    case (Some m)
    obtain j u where m: "m = (j, u)" by (cases m)
    show ?thesis
    proof (cases "i \<le> j \<and> j < fst u \<and> fst u \<le> length ps")
      case True
      with "1.prems" Some m have "k = j \<and> st = u \<or> (k, st) \<in> set (rx_all r ps (fst u))"
        by (subst (asm) rx_all.simps) auto
      with "1.IH"(1) [OF Some m [symmetric] True] rx_from_in [OF Some [unfolded m]] show ?thesis by auto
    next
      case False
      with "1.prems" Some m have "(k, st) \<in> set (rx_all r ps (i + 1))"
        by (subst (asm) rx_all.simps) (auto split: if_splits)
      with "1.IH"(2) [OF Some m [symmetric] False] show ?thesis
        using "1.prems" Some m False by (subst (asm) (2) rx_all.simps) (auto split: if_splits)
    qed
  qed
qed

lemma combined_match:
  assumes "(k, st) \<in> set (rx_all COMBINED_RE ps 0)" "group_kind st = Some kind" "kind \<in> set EXTRA_KINDS"
  obtains r b where "(fst st, b) \<in> set (rx_run r ps (k, []))"
    "(kind, r) \<in> set [(''id_card'', ID_CARD_RE), (''bank_card'', BANK_CARD_RE), (''ipv4'', IPV4_RE4), (''ipv6'', IPV6_RE6)]"
proof -
  have run: "st \<in> set (rx_run COMBINED_RE ps (k, []))" using assms(1) by (rule rx_all_run)
  have "\<exists>r b. (fst st, b) \<in> set (rx_run r ps (k, [])) \<and>
      (kind, r) \<in> set [(''id_card'', ID_CARD_RE), (''bank_card'', BANK_CARD_RE), (''ipv4'', IPV4_RE4), (''ipv6'', IPV6_RE6)]"
    using run assms(2,3)
    by (auto simp: COMBINED_RE_def group_kind_def KINDS_def EXTRA_KINDS_def split: if_splits)
  with that show thesis by blast
qed

lemma slice_set: "p \<in> set (take (e - k) (drop k ps)) \<Longrightarrow> e \<le> length ps \<Longrightarrow> \<exists>i. k \<le> i \<and> i < e \<and> p = ps ! i"
  by (auto simp: in_set_conv_nth) (metis le_add1 add.commute less_diff_conv)

text \<open>Every code point of such a match is a digit or belongs to an address.\<close>

lemma combined_chars:
  assumes "(k, st) \<in> set (rx_all COMBINED_RE ps 0)" "group_kind st = Some kind" "kind \<in> set EXTRA_KINDS"
    and "p \<in> set (take (fst st - k) (drop k ps))"
  shows "num_char p"
proof -
  obtain r b where r: "(fst st, b) \<in> set (rx_run r ps (k, []))"
    "(kind, r) \<in> set [(''id_card'', ID_CARD_RE), (''bank_card'', BANK_CARD_RE), (''ipv4'', IPV4_RE4), (''ipv6'', IPV6_RE6)]"
    using combined_match [OF assms(1-3)] by blast
  have "rx_only num_char r"
    using r(2) by (auto simp: ID_CARD_RE_def BANK_CARD_RE_def IPV4_RE4_def IPV6_RE6_def num_char_def times_def rx_d_def hexc_def
      acls_def star_def lit_def ch_def cset_def is_nd_ascii byte_def is_digit_def hex_any_def hex_lower_def)
  moreover obtain i where "k \<le> i" "i < fst st" "p = ps ! i"
    using slice_set [OF assms(4)] rx_all_in [OF assms(1)] by blast
  ultimately show ?thesis using rx_run_only [OF _ r(1)] by auto
qed

lemma bank_chars:
  assumes "(k, st) \<in> set (rx_all COMBINED_RE ps 0)" "group_kind st = Some ''bank_card''"
  shows "k + 13 \<le> fst st" "p \<in> set (take (fst st - k) (drop k ps)) \<Longrightarrow> is_nd p"
proof -
  obtain b where r: "(fst st, b) \<in> set (rx_run BANK_CARD_RE ps (k, []))"
    by (rule combined_match [OF assms]) (auto simp: EXTRA_KINDS_def)
  show "k + 13 \<le> fst st"
    using rx_run_least [OF r] by (simp add: BANK_CARD_RE_def times_def rx_d_def lit_def ch_def cset_def)
  have "rx_only is_nd BANK_CARD_RE"
    by (auto simp: BANK_CARD_RE_def times_def rx_d_def lit_def ch_def cset_def is_nd_ascii byte_def is_digit_def)
  moreover assume p: "p \<in> set (take (fst st - k) (drop k ps))"
  obtain i where "k \<le> i" "i < fst st" "p = ps ! i"
    using slice_set [OF p] rx_all_in [OF assms(1)] by blast
  ultimately show "is_nd p" using rx_run_only [OF _ r] by auto
qed

text \<open>What the second checks add.\<close>

lemma length_split_on: "length (split_on c s) = Suc (length (filter (\<lambda>x. x = c) s))"
  by (induction c s rule: split_on.induct) (auto split: list.splits)

lemma split_on_none: "c \<notin> set s \<Longrightarrow> split_on c s = [s]"
  by (induction c s rule: split_on.induct) auto

lemma valid_ipv4_point: "is_valid_ipv4 v \<Longrightarrow> CHR ''.'' \<in> set v"
proof (rule ccontr)
  assume v: "is_valid_ipv4 v" "CHR ''.'' \<notin> set v"
  then have "normalize_ipv4_leading_zeros v = v" "ipv4_parse v = None"
    by (simp_all add: normalize_ipv4_leading_zeros_def ipv4_parse_def split_on_none)
  with v(1) show False by (auto simp: is_valid_ipv4_def ip_address_def split: option.splits)
qed

lemma valid_ipv6_colons:
  assumes "is_valid_ipv6 v" "CHR ''%'' \<notin> set v"
  shows "2 \<le> length (filter (\<lambda>x. x = CHR '':'') v)"
proof -
  have "ipv6_parts v \<noteq> None"
    using assms by (cases "ipv6_parts v")
      (auto simp: is_valid_ipv6_def ip_address_def ipv6_parse_def split_on_none split: option.splits if_splits)
  then show ?thesis by (auto simp: ipv6_parts_def Let_def length_split_on split: if_splits)
qed


lemma count_numeric:
  "\<forall>p \<in> set ps. p \<noteq> [] \<and> (length p = 1 \<or> list_all (\<lambda>c. 128 \<le> byte c) p)
    \<Longrightarrow> length (filter is_nd ps) \<le> length (filter numeric (concat ps))"
proof (induction ps)
  case (Cons p ps)
  have "is_nd p \<Longrightarrow> 1 \<le> length (filter numeric p)"
    using nd_numeric [of p] Cons.prems by (cases p) auto
  with Cons show ?case by (cases "is_nd p") (auto simp: le_SucI)
qed simp

lemma extra_value_part:
  assumes "extra_value cur (cps s) kind a b = Some v" and "a \<le> b" and "b \<le> py_len s"
  shows "cps v = take (py_len v) (take (b - a) (drop a (cps s)))"
proof -
  from assms(1) have "ip_value is_valid_ipv6 (slice (cps s) a b) = Some v
      \<or> ip_value is_valid_ipv4 (slice (cps s) a b) = Some v \<or> v = slice (cps s) a b"
    by (auto simp: extra_value_def Let_def split: option.splits if_splits)
  moreover have "py_len (slice (cps s) a b) = b - a"
    using assms(2,3) by (simp add: py_len_def cps_slice)
  ultimately have v: "a + py_len v \<le> b \<and> v = slice (cps s) a (a + py_len v)"
    using ip_value_part [OF _ assms(2,3)] assms(2) by auto
  then have "cps v = take (py_len v) (drop a (cps s))" using cps_slice [of s a "a + py_len v"] by simp
  moreover have "min (py_len v) (b - a) = py_len v" using v by auto
  ultimately show ?thesis by (simp only: take_take)
qed

lemma tag_shapes:
  "kind \<in> set EXTRA_KINDS \<Longrightarrow> length (filter numeric (''REDACTED:'' @ kind)) \<le> 1"
  "kind \<in> set EXTRA_KINDS \<Longrightarrow> length (filter (\<lambda>x. x = CHR '':'') (''REDACTED:'' @ kind)) \<le> 1"
  "kind \<in> set EXTRA_KINDS \<Longrightarrow> CHR ''.'' \<notin> set (''REDACTED:'' @ kind)"
  by (auto simp: EXTRA_KINDS_def numeric_def is_digit_def byte_def)

lemma extra_value_shape:
  assumes "well_formed s" and m: "(k, st) \<in> set (rx_all COMBINED_RE (cps s) 0)" "group_kind st = Some kind" "kind \<in> set EXTRA_KINDS"
    and v: "extra_value cur (cps s) kind k (fst st) = Some v"
  shows "v \<noteq> []" "set v \<inter> {CHR ''['', CHR '']''} = {}" "kind' \<in> set EXTRA_KINDS \<Longrightarrow> \<not> sublist v (''REDACTED:'' @ kind')"
proof -
  let ?qs = "take (fst st - k) (drop k (cps s))"
  have b: "k \<le> fst st" "fst st \<le> py_len s" using rx_all_in [OF m(1)] by (auto simp: py_len_def)
  have part: "cps v = take (py_len v) ?qs" by (rule extra_value_part [OF v b])
  have wf: "p \<noteq> [] \<and> (length p = 1 \<or> list_all (\<lambda>c. 128 \<le> byte c) p)" "num_char p" if "p \<in> set (cps v)" for p
  proof -
    have q: "p \<in> set ?qs" using that part by (metis in_set_takeD)
    then show "num_char p" using combined_chars [OF m] by blast
    from q have "p \<in> set (cps s)" by (meson in_set_dropD in_set_takeD)
    then show "p \<noteq> [] \<and> (length p = 1 \<or> list_all (\<lambda>c. 128 \<le> byte c) p)"
      using assms(1) cps_nonempty by (auto simp: well_formed_def list_all_iff)
  qed
  have "c \<notin> set ''[]%''" if "c \<in> set v" for c
  proof -
    from that obtain p where "p \<in> set (cps v)" "c \<in> set p" by (metis concat_cps concat_set)
    then show ?thesis using wf num_char_plain by blast
  qed
  then have clean: "set v \<inter> {CHR ''['', CHR '']''} = {}" and per: "CHR ''%'' \<notin> set v" by auto
  then show "set v \<inter> {CHR ''['', CHR '']''} = {}" by simp
  have nd: "length (filter is_nd (cps v)) \<le> length (filter numeric v)"
    using count_numeric [of "cps v"] wf(1) by simp
  consider (digits) "2 \<le> length (filter is_nd (cps v))" | (point) "CHR ''.'' \<in> set v"
    | (colons) "2 \<le> length (filter (\<lambda>x. x = CHR '':'') v)"
  proof -
    consider "kind = ''id_card''" | "kind = ''bank_card''" | "kind = ''ipv4''" | "kind = ''ipv6''"
      using m(3) by (auto simp: EXTRA_KINDS_def)
    then show thesis
    proof cases
      case 1
      then have "id_card_ok v" using v by (auto simp: extra_value_def Let_def split: if_splits)
      then have "filter is_nd (take 17 (cps v)) = take 17 (cps v)" "length (cps v) = 18"
        by (auto simp: id_card_ok_def Let_def list_all_iff)
      then have "17 \<le> length (filter is_nd (take 17 (cps v) @ drop 17 (cps v)))" by (simp only: filter_append length_append) simp
      then show thesis using digits by (simp only: append_take_drop_id)
    next
      case 2
      then have vv: "v = slice (cps s) k (fst st)" using v by (auto simp: extra_value_def Let_def split: if_splits)
      then have "cps v = ?qs" using cps_slice [of s k "fst st"] by simp
      moreover from this have "filter is_nd (cps v) = cps v" using bank_chars(2) [OF m(1)] m(2) 2 by (simp add: filter_id_conv)
      moreover have "13 \<le> length ?qs" using bank_chars(1) [OF m(1)] m(2) 2 b by (simp add: py_len_def)
      ultimately show thesis using digits by simp
    next
      case 3
      then have "is_valid_ipv4 v" using v by (auto simp: extra_value_def ip_value_def Let_def split: if_splits option.splits)
      then show thesis using point valid_ipv4_point by blast
    next
      case 4
      then have "is_valid_ipv6 v" using v by (auto simp: extra_value_def ip_value_def Let_def split: if_splits option.splits)
      then show thesis using colons valid_ipv6_colons per by blast
    qed
  qed
  note cs = this
  from cs show "v \<noteq> []" by cases auto
  assume k': "kind' \<in> set EXTRA_KINDS"
  show "\<not> sublist v (''REDACTED:'' @ kind')"
  proof
    assume sub: "sublist v (''REDACTED:'' @ kind')"
    from cs show False
    proof cases
      case digits
      with nd filter_sublist [OF sub, of numeric] tag_shapes(1) [OF k'] show False by linarith
    next
      case point
      with set_mono_sublist [OF sub] tag_shapes(3) [OF k'] show False by blast
    next
      case colons
      with filter_sublist [OF sub, of "\<lambda>x. x = CHR '':''"] tag_shapes(2) [OF k'] show False by linarith
    qed
  qed
qed

section \<open>No number or address is left\<close>

lemma tag_bracketed: "bracketed (redacted_tag kind) (''REDACTED:'' @ kind)"
  by (simp add: bracketed_def redacted_tag_def)

lemma extra_step_keeps_out:
  assumes "v \<noteq> []" "set v \<inter> {CHR ''['', CHR '']''} = {}" "\<And>kind. kind \<in> set EXTRA_KINDS \<Longrightarrow> \<not> sublist v (''REDACTED:'' @ kind)"
    and "\<not> sublist v out"
  shows "\<not> sublist v (extra_step ps prot out m)"
proof -
  have "\<not> sublist v (replace a (redacted_tag kind) out)" if "kind \<in> set EXTRA_KINDS" for a kind
    using replace_sublist [OF assms(2,1) assms(3) [OF that] tag_bracketed] assms(4) by blast
  with assms(4) show ?thesis unfolding extra_step_def Let_def by (simp split: option.split)
qed

lemma extra_steps_keep_out:
  assumes "v \<noteq> []" "set v \<inter> {CHR ''['', CHR '']''} = {}" "\<And>kind. kind \<in> set EXTRA_KINDS \<Longrightarrow> \<not> sublist v (''REDACTED:'' @ kind)"
  shows "\<not> sublist v out \<Longrightarrow> \<not> sublist v (foldl (extra_step ps prot) out ms)"
proof (induction ms arbitrary: out)
  case (Cons m ms)
  show ?case using Cons.IH [OF extra_step_keeps_out [OF assms Cons.prems]] by simp
qed simp

text \<open>Without a question mark and an ampersand no text looks like part of a URL's query.\<close>

lemma slice_subset: "set (slice (cps s) a b) \<subseteq> set s"
proof -
  have "set (concat (take (b - a) (drop a (cps s)))) \<subseteq> set (concat (cps s))"
    unfolding set_concat by (rule UN_mono) (auto dest: in_set_takeD in_set_dropD)
  then show ?thesis by (simp add: slice_def)
qed

lemma no_query:
  assumes "CHR ''?'' \<notin> set s" "CHR ''&'' \<notin> set s"
  shows "\<not> in_url_param (cps s) a b"
proof -
  let ?t = "slice (cps s) (a - 64) (min (length (cps s)) (b + 16))"
  have no: "p \<noteq> ''?'' \<and> p \<noteq> ''&''" if "p \<in> set (cps ?t)" for p
    using that assms slice_subset [of s "a - 64" "min (length (cps s)) (b + 16)"] concat_cps [of ?t]
    by (metis concat_set list.set_intros(1) subsetD)
  have "\<not> (k < length (cps ?t) \<and> (\<exists>c \<in> set ''?&''. cps ?t ! k = [c]))" for k
    using no [of "cps ?t ! k"] by auto
  then have "rx_run (cset ''?&'') (cps ?t) (k, []) = []" for k by (simp only: cset_def rx_run.simps fst_conv snd_conv if_False)
  then have "rx_match URL_QUERY_PARAM_RE (cps ?t) k = None" for k
    by (simp add: rx_match_def URL_QUERY_PARAM_RE_def)
  then have "find (\<lambda>k. rx_match URL_QUERY_PARAM_RE (cps ?t) k \<noteq> None) [0 ..< length (cps ?t) + 1] = None"
    by (simp only: find_None_iff) simp
  then show ?thesis by (simp add: in_url_param_def re_search_def rx_from_def)
qed

lemma replace_subset: "set (replace a t s) \<subseteq> set t \<union> set s"
proof (induction a t s rule: replace.induct)
  case (2 a t c s)
  show ?case
  proof (cases "a \<noteq> [] \<and> prefix a (c # s)")
    case True
    with 2(1) [OF True] set_drop_subset [of "length a" "c # s"] show ?thesis by auto
  next
    case False
    with 2(2) [OF False] show ?thesis by auto
  qed
qed simp

lemma extra_step_no_query:
  assumes "CHR ''?'' \<notin> set out" "CHR ''&'' \<notin> set out"
  shows "CHR ''?'' \<notin> set (extra_step ps prot out m)" "CHR ''&'' \<notin> set (extra_step ps prot out m)"
proof -
  have "set (replace v (redacted_tag kind) out) \<subseteq> set out \<union> (\<Union>kind \<in> set EXTRA_KINDS. set (redacted_tag kind))"
    if "kind \<in> set EXTRA_KINDS" for v kind
    using replace_subset [of v "redacted_tag kind" out] that by blast
  then have "set (extra_step ps prot out m) \<subseteq> set out \<union> (\<Union>kind \<in> set EXTRA_KINDS. set (redacted_tag kind))"
    unfolding extra_step_def Let_def by (simp split: option.split)
  moreover have "CHR ''?'' \<notin> (\<Union>kind \<in> set EXTRA_KINDS. set (redacted_tag kind))"
    "CHR ''&'' \<notin> (\<Union>kind \<in> set EXTRA_KINDS. set (redacted_tag kind))"
    by (auto simp: EXTRA_KINDS_def redacted_tag_def)
  ultimately show "CHR ''?'' \<notin> set (extra_step ps prot out m)" "CHR ''&'' \<notin> set (extra_step ps prot out m)"
    using assms by blast+
qed

lemma extra_value_cur:
  "kind \<noteq> ''bank_card'' \<or> \<not> in_url_param cur s e \<Longrightarrow> extra_value cur' ps kind s e = Some v \<Longrightarrow> extra_value cur ps kind s e = Some v"
  by (auto simp: extra_value_def Let_def split: if_splits)

text \<open>
  C26. With the detector's module present, whatever its patterns and second checks take for an identity
  number, a card number or a public address in a text, at a place that touches no token, is nowhere in the
  result of \<open>redact_extra_pii\<close>, inside another word or a replacement included; for card numbers, if the text
  holds no question mark and no ampersand.  (This is about that function, not about the whole summary.)
\<close>

theorem extra_values_gone:
  assumes "well_formed s" and m: "(k, st) \<in> set (rx_all COMBINED_RE (cps s) 0)" "group_kind st = Some kind" "kind \<in> set EXTRA_KINDS"
    and prot: "\<not> touches (rx_places PROTECTED_TOKEN_RE (cps s)) k (fst st)"
    and v: "extra_value (cps s) (cps s) kind k (fst st) = Some v"
    and q: "kind = ''bank_card'' \<Longrightarrow> CHR ''?'' \<notin> set s \<and> CHR ''&'' \<notin> set s"
  shows "\<not> sublist v (redact_extra_pii True s)"
proof -
  note shape = extra_value_shape [OF assms(1) m v]
  let ?pr = "rx_places PROTECTED_TOKEN_RE (cps s)"
  have "\<not> sublist v (foldl (extra_step (cps s) ?pr) out ms)"
    if "(k, st) \<in> set ms" "kind = ''bank_card'' \<Longrightarrow> CHR ''?'' \<notin> set out \<and> CHR ''&'' \<notin> set out" for out ms
    using that
  proof (induction ms arbitrary: out)
    case (Cons m' ms)
    show ?case
    proof (cases "m' = (k, st)")
      case True
      have "kind \<noteq> ''bank_card'' \<or> \<not> in_url_param (cps out) k (fst st)" using Cons.prems(2) no_query by blast
      from extra_value_cur [OF this v] have "extra_value (cps out) (cps s) kind k (fst st) = Some v" .
      then have "extra_step (cps s) ?pr out m' = replace v (redacted_tag kind) out"
        using True prot m(2,3) by (simp add: extra_step_def)
      moreover have "\<not> sublist v (replace v (redacted_tag kind) out)"
        using replace_sublist [OF shape(2,1) shape(3) [OF m(3)] tag_bracketed] by blast
      ultimately show ?thesis using extra_steps_keep_out [OF shape] by simp
    next
      case False
      then have "(k, st) \<in> set ms" using Cons.prems(1) by auto
      then show ?thesis using Cons.IH [of "extra_step (cps s) ?pr out m'"] Cons.prems(2) extra_step_no_query by simp
    qed
  qed simp
  from this [OF m(1) q] show ?thesis by (simp add: redact_extra_pii_def Let_def)
qed


lemma eights: "cps ''8.8.8.8'' = [''8'', ''.'', ''8'', ''.'', ''8'', ''.'', ''8'']"
  by (simp add: cp_width_def byte_def)

lemma eights_match: "(0, 7, [(5, 0, 7)]) \<in> set (rx_all COMBINED_RE (cps ''8.8.8.8'') 0)"
proof -
  note simps = lit_def ch_def plus_def star_def opt_def rx_d_def cset_def hexc_def
        times_def acls_def dec_opt_def is_nd_ascii asc_def alnum_or_def is_alpha_ascii_def byte_def is_digit_def hex_any_def hex_lower_def
        rx_iter_numeral
  have "rx_run EMAIL_RE (cps ''8.8.8.8'') (0, []) = []"
    unfolding eights by (simp add: EMAIL_RE_def simps)
  moreover have "rx_run PHONE_RE (cps ''8.8.8.8'') (0, []) = []"
    unfolding eights by (simp add: PHONE_RE_def simps)
  moreover have "rx_run ID_CARD_RE (cps ''8.8.8.8'') (0, []) = []"
    unfolding eights by (simp add: ID_CARD_RE_def simps)
  moreover have "rx_run BANK_CARD_RE (cps ''8.8.8.8'') (0, []) = []"
    unfolding eights by (simp add: BANK_CARD_RE_def simps)
  moreover have "rx_run IPV4_RE4 (cps ''8.8.8.8'') (0, []) = [(7, [])]"
    unfolding eights by (simp add: IPV4_RE4_def simps)
  ultimately have "rx_match COMBINED_RE (cps ''8.8.8.8'') 0 = Some (7, [(5, 0, 7)])"
    by (simp add: rx_match_def COMBINED_RE_def)
  then have "rx_from COMBINED_RE (cps ''8.8.8.8'') 0 = Some (0, 7, [(5, 0, 7)])"
    by (simp add: rx_from_def upt_rec)
  then show ?thesis by (subst rx_all.simps) (simp add: eights del: cps.simps)
qed

lemma nd_value_8: "nd_value ''8'' = Some 8"
  by (simp add: nd_value_def nd_zeros_def byte_def)

lemma int_8: "py_int ''8'' = Some 8"
proof -
  have "cps ''8'' = [''8'']" by (simp add: cp_width_def byte_def)
  moreover have "\<not> is_ws ''8''" by (simp add: is_ws_def byte_def)
  ultimately have "cps (py_strip ''8'') = [''8'']" by (simp add: py_strip_def py_rstrip_def py_lstrip_def)
  then show ?thesis by (simp add: py_int_def is_nd_def nd_value_8 digits_value_def)
qed

lemma eights_ip: "normalize_ipv4_leading_zeros ''8.8.8.8'' = ''8.8.8.8''" "ip_address ''8.8.8.8'' = Some (V4 134744072)"
  by (simp_all add: normalize_ipv4_leading_zeros_def int_8 str_int_def dec.simps digit_def char_of_def bit_Suc_0_iff ip_address_def ipv4_parse_def
    ipv4_octet_def is_digit_def byte_def undec_def v4_num_def)

lemma eights_public: "\<not> exempt (V4 134744072)"
  by (simp add: exempt_v4 v4_private_def V4_PRIVATE_def V4_PRIVATE_EXCEPT_def in_net_def v4_num_def)

lemma eights_value: "extra_value (cps ''8.8.8.8'') (cps ''8.8.8.8'') ''ipv4'' 0 7 = Some ''8.8.8.8''"
  unfolding eights by (simp add: extra_value_def slice_def ip_value_def rstrip_points_def eights is_valid_ipv4_def is_reserved_ip_def
    eights_ip eights_public del: cps.simps)

lemma eights_unprotected: "rx_places PROTECTED_TOKEN_RE (cps ''8.8.8.8'') = []"
  unfolding eights by (simp add: rx_places_def rx_all.simps rx_from_def rx_match_def PROTECTED_TOKEN_RE_def lit_def ch_def upt_rec)

theorem extra_values_gone_witness: "\<not> sublist ''8.8.8.8'' (redact_extra_pii True ''8.8.8.8'')"
proof (rule extra_values_gone [OF _ eights_match])
  show "well_formed ''8.8.8.8''" unfolding well_formed_def eights by simp
  show "group_kind (7, [(5, 0, 7)]) = Some ''ipv4''" by (simp add: group_kind_def KINDS_def)
  show "extra_value (cps ''8.8.8.8'') (cps ''8.8.8.8'') ''ipv4'' 0 (fst (7, [(5, 0, 7)])) = Some ''8.8.8.8''"
    using eights_value by (simp only: fst_conv)
  show "\<not> touches (rx_places PROTECTED_TOKEN_RE (cps ''8.8.8.8'')) 0 (fst (7, [(5, 0, 7)]))"
    unfolding eights_unprotected touches_def by simp
qed (simp_all add: EXTRA_KINDS_def)

text \<open>When the detector cannot be imported, nothing of the text is kept.\<close>

lemma unverified_summary: "raw \<noteq> [] \<Longrightarrow> 23 \<le> limit \<Longrightarrow> metrics_summary False raw limit = ''[REDACTED:unverified]''"
  by (simp add: metrics_summary_def redact_extra_pii_def py_len_def cp_width_def byte_def Let_def)

end
