(* ===== verification/Metrics_Agg.thy ===== *)
theory Metrics_Agg
  imports Clock_Keys Metrics_Redact Pii_Host
begin

text \<open>
  The counters of the observability collector (\<open>_metrics.py\<close>): the latency buckets, the usage report
  of the three protocols, the counters of one request, the daily and hourly aggregates and every
  operation that adds to them.  An operation runs under the collector's lock, so it is one function;
  its clock reading is an argument.  Counts are natural numbers, the callers only add.
\<close>

section \<open>Constants and switches\<close>

text \<open>The upper bounds in milliseconds; \<open>None\<close> is the last, unbounded one (\<open>float('inf')\<close>).\<close>

definition LATENCY_BUCKETS :: "nat option list" where
  "LATENCY_BUCKETS = map Some [10, 25, 50, 100, 200, 400, 800, 1500, 3000, 5000, 10000] @ [None]"

definition RING_MAXLEN :: nat where "RING_MAXLEN = 10000"
definition FLUSH_DEBOUNCE_S :: real where "FLUSH_DEBOUNCE_S = 2"
definition QUEUE_MAXSIZE :: nat where "QUEUE_MAXSIZE = 512"
definition DAILY_RETENTION_DAYS :: nat where "DAILY_RETENTION_DAYS = 30"
definition HOURLY_RETENTION_HOURS :: nat where "HOURLY_RETENTION_HOURS = 24 * 7"

definition BUILTIN_KINDS :: "string list" where
  "BUILTIN_KINDS = [''phone'', ''id_card'', ''email'', ''bank_card'', ''ipv4'', ''ipv6'', ''api_key'']"

text \<open>The two environment variables (\<open>None\<close>: not set, which reads as \<open>'0'\<close>).\<close>

record sample_env =
  se_enabled :: "string option"
  se_persist :: "string option"

definition env_or0 :: "string option \<Rightarrow> string" where
  "env_or0 v = (case v of None \<Rightarrow> ''0'' | Some s \<Rightarrow> s)"

definition is_pii_value_sample_enabled :: "sample_env \<Rightarrow> bool" where
  "is_pii_value_sample_enabled e =
     (let raw_p = env_or0 (se_persist e); raw_e = env_or0 (se_enabled e);
          persist_valid = (raw_p \<in> {''0'', ''1''}); enabled_valid = (raw_e \<in> {''0'', ''1''});
          persist = (if persist_valid then raw_p = ''1'' else False);
          enabled = (if enabled_valid then raw_e = ''1'' else False)
      in if persist then True else enabled)"

definition is_pii_value_sample_persist :: "sample_env \<Rightarrow> bool" where
  "is_pii_value_sample_persist e =
     (let raw_p = env_or0 (se_persist e)
      in if raw_p = ''1'' then True else if raw_p = ''0'' then False else False)"

text \<open>The errors name the variable at fault.\<close>

definition parse_pii_value_sample_config :: "sample_env \<Rightarrow> bool \<times> bool \<times> string list" where
  "parse_pii_value_sample_config e =
     (let raw_e = env_or0 (se_enabled e); raw_p = env_or0 (se_persist e);
          enabled_valid = (raw_e \<in> {''0'', ''1''}); persist_valid = (raw_p \<in> {''0'', ''1''});
          errors = (if \<not> enabled_valid then [''PII_VALUE_SAMPLE_ENABLED''] else [])
            @ (if \<not> persist_valid then [''PII_VALUE_SAMPLE_PERSIST''] else []);
          persist = (if persist_valid then raw_p = ''1'' else False);
          enabled = (if enabled_valid then raw_e = ''1'' else False)
      in (if persist then True else enabled, persist, errors))"

section \<open>Latency buckets\<close>

text \<open>\<open>bisect.bisect_left\<close> on the bounds; \<open>None\<close> is \<open>inf\<close>, which is below nothing.\<close>

fun below :: "nat option \<Rightarrow> real \<Rightarrow> bool" where
  "below None x = False"
| "below (Some b) x = (real b < x)"

function bisect_left :: "nat option list \<Rightarrow> real \<Rightarrow> nat \<Rightarrow> nat \<Rightarrow> nat" where
  "bisect_left a x lo hi =
     (if lo < hi then
        let mid = (lo + hi) div 2
        in if below (a ! mid) x then bisect_left a x (mid + 1) hi else bisect_left a x lo mid
      else lo)"
  by auto
termination by (relation "measure (\<lambda>(a, x, lo, hi). hi - lo)") auto

declare bisect_left.simps [simp del]

definition metrics_bucket :: "real \<Rightarrow> nat option" where
  "metrics_bucket latency_ms = LATENCY_BUCKETS ! bisect_left LATENCY_BUCKETS latency_ms 0 (length LATENCY_BUCKETS)"

text \<open>\<open>str(bucket)\<close>, the key under which it is counted, and \<open>float(key)\<close>.\<close>

definition bucket_key :: "nat option \<Rightarrow> string" where
  "bucket_key b = (case b of None \<Rightarrow> ''inf'' | Some n \<Rightarrow> dec n)"

definition key_bound :: "string \<Rightarrow> nat option" where
  "key_bound k = (if k = ''inf'' then None else Some (undec k))"

section \<open>Usage reports\<close>

record usage =
  us_prompt :: "int option"
  us_completion :: "int option"
  us_total :: "int option"
  us_input :: "int option"
  us_output :: "int option"
  us_cached_read :: json
  us_cached_write :: json
  us_unknown :: bool

text \<open>\<open>isinstance(x, int)\<close>, which a Boolean passes too; \<open>x or 0\<close>.\<close>

fun py_int_of :: "json option \<Rightarrow> int option" where
  "py_int_of (Some (JInt i)) = Some i"
| "py_int_of (Some (JBool b)) = Some (if b then 1 else 0)"
| "py_int_of _ = None"

definition or_zero :: "json option \<Rightarrow> json" where
  "or_zero v = (case v of Some x \<Rightarrow> if jtruthy x then x else JInt 0 | None \<Rightarrow> JInt 0)"

definition not_none :: "json option \<Rightarrow> json option" where
  "not_none v = (if v = Some JNull then None else v)"

text \<open>
  \<open>details = obj.get(k) or {}\<close>, then \<open>details.get('cached_tokens', 0) or 0\<close>: only a dictionary, or what
  counts as false, works; the rest is an \<open>AttributeError\<close>.
\<close>

definition cached_in :: "json \<Rightarrow> string \<Rightarrow> json option" where
  "cached_in obj k =
     (case jget obj k of
        None \<Rightarrow> Some (JInt 0)
      | Some d \<Rightarrow>
          if \<not> jtruthy d then Some (JInt 0)
          else case d of JObj e \<Rightarrow> Some (or_zero (dget e ''cached_tokens'')) | _ \<Rightarrow> None)"

definition empty_usage :: usage where
  "empty_usage = \<lparr>us_prompt = None, us_completion = None, us_total = None, us_input = None, us_output = None,
     us_cached_read = JInt 0, us_cached_write = JInt 0, us_unknown = True\<rparr>"

text \<open>\<open>None\<close> as the result is the exception.\<close>

definition normalize_usage :: "json \<Rightarrow> string \<Rightarrow> usage option" where
  "normalize_usage obj protocol =
     (case obj of
        JObj d \<Rightarrow>
          (let prompt = py_int_of (dget d ''prompt_tokens''); completion = py_int_of (dget d ''completion_tokens'');
               input_t = py_int_of (dget d ''input_tokens''); output = py_int_of (dget d ''output_tokens'');
               total0 = (case not_none (dget d ''total_tokens'') of None \<Rightarrow> not_none (dget d ''total'') | Some t \<Rightarrow> Some t);
               ok = (\<lambda>x. case x of None \<Rightarrow> False | Some i \<Rightarrow> 0 \<le> i);
               total = (case total0 of
                   Some t \<Rightarrow> py_int_of (Some t)
                 | None \<Rightarrow> if ok input_t \<and> ok output then Some (the input_t + the output)
                     else if ok input_t then input_t else if ok output then output else None);
               caches = (if protocol = ''anthropic'' then
                     Some (or_zero (dget d ''cache_read_input_tokens''), or_zero (dget d ''cache_creation_input_tokens''))
                   else map_option (\<lambda>r. (r, JInt 0))
                     (cached_in obj (if protocol = ''responses'' then ''input_tokens_details'' else ''prompt_tokens_details'')))
           in case caches of
                None \<Rightarrow> None
              | Some (cached_read, cached_write) \<Rightarrow>
                  Some \<lparr>us_prompt = prompt, us_completion = completion, us_total = total, us_input = input_t, us_output = output,
                    us_cached_read = cached_read, us_cached_write = cached_write,
                    us_unknown = (\<not> (prompt \<noteq> None \<and> completion \<noteq> None \<or> input_t \<noteq> None \<and> output \<noteq> None))\<rparr>)
      | _ \<Rightarrow> Some empty_usage)"

section \<open>Counting\<close>

definition bump :: "nat \<Rightarrow> string \<Rightarrow> (string, nat) dict \<Rightarrow> (string, nat) dict" where
  "bump n k d = dset k (dget_or d k 0 + n) d"

text \<open>\<open>t.get(k, 0) + v\<close> for numbers; Booleans count as numbers.\<close>

fun num_add :: "json \<Rightarrow> json \<Rightarrow> json" where
  "num_add (JFlt a) b = (case jnum b of Some y \<Rightarrow> JFlt (a + y)
     | None \<Rightarrow> JFlt (a + real_of_int (case py_int_of (Some b) of Some j \<Rightarrow> j | None \<Rightarrow> 0)))"
| "num_add a (JFlt y) = JFlt (real_of_int (case py_int_of (Some a) of Some i \<Rightarrow> i | None \<Rightarrow> 0) + y)"
| "num_add a b = JInt ((case py_int_of (Some a) of Some i \<Rightarrow> i | None \<Rightarrow> 0) + (case py_int_of (Some b) of Some j \<Rightarrow> j | None \<Rightarrow> 0))"

definition is_number :: "json \<Rightarrow> bool" where
  "is_number v \<longleftrightarrow> py_int_of (Some v) \<noteq> None \<or> jnum v \<noteq> None"

type_synonym tokens = "(string, (string, json) dict) dict"

definition add_usage :: "(string, json) dict \<Rightarrow> (string, json) dict \<Rightarrow> (string, json) dict" where
  "add_usage t u = foldl (\<lambda>t (k, v). if is_number v then dset k (num_add (dget_or t k (JInt 0)) v) t else t) t u"

definition merge_tokens :: "tokens \<Rightarrow> (string, json) dict \<Rightarrow> tokens" where
  "merge_tokens target src =
     foldl (\<lambda>t (model, u). case u of JObj d \<Rightarrow> dset model (add_usage (dget_or t model []) d) t | _ \<Rightarrow> t) target src"

section \<open>Samples\<close>

text \<open>The \<open>n\<close> entries of the largest key, larger ones first, equal ones in their order.\<close>

definition top_n :: "nat \<Rightarrow> ('a \<Rightarrow> nat) \<Rightarrow> 'a list \<Rightarrow> 'a list" where
  "top_n n f xs = take n (sort_key (\<lambda>x. - int (f x)) xs)"

definition cap_kinds :: "samples \<Rightarrow> samples" where
  "cap_kinds d = (if 8 < length d then top_n 8 (bucket_total \<circ> snd) d else d)"

text \<open>The samples of the request, with clean kinds, short texts and counts of at least one.\<close>

definition clean_bucket :: "bucket \<Rightarrow> bucket" where
  "clean_bucket inner = foldl (\<lambda>d (mk, cnt, hsh). dset (py_take 64 mk) (max cnt 1, py_take 16 hsh) d) [] inner"

definition add_counts :: "bucket \<Rightarrow> bucket \<Rightarrow> bucket" where
  "add_counts exist new = foldl (\<lambda>d (mk, cnt, hsh).
     case dget d mk of Some (n, x) \<Rightarrow> dset mk (n + cnt, x) d | None \<Rightarrow> dset mk (cnt, hsh) d) exist new"

definition samples_delta :: "samples \<Rightarrow> samples" where
  "samples_delta raw = foldl (\<lambda>d (k, inner).
     let sk = sanitize_kind k []; copied = clean_bucket inner
     in if copied = [] then d
        else case dget d sk of Some exist \<Rightarrow> dset sk (add_counts exist copied) d | None \<Rightarrow> dset sk copied d) [] raw"

text \<open>Into an aggregate: the five largest of each kind, the eight largest kinds.\<close>

definition merge_samples :: "samples \<Rightarrow> samples \<Rightarrow> samples" where
  "merge_samples pvs delta =
     (if delta = [] then pvs
      else cap_kinds (foldl (\<lambda>d (kind, new).
        let target = add_counts (dget_or d kind []) new
        in dset kind (if 5 < length target then top_n 5 (fst \<circ> snd) target else target) d) pvs delta))"


section \<open>The counters of a request\<close>

record req_ctx =
  rq_pii_hits :: nat
  rq_pii_miss :: nat
  rq_cred_hits :: nat
  rq_cred_miss :: nat
  rq_by_type :: "(string, nat) dict"
  rq_samples :: samples

definition fresh_ctx :: req_ctx where
  "fresh_ctx = \<lparr>rq_pii_hits = 0, rq_pii_miss = 0, rq_cred_hits = 0, rq_cred_miss = 0, rq_by_type = [], rq_samples = []\<rparr>"

text \<open>The context variable, \<open>None\<close> outside a request; the flag says whether the request took the count.\<close>

definition req_pii_ctx :: "req_ctx option \<Rightarrow> req_ctx" where
  "req_pii_ctx c = (case c of None \<Rightarrow> fresh_ctx | Some d \<Rightarrow> d)"

definition accumulate_pii_cache :: "nat \<Rightarrow> nat \<Rightarrow> req_ctx option \<Rightarrow> req_ctx option \<times> bool" where
  "accumulate_pii_cache hit miss c =
     (case c of
        None \<Rightarrow> (None, False)
      | Some d \<Rightarrow> (Some (d\<lparr>rq_pii_hits := rq_pii_hits d + hit, rq_pii_miss := rq_pii_miss d + miss\<rparr>), True))"

definition accumulate_pii_detected :: "(string, nat) dict \<Rightarrow> req_ctx option \<Rightarrow> req_ctx option \<times> bool" where
  "accumulate_pii_detected by_kind c =
     (if by_kind = [] then (c, False)
      else case c of
        None \<Rightarrow> (None, False)
      | Some d \<Rightarrow> (Some (d\<lparr>rq_by_type := merge_counts (rq_by_type d) by_kind\<rparr>), True))"

definition accumulate_cred :: "nat \<Rightarrow> nat \<Rightarrow> req_ctx option \<Rightarrow> req_ctx option" where
  "accumulate_cred hit miss c =
     map_option (\<lambda>d. d\<lparr>rq_cred_hits := rq_cred_hits d + hit, rq_cred_miss := rq_cred_miss d + miss\<rparr>) c"

definition reset_req_pii_ctx :: "req_ctx option \<Rightarrow> req_ctx option" where
  "reset_req_pii_ctx c = None"

section \<open>The aggregates\<close>

text \<open>One day, or one hour, of one upstream: the columns both have, and those of the day.\<close>

record hourly_agg =
  ag_requests :: nat
  ag_by_status :: "(string, nat) dict"
  ag_tokens :: tokens
  ag_latency :: "(string, nat) dict"
  ag_pii_by_type :: "(string, nat) dict"
  ag_pii_hits :: nat
  ag_pii_miss :: nat
  ag_pii_requests :: nat
  ag_pii_lru :: nat
  ag_cred_lru :: nat
  ag_samples :: samples

record daily_agg = hourly_agg +
  ag_cred_hits :: nat
  ag_cred_miss :: nat
  ag_by_verdict :: "(string, nat) dict"
  ag_by_rule :: "(string, nat) dict"
  ag_injected :: nat
  ag_truncated :: nat
  ag_json_success :: nat
  ag_json_leaf :: nat
  ag_json_full :: nat

definition hourly_init :: hourly_agg where
  "hourly_init = \<lparr>ag_requests = 0, ag_by_status = [], ag_tokens = [], ag_latency = [], ag_pii_by_type = [], ag_pii_hits = 0,
     ag_pii_miss = 0, ag_pii_requests = 0, ag_pii_lru = 0, ag_cred_lru = 0, ag_samples = []\<rparr>"

definition daily_init :: daily_agg where
  "daily_init = hourly_agg.extend hourly_init \<lparr>ag_cred_hits = 0, ag_cred_miss = 0, ag_by_verdict = [], ag_by_rule = [], ag_injected = 0,
     ag_truncated = 0, ag_json_success = 0, ag_json_leaf = 0, ag_json_full = 0\<rparr>"

text \<open>An entry of the ring of recent events.\<close>

record event =
  ev_ts :: real
  ev_id :: string
  ev_upstream :: string
  ev_model :: string
  ev_tail :: string
  ev_status :: string
  ev_latency :: "real option"
  ev_pii_hits :: nat
  ev_pii_miss :: nat
  ev_pii_found :: bool
  ev_cred_hits :: nat
  ev_cred_miss :: nat
  ev_tokens :: "(string, json) dict"
  ev_verdict :: string
  ev_summary :: string
  ev_client_gone :: bool
  ev_exception :: bool
  ev_samples :: "(string, (string, nat) dict) dict"

type_synonym agg_key = "string \<times> string"

record collector =
  mc_counters :: "(string, json) dict"
  mc_ring :: "event list"
  mc_daily :: "(agg_key, daily_agg) dict"
  mc_hourly :: "(agg_key, hourly_agg) dict"

definition collector_init :: collector where
  "collector_init = \<lparr>mc_counters = [], mc_ring = [], mc_daily = [], mc_hourly = []\<rparr>"

text \<open>\<open>setdefault(key, _DailyAgg())\<close> followed by changes of that aggregate, and for the hour.\<close>

definition on_daily :: "real \<Rightarrow> string \<Rightarrow> (daily_agg \<Rightarrow> daily_agg) \<Rightarrow> 'a collector_scheme \<Rightarrow> 'a collector_scheme" where
  "on_daily now up f c =
     c\<lparr>mc_daily := dset (day_key now, up) (f (dget_or (mc_daily c) (day_key now, up) daily_init)) (mc_daily c)\<rparr>"

definition on_hourly :: "real \<Rightarrow> string \<Rightarrow> (hourly_agg \<Rightarrow> hourly_agg) \<Rightarrow> 'a collector_scheme \<Rightarrow> 'a collector_scheme" where
  "on_hourly now up f c =
     c\<lparr>mc_hourly := dset (hour_key now, up) (f (dget_or (mc_hourly c) (hour_key now, up) hourly_init)) (mc_hourly c)\<rparr>"

section \<open>The end of a request\<close>

record event_args =
  ea_upstream :: string
  ea_status :: nat
  ea_latency :: "real option"
  ea_empty_guarded :: bool
  ea_invalid_json :: bool
  ea_client_gone :: bool
  ea_exception :: bool
  ea_sse_events :: nat
  ea_truncated :: nat
  ea_json_success :: nat
  ea_json_leaf :: nat
  ea_json_full :: nat
  ea_injected :: bool
  ea_pii_hits :: nat
  ea_pii_miss :: nat
  ea_pii_found :: bool
  ea_cred_hits :: nat
  ea_cred_miss :: nat
  ea_model :: string
  ea_tokens :: "(string, json) dict"
  ea_by_verdict :: "(string, nat) dict"
  ea_by_rule :: "(string, nat) dict"
  ea_by_type :: "(string, nat) dict"
  ea_id :: string
  ea_tail :: string
  ea_verdict :: string
  ea_raw_summary :: string

definition model_ok :: "string \<Rightarrow> bool" where
  "model_ok m \<longleftrightarrow> m \<noteq> [] \<and> length m \<le> 64 \<and> list_all (\<lambda>c. byte c < 128 \<and> alnum_or ''._/:@-'' c) m"

text \<open>
  What is counted: the arguments with clean kinds, completed by the counters of the request, which are
  only read when the request has an identifier.
\<close>

definition clean_types :: "(string, nat) dict \<Rightarrow> (string, nat) dict" where
  "clean_types d = foldl (\<lambda>e (k, v). bump v (sanitize_kind k []) e) [] d"

definition effective :: "req_ctx option \<Rightarrow> event_args \<Rightarrow> event_args" where
  "effective ctx e =
     (let e1 = e\<lparr>ea_by_type := clean_types (ea_by_type e), ea_model := (if model_ok (ea_model e) then ea_model e else ''unknown_model'')\<rparr>
      in case (if ea_id e = [] then None else ctx) of
           None \<Rightarrow> e1
         | Some q \<Rightarrow> e1\<lparr>ea_pii_hits := (if ea_pii_hits e = 0 then rq_pii_hits q else ea_pii_hits e),
             ea_pii_miss := (if ea_pii_miss e = 0 then rq_pii_miss q else ea_pii_miss e),
             ea_cred_hits := (if ea_cred_hits e = 0 then rq_cred_hits q else ea_cred_hits e),
             ea_cred_miss := (if ea_cred_miss e = 0 then rq_cred_miss q else ea_cred_miss e),
             ea_by_type := merge_counts (ea_by_type e1) (rq_by_type q)\<rparr>)"

definition event_samples :: "sample_env \<Rightarrow> req_ctx option \<Rightarrow> samples" where
  "event_samples env ctx =
     (case ctx of
        None \<Rightarrow> []
      | Some q \<Rightarrow> if \<not> is_pii_value_sample_enabled env then [] else cap_kinds (samples_delta (rq_samples q)))"

text \<open>What an event adds to an hour, and to a day.\<close>

definition hourly_event :: "event_args \<Rightarrow> samples \<Rightarrow> 'a hourly_agg_scheme \<Rightarrow> 'a hourly_agg_scheme" where
  "hourly_event e delta h =
     h\<lparr>ag_requests := ag_requests h + 1,
       ag_by_status := bump 1 (dec (ea_status e)) (ag_by_status h),
       ag_latency := (case ea_latency e of None \<Rightarrow> ag_latency h
          | Some ms \<Rightarrow> bump 1 (bucket_key (metrics_bucket ms)) (ag_latency h)),
       ag_pii_by_type := merge_counts (ag_pii_by_type h) (ea_by_type e),
       ag_pii_hits := ag_pii_hits h + ea_pii_hits e,
       ag_pii_miss := ag_pii_miss h + ea_pii_miss e,
       ag_pii_requests := (if ea_pii_found e then ag_pii_requests h + 1 else ag_pii_requests h),
       ag_tokens := (if ea_tokens e = [] then ag_tokens h else merge_tokens (ag_tokens h) (ea_tokens e)),
       ag_samples := merge_samples (ag_samples h) delta\<rparr>"

definition bump_if :: "nat \<Rightarrow> string \<Rightarrow> (string, nat) dict \<Rightarrow> (string, nat) dict" where
  "bump_if n k d = (if n = 0 then d else bump n k d)"

definition daily_event :: "event_args \<Rightarrow> samples \<Rightarrow> daily_agg \<Rightarrow> daily_agg" where
  "daily_event e delta d0 =
     (let d = hourly_event e delta d0
      in d\<lparr>ag_by_status := bump_if (ea_sse_events e) ''sse_events'' (bump_if (of_bool (ea_invalid_json e)) ''invalid_json_guarded''
             (bump_if (of_bool (ea_empty_guarded e)) ''empty_guarded'' (ag_by_status d))),
           ag_truncated := ag_truncated d + ea_truncated e,
           ag_json_success := ag_json_success d + ea_json_success e,
           ag_json_leaf := ag_json_leaf d + ea_json_leaf e,
           ag_json_full := ag_json_full d + ea_json_full e,
           ag_injected := ag_injected d + of_bool (ea_injected e),
           ag_cred_hits := ag_cred_hits d + ea_cred_hits e,
           ag_cred_miss := ag_cred_miss d + ea_cred_miss e,
           ag_by_verdict := merge_counts (ag_by_verdict d) (ea_by_verdict e),
           ag_by_rule := merge_counts (ag_by_rule d) (ea_by_rule e)\<rparr>)"

text \<open>The samples in the ring: without the hash, at most eight of each of at most eight kinds.\<close>

definition simplified :: "samples \<Rightarrow> (string, (string, nat) dict) dict" where
  "simplified delta = foldl (\<lambda>d (k, inner). if inner = [] then d
       else dset k (map (\<lambda>(mk, cnt, hsh). (mk, cnt)) (filter (\<lambda>(mk, cnt, hsh). 0 < cnt) (top_n 8 (fst \<circ> snd) inner))) d)
     [] (top_n 8 (bucket_total \<circ> snd) delta)"

definition ring_event :: "bool \<Rightarrow> real \<Rightarrow> event_args \<Rightarrow> samples \<Rightarrow> event" where
  "ring_event imported now e delta =
     \<lparr>ev_ts = now, ev_id = ea_id e, ev_upstream = ea_upstream e, ev_model = ea_model e, ev_tail = ea_tail e,
      ev_status = dec (ea_status e), ev_latency = ea_latency e, ev_pii_hits = ea_pii_hits e, ev_pii_miss = ea_pii_miss e,
      ev_pii_found = ea_pii_found e, ev_cred_hits = ea_cred_hits e, ev_cred_miss = ea_cred_miss e, ev_tokens = ea_tokens e,
      ev_verdict = ea_verdict e, ev_summary = metrics_summary imported (ea_raw_summary e) 120,
      ev_client_gone = ea_client_gone e, ev_exception = ea_exception e, ev_samples = simplified delta\<rparr>"

text \<open>\<open>deque(maxlen=RING_MAXLEN).append\<close>\<close>

definition ring_append :: "event \<Rightarrow> event list \<Rightarrow> event list" where
  "ring_append ev ring = drop (length ring + 1 - RING_MAXLEN) (ring @ [ev])"

definition incr_event ::
  "bool \<Rightarrow> sample_env \<Rightarrow> real \<Rightarrow> event_args \<Rightarrow> req_ctx option \<Rightarrow> 'a collector_scheme \<Rightarrow> req_ctx option \<times> 'a collector_scheme" where
  "incr_event imported env now args ctx c =
     (let e = effective ctx args; delta = event_samples env ctx;
          ctx' = map_option (\<lambda>q. q\<lparr>rq_samples := []\<rparr>) ctx;
          c1 = on_hourly now (ea_upstream e) (hourly_event e delta) (on_daily now (ea_upstream e) (daily_event e delta) c);
          c2 = (if ea_id e = [] then c1 else c1\<lparr>mc_ring := ring_append (ring_event imported now e delta) (mc_ring c1)\<rparr>)
      in (ctx', c2))"


section \<open>The other counters\<close>

definition add_lru :: "nat \<Rightarrow> nat \<Rightarrow> 'a hourly_agg_scheme \<Rightarrow> 'a hourly_agg_scheme" where
  "add_lru cred pii a = a\<lparr>ag_cred_lru := ag_cred_lru a + cred, ag_pii_lru := ag_pii_lru a + pii\<rparr>"

definition incr_lru_evictions :: "real \<Rightarrow> nat \<Rightarrow> nat \<Rightarrow> 'a collector_scheme \<Rightarrow> 'a collector_scheme" where
  "incr_lru_evictions now cred pii c =
     on_hourly now ''other'' (add_lru cred pii) (on_daily now ''other'' (add_lru cred pii) c)"

definition incr_placeholder_injected :: "real \<Rightarrow> 'a collector_scheme \<Rightarrow> 'a collector_scheme" where
  "incr_placeholder_injected now c = on_daily now ''other'' (\<lambda>d. d\<lparr>ag_injected := ag_injected d + 1\<rparr>) c"

definition incr_truncated :: "real \<Rightarrow> 'a collector_scheme \<Rightarrow> 'a collector_scheme" where
  "incr_truncated now c = on_daily now ''other'' (\<lambda>d. d\<lparr>ag_truncated := ag_truncated d + 1\<rparr>) c"

definition bump_json :: "string \<Rightarrow> (string, json) dict \<Rightarrow> (string, json) dict" where
  "bump_json k d = dset k (num_add (dget_or d k (JInt 0)) (JInt 1)) d"

definition incr_audit_log_write_fail :: "'a collector_scheme \<Rightarrow> 'a collector_scheme" where
  "incr_audit_log_write_fail c = c\<lparr>mc_counters := bump_json ''audit_log_write_fail'' (mc_counters c)\<rparr>"

text \<open>\<open>setdefault\<close> of an inner dictionary; nothing else is ever stored there.\<close>

definition incr_audit_approval_result :: "string \<Rightarrow> 'a collector_scheme \<Rightarrow> 'a collector_scheme" where
  "incr_audit_approval_result r c =
     (case dget_or (mc_counters c) ''audit_approval_result'' (JObj []) of
        JObj cur \<Rightarrow> c\<lparr>mc_counters := dset ''audit_approval_result'' (JObj (bump_json r cur)) (mc_counters c)\<rparr>
      | _ \<Rightarrow> c)"

definition set_audit_pending_gauge :: "int \<Rightarrow> int \<Rightarrow> 'a collector_scheme \<Rightarrow> 'a collector_scheme" where
  "set_audit_pending_gauge pending overflows c =
     (let cs = dset ''audit_pending_total'' (JInt pending) (mc_counters c)
      in c\<lparr>mc_counters := (if overflows \<noteq> 0 then dset ''audit_hold_overflows'' (JInt overflows) cs else cs)\<rparr>)"

definition set_health_flag :: "string \<Rightarrow> json \<Rightarrow> 'a collector_scheme \<Rightarrow> 'a collector_scheme" where
  "set_health_flag k v c = c\<lparr>mc_counters := dset k v (mc_counters c)\<rparr>"

definition add_hits :: "nat \<Rightarrow> nat \<Rightarrow> 'a hourly_agg_scheme \<Rightarrow> 'a hourly_agg_scheme" where
  "add_hits hit miss a = a\<lparr>ag_pii_hits := ag_pii_hits a + hit, ag_pii_miss := ag_pii_miss a + miss\<rparr>"

definition add_types :: "(string, nat) dict \<Rightarrow> 'a hourly_agg_scheme \<Rightarrow> 'a hourly_agg_scheme" where
  "add_types by_kind a = a\<lparr>ag_pii_by_type := merge_counts (ag_pii_by_type a) by_kind\<rparr>"

text \<open>
  The calls from synchronous code.  Exceptions inside are swallowed (\<open>_sync_fail_open\<close>); none occurs.
  What belongs to a request goes to its context and is counted by \<open>incr_event\<close>.
\<close>

definition incr_sync_pii_cache ::
  "real \<Rightarrow> nat \<Rightarrow> nat \<Rightarrow> req_ctx option \<times> 'a collector_scheme \<Rightarrow> req_ctx option \<times> 'a collector_scheme" where
  "incr_sync_pii_cache now hit miss s =
     (case accumulate_pii_cache hit miss (fst s) of
        (ctx, True) \<Rightarrow> (ctx, snd s)
      | (ctx, False) \<Rightarrow> (ctx, on_hourly now ''other'' (add_hits hit miss) (on_daily now ''other'' (add_hits hit miss) (snd s))))"

definition incr_sync_pii_detected ::
  "real \<Rightarrow> (string, nat) dict \<Rightarrow> req_ctx option \<times> 'a collector_scheme \<Rightarrow> req_ctx option \<times> 'a collector_scheme" where
  "incr_sync_pii_detected now by_kind s =
     (case accumulate_pii_detected by_kind (fst s) of
        (ctx, True) \<Rightarrow> (ctx, snd s)
      | (ctx, False) \<Rightarrow> (ctx, on_hourly now ''other'' (add_types by_kind) (on_daily now ''other'' (add_types by_kind) (snd s))))"

definition incr_sync_cred :: "real \<Rightarrow> nat \<Rightarrow> nat \<Rightarrow> 'a collector_scheme \<Rightarrow> 'a collector_scheme" where
  "incr_sync_cred now hit miss c =
     on_daily now ''other'' (\<lambda>d. d\<lparr>ag_cred_hits := ag_cred_hits d + hit, ag_cred_miss := ag_cred_miss d + miss\<rparr>) c"

definition incr_sync_audit :: "real \<Rightarrow> string \<Rightarrow> string \<Rightarrow> 'a collector_scheme \<Rightarrow> 'a collector_scheme" where
  "incr_sync_audit now verdict rule c =
     on_daily now ''other'' (\<lambda>d. d\<lparr>ag_by_verdict := bump 1 verdict (ag_by_verdict d),
        ag_by_rule := (if rule = [] then ag_by_rule d else bump 1 rule (ag_by_rule d))\<rparr>) c"

section \<open>Buckets are exact\<close>

text \<open>What the search keeps: all before \<open>lo\<close> is below, nothing from \<open>hi\<close> on is.\<close>

definition split_at :: "nat option list \<Rightarrow> real \<Rightarrow> nat \<Rightarrow> nat \<Rightarrow> bool" where
  "split_at a x lo hi \<longleftrightarrow> lo \<le> hi \<and> hi \<le> length a \<and> (\<forall>i < lo. below (a ! i) x)
     \<and> (\<forall>i. hi \<le> i \<and> i < length a \<longrightarrow> \<not> below (a ! i) x)"

lemma bisect_left_finds:
  assumes ord: "\<forall>i j. i \<le> j \<and> j < length a \<and> below (a ! j) x \<longrightarrow> below (a ! i) x"
  shows "split_at a x lo hi \<Longrightarrow> split_at a x (bisect_left a x lo hi) (bisect_left a x lo hi)"
  using ord
proof (induction a x lo hi rule: bisect_left.induct)
  case (1 a x lo hi)
  let ?mid = "(lo + hi) div 2"
  show ?case
  proof (cases "lo < hi")
    case True
    then have mid: "lo \<le> ?mid" "?mid < hi" by auto
    then have len: "?mid < length a" using 1(3) by (simp add: split_at_def)
    show ?thesis
    proof (cases "below (a ! ?mid) x")
      case below: True
      have "bisect_left a x lo hi = bisect_left a x (?mid + 1) hi"
        using True below by (simp add: bisect_left.simps [of a x lo hi] Let_def)
      moreover have "\<forall>i < ?mid + 1. below (a ! i) x" using 1(4) len below by (simp only: less_Suc_eq_le Suc_eq_plus1 [symmetric]) blast
      then have "split_at a x (?mid + 1) hi" using 1(3) mid(2) by (simp only: split_at_def Suc_eq_plus1 [symmetric] Suc_le_eq) blast
      ultimately show ?thesis using 1(1) [OF True refl below _ 1(4)] by simp
    next
      case above: False
      have "bisect_left a x lo hi = bisect_left a x lo ?mid"
        using True above by (simp add: bisect_left.simps [of a x lo hi] Let_def)
      moreover have "\<forall>i. ?mid \<le> i \<and> i < length a \<longrightarrow> \<not> below (a ! i) x" using 1(4) above by blast
      then have "split_at a x lo ?mid" using 1(3) mid(1) len unfolding split_at_def by (meson less_imp_le)
      ultimately show ?thesis using 1(2) [OF True refl above _ 1(4)] by simp
    qed
  next
    case False
    then have "bisect_left a x lo hi = lo" by (simp add: bisect_left.simps [of a x lo hi])
    moreover have "hi = lo" using False 1(3) by (simp add: split_at_def)
    ultimately show ?thesis using 1(3) by simp
  qed
qed

text \<open>The unbounded bucket holds everything, and a bucket what is at most its bound.\<close>

fun fits :: "real \<Rightarrow> nat option \<Rightarrow> bool" where
  "fits x None = True"
| "fits x (Some b) = (x \<le> real b)"

lemma fits_below: "fits x b \<longleftrightarrow> \<not> below b x"
  by (cases b) auto

lemma LATENCY_len: "length LATENCY_BUCKETS = 12"
  by (simp add: LATENCY_BUCKETS_def)

lemma LATENCY_order:
  assumes "i \<le> j" "j < length LATENCY_BUCKETS" "below (LATENCY_BUCKETS ! j) x"
  shows "below (LATENCY_BUCKETS ! i) x"
proof -
  have "sorted_wrt (\<lambda>a b. below b x \<longrightarrow> below a x) LATENCY_BUCKETS"
    by (simp add: LATENCY_BUCKETS_def)
  with assms show ?thesis using sorted_wrt_nth_less [of _ LATENCY_BUCKETS i j] by (cases "i = j") auto
qed

lemma bucket_least:
  "\<exists>i < length LATENCY_BUCKETS. metrics_bucket x = LATENCY_BUCKETS ! i \<and> fits x (LATENCY_BUCKETS ! i)
     \<and> (\<forall>j < i. \<not> fits x (LATENCY_BUCKETS ! j))"
proof -
  let ?i = "bisect_left LATENCY_BUCKETS x 0 (length LATENCY_BUCKETS)"
  have "split_at LATENCY_BUCKETS x 0 (length LATENCY_BUCKETS)" by (auto simp: split_at_def)
  then have s: "split_at LATENCY_BUCKETS x ?i ?i" using bisect_left_finds LATENCY_order by blast
  then have b: "\<forall>i < ?i. below (LATENCY_BUCKETS ! i) x" "?i \<le> length LATENCY_BUCKETS"
    "\<forall>i. ?i \<le> i \<and> i < length LATENCY_BUCKETS \<longrightarrow> \<not> below (LATENCY_BUCKETS ! i) x"
    unfolding split_at_def by blast+
  have "\<not> below (LATENCY_BUCKETS ! 11) x" by (simp add: LATENCY_BUCKETS_def)
  with b(1) have "\<not> 11 < ?i" by blast
  then have i: "?i < length LATENCY_BUCKETS" using LATENCY_len by simp
  show ?thesis
  proof (intro exI [of _ ?i] conjI allI impI)
    show "metrics_bucket x = LATENCY_BUCKETS ! ?i" by (simp only: metrics_bucket_def)
    show "fits x (LATENCY_BUCKETS ! ?i)" using b(3) i by (simp only: fits_below) blast
    show "\<not> fits x (LATENCY_BUCKETS ! j)" if "j < ?i" for j using b(1) that by (simp only: fits_below) blast
  qed (rule i)
qed

text \<open>
  The bucket of a latency is the smallest one that holds it: its bound is not below the latency, and
  every bucket before it is.
\<close>

theorem bucket_smallest:
  "\<exists>i < length LATENCY_BUCKETS. metrics_bucket x = LATENCY_BUCKETS ! i \<and> fits x (LATENCY_BUCKETS ! i)
     \<and> (\<forall>j < i. \<not> fits x (LATENCY_BUCKETS ! j))"
  by (rule bucket_least)

section \<open>Totals are sums\<close>

text \<open>
  The contract of something that counts: each operation that is allowed adds its gain to the measure and
  keeps the invariant.  Then a run adds the sum of the gains.
\<close>

locale additive =
  fixes step :: "'op \<Rightarrow> 's \<Rightarrow> 's" and ok :: "'op \<Rightarrow> bool" and inv :: "'s \<Rightarrow> bool"
    and meas :: "'s \<Rightarrow> nat" and gain :: "'op \<Rightarrow> nat"
  assumes step_adds: "inv s \<Longrightarrow> ok p \<Longrightarrow> meas (step p s) = meas s + gain p"
    and step_inv: "inv s \<Longrightarrow> ok p \<Longrightarrow> inv (step p s)"
begin

lemma run_adds: "inv s \<Longrightarrow> list_all ok ps \<Longrightarrow> meas (foldl (\<lambda>s p. step p s) s ps) = meas s + sum_list (map gain ps)"
  by (induction ps arbitrary: s) (simp_all add: step_adds step_inv)

lemma run_inv: "inv s \<Longrightarrow> list_all ok ps \<Longrightarrow> inv (foldl (\<lambda>s p. step p s) s ps)"
  by (induction ps arbitrary: s) (simp_all add: step_inv)

end

lemma sum_if_filter: "sum_list (map (\<lambda>p. if P p then f p else 0) ps) = sum_list (map f (filter P ps))"
  by (induction ps) simp_all

text \<open>A dictionary of counters as a function; adding a dictionary adds the functions.\<close>

definition cnt :: "(string, nat) dict \<Rightarrow> string \<Rightarrow> nat" where
  "cnt d k = dget_or d k 0"

lemma cnt_Nil [simp]: "cnt [] k = 0"
  by (simp add: cnt_def dget_or_def)

lemma cnt_bump [simp]: "cnt (bump n j d) k = cnt d k + (if k = j then n else 0)"
  by (simp add: cnt_def bump_def dget_or_def)

lemma cnt_bump_if [simp]: "cnt (bump_if n j d) k = cnt d k + (if k = j then n else 0)"
  by (simp add: bump_if_def)

lemma merge_counts_Cons: "merge_counts d (p # e) = merge_counts (bump (snd p) (fst p) d) e"
  by (simp add: merge_counts_def bump_def)

lemma cnt_Cons: "cnt ((a, b) # e) k = (if k = a then b else cnt e k)"
  by (simp add: cnt_def dget_or_def)

lemma cnt_merge: "dict_ok e \<Longrightarrow> cnt (merge_counts d e) k = cnt d k + cnt e k"
proof (induction e arbitrary: d)
  case (Cons p e)
  then have "dict_ok e" "cnt e (fst p) = 0"
    by (auto simp: dict_ok_def cnt_def dget_or_def map_of_eq_None_iff [THEN iffD2])
  with Cons.IH show ?case by (cases p) (simp add: merge_counts_Cons cnt_Cons)
qed (simp add: merge_counts_def)

lemma dict_ok_bump [simp]: "dict_ok d \<Longrightarrow> dict_ok (bump n k d)"
  by (simp add: bump_def)

lemma dict_ok_merge [simp]: "dict_ok d \<Longrightarrow> dict_ok (merge_counts d e)"
  by (induction e arbitrary: d) (simp_all add: merge_counts_Cons, simp add: merge_counts_def)


text \<open>Everything that adds to the aggregates; the cache and the types outside a request.\<close>

datatype op =
    Request real "req_ctx option" event_args
  | Lru real nat nat
  | Injected real
  | Truncated real
  | Cache real nat nat
  | Types real "(string, nat) dict"
  | Cred real nat nat
  | Audit_Count real string string

fun op_key :: "op \<Rightarrow> agg_key" where
  "op_key (Request now ctx e) = (day_key now, ea_upstream e)"
| "op_key (Lru now _ _) = (day_key now, ''other'')"
| "op_key (Injected now) = (day_key now, ''other'')"
| "op_key (Truncated now) = (day_key now, ''other'')"
| "op_key (Cache now _ _) = (day_key now, ''other'')"
| "op_key (Types now _) = (day_key now, ''other'')"
| "op_key (Cred now _ _) = (day_key now, ''other'')"
| "op_key (Audit_Count now _ _) = (day_key now, ''other'')"

fun do_op :: "bool \<Rightarrow> sample_env \<Rightarrow> op \<Rightarrow> 'a collector_scheme \<Rightarrow> 'a collector_scheme" where
  "do_op im env (Request now ctx e) c = snd (incr_event im env now e ctx c)"
| "do_op im env (Lru now cred pii) c = incr_lru_evictions now cred pii c"
| "do_op im env (Injected now) c = incr_placeholder_injected now c"
| "do_op im env (Truncated now) c = incr_truncated now c"
| "do_op im env (Cache now hit miss) c = snd (incr_sync_pii_cache now hit miss (None, c))"
| "do_op im env (Types now d) c = snd (incr_sync_pii_detected now d (None, c))"
| "do_op im env (Cred now hit miss) c = incr_sync_cred now hit miss c"
| "do_op im env (Audit_Count now v r) c = incr_sync_audit now v r c"

definition run_ops :: "bool \<Rightarrow> sample_env \<Rightarrow> op list \<Rightarrow> 'a collector_scheme \<Rightarrow> 'a collector_scheme" where
  "run_ops im env ops c = foldl (\<lambda>c p. do_op im env p c) c ops"

text \<open>The counters of a day, as one function; and what an operation is meant to add to them.\<close>

datatype counter =
    Requests | Status string | Latency string | Pii_Type string | Pii_Hits | Pii_Miss | Pii_Requests
  | Pii_Lru | Cred_Lru | Cred_Hits | Cred_Miss | Verdict string | Rule string | Injections | Truncations
  | Json_Success | Json_Leaf | Json_Full

fun read :: "daily_agg \<Rightarrow> counter \<Rightarrow> nat" where
  "read d Requests = ag_requests d"
| "read d (Status s) = cnt (ag_by_status d) s"
| "read d (Latency s) = cnt (ag_latency d) s"
| "read d (Pii_Type s) = cnt (ag_pii_by_type d) s"
| "read d Pii_Hits = ag_pii_hits d"
| "read d Pii_Miss = ag_pii_miss d"
| "read d Pii_Requests = ag_pii_requests d"
| "read d Pii_Lru = ag_pii_lru d"
| "read d Cred_Lru = ag_cred_lru d"
| "read d Cred_Hits = ag_cred_hits d"
| "read d Cred_Miss = ag_cred_miss d"
| "read d (Verdict s) = cnt (ag_by_verdict d) s"
| "read d (Rule s) = cnt (ag_by_rule d) s"
| "read d Injections = ag_injected d"
| "read d Truncations = ag_truncated d"
| "read d Json_Success = ag_json_success d"
| "read d Json_Leaf = ag_json_leaf d"
| "read d Json_Full = ag_json_full d"

fun event_adds :: "event_args \<Rightarrow> counter \<Rightarrow> nat" where
  "event_adds e Requests = 1"
| "event_adds e (Status s) = of_bool (s = dec (ea_status e)) + of_bool (s = ''empty_guarded'' \<and> ea_empty_guarded e)
     + of_bool (s = ''invalid_json_guarded'' \<and> ea_invalid_json e) + (if s = ''sse_events'' then ea_sse_events e else 0)"
| "event_adds e (Latency s) = (case ea_latency e of None \<Rightarrow> 0 | Some ms \<Rightarrow> of_bool (s = bucket_key (metrics_bucket ms)))"
| "event_adds e (Pii_Type s) = cnt (ea_by_type e) s"
| "event_adds e Pii_Hits = ea_pii_hits e"
| "event_adds e Pii_Miss = ea_pii_miss e"
| "event_adds e Pii_Requests = of_bool (ea_pii_found e)"
| "event_adds e Cred_Hits = ea_cred_hits e"
| "event_adds e Cred_Miss = ea_cred_miss e"
| "event_adds e (Verdict s) = cnt (ea_by_verdict e) s"
| "event_adds e (Rule s) = cnt (ea_by_rule e) s"
| "event_adds e Injections = of_bool (ea_injected e)"
| "event_adds e Truncations = ea_truncated e"
| "event_adds e Json_Success = ea_json_success e"
| "event_adds e Json_Leaf = ea_json_leaf e"
| "event_adds e Json_Full = ea_json_full e"
| "event_adds e _ = 0"

fun adds :: "op \<Rightarrow> counter \<Rightarrow> nat" where
  "adds (Request now ctx e) k = event_adds (effective ctx e) k"
| "adds (Lru now cred pii) k = (if k = Cred_Lru then cred else if k = Pii_Lru then pii else 0)"
| "adds (Injected now) k = of_bool (k = Injections)"
| "adds (Truncated now) k = of_bool (k = Truncations)"
| "adds (Cache now hit miss) k = (if k = Pii_Hits then hit else if k = Pii_Miss then miss else 0)"
| "adds (Types now d) k = (case k of Pii_Type s \<Rightarrow> cnt d s | _ \<Rightarrow> 0)"
| "adds (Cred now hit miss) k = (if k = Cred_Hits then hit else if k = Cred_Miss then miss else 0)"
| "adds (Audit_Count now v r) k = (if k = Verdict v then 1 else if r \<noteq> [] \<and> k = Rule r then 1 else 0)"

text \<open>The dictionaries an operation brings are dictionaries.\<close>

fun op_ok :: "op \<Rightarrow> bool" where
  "op_ok (Request now ctx e) = (dict_ok (ea_by_verdict e) \<and> dict_ok (ea_by_rule e)
     \<and> (case ctx of None \<Rightarrow> True | Some q \<Rightarrow> dict_ok (rq_by_type q)))"
| "op_ok (Types now d) = dict_ok d"
| "op_ok _ = True"

lemma clean_types_ok: "dict_ok (clean_types d)"
proof -
  have "dict_ok (foldl (\<lambda>e (k, v). bump v (sanitize_kind k []) e) e d)" if "dict_ok e" for e
    using that by (induction d arbitrary: e) auto
  then show ?thesis by (simp add: clean_types_def)
qed

lemma effective_ok:
  "op_ok (Request now ctx e) \<Longrightarrow> dict_ok (ea_by_type (effective ctx e)) \<and> dict_ok (ea_by_verdict (effective ctx e))
    \<and> dict_ok (ea_by_rule (effective ctx e)) \<and> ea_upstream (effective ctx e) = ea_upstream e"
  by (simp add: effective_def Let_def clean_types_ok split: option.split)

lemma daily_event_read:
  "dict_ok (ea_by_type e) \<Longrightarrow> dict_ok (ea_by_verdict e) \<Longrightarrow> dict_ok (ea_by_rule e)
    \<Longrightarrow> read (daily_event e delta d) k = read d k + event_adds e k"
  by (cases k) (auto simp: daily_event_def hourly_event_def cnt_merge split: option.split)

text \<open>What an operation does to the days: it changes one entry, by as much as it should.\<close>

definition daily_of :: "'a collector_scheme \<Rightarrow> agg_key \<Rightarrow> daily_agg" where
  "daily_of c key = dget_or (mc_daily c) key daily_init"

lemma daily_of_on_daily [simp]:
  "daily_of (on_daily now up f c) key = (if key = (day_key now, up) then f (daily_of c key) else daily_of c key)"
  by (simp add: daily_of_def on_daily_def dget_or_def)

lemma daily_of_on_hourly [simp]: "daily_of (on_hourly now up f c) key = daily_of c key"
  by (simp add: daily_of_def on_hourly_def)

lemma daily_of_ring [simp]: "daily_of (mc_ring_update g c) key = daily_of c key"
  by (simp add: daily_of_def)

lemma do_op_daily:
  assumes "op_ok p"
  shows "read (daily_of (do_op im env p c) key) k = read (daily_of c key) k + (if op_key p = key then adds p k else 0)"
proof (cases p)
  case (Request now ctx e)
  then show ?thesis using effective_ok [of now ctx e] assms
    by (auto simp: incr_event_def Let_def daily_event_read)
next
  case (Types now d)
  then show ?thesis using assms
    by (cases k) (auto simp: incr_sync_pii_detected_def accumulate_pii_detected_def add_types_def cnt_merge)
qed (cases k; auto simp: incr_lru_evictions_def add_lru_def incr_placeholder_injected_def incr_truncated_def
    incr_sync_pii_cache_def accumulate_pii_cache_def add_hits_def incr_sync_cred_def incr_sync_audit_def)+

interpretation days: additive "do_op im env" op_ok "\<lambda>c. True" "\<lambda>c. read (daily_of c key) k"
    "\<lambda>p. if op_key p = key then adds p k else 0" for im env key k
  by unfold_locales (simp_all add: do_op_daily)

lemma daily_totals_all:
  assumes "\<forall>p \<in> set ops. op_ok p"
  shows "read (daily_of (run_ops im env ops c) key) k
    = read (daily_of c key) k + sum_list (map (\<lambda>p. adds p k) (filter (\<lambda>p. op_key p = key) ops))"
  using days.run_adds [of ops im env c key k] assms by (simp add: run_ops_def sum_if_filter list_all_iff)

text \<open>
  The counters of every day and upstream are exact: after any operations, whatever their order and
  however they are spread over days and upstreams, each counter has grown by the sum of what the operations
  for that day and upstream add to it.
\<close>

theorem daily_totals_exact:
  assumes "\<forall>p \<in> set ops. op_ok p"
  shows "read (daily_of (run_ops im env ops collector_init) key) k
    = sum_list (map (\<lambda>p. adds p k) (filter (\<lambda>p. op_key p = key) ops))"
proof -
  have "read (daily_of collector_init key) k = 0"
    by (cases k) (simp_all add: daily_of_def collector_init_def dget_or_def daily_init_def hourly_init_def hourly_agg.defs)
  then show ?thesis using daily_totals_all [OF assms, of im env collector_init key k] by simp
qed

definition sample_args :: event_args where
  "sample_args = \<lparr>ea_upstream = ''u'', ea_status = 200, ea_latency = Some 120, ea_empty_guarded = False, ea_invalid_json = False,
     ea_client_gone = False, ea_exception = False, ea_sse_events = 3, ea_truncated = 0, ea_json_success = 1, ea_json_leaf = 0,
     ea_json_full = 0, ea_injected = False, ea_pii_hits = 0, ea_pii_miss = 0, ea_pii_found = True, ea_cred_hits = 0, ea_cred_miss = 0,
     ea_model = ''m'', ea_tokens = [], ea_by_verdict = [], ea_by_rule = [], ea_by_type = [(''phone'', 2)], ea_id = ''r1'', ea_tail = [],
     ea_verdict = [], ea_raw_summary = []\<rparr>"

theorem daily_totals_exact_witness:
  "read (daily_of (run_ops True \<lparr>se_enabled = None, se_persist = None\<rparr>
      [Request 0 None sample_args, Cred 10 1 0, Request 20 (Some (fresh_ctx\<lparr>rq_pii_hits := 4\<rparr>)) sample_args] collector_init)
      (day_key 0, ''u'')) Pii_Hits = 4"
proof -
  have "day_key 20 = day_key 0" by (simp add: day_key_def secs_def)
  then show ?thesis
    by (subst daily_totals_exact)
      (simp_all add: sample_args_def fresh_ctx_def daily_of_def collector_init_def dget_or_def daily_init_def hourly_init_def
        hourly_agg.defs effective_def)
qed

end
