(* ===== verification/Metrics_Store.thy ===== *)
theory Metrics_Store
  imports Metrics_Agg
begin

text \<open>
  How the aggregates reach the disk (\<open>_metrics.py\<close>): snapshots under the lock, the bounded queue, the
  single writer with its overwriting inserts, retention in memory and in the tables, the counters
  loaded at the start, and the shutdown.  The database is its tables.  A column that holds JSON is the
  value itself (\<open>json.loads\<close> after \<open>json.dumps\<close> gives back dictionaries of numbers); every write may
  fail, and then nothing of it is stored.
\<close>

section \<open>The database\<close>

type_synonym value_key = "string \<times> string \<times> string \<times> string"

record db =
  db_daily :: "(agg_key, daily_agg) dict"
  db_hourly :: "(agg_key, hourly_agg) dict"
  db_values :: "(value_key, string \<times> nat) dict"

definition db_init :: db where
  "db_init = \<lparr>db_daily = [], db_hourly = [], db_values = []\<rparr>"

text \<open>The tables of the aggregates have no column for the samples.\<close>

definition row :: "'a hourly_agg_scheme \<Rightarrow> 'a hourly_agg_scheme" where
  "row a = a\<lparr>ag_samples := []\<rparr>"

datatype snapshot = Snap_Day string string daily_agg | Snap_Hour string string hourly_agg

datatype db_fault = Os_Error string "nat option" | Operational string bool | Sqlite_Error string

record store = collector +
  ms_queue :: "snapshot list"
  ms_dropped :: nat
  ms_first_dropped :: "real option"
  ms_last_dropped :: "real option"
  ms_last_flush :: real
  ms_debounce :: real
  ms_sqlite_ok :: bool
  ms_sqlite_error :: "string option"
  ms_conn :: bool
  ms_db :: db
  ms_closed :: bool

section \<open>Retention\<close>

definition day_cutoff :: "real \<Rightarrow> string" where
  "day_cutoff now = day_key (now - real DAILY_RETENTION_DAYS * 86400)"

definition hour_cutoff :: "real \<Rightarrow> string" where
  "hour_cutoff now = hour_key (now - real HOURLY_RETENTION_HOURS * 3600)"

definition keep_from :: "string \<Rightarrow> (agg_key, 'a) dict \<Rightarrow> (agg_key, 'a) dict" where
  "keep_from cutoff d = filter (\<lambda>(k, v). \<not> text_less (fst k) cutoff) d"

definition trim_memory :: "real \<Rightarrow> 'a collector_scheme \<Rightarrow> 'a collector_scheme" where
  "trim_memory now c = c\<lparr>mc_daily := keep_from (day_cutoff now) (mc_daily c), mc_hourly := keep_from (hour_cutoff now) (mc_hourly c)\<rparr>"

definition trim_old :: "real \<Rightarrow> db \<Rightarrow> db" where
  "trim_old now d = d\<lparr>db_daily := keep_from (day_cutoff now) (db_daily d),
     db_hourly := keep_from (hour_cutoff now) (db_hourly d),
     db_values := filter (\<lambda>((day, _), _). \<not> text_less day (day_key (now - 7 * 86400))) (db_values d)\<rparr>"

section \<open>Writing\<close>

text \<open>One line of \<open>pii_value_agg\<close> for each sample with a positive count and a hash.\<close>

definition upsert_values :: "string \<Rightarrow> string \<Rightarrow> samples \<Rightarrow> (value_key, string \<times> nat) dict \<Rightarrow> (value_key, string \<times> nat) dict" where
  "upsert_values day up pvs t = foldl (\<lambda>t (kind, inner).
     foldl (\<lambda>t (masked, n, hsh). if n = 0 \<or> hsh = [] then t
        else dset (day, up, sanitize_kind kind [], py_take 16 hsh) (py_take 64 masked, n) t) t inner) t pvs"

definition write_snapshot :: "sample_env \<Rightarrow> real \<Rightarrow> snapshot \<Rightarrow> db \<Rightarrow> db" where
  "write_snapshot env now s d =
     trim_old now (case s of
        Snap_Day day up a \<Rightarrow>
          d\<lparr>db_daily := dset (day, up) (row a) (db_daily d),
            db_values := (if is_pii_value_sample_persist env \<and> is_pii_value_sample_enabled env
              then upsert_values day up (ag_samples a) (db_values d) else db_values d)\<rparr>
      | Snap_Hour hour up a \<Rightarrow> d\<lparr>db_hourly := dset (hour, up) (row a) (db_hourly d)\<rparr>)"

definition handle_write_error :: "db_fault \<Rightarrow> 'a store_scheme \<Rightarrow> 'a store_scheme" where
  "handle_write_error f st =
     (case f of
        Os_Error cls (Some n) \<Rightarrow> if n = 28 then st\<lparr>ms_sqlite_ok := False, ms_sqlite_error := Some (''ENOSPC ('' @ cls @ '')'')\<rparr> else st
      | Operational cls True \<Rightarrow> st\<lparr>ms_sqlite_ok := False, ms_sqlite_error := Some (''disk_io ('' @ cls @ '')'')\<rparr>
      | _ \<Rightarrow> st)"

definition write_flush ::
  "sample_env \<Rightarrow> (snapshot \<Rightarrow> db_fault option) \<Rightarrow> real \<Rightarrow> snapshot \<Rightarrow> 'a store_scheme \<Rightarrow> 'a store_scheme" where
  "write_flush env fault now s st =
     (if \<not> ms_sqlite_ok st \<or> \<not> ms_conn st then st
      else case fault s of
        Some f \<Rightarrow> handle_write_error f st
      | None \<Rightarrow> st\<lparr>ms_db := write_snapshot env now s (ms_db st)\<rparr>)"

section \<open>Snapshots and the queue\<close>

text \<open>Copies of all aggregates, then the retention, in one locked section with the mark of the flush.\<close>

definition snapshots :: "'a collector_scheme \<Rightarrow> snapshot list" where
  "snapshots c = map (\<lambda>((day, up), a). Snap_Day day up a) (mc_daily c) @ map (\<lambda>((hour, up), a). Snap_Hour hour up a) (mc_hourly c)"

definition take_snapshot :: "real \<Rightarrow> bool \<Rightarrow> bool \<Rightarrow> 'a store_scheme \<Rightarrow> 'a store_scheme \<times> snapshot list" where
  "take_snapshot now mark_flushed mark_debounce st =
     (let st1 = trim_memory now st;
          st2 = (if mark_flushed then st1\<lparr>ms_last_flush := now\<rparr> else st1);
          st3 = (if mark_flushed \<and> mark_debounce then st2\<lparr>ms_debounce := now\<rparr> else st2)
      in (st3, snapshots st))"

text \<open>A full queue loses its oldest element.\<close>

definition enqueue_one :: "real \<Rightarrow> snapshot \<Rightarrow> 'a store_scheme \<Rightarrow> 'a store_scheme" where
  "enqueue_one now s st =
     (if length (ms_queue st) < QUEUE_MAXSIZE then st\<lparr>ms_queue := ms_queue st @ [s]\<rparr>
      else st\<lparr>ms_queue := tl (ms_queue st) @ [s], ms_dropped := ms_dropped st + 1,
         ms_first_dropped := (case ms_first_dropped st of None \<Rightarrow> Some now | Some t \<Rightarrow> Some t),
         ms_last_dropped := Some now\<rparr>)"

definition enqueue :: "real \<Rightarrow> snapshot list \<Rightarrow> 'a store_scheme \<Rightarrow> 'a store_scheme" where
  "enqueue now snaps st = foldl (\<lambda>st s. enqueue_one now s st) st snaps"

definition flush :: "real \<Rightarrow> 'a store_scheme \<Rightarrow> 'a store_scheme" where
  "flush now st =
     (if \<not> ms_sqlite_ok st \<or> \<not> ms_conn st then st
      else case take_snapshot now True False st of (st1, snaps) \<Rightarrow> enqueue now snaps st1)"

definition flush_sync :: "sample_env \<Rightarrow> (snapshot \<Rightarrow> db_fault option) \<Rightarrow> real \<Rightarrow> 'a store_scheme \<Rightarrow> 'a store_scheme" where
  "flush_sync env fault now st =
     (if \<not> ms_sqlite_ok st \<or> \<not> ms_conn st then st
      else if now - ms_debounce st < FLUSH_DEBOUNCE_S then st
      else case take_snapshot now True True st of
        (st1, snaps) \<Rightarrow> foldl (\<lambda>st s. write_flush env fault now s st) st1 snaps)"

definition drain_queue :: "sample_env \<Rightarrow> (snapshot \<Rightarrow> db_fault option) \<Rightarrow> real \<Rightarrow> 'a store_scheme \<Rightarrow> 'a store_scheme" where
  "drain_queue env fault now st =
     foldl (\<lambda>st s. write_flush env fault now s st) (st\<lparr>ms_queue := []\<rparr>) (ms_queue st)"

definition close_store :: "sample_env \<Rightarrow> (snapshot \<Rightarrow> db_fault option) \<Rightarrow> real \<Rightarrow> 'a store_scheme \<Rightarrow> 'a store_scheme" where
  "close_store env fault now st =
     (if ms_closed st then st
      else (drain_queue env fault now (flush now (st\<lparr>ms_closed := True\<rparr>)))\<lparr>ms_conn := False\<rparr>)"

section \<open>The start\<close>

text \<open>The rows of today, without samples; a failure while reading keeps what was loaded so far.\<close>

definition load_existing_today :: "real \<Rightarrow> 'a store_scheme \<Rightarrow> 'a store_scheme" where
  "load_existing_today now st =
     (if \<not> ms_conn st then st
      else let today = day_key now
        in st\<lparr>mc_daily := foldl (\<lambda>d (k, a). dset k a d) (mc_daily st) (filter (\<lambda>(k, a). fst k = today) (db_daily (ms_db st))),
              mc_hourly := foldl (\<lambda>d (k, a). dset k a d) (mc_hourly st)
                (filter (\<lambda>(k, a). \<not> text_less (fst k) (today @ ''T00:00:00Z'')) (db_hourly (ms_db st)))\<rparr>)"

text \<open>A new process on the tables; \<open>err\<close> is the text of an exception while connecting.\<close>

definition new_store :: "real \<Rightarrow> string option \<Rightarrow> db \<Rightarrow> store" where
  "new_store now err d =
     load_existing_today now
       (collector.extend collector_init
          \<lparr>ms_queue = [], ms_dropped = 0, ms_first_dropped = None, ms_last_dropped = None, ms_last_flush = now, ms_debounce = 0,
           ms_sqlite_ok = (err = None), ms_sqlite_error = map_option (py_take 200) err, ms_conn = (err = None),
           ms_db = d, ms_closed = False\<rparr>)"


section \<open>The retention window\<close>

text \<open>Clocks from 1970 to the year 9891.\<close>

definition sane_clock :: "real \<Rightarrow> bool" where
  "sane_clock now \<longleftrightarrow> 0 \<le> now \<and> now < 250000000000"

lemma secs_minus: "secs (now - real n) = secs now - n"
proof -
  have "\<lfloor>now - real n\<rfloor> = \<lfloor>now\<rfloor> - int n" using floor_diff_of_int [of now "int n"] by simp
  then show ?thesis by (simp add: secs_def nat_diff_distrib')
qed

lemma secs_bound: "sane_clock now \<Longrightarrow> secs now < 250000000000"
  by (auto simp: sane_clock_def secs_def nat_less_iff floor_less_iff)

lemma div_minus: "0 < m \<Longrightarrow> (n - k * m) div m = n div m - (k :: nat)"
proof (cases "k * m \<le> n")
  case True
  assume "0 < m"
  then have "(n - k * m + k * m) div m = (n - k * m) div m + k" by simp
  with True show ?thesis by simp
next
  case False
  assume "0 < m"
  with False have "n div m < k" by (simp add: div_less_iff_less_mult)
  with False show ?thesis by simp
qed

lemma day_cutoff_text: "day_cutoff now = date_text (secs now div 86400 - 30)"
proof -
  have "secs (now - real DAILY_RETENTION_DAYS * 86400) = secs now - 2592000"
    using secs_minus [of now 2592000] by (simp add: DAILY_RETENTION_DAYS_def)
  moreover have "(secs now - 2592000) div 86400 = secs now div 86400 - 30" using div_minus [of 86400 "secs now" 30] by simp
  ultimately show ?thesis by (simp add: day_cutoff_def day_key_def)
qed

lemma hour_cutoff_text: "hour_cutoff now = hour_text (secs now div 3600 - 168)"
proof -
  have "secs (now - real HOURLY_RETENTION_HOURS * 3600) = secs now - 604800"
    using secs_minus [of now 604800] by (simp add: HOURLY_RETENTION_HOURS_def)
  moreover have "(secs now - 604800) div 3600 = secs now div 3600 - 168" using div_minus [of 3600 "secs now" 168] by simp
  ultimately show ?thesis by (simp add: hour_cutoff_def hour_key_def)
qed

lemma date_before_cutoff:
  assumes "sane_clock now" "d < 2930000"
  shows "text_less (date_text d) (day_cutoff now) \<longleftrightarrow> d + 30 < secs now div 86400"
proof -
  have "secs now div 86400 \<le> 250000000000 div 86400" using secs_bound [OF assms(1)] by (intro div_le_mono) simp
  then show ?thesis using assms(2) date_text_order [of d "secs now div 86400 - 30"] by (auto simp: day_cutoff_text)
qed

lemma hour_before_cutoff:
  assumes "sane_clock now" "h < 70320000"
  shows "text_less (hour_text h) (hour_cutoff now) \<longleftrightarrow> h + 168 < secs now div 3600"
proof -
  have "secs now div 3600 \<le> 250000000000 div 3600" using secs_bound [OF assms(1)] by (intro div_le_mono) simp
  then show ?thesis using assms(2) hour_text_order [of h "secs now div 3600 - 168"] by (auto simp: hour_cutoff_text)
qed

lemma dget_keep_from: "dget (keep_from cutoff d) k = (if text_less (fst k) cutoff then None else dget d k)"
  by (induction d) (auto simp: keep_from_def)

text \<open>
  The retention in memory keeps exactly the days of the last thirty days and the hours of the last 168
  hours, with what they held, and nothing else; the texts of the keys are compared, not the times.
\<close>

theorem retention_window:
  assumes "sane_clock now" and "d < 2930000" and "h < 70320000"
  shows "dget (mc_daily (trim_memory now c)) (date_text d, up)
      = (if secs now div 86400 \<le> d + 30 then dget (mc_daily c) (date_text d, up) else None)
    \<and> dget (mc_hourly (trim_memory now c)) (hour_text h, up)
      = (if secs now div 3600 \<le> h + 168 then dget (mc_hourly c) (hour_text h, up) else None)"
  using assms by (auto simp: trim_memory_def dget_keep_from date_before_cutoff hour_before_cutoff)

section \<open>The queue\<close>

lemma enqueue_one_queue:
  "length (ms_queue st) \<le> QUEUE_MAXSIZE \<Longrightarrow>
    ms_queue (enqueue_one now s st) = drop (length (ms_queue st) + 1 - QUEUE_MAXSIZE) (ms_queue st @ [s])
    \<and> ms_dropped (enqueue_one now s st) = ms_dropped st + (length (ms_queue st) + 1 - QUEUE_MAXSIZE)"
  by (cases "ms_queue st") (auto simp: enqueue_one_def QUEUE_MAXSIZE_def not_less drop_Suc dest!: le_antisym)

lemma enqueue_queue:
  "length (ms_queue st) \<le> QUEUE_MAXSIZE \<Longrightarrow>
    ms_queue (enqueue now snaps st) = drop (length (ms_queue st) + length snaps - QUEUE_MAXSIZE) (ms_queue st @ snaps)
    \<and> ms_dropped (enqueue now snaps st) = ms_dropped st + (length (ms_queue st) + length snaps - QUEUE_MAXSIZE)"
proof (induction snaps arbitrary: st)
  case (Cons s snaps)
  let ?st = "enqueue_one now s st"
  have q: "ms_queue ?st = drop (length (ms_queue st) + 1 - QUEUE_MAXSIZE) (ms_queue st @ [s])"
    "ms_dropped ?st = ms_dropped st + (length (ms_queue st) + 1 - QUEUE_MAXSIZE)"
    using enqueue_one_queue [OF Cons.prems] by blast+
  then have "length (ms_queue ?st) \<le> QUEUE_MAXSIZE" by simp
  from Cons.IH [OF this] have "ms_queue (enqueue now (s # snaps) st)
      = drop (length (ms_queue ?st) + length snaps - QUEUE_MAXSIZE) (ms_queue ?st @ snaps)"
    "ms_dropped (enqueue now (s # snaps) st) = ms_dropped ?st + (length (ms_queue ?st) + length snaps - QUEUE_MAXSIZE)"
    by (simp_all add: enqueue_def)
  moreover have "length (ms_queue st) < 512 \<or> length (ms_queue st) = 512" using Cons.prems by (auto simp: QUEUE_MAXSIZE_def)
  ultimately show ?case using q by (elim disjE) (auto simp: QUEUE_MAXSIZE_def drop_Suc)
qed (simp add: enqueue_def)

text \<open>
  The queue never holds more than 512 snapshots, it holds the newest ones in their order, and what it
  loses is counted exactly.
\<close>

theorem queue_keeps_newest:
  assumes "length (ms_queue st) \<le> QUEUE_MAXSIZE"
  shows "ms_queue (enqueue now snaps st) = drop (length (ms_queue st @ snaps) - QUEUE_MAXSIZE) (ms_queue st @ snaps)
    \<and> length (ms_queue (enqueue now snaps st)) \<le> QUEUE_MAXSIZE
    \<and> length (ms_queue (enqueue now snaps st)) + ms_dropped (enqueue now snaps st)
      = length (ms_queue st) + ms_dropped st + length snaps"
  using enqueue_queue [OF assms, of now snaps] by auto


section \<open>A day over several processes\<close>

definition no_fault :: "snapshot \<Rightarrow> db_fault option" where
  "no_fault s = None"

lemma write_all:
  assumes "ms_sqlite_ok st" "ms_conn st"
  shows "foldl (\<lambda>st s. write_flush env no_fault now s st) st snaps
    = st\<lparr>ms_db := foldl (\<lambda>d s. write_snapshot env now s d) (ms_db st) snaps\<rparr>"
  using assms by (induction snaps arbitrary: st) (simp_all add: write_flush_def no_fault_def)

lemma flush_queue:
  assumes "ms_sqlite_ok st" "ms_conn st" "ms_queue st = []" "length (snapshots st) \<le> QUEUE_MAXSIZE"
  shows "ms_queue (flush now st) = snapshots st"
proof -
  obtain st1 where st1: "take_snapshot now True False st = (st1, snapshots st)" by (simp add: take_snapshot_def)
  moreover from this have "ms_queue st1 = []" using assms(3) by (auto simp: take_snapshot_def trim_memory_def)
  ultimately show ?thesis using assms enqueue_queue [of st1 now "snapshots st"] by (simp add: flush_def)
qed

lemma enqueue_rest [simp]:
  "ms_db (enqueue now snaps st) = ms_db st" "ms_sqlite_ok (enqueue now snaps st) = ms_sqlite_ok st"
  "ms_conn (enqueue now snaps st) = ms_conn st" "mc_daily (enqueue now snaps st) = mc_daily st"
proof (induction snaps arbitrary: st)
  case (Cons s snaps)
  {
    case 1 with Cons(1) [of "enqueue_one now s st"] show ?case by (simp add: enqueue_def enqueue_one_def)
  next
    case 2 with Cons(2) [of "enqueue_one now s st"] show ?case by (simp add: enqueue_def enqueue_one_def)
  next
    case 3 with Cons(3) [of "enqueue_one now s st"] show ?case by (simp add: enqueue_def enqueue_one_def)
  next
    case 4 with Cons(4) [of "enqueue_one now s st"] show ?case by (simp add: enqueue_def enqueue_one_def)
  }
qed (simp_all add: enqueue_def)

lemma flush_rest [simp]:
  "ms_db (flush now st) = ms_db st" "ms_sqlite_ok (flush now st) = ms_sqlite_ok st" "ms_conn (flush now st) = ms_conn st"
  by (simp_all add: flush_def take_snapshot_def trim_memory_def Let_def)

text \<open>A shutdown that nothing disturbs writes every aggregate.\<close>

lemma close_db:
  assumes "ms_sqlite_ok st" "ms_conn st" "\<not> ms_closed st" "ms_queue st = []" "length (snapshots st) \<le> QUEUE_MAXSIZE"
  shows "ms_db (close_store env no_fault now st) = foldl (\<lambda>d s. write_snapshot env now s d) (ms_db st) (snapshots st)"
proof -
  let ?f = "flush now (st\<lparr>ms_closed := True\<rparr>)"
  have "snapshots (st\<lparr>ms_closed := True\<rparr>) = snapshots st" by (simp add: snapshots_def)
  then have "ms_queue ?f = snapshots st" using flush_queue [of "st\<lparr>ms_closed := True\<rparr>" now] assms by simp
  then show ?thesis using assms by (simp add: close_store_def drain_queue_def write_all)
qed

text \<open>The row of a day that is kept, after such writes: the last one written for it.\<close>

definition row_of :: "db \<Rightarrow> agg_key \<Rightarrow> daily_agg" where
  "row_of d key = dget_or (db_daily d) key daily_init"

lemma write_one:
  "\<not> text_less (fst key) (day_cutoff now) \<Longrightarrow> dget (db_daily (write_snapshot env now s d)) key
    = (case s of Snap_Day day up a \<Rightarrow> if key = (day, up) then Some (row a) else dget (db_daily d) key
       | Snap_Hour hour up a \<Rightarrow> dget (db_daily d) key)"
  by (simp add: write_snapshot_def trim_old_def dget_keep_from split: snapshot.split)

lemma write_days:
  assumes "\<not> text_less (fst key) (day_cutoff now)"
  shows "dget (db_daily (foldl (\<lambda>d s. write_snapshot env now s d) d (map (\<lambda>((day, up), a). Snap_Day day up a) as))) key
    = (case dget (rev as) key of None \<Rightarrow> dget (db_daily d) key | Some a \<Rightarrow> Some (row a))"
proof (induction as arbitrary: d)
  case (Cons p as)
  obtain day up a where p: "p = ((day, up), a)" by (metis prod.exhaust)
  show ?case using Cons [of "write_snapshot env now (Snap_Day day up a) d"] write_one [OF assms, of env "Snap_Day day up a" d]
    by (auto simp: p map_add_def split: option.splits)
qed simp

lemma write_hours:
  assumes "\<not> text_less (fst key) (day_cutoff now)"
  shows "dget (db_daily (foldl (\<lambda>d s. write_snapshot env now s d) d (map (\<lambda>((hour, up), a). Snap_Hour hour up a) hs))) key
    = dget (db_daily d) key"
proof (induction hs arbitrary: d)
  case (Cons p hs)
  obtain hour up a where p: "p = ((hour, up), a)" by (metis prod.exhaust)
  show ?case using Cons [of "write_snapshot env now (Snap_Hour hour up a) d"] write_one [OF assms, of env "Snap_Hour hour up a" d]
    by (simp add: p)
qed simp

lemma dget_rev: "dict_ok d \<Longrightarrow> dget (rev d) k = dget d k"
  using dget_set [of d k] dget_set [of "rev d" k] by (cases "dget d k"; cases "dget (rev d) k") (auto simp: dict_ok_def rev_map [symmetric])

lemma today_kept: "sane_clock now \<Longrightarrow> \<not> text_less (day_key now) (day_cutoff now)"
proof -
  assume c: "sane_clock now"
  have "secs now div 86400 \<le> 250000000000 div 86400" using secs_bound [OF c] by (intro div_le_mono) simp
  then show ?thesis using date_before_cutoff [OF c, of "secs now div 86400"] by (simp add: day_key_def)
qed

lemma read_row [simp]: "read (row d) k = read d k"
  by (cases k) (simp_all add: row_def)

text \<open>Loading the rows of a day into an empty collector.\<close>

lemma load_day:
  assumes "dict_ok t" "dict_ok d" "\<forall>k \<in> fst ` set t. dget d k = None"
  shows "dget (foldl (\<lambda>d (k, a). dset k a d) d (filter (\<lambda>(k, a). P k) t)) key
    = (if P key \<and> dget t key \<noteq> None then dget t key else dget d key)"
  using assms
proof (induction t arbitrary: d)
  case (Cons p t)
  obtain k a where p: "p = (k, a)" by (cases p)
  have t: "dict_ok t" "dget t k = None" using Cons.prems(1) by (auto simp: p dict_ok_def map_of_eq_None_iff)
  show ?case
  proof (cases "P k")
    case True
    have "\<forall>j \<in> fst ` set t. dget (dset k a d) j = None" using Cons.prems by (auto simp: p dict_ok_def)
    from Cons.IH [OF t(1) _ this] show ?thesis using True t(2) Cons.prems(2) by (auto simp: p)
  next
    case False
    with Cons.IH [OF t(1) Cons.prems(2)] Cons.prems(3) t(2) show ?thesis by (auto simp: p)
  qed
qed simp

lemma new_store_daily:
  assumes "dict_ok (db_daily d)"
  shows "daily_of (new_store now None d) (day_key now, up) = row_of d (day_key now, up)"
  using load_day [OF assms, of "[]" "\<lambda>k. fst k = day_key now" "(day_key now, up)"]
  by (simp add: new_store_def load_existing_today_def daily_of_def row_of_def dget_or_def collector_init_def collector.defs Let_def
      case_prod_unfold)


text \<open>One process: it starts on the tables, runs its operations and is shut down.\<close>

type_synonym session = "op list \<times> real \<times> real"

definition live :: "bool \<Rightarrow> sample_env \<Rightarrow> session \<Rightarrow> db \<Rightarrow> store" where
  "live im env s d = (case s of (ops, t0, t1) \<Rightarrow> run_ops im env ops (new_store t0 None d))"

definition session_db :: "bool \<Rightarrow> sample_env \<Rightarrow> session \<Rightarrow> db \<Rightarrow> db" where
  "session_db im env s d = ms_db (close_store env no_fault (snd (snd s)) (live im env s d))"

text \<open>All on one day, and none with more aggregates than the queue takes.\<close>

fun sessions_ok :: "bool \<Rightarrow> sample_env \<Rightarrow> string \<Rightarrow> db \<Rightarrow> session list \<Rightarrow> bool" where
  "sessions_ok im env day d [] = True"
| "sessions_ok im env day d (s # ss) =
     (list_all op_ok (fst s) \<and> day_key (fst (snd s)) = day \<and> day_key (snd (snd s)) = day \<and> sane_clock (snd (snd s))
      \<and> length (snapshots (live im env s d)) \<le> QUEUE_MAXSIZE \<and> sessions_ok im env day (session_db im env s d) ss)"

definition same_store :: "store \<Rightarrow> store \<Rightarrow> bool" where
  "same_store a b \<longleftrightarrow> ms_db a = ms_db b \<and> ms_queue a = ms_queue b \<and> ms_sqlite_ok a = ms_sqlite_ok b \<and> ms_conn a = ms_conn b
     \<and> ms_closed a = ms_closed b \<and> (dict_ok (mc_daily b) \<longrightarrow> dict_ok (mc_daily a))"

lemma do_op_store: "same_store (do_op im env p st) st"
  by (cases p) (simp_all add: same_store_def incr_event_def Let_def on_daily_def on_hourly_def incr_lru_evictions_def
      incr_placeholder_injected_def incr_truncated_def incr_sync_pii_cache_def accumulate_pii_cache_def
      incr_sync_pii_detected_def accumulate_pii_detected_def incr_sync_cred_def incr_sync_audit_def)

lemma run_ops_store: "same_store (run_ops im env ops st) st"
proof (induction ops arbitrary: st)
  case (Cons p ops)
  from Cons [of "do_op im env p st"] do_op_store [of im env p st] show ?case by (auto simp: run_ops_def same_store_def)
qed (simp add: run_ops_def same_store_def)

lemma foldl_dset_ok: "dict_ok d \<Longrightarrow> dict_ok (foldl (\<lambda>d (k, a). dset k a d) d t)"
  by (induction t arbitrary: d) auto

lemma new_store_fields:
  "ms_db (new_store now None d) = d" "ms_queue (new_store now None d) = []" "ms_sqlite_ok (new_store now None d)"
  "ms_conn (new_store now None d)" "\<not> ms_closed (new_store now None d)" "dict_ok (mc_daily (new_store now None d))"
  by (simp_all add: new_store_def load_existing_today_def collector_init_def collector.defs Let_def foldl_dset_ok)

lemma live_fields:
  "ms_db (live im env s d) = d" "ms_queue (live im env s d) = []" "ms_sqlite_ok (live im env s d)"
  "ms_conn (live im env s d)" "\<not> ms_closed (live im env s d)" "dict_ok (mc_daily (live im env s d))"
  using run_ops_store [of im env "fst s" "new_store (fst (snd s)) None d"] new_store_fields [of "fst (snd s)" d]
  by (simp_all add: live_def same_store_def case_prod_unfold)

lemma session_db_row:
  assumes "length (snapshots (live im env s d)) \<le> QUEUE_MAXSIZE" "sane_clock (snd (snd s))" "day_key (snd (snd s)) = day"
  shows "dget (db_daily (session_db im env s d)) (day, up)
    = (case dget (mc_daily (live im env s d)) (day, up) of
         None \<Rightarrow> dget (db_daily d) (day, up) | Some a \<Rightarrow> Some (row a))"
  using assms live_fields [of im env s d] today_kept [OF assms(2)]
  by (simp add: session_db_def close_db snapshots_def write_hours write_days dget_rev)

lemma dict_ok_keep: "dict_ok d \<Longrightarrow> dict_ok (keep_from cutoff d)"
  by (auto simp: dict_ok_def keep_from_def intro: distinct_map_filter)

lemma write_snapshot_ok: "dict_ok (db_daily d) \<Longrightarrow> dict_ok (db_daily (write_snapshot env now s d))"
  by (simp add: write_snapshot_def trim_old_def dict_ok_keep split: snapshot.split)

lemma session_db_ok:
  assumes "dict_ok (db_daily d)" "length (snapshots (live im env s d)) \<le> QUEUE_MAXSIZE"
  shows "dict_ok (db_daily (session_db im env s d))"
proof -
  have "dict_ok (db_daily d) \<Longrightarrow> dict_ok (db_daily (foldl (\<lambda>d s. write_snapshot env now s d) d ss))" for ss now d
    by (induction ss arbitrary: d) (simp_all add: write_snapshot_ok)
  then show ?thesis using assms live_fields [of im env s d] by (simp add: session_db_def close_db)
qed

lemma read_init [simp]: "read daily_init k = 0"
  by (cases k) (simp_all add: daily_init_def hourly_init_def hourly_agg.defs)

lemma session_adds:
  assumes "dict_ok (db_daily d)" "sessions_ok im env day d [s]"
  shows "read (row_of (session_db im env s d) (day, up)) k
    = read (row_of d (day, up)) k + sum_list (map (\<lambda>p. adds p k) (filter (\<lambda>p. op_key p = (day, up)) (fst s)))"
proof -
  obtain ops t0 t1 where s: "s = (ops, t0, t1)" by (metis prod.exhaust)
  have days: "day_key t0 = day" "day_key t1 = day" "\<forall>p \<in> set ops. op_ok p" using assms(2) by (auto simp: s list_all_iff)
  have "read (daily_of (live im env s d) (day, up)) k = read (daily_of (new_store t0 None d) (day, up)) k
      + sum_list (map (\<lambda>p. adds p k) (filter (\<lambda>p. op_key p = (day, up)) ops))"
    unfolding live_def s using daily_totals_all [OF days(3)] by simp
  then have live: "read (daily_of (live im env s d) (day, up)) k = read (row_of d (day, up)) k
      + sum_list (map (\<lambda>p. adds p k) (filter (\<lambda>p. op_key p = (day, up)) ops))"
    using new_store_daily [OF assms(1), of t0 up] days by simp
  have r: "dget (db_daily (session_db im env s d)) (day, up)
      = (case dget (mc_daily (live im env s d)) (day, up) of None \<Rightarrow> dget (db_daily d) (day, up) | Some a \<Rightarrow> Some (row a))"
    using session_db_row [of im env "(ops, t0, t1)" d day up] assms(2) days by (simp add: s)
  show ?thesis
  proof (cases "dget (mc_daily (live im env s d)) (day, up)")
    case None
    then have "read (daily_of (live im env s d) (day, up)) k = 0" by (simp add: daily_of_def dget_or_def)
    with None live r show ?thesis by (simp add: row_of_def dget_or_def s)
  next
    case (Some a)
    with live r show ?thesis by (simp add: row_of_def daily_of_def dget_or_def s)
  qed
qed

text \<open>
  C32. Restarts lose nothing, within the bound of the queue: over any number of processes on one day, one
  after the other, each with at most 512 snapshots, without failures and timed flushes, and shut down in an
  orderly way (\<open>sessions_ok\<close>), the stored counters of that day and every upstream are the sums over the
  operations of all of them, counted once each.  (Beyond the bound they are not: \<open>flush_drops_days\<close>.)
\<close>

theorem restarts_keep_totals:
  assumes "sessions_ok im env day d ss" and "dict_ok (db_daily d)"
  shows "read (row_of (foldl (\<lambda>d s. session_db im env s d) d ss) (day, up)) k
    = read (row_of d (day, up)) k
      + sum_list (map (\<lambda>p. adds p k) (filter (\<lambda>p. op_key p = (day, up)) (concat (map fst ss))))"
  using assms
proof (induction ss arbitrary: d)
  case (Cons s ss)
  have one: "sessions_ok im env day d [s]" using Cons.prems(1) by simp
  have "dict_ok (db_daily (session_db im env s d))" using Cons.prems by (intro session_db_ok) auto
  with Cons show ?case using session_adds [OF Cons.prems(2) one, of up k] by simp
qed simp


lemma day_texts: "day_key 0 = date_text 0" "hour_key 0 = hour_text 0" "day_key 60 = date_text 0" "hour_key 60 = hour_text 0"
  by (simp_all add: day_key_def hour_key_def secs_def)

definition sample_sessions :: "session list" where
  "sample_sessions = [([Cred 0 2 2], 0, 60), ([Injected 60, Cred 60 3 0], 60, 60)]"

lemmas store_simps = run_ops_def new_store_def load_existing_today_def collector_init_def collector.defs on_daily_def dget_or_def Let_def

lemma db_init_fields: "db_daily db_init = []" "db_hourly db_init = []"
  by (simp_all add: db_init_def)

lemma length_snapshots: "length (snapshots c) = length (mc_daily c) + length (mc_hourly c)"
  by (simp add: snapshots_def)

lemma sample_live:
  "mc_daily (live im env ([Cred 0 2 2], 0, 60) db_init) = [((date_text 0, ''other''), daily_init\<lparr>ag_cred_hits := 2, ag_cred_miss := 2\<rparr>)]"
  "mc_hourly (live im env ([Cred 0 2 2], 0, 60) db_init) = []"
  by (simp_all add: live_def store_simps db_init_fields incr_sync_cred_def day_texts daily_init_def hourly_agg.defs hourly_init_def)

lemma sample_db:
  "db_daily (session_db im env ([Cred 0 2 2], 0, 60) db_init) = [((date_text 0, ''other''), daily_init\<lparr>ag_cred_hits := 2, ag_cred_miss := 2\<rparr>)]"
  "db_hourly (session_db im env ([Cred 0 2 2], 0, 60) db_init) = []"
proof -
  have "day_cutoff 60 = date_text 0" by (simp add: day_cutoff_text secs_def)
  then show "db_daily (session_db im env ([Cred 0 2 2], 0, 60) db_init) = [((date_text 0, ''other''), daily_init\<lparr>ag_cred_hits := 2, ag_cred_miss := 2\<rparr>)]"
    "db_hourly (session_db im env ([Cred 0 2 2], 0, 60) db_init) = []"
    using close_db [OF live_fields(3-5) live_fields(2), of im env "([Cred 0 2 2], 0, 60)" db_init env 60]
    by (simp_all add: session_db_def live_fields snapshots_def sample_live QUEUE_MAXSIZE_def write_snapshot_def trim_old_def
        keep_from_def row_def daily_init_def hourly_agg.defs hourly_init_def db_init_fields)
qed

lemma sample_live2:
  "length (snapshots (live im env ([Injected 60, Cred 60 3 0], 60, 60) (session_db im env ([Cred 0 2 2], 0, 60) db_init))) = 1"
  by (simp add: live_def snapshots_def store_simps sample_db incr_sync_cred_def incr_placeholder_injected_def day_texts)

theorem restarts_keep_totals_witness:
  "read (row_of (foldl (\<lambda>d s. session_db True \<lparr>se_enabled = None, se_persist = None\<rparr> s d) db_init sample_sessions)
     (date_text 0, ''other'')) Cred_Hits = 5"
proof -
  let ?env = "\<lparr>se_enabled = None, se_persist = None\<rparr>"
  have "sessions_ok True ?env (date_text 0) db_init sample_sessions"
    by (simp add: sample_sessions_def day_texts sane_clock_def length_snapshots [of "live im env ([Cred 0 2 2], 0, 60) db_init" for im env] sample_live sample_live2
      QUEUE_MAXSIZE_def)
  then show ?thesis
    by (subst restarts_keep_totals)
      (simp_all add: sample_sessions_def day_texts db_init_fields row_of_def dget_or_def daily_init_def hourly_init_def hourly_agg.defs)
qed


section \<open>What is lost\<close>

text \<open>
  With 512 hourly entries, which four upstreams reach in a week, a flush puts no daily aggregate into the
  queue any more: the hours come last and push every day out.
\<close>

lemma flush_drops_days:
  assumes "ms_sqlite_ok st" "ms_conn st" "ms_queue st = []" "QUEUE_MAXSIZE \<le> length (mc_hourly st)"
  shows "\<forall>s \<in> set (ms_queue (flush now st)). \<exists>hour up a. s = Snap_Hour hour up a"
proof -
  have "ms_queue (fst (take_snapshot now True False st)) = []" using assms(3) by (simp add: take_snapshot_def trim_memory_def Let_def)
  then have "ms_queue (flush now st) = drop (length (snapshots st) - QUEUE_MAXSIZE) (snapshots st)"
    using assms(1,2) enqueue_queue [of "fst (take_snapshot now True False st)" now "snapshots st"]
    by (simp add: flush_def take_snapshot_def Let_def)
  then have q: "ms_queue (flush now st) = drop (length (mc_daily st) + (length (mc_hourly st) - QUEUE_MAXSIZE)) (snapshots st)"
    using assms(4) by (simp add: length_snapshots)
  then show ?thesis by (auto simp: snapshots_def dest!: in_set_dropD)
qed

text \<open>
  The snapshots in the queue are older than what a query has written meanwhile, and overwrite it: after
  \<open>_flush_sync\<close> the writer stores the older row again.
\<close>

lemma stale_snapshot_wins:
  assumes "ms_sqlite_ok st" "ms_conn st" "ms_queue st = [Snap_Day day up a]" "\<not> text_less day (day_cutoff now)"
  shows "dget (db_daily (ms_db (drain_queue env no_fault now (flush_sync env no_fault now st)))) (day, up) = Some (row a)"
proof -
  have q: "ms_queue (flush_sync env no_fault now st) = [Snap_Day day up a]" "ms_sqlite_ok (flush_sync env no_fault now st)"
    "ms_conn (flush_sync env no_fault now st)"
    using assms(1-3) write_all [of "fst (take_snapshot now True True st)" env now "snapshots st"]
    by (auto simp: flush_sync_def take_snapshot_def trim_memory_def Let_def)
  then show ?thesis
    using write_one [of "(day, up)" now env "Snap_Day day up a"] assms(4) by (simp add: drain_queue_def write_flush_def no_fault_def)
qed

text \<open>
  The samples are not loaded at the start, while their count in the table is overwritten: after a restart
  the count of a day starts again from nothing.
\<close>

lemma samples_not_loaded:
  assumes "\<forall>(k, a) \<in> set (db_daily d). ag_samples a = []"
  shows "ag_samples (daily_of (new_store now None d) key) = []"
proof -
  have "ag_samples (dget_or (foldl (\<lambda>d (k, a). dset k a d) m t) key daily_init) = []"
    if "\<forall>(k, a) \<in> set t. ag_samples a = []" "ag_samples (dget_or m key daily_init) = []" for m t
    using that by (induction t arbitrary: m) (auto simp: dget_or_def)
  moreover have "\<forall>(k, a) \<in> set (filter (\<lambda>(k, a). fst k = day_key now) (db_daily d)). ag_samples a = []" using assms by auto
  moreover have "ag_samples (dget_or [] key daily_init) = []"
    by (simp add: dget_or_def daily_init_def hourly_init_def hourly_agg.defs)
  ultimately have "ag_samples (dget_or (foldl (\<lambda>d (k, a). dset k a d) [] (filter (\<lambda>(k, a). fst k = day_key now) (db_daily d)))
      key daily_init) = []" by blast
  then show ?thesis
    by (simp add: new_store_def load_existing_today_def daily_of_def collector_init_def collector.defs Let_def)
qed

lemma sample_count_overwritten:
  assumes "is_pii_value_sample_persist env" "\<not> text_less day (day_key (now - 604800))" "ag_samples a = [(kind, [(m, n, h)])]" "0 < n" "h \<noteq> []"
  shows "dget (db_values (write_snapshot env now (Snap_Day day up a) d)) (day, up, sanitize_kind kind [], py_take 16 h) = Some (py_take 64 m, n)"
proof -
  have "is_pii_value_sample_enabled env"
    using assms(1) by (auto simp: is_pii_value_sample_persist_def is_pii_value_sample_enabled_def Let_def split: if_splits)
  moreover have f: "dget (filter (\<lambda>((day, _), _). \<not> text_less day cutoff) t) (day, q) = (if text_less day cutoff then None else dget t (day, q))"
    for cutoff and t :: "(value_key, string \<times> nat) dict" and day q
    by (induction t) auto
  ultimately show ?thesis using assms by (simp add: write_snapshot_def trim_old_def upsert_values_def f)
qed


theorem retention_window_witness:
  "dget (mc_daily (trim_memory 3000000 (collector_init\<lparr>mc_daily := [((date_text 0, ''u''), daily_init), ((date_text 20, ''u''), daily_init)]\<rparr>)))
     (date_text 0, ''u'') = None"
  using retention_window [of 3000000 0 0 "collector_init\<lparr>mc_daily := [((date_text 0, ''u''), daily_init), ((date_text 20, ''u''), daily_init)]\<rparr>" "''u''"]
  by (simp add: sane_clock_def secs_def)

theorem queue_keeps_newest_witness:
  "ms_queue (enqueue 0 [Snap_Hour ''h'' ''u'' hourly_init] (new_store 0 None db_init)) = [Snap_Hour ''h'' ''u'' hourly_init]"
  using queue_keeps_newest [of "new_store 0 None db_init" 0 "[Snap_Hour ''h'' ''u'' hourly_init]"]
  by (simp add: new_store_fields QUEUE_MAXSIZE_def)

end
