(* ===== verification/Metrics_Query.thy ===== *)
theory Metrics_Query
  imports Metrics_Store "HOL-Library.Extended_Nat"
begin

text \<open>
  What the dashboard asks the collector (\<open>_metrics.py\<close>): the statistics of the ring of recent events, the
  percentiles of the buckets, the health counters, the recent events, the totals and the series of a
  time range, from the ring, the tables or the memory.
\<close>

section \<open>The ring\<close>

record ring_report =
  rr_len :: nat
  rr_coverage :: real
  rr_precise :: bool
  rr_p95 :: "real option"
  rr_p50 :: "real option"

text \<open>\<open>round(x, 1)\<close>: the nearest tenth, the even one of two.\<close>

definition round1 :: "real \<Rightarrow> real" where
  "round1 x = (let y = 10 * x; f = \<lfloor>y\<rfloor>; r = y - of_int f
     in of_int (if r < 1 / 2 \<or> r = 1 / 2 \<and> even f then f else f + 1) / 10)"

definition passes :: "string option \<Rightarrow> string option \<Rightarrow> event \<Rightarrow> bool" where
  "passes upstream model e \<longleftrightarrow> (case upstream of None \<Rightarrow> True | Some u \<Rightarrow> ev_upstream e = u)
     \<and> (case model of None \<Rightarrow> True | Some m \<Rightarrow> ev_model e = m)"

text \<open>\<open>sorted(xs)[min(int(p * n), n - 1)]\<close>\<close>

definition quantile :: "real \<Rightarrow> real list \<Rightarrow> real" where
  "quantile p xs = sort xs ! min (nat \<lfloor>p * real (length xs)\<rfloor>) (length xs - 1)"

definition ring_stats :: "real \<Rightarrow> string option \<Rightarrow> string option \<Rightarrow> event list \<Rightarrow> ring_report" where
  "ring_stats now upstream model ring =
     (let evs = filter (passes upstream model) ring; lat = List.map_filter ev_latency evs
      in if evs = [] then \<lparr>rr_len = 0, rr_coverage = 0, rr_precise = False, rr_p95 = None, rr_p50 = None\<rparr>
         else let coverage = now - ev_ts (hd evs)
           in \<lparr>rr_len = length evs, rr_coverage = round1 coverage, rr_precise = (3600 \<le> coverage \<and> 100 \<le> length lat),
               rr_p95 = (if lat = [] then None else Some (quantile 0.95 lat)),
               rr_p50 = (if lat = [] then None else Some (quantile 0.5 lat))\<rparr>)"

text \<open>The newest first, at least one when there is one; empty filters and \<open>None\<close> pass everything.\<close>

definition event_wanted :: "string \<Rightarrow> string \<Rightarrow> string \<Rightarrow> event \<Rightarrow> bool" where
  "event_wanted kind upstream model e \<longleftrightarrow> (upstream = [] \<or> ev_upstream e = upstream) \<and> (model = [] \<or> ev_model e = model)
     \<and> (kind = [] \<or> sublist kind (ev_summary e))"

definition recent_events :: "nat \<Rightarrow> string \<Rightarrow> string \<Rightarrow> string \<Rightarrow> event list \<Rightarrow> event list" where
  "recent_events limit kind upstream model ring = take (max limit 1) (filter (event_wanted kind upstream model) (rev ring))"

definition sum_counter :: "(daily_agg \<Rightarrow> nat) \<Rightarrow> 'a collector_scheme \<Rightarrow> nat" where
  "sum_counter f c = sum_list (map (f \<circ> snd) (mc_daily c))"

section \<open>Percentiles of buckets\<close>

definition key_order :: "string \<Rightarrow> enat" where
  "key_order k = (case key_bound k of None \<Rightarrow> \<infinity> | Some n \<Rightarrow> enat n)"

fun first_reaching :: "real \<Rightarrow> nat \<Rightarrow> (string \<times> nat) list \<Rightarrow> string option" where
  "first_reaching target cum [] = None"
| "first_reaching target cum ((k, v) # kvs) =
     (if target \<le> real (cum + v) then Some k else first_reaching target (cum + v) kvs)"

definition bucket_middle :: "string \<Rightarrow> real option" where
  "bucket_middle k =
     (case key_bound k of
        None \<Rightarrow> None
      | Some upper \<Rightarrow>
          (let idx = (case find (\<lambda>i. LATENCY_BUCKETS ! i = Some upper) [0 ..< length LATENCY_BUCKETS] of None \<Rightarrow> 0 | Some i \<Rightarrow> i);
               lower = (if 0 < idx then (case LATENCY_BUCKETS ! (idx - 1) of Some n \<Rightarrow> real n | None \<Rightarrow> 0) else 0)
           in Some ((lower + real upper) / 2)))"

definition percentile_from_buckets :: "(string, nat) dict \<Rightarrow> real \<Rightarrow> real option" where
  "percentile_from_buckets buckets p =
     (let total = sum_list (map snd buckets)
      in if total = 0 then None
         else Option.bind (first_reaching (p * real total) 0 (sort_key (\<lambda>kv. key_order (fst kv)) buckets)) bucket_middle)"

section \<open>Totals of a range\<close>

record report =
  rp_totals :: daily_agg
  rp_p50 :: "real option"
  rp_p95 :: "real option"
  rp_precise :: bool

text \<open>\<open>_merge_tokens\<close> and \<open>_merge_json_counter\<close> for the columns of one row.\<close>

definition add_hour_row :: "'a hourly_agg_scheme \<Rightarrow> daily_agg \<Rightarrow> daily_agg" where
  "add_hour_row a out = out\<lparr>
     ag_requests := ag_requests out + ag_requests a,
     ag_by_status := merge_counts (ag_by_status out) (ag_by_status a),
     ag_tokens := merge_tokens (ag_tokens out) (map (\<lambda>(m, u). (m, JObj u)) (ag_tokens a)),
     ag_latency := merge_counts (ag_latency out) (ag_latency a),
     ag_pii_by_type := merge_counts (ag_pii_by_type out) (ag_pii_by_type a),
     ag_pii_hits := ag_pii_hits out + ag_pii_hits a,
     ag_pii_miss := ag_pii_miss out + ag_pii_miss a,
     ag_pii_requests := ag_pii_requests out + ag_pii_requests a,
     ag_pii_lru := ag_pii_lru out + ag_pii_lru a,
     ag_cred_lru := ag_cred_lru out + ag_cred_lru a\<rparr>"

definition add_day_row :: "daily_agg \<Rightarrow> daily_agg \<Rightarrow> daily_agg" where
  "add_day_row a out0 =
     (let out = add_hour_row a out0
      in out\<lparr>ag_cred_hits := ag_cred_hits out + ag_cred_hits a, ag_cred_miss := ag_cred_miss out + ag_cred_miss a,
           ag_by_verdict := merge_counts (ag_by_verdict out) (ag_by_verdict a),
           ag_by_rule := merge_counts (ag_by_rule out) (ag_by_rule a),
           ag_injected := ag_injected out + ag_injected a, ag_truncated := ag_truncated out + ag_truncated a,
           ag_json_success := ag_json_success out + ag_json_success a, ag_json_leaf := ag_json_leaf out + ag_json_leaf a,
           ag_json_full := ag_json_full out + ag_json_full a\<rparr>)"

text \<open>\<open>WHERE hour >= ? AND upstream = ?\<close>\<close>

definition in_window :: "string \<Rightarrow> string option \<Rightarrow> agg_key \<Rightarrow> bool" where
  "in_window cutoff upstream key \<longleftrightarrow> \<not> text_less (fst key) cutoff \<and> (case upstream of None \<Rightarrow> True | Some u \<Rightarrow> snd key = u)"

definition select :: "string \<Rightarrow> string option \<Rightarrow> (agg_key, 'a) dict \<Rightarrow> 'a list" where
  "select cutoff upstream t = map snd (filter (\<lambda>(k, a). in_window cutoff upstream k) t)"

definition only_model :: "string option \<Rightarrow> daily_agg \<Rightarrow> daily_agg" where
  "only_model model d = (case model of None \<Rightarrow> d
     | Some m \<Rightarrow> if m = [] then d else d\<lparr>ag_tokens := filter (\<lambda>(k, u). k = m) (ag_tokens d)\<rparr>)"

definition bucket_report :: "string option \<Rightarrow> daily_agg \<Rightarrow> report" where
  "bucket_report model out = \<lparr>rp_totals = only_model model out, rp_p50 = percentile_from_buckets (ag_latency out) 0.5,
     rp_p95 = percentile_from_buckets (ag_latency out) 0.95, rp_precise = False\<rparr>"

definition query_db_with :: "string option \<Rightarrow> string option \<Rightarrow> nat \<Rightarrow> real \<Rightarrow> db \<Rightarrow> report" where
  "query_db_with model upstream hours now d =
     (let cutoff_hour = hour_key (now - real hours * 3600); cutoff_date = day_key (now - real hours * 3600);
          out1 = (if hours < 24 * 30 then foldl (\<lambda>r a. add_hour_row a r) daily_init (select cutoff_hour upstream (db_hourly d)) else daily_init);
          out = (if 24 * 30 \<le> hours then foldl (\<lambda>r a. add_day_row a r) out1 (select cutoff_date upstream (db_daily d)) else out1)
      in bucket_report model out)"

text \<open>Without a database the days in memory, whatever the range.\<close>

definition query_memory_fallback :: "nat \<Rightarrow> string option \<Rightarrow> string option \<Rightarrow> 'a collector_scheme \<Rightarrow> report" where
  "query_memory_fallback hours model upstream c =
     bucket_report model (foldl (\<lambda>r a. add_day_row a r) daily_init
       (map snd (filter (\<lambda>(k, a). case upstream of None \<Rightarrow> True | Some u \<Rightarrow> snd k = u) (mc_daily c))))"

text \<open>A flush, then the tables; \<open>readable\<close> says whether they could be opened and read.\<close>

definition query_db ::
  "sample_env \<Rightarrow> (snapshot \<Rightarrow> db_fault option) \<Rightarrow> bool \<Rightarrow> real \<Rightarrow> nat \<Rightarrow> string option \<Rightarrow> string option \<Rightarrow> store \<Rightarrow> store \<times> report" where
  "query_db env fault readable now hours model upstream st =
     (let st1 = flush_sync env fault now st
      in (st1, if ms_conn st1 \<and> readable then query_db_with model upstream hours now (ms_db st1)
               else query_memory_fallback hours model upstream st1))"

section \<open>The last hour\<close>

text \<open>The rows of the last hours and, from the ring, what came after the last flush.\<close>

definition query_1h_db_recent :: "string option \<Rightarrow> bool \<Rightarrow> real \<Rightarrow> store \<Rightarrow> daily_agg" where
  "query_1h_db_recent upstream readable now st =
     (if \<not> ms_conn st \<or> \<not> readable then daily_init
      else foldl (\<lambda>r a. r\<lparr>ag_requests := ag_requests r + ag_requests a,
           ag_by_status := merge_counts (ag_by_status r) (ag_by_status a),
           ag_tokens := merge_tokens (ag_tokens r) (map (\<lambda>(m, u). (m, JObj u)) (ag_tokens a)),
           ag_pii_by_type := merge_counts (ag_pii_by_type r) (ag_pii_by_type a),
           ag_pii_hits := ag_pii_hits r + ag_pii_hits a, ag_pii_miss := ag_pii_miss r + ag_pii_miss a,
           ag_pii_requests := ag_pii_requests r + ag_pii_requests a\<rparr>) daily_init
        (select (hour_key (now - 2 * 3600)) upstream (db_hourly (ms_db st))))"

definition ring_delta :: "real \<Rightarrow> real \<Rightarrow> string option \<Rightarrow> string option \<Rightarrow> event list \<Rightarrow> event list" where
  "ring_delta last_flush cutoff upstream model ring =
     filter (\<lambda>e. last_flush \<le> ev_ts e \<and> cutoff \<le> ev_ts e \<and> passes upstream model e) ring"

definition add_ring_event :: "event \<Rightarrow> daily_agg \<Rightarrow> daily_agg" where
  "add_ring_event e r = r\<lparr>ag_by_status := bump 1 (ev_status e) (ag_by_status r),
     ag_pii_requests := (if ev_pii_found e then ag_pii_requests r + 1 else ag_pii_requests r),
     ag_pii_hits := ag_pii_hits r + ev_pii_hits e, ag_pii_miss := ag_pii_miss r + ev_pii_miss e\<rparr>"

text \<open>With a model in the filter: the ring alone, completed by the whole day's counters in memory.\<close>

definition add_today :: "string \<Rightarrow> daily_agg \<Rightarrow> daily_agg \<Rightarrow> daily_agg" where
  "add_today m a r = r\<lparr>ag_pii_by_type := merge_counts (ag_pii_by_type r) (ag_pii_by_type a),
     ag_tokens := merge_tokens (ag_tokens r) (map (\<lambda>(k, u). (k, JObj u)) (filter (\<lambda>(k, u). k = m) (ag_tokens a))),
     ag_cred_hits := ag_cred_hits r + ag_cred_hits a, ag_cred_miss := ag_cred_miss r + ag_cred_miss a,
     ag_by_verdict := merge_counts (ag_by_verdict r) (ag_by_verdict a), ag_by_rule := merge_counts (ag_by_rule r) (ag_by_rule a)\<rparr>"

definition query_1h ::
  "sample_env \<Rightarrow> (snapshot \<Rightarrow> db_fault option) \<Rightarrow> bool \<Rightarrow> real \<Rightarrow> string option \<Rightarrow> string option \<Rightarrow> store \<Rightarrow> store \<times> report" where
  "query_1h env fault readable now model upstream st =
     (let ring = ring_stats now upstream model (mc_ring st);
          st1 = (if model = None then flush_sync env fault now st else st);
          base = (if model = None then query_1h_db_recent upstream readable now st1 else daily_init);
          delta = ring_delta (if model = None then ms_last_flush st1 else 0) (now - 3600) upstream model (mc_ring st1);
          out1 = foldl (\<lambda>r e. add_ring_event e r) (base\<lparr>ag_requests := ag_requests base + length delta\<rparr>) delta;
          out = (case model of None \<Rightarrow> out1
             | Some m \<Rightarrow> foldl (\<lambda>r a. add_today m a r) out1
                 (map snd (filter (\<lambda>(k, a). fst k = day_key now \<and> (case upstream of None \<Rightarrow> True | Some u \<Rightarrow> snd k = u)) (mc_daily st1))))
      in (st1, \<lparr>rp_totals = only_model model out, rp_p50 = rr_p50 ring, rp_p95 = rr_p95 ring, rp_precise = rr_precise ring\<rparr>))"


section \<open>Series\<close>

record point =
  pt_ts :: int
  pt_requests :: nat
  pt_prompt :: json
  pt_completion :: json
  pt_cached :: json
  pt_p95 :: "real option"
  pt_pii :: nat

definition empty_point :: "int \<Rightarrow> point" where
  "empty_point ts = \<lparr>pt_ts = ts, pt_requests = 0, pt_prompt = JInt 0, pt_completion = JInt 0, pt_cached = JInt 0, pt_p95 = None, pt_pii = 0\<rparr>"

text \<open>\<open>(u.get(a) if u.get(a) is not None else u.get(b)) or 0\<close>\<close>

definition first_of :: "string \<Rightarrow> string \<Rightarrow> (string, json) dict \<Rightarrow> json" where
  "first_of a b u = or_zero (case not_none (dget u a) of Some x \<Rightarrow> Some x | None \<Rightarrow> dget u b)"

text \<open>The usage of every model, or of the one asked for; the entries are dictionaries.\<close>

definition add_point_tokens :: "string option \<Rightarrow> tokens \<Rightarrow> point \<Rightarrow> point" where
  "add_point_tokens model toks b = foldl (\<lambda>b (m, u).
     if (case model of None \<Rightarrow> False | Some x \<Rightarrow> m \<noteq> x) then b
     else b\<lparr>pt_prompt := num_add (pt_prompt b) (first_of ''prompt'' ''input'' u),
            pt_completion := num_add (pt_completion b) (first_of ''completion'' ''output'' u),
            pt_cached := num_add (pt_cached b) (or_zero (dget u ''cached_read''))\<rparr>) b toks"

definition dict_tokens :: "(string, json) dict \<Rightarrow> tokens" where
  "dict_tokens d = List.map_filter (\<lambda>(m, v). map_option (Pair m) (jobj v)) d"

definition add_point_event :: "string option \<Rightarrow> event \<Rightarrow> point \<Rightarrow> point" where
  "add_point_event model e b =
     add_point_tokens model (dict_tokens (ev_tokens e))
       (b\<lparr>pt_requests := pt_requests b + 1, pt_pii := (if ev_pii_found e then pt_pii b + 1 else pt_pii b)\<rparr>)"

text \<open>The minute of an event, counted from the first of the sixty.\<close>

definition minute_of :: "int \<Rightarrow> event \<Rightarrow> int" where
  "minute_of start e = \<lfloor>(ev_ts e - of_int start) / 60\<rfloor>"

definition start_minute :: "real \<Rightarrow> int" where
  "start_minute now = \<lfloor>now / 60\<rfloor> * 60 - 59 * 60"

definition in_series :: "real \<Rightarrow> string option \<Rightarrow> string option \<Rightarrow> event \<Rightarrow> bool" where
  "in_series now model upstream e \<longleftrightarrow> now - 3600 \<le> ev_ts e \<and> passes upstream model e
     \<and> 0 \<le> minute_of (start_minute now) e \<and> minute_of (start_minute now) e < 60"

definition series_1h :: "real \<Rightarrow> string option \<Rightarrow> string option \<Rightarrow> event list \<Rightarrow> point list \<times> bool" where
  "series_1h now model upstream ring =
     (let start = start_minute now; evs = filter (in_series now model upstream) ring;
          mine = (\<lambda>i. filter (\<lambda>e. minute_of start e = int i) evs);
          point = (\<lambda>i. let b = foldl (\<lambda>b e. add_point_event model e b) (empty_point (start + int i * 60)) (mine i);
               lats = List.map_filter ev_latency (mine i)
             in if lats = [] then b else b\<lparr>pt_p95 := Some (quantile 0.95 lats)\<rparr>)
      in (map point [0 ..< 60], rr_precise (ring_stats now upstream model ring)))"

text \<open>
  The longer ranges: \<open>n\<close> buckets of \<open>width\<close> seconds up to the current one, filled with the rows whose key
  is the key of a bucket.  The last row of a bucket decides its percentile.
\<close>

definition series_starts :: "real \<Rightarrow> nat \<Rightarrow> nat \<Rightarrow> int list" where
  "series_starts now n width = map (\<lambda>i. \<lfloor>(now - real (n - 1 - i) * real width) / real width\<rfloor> * int width) [0 ..< n]"

definition add_point_row :: "string option \<Rightarrow> 'a hourly_agg_scheme \<Rightarrow> point \<Rightarrow> point" where
  "add_point_row model a b0 =
     (let b = add_point_tokens model (ag_tokens a) (b0\<lparr>pt_requests := pt_requests b0 + ag_requests a\<rparr>)
      in b\<lparr>pt_pii := pt_pii b + ag_pii_requests a,
           pt_p95 := (if ag_latency a = [] then pt_p95 b else percentile_from_buckets (ag_latency a) 0.95)\<rparr>)"

definition series_rows ::
  "real \<Rightarrow> nat \<Rightarrow> nat \<Rightarrow> (real \<Rightarrow> string) \<Rightarrow> string option \<Rightarrow> (agg_key, 'a hourly_agg_scheme) dict \<Rightarrow> point list" where
  "series_rows now n width key_fn model rows =
     (let starts = series_starts now n width;
          index = (\<lambda>k. find (\<lambda>i. key_fn (of_int (starts ! i)) = k) (rev [0 ..< n]))
      in foldl (\<lambda>ps (k, a). case index (fst k) of None \<Rightarrow> ps | Some i \<Rightarrow> ps[i := add_point_row model a (ps ! i)])
           (map empty_point starts) rows)"

definition window_rows :: "string \<Rightarrow> string option \<Rightarrow> (agg_key, 'a) dict \<Rightarrow> (agg_key, 'a) dict" where
  "window_rows cutoff upstream t = filter (\<lambda>(k, a). in_window cutoff upstream k) t"

text \<open>\<open>_series_db\<close> and, without a database, \<open>_series_memory\<close>, on the days or on the hours.\<close>

definition series_long ::
  "sample_env \<Rightarrow> (snapshot \<Rightarrow> db_fault option) \<Rightarrow> bool \<Rightarrow> real \<Rightarrow> nat \<Rightarrow> bool \<Rightarrow> string option \<Rightarrow> string option \<Rightarrow> store \<Rightarrow> store \<times> point list" where
  "series_long env fault readable now hours daily model upstream st =
     (let st1 = flush_sync env fault now st; from_db = (ms_conn st1 \<and> readable); cutoff = now - real hours * 3600
      in (st1,
          if daily then series_rows now (hours div 24) 86400 day_key model
             (window_rows (day_key cutoff) upstream (if from_db then db_daily (ms_db st1) else mc_daily st1))
          else series_rows now hours 3600 hour_key model
             (window_rows (hour_key cutoff) upstream (if from_db then db_hourly (ms_db st1) else mc_hourly st1))))"

section \<open>Samples\<close>

definition merge_sample_counts :: "(string, (string, nat) dict) dict \<Rightarrow> (string, (string, nat) dict) dict \<Rightarrow> (string, (string, nat) dict) dict" where
  "merge_sample_counts agg samples = foldl (\<lambda>agg (kind, inner).
     let sk = sanitize_kind kind []
     in dset sk (foldl (\<lambda>d (m, n). if n = 0 then d else bump n (py_take 64 m) d) (dget_or agg sk []) inner) agg) agg samples"

text \<open>The five most frequent of each kind, and whether there were more.\<close>

definition query_pii_1h ::
  "sample_env \<Rightarrow> real \<Rightarrow> string option \<Rightarrow> string option \<Rightarrow> event list \<Rightarrow> (string, (string, nat) dict) dict \<times> (string, bool) dict" where
  "query_pii_1h env now model upstream ring =
     (let evs = filter (\<lambda>e. now - 3600 \<le> ev_ts e \<and> passes upstream model e) ring;
          agg = foldl (\<lambda>a e. merge_sample_counts a (ev_samples e)) [] evs
      in (filter (\<lambda>(k, d). d \<noteq> []) (map (\<lambda>(k, d). (k, top_n 5 snd d)) agg),
          map (\<lambda>(k, d). (k, is_pii_value_sample_enabled env \<and> 5 < length d)) agg))"

text \<open>
  The samples the table keeps, in its order: the rows of one kind and hash are added up under the first text,
  then the five most frequent of each kind are shown by their text.  A model in the filter has no effect.
\<close>

definition group_values :: "(value_key \<times> string \<times> nat) list \<Rightarrow> (string \<times> string, string \<times> nat) dict" where
  "group_values rows = foldl (\<lambda>g ((day, up, kind, hsh), masked, n).
     let key = (sanitize_kind kind [], hsh)
     in case dget g key of Some (m0, n0) \<Rightarrow> dset key (m0, n0 + n) g | None \<Rightarrow> dset key (py_take 64 masked, n) g) [] rows"

definition values_by_kind :: "(string \<times> string, string \<times> nat) dict \<Rightarrow> (string, (string \<times> nat) list) dict" where
  "values_by_kind g = foldl (\<lambda>d ((kind, hsh), item). dset kind (dget_or d kind [] @ [item]) d) [] g"

record sample_report =
  sr_values :: "(string, (string, nat) dict) dict"
  sr_precise :: bool
  sr_truncated :: "(string, bool) dict"

definition no_samples :: sample_report where
  "no_samples = \<lparr>sr_values = [], sr_precise = False, sr_truncated = []\<rparr>"

definition span_hours :: "string \<Rightarrow> nat" where
  "span_hours rng = (if rng = ''24h'' then 24 else if rng = ''7d'' then 24 * 7 else if rng = ''30d'' then 24 * 30 else 24)"

definition query_pii_db :: "sample_env \<Rightarrow> bool \<Rightarrow> real \<Rightarrow> string \<Rightarrow> string option \<Rightarrow> db \<Rightarrow> sample_report" where
  "query_pii_db env readable now rng upstream d =
     (if \<not> is_pii_value_sample_persist env \<or> \<not> is_pii_value_sample_enabled env \<or> \<not> readable then no_samples
      else let cutoff_day = day_key (now - real (span_hours rng) * 3600);
               rows = filter (\<lambda>((day, up, kind, hsh), x). in_window cutoff_day upstream (day, up)) (db_values d);
               kinds = values_by_kind (group_values rows);
               pii_out = map (\<lambda>(k, items). (k, foldl (\<lambda>d (m, n). bump n m d) [] (top_n 5 snd items))) kinds
           in \<lparr>sr_values = pii_out, sr_precise = (pii_out \<noteq> []),
               sr_truncated = map (\<lambda>(k, items). (k, 5 < length items)) kinds\<rparr>)"

section \<open>The answers\<close>

text \<open>\<open>query_range\<close>: the totals of the range and, where they are switched on, the samples.\<close>

definition query_range ::
  "sample_env \<Rightarrow> (snapshot \<Rightarrow> db_fault option) \<Rightarrow> bool \<Rightarrow> real \<Rightarrow> string \<Rightarrow> string option \<Rightarrow> string option \<Rightarrow> store
     \<Rightarrow> store \<times> report \<times> sample_report" where
  "query_range env fault readable now rng model upstream st =
     (let (st1, base) =
            (if rng = ''1h'' then query_1h env fault readable now model upstream st
             else query_db env fault readable now
               (if rng = ''24h'' then 24 else if rng = ''7d'' then 24 * 7 else 24 * 30) model upstream st);
          samples =
            (if \<not> is_pii_value_sample_enabled env then no_samples
             else if rng = ''1h'' then
               (case query_pii_1h env now model upstream (mc_ring st1) of (pii_out, truncated) \<Rightarrow>
                  \<lparr>sr_values = pii_out, sr_precise = rr_precise (ring_stats now upstream model (mc_ring st1)),
                   sr_truncated = truncated\<rparr>)
             else query_pii_db env readable now rng upstream (ms_db st1))
      in (st1, base, samples))"

text \<open>\<open>series\<close>: minutes, hours or days.\<close>

definition series ::
  "sample_env \<Rightarrow> (snapshot \<Rightarrow> db_fault option) \<Rightarrow> bool \<Rightarrow> real \<Rightarrow> string \<Rightarrow> string option \<Rightarrow> string option \<Rightarrow> store
     \<Rightarrow> store \<times> point list \<times> bool" where
  "series env fault readable now rng model upstream st =
     (if rng = ''1h'' then (st, series_1h now model upstream (mc_ring st))
      else case series_long env fault readable now
          (if rng = ''30d'' then 24 * 30 else if rng = ''24h'' then 24 else 24 * 7) (rng = ''30d'') model upstream st
        of (st1, points) \<Rightarrow> (st1, points, False))"

record health_report =
  he_pii_enabled :: bool
  he_custom_disabled :: json
  he_audit_mode :: json
  he_prompt_enabled :: bool
  he_age :: real
  he_sqlite_ok :: bool
  he_ring :: ring_report
  he_dropped :: "nat \<times> real option \<times> real option"
  he_audit_pending :: json
  he_audit_overflows :: json
  he_truncated :: nat
  he_json :: "nat \<times> nat \<times> nat"
  he_injected :: nat
  he_sqlite_error :: "string option"

definition health :: "real \<Rightarrow> store \<Rightarrow> health_report" where
  "health now st =
     (let flag = (\<lambda>k. case dget (mc_counters st) k of None \<Rightarrow> True | Some v \<Rightarrow> jtruthy v);
          get = (\<lambda>k d. dget_or (mc_counters st) k d)
      in \<lparr>he_pii_enabled = flag ''_pii_enabled'', he_custom_disabled = get ''pii_custom_disabled_count'' (JInt 0),
          he_audit_mode = get ''_audit_mode'' (JStr []), he_prompt_enabled = flag ''_placeholder_prompt_enabled'',
          he_age = round1 (now - ms_last_flush st), he_sqlite_ok = ms_sqlite_ok st, he_ring = ring_stats now None None (mc_ring st),
          he_dropped = (ms_dropped st, ms_first_dropped st, ms_last_dropped st),
          he_audit_pending = get ''audit_pending_total'' (JInt 0), he_audit_overflows = get ''audit_hold_overflows'' (JInt 0),
          he_truncated = sum_counter ag_truncated st,
          he_json = (sum_counter ag_json_success st, sum_counter ag_json_leaf st, sum_counter ag_json_full st),
          he_injected = sum_counter ag_injected st, he_sqlite_error = ms_sqlite_error st\<rparr>)"

end
