(* ===== verification/Metrics_Facts.thy ===== *)
theory Metrics_Facts
  imports Metrics_Query "HOL-Library.Multiset"
begin

text \<open>
  What the dashboard's numbers are worth (\<open>_metrics.py\<close>): the percentile of the buckets against the exact
  one, the totals of a range against the operations, and where they are wrong.
\<close>

section \<open>The percentile of the buckets\<close>

lemma first_reaching_split:
  "first_reaching t c kvs = Some k \<Longrightarrow> \<exists>pre v post. kvs = pre @ (k, v) # post
     \<and> t \<le> real (c + sum_list (map snd pre) + v) \<and> (pre \<noteq> [] \<longrightarrow> real (c + sum_list (map snd pre)) < t)"
proof (induction t c kvs rule: first_reaching.induct)
  case (2 t c j v kvs)
  show ?case
  proof (cases "t \<le> real (c + v)")
    case True
    with 2(2) show ?thesis by (intro exI [of _ "[]"]) auto
  next
    case False
    with 2 obtain pre w post where ih: "kvs = pre @ (k, w) # post" "t \<le> real (c + v + sum_list (map snd pre) + w)"
      "pre \<noteq> [] \<longrightarrow> real (c + v + sum_list (map snd pre)) < t" by auto
    have "real (c + sum_list (map snd ((j, v) # pre))) < t" using ih(3) False by (cases pre) auto
    with ih show ?thesis by (intro exI [of _ "(j, v) # pre"]) (auto simp: add.assoc)
  qed
qed simp

lemma first_reaching_Some: "kvs \<noteq> [] \<Longrightarrow> t \<le> real (c + sum_list (map snd kvs)) \<Longrightarrow> first_reaching t c kvs \<noteq> None"
proof (induction t c kvs rule: first_reaching.induct)
  case (2 t c j v kvs)
  then show ?case by (cases kvs) (auto simp: add.assoc)
qed simp

text \<open>The bucket of a latency, its key and the order of the keys.\<close>

definition lat_key :: "real \<Rightarrow> string" where
  "lat_key x = bucket_key (metrics_bucket x)"

lemma key_bound_key: "key_bound (bucket_key b) = b"
proof -
  have "dec n \<noteq> ''inf''" for n
  proof
    assume "dec n = ''inf''"
    with dec_digits [of n] show False by (simp add: is_digit_def byte_def)
  qed
  then show ?thesis by (cases b) (auto simp: bucket_key_def key_bound_def)
qed

lemma metrics_bucket_mono:
  assumes "x \<le> y"
  shows "key_order (lat_key x) \<le> key_order (lat_key y)"
proof -
  obtain i where i: "i < length LATENCY_BUCKETS" "metrics_bucket x = LATENCY_BUCKETS ! i" "\<forall>j < i. \<not> fits x (LATENCY_BUCKETS ! j)"
    using bucket_least [of x] by blast
  obtain k where k: "k < length LATENCY_BUCKETS" "metrics_bucket y = LATENCY_BUCKETS ! k" "fits y (LATENCY_BUCKETS ! k)"
    using bucket_least [of y] by blast
  have "fits x b" if "fits y b" for b using that assms by (cases b) auto
  then have "i \<le> k" using i(3) k(3) by (meson not_le)
  moreover have "sorted_wrt (\<lambda>a b. (case a of None \<Rightarrow> \<infinity> | Some n \<Rightarrow> enat n) \<le> (case b of None \<Rightarrow> \<infinity> | Some n \<Rightarrow> enat n)) LATENCY_BUCKETS"
    by (simp add: LATENCY_BUCKETS_def)
  then have "(case LATENCY_BUCKETS ! i of None \<Rightarrow> \<infinity> | Some n \<Rightarrow> enat n) \<le> (case LATENCY_BUCKETS ! k of None \<Rightarrow> \<infinity> | Some n \<Rightarrow> enat n)" if "i < k"
    using that k(1) by (rule sorted_wrt_nth_less)
  ultimately show ?thesis using i(2) k(2) by (cases "i = k") (simp_all add: lat_key_def key_order_def key_bound_key)
qed

lemma lat_key_inj: "key_order (lat_key x) = key_order (lat_key y) \<longleftrightarrow> lat_key x = lat_key y"
proof -
  have "key_bound (lat_key x) = key_bound (lat_key y) \<Longrightarrow> lat_key x = lat_key y" by (simp add: lat_key_def key_bound_key)
  then show ?thesis by (auto simp: key_order_def split: option.splits)
qed

text \<open>How many of a sorted list are below a bucket decides in which bucket a place is.\<close>

lemma count_below:
  assumes "sorted xs" "\<And>x y. x \<le> y \<Longrightarrow> P y \<Longrightarrow> P x" "j < length xs"
  shows "P (xs ! j) \<longleftrightarrow> j < length (filter P xs)"
  using assms
proof (induction xs arbitrary: j)
  case (Cons x xs)
  show ?case
  proof (cases "P x")
    case True
    with Cons show ?thesis by (cases j) auto
  next
    case False
    have "\<not> P y" if "y \<in> set (x # xs)" for y
      using that Cons.prems(1,2) False by (metis list.set_cases sorted_simps(2) set_ConsD)
    moreover from this have "filter P (x # xs) = []" by (simp only: filter_empty_conv) blast
    ultimately show ?thesis using Cons.prems(3) nth_mem [of j "x # xs"] by (metis list.size(3) not_less_zero)
  qed
qed simp

definition counts_of :: "real list \<Rightarrow> (string, nat) dict" where
  "counts_of xs = foldl (\<lambda>d x. bump 1 (lat_key x) d) [] xs"

lemma counts_of_snoc: "counts_of (xs @ [x]) = bump 1 (lat_key x) (counts_of xs)"
  by (simp add: counts_of_def)

lemma counts_of_facts:
  "dict_ok (counts_of xs)" "cnt (counts_of xs) k = length (filter (\<lambda>x. lat_key x = k) xs)"
  "fst ` set (counts_of xs) = lat_key ` set xs"
proof (induction xs rule: rev_induct)
  case (snoc x xs)
  { case 1 show ?case using snoc(1) by (simp add: counts_of_snoc)
  next case 2 show ?case using snoc(2) by (simp add: counts_of_snoc)
  next case 3 show ?case using snoc(3) by (simp add: counts_of_snoc bump_def keys_dset) }
qed (simp_all add: counts_of_def)

lemma sum_filter_keys:
  assumes "dict_ok d" "\<forall>k. cnt d k = length (filter (\<lambda>x. g x = k) xs)"
  shows "sum_list (map snd (filter (P \<circ> fst) d)) = length (filter (\<lambda>x. P (g x) \<and> g x \<in> fst ` set d) xs)"
proof -
  have "sum_list (map snd (filter (P \<circ> fst) d)) = (\<Sum>k \<in> {k \<in> fst ` set d. P k}. length (filter (\<lambda>x. g x = k) xs))"
  proof -
    have "distinct (map fst (filter (P \<circ> fst) d))" using assms(1) by (simp add: dict_ok_def distinct_map_filter)
    moreover have "map snd (filter (P \<circ> fst) d) = map (cnt d) (map fst (filter (P \<circ> fst) d))"
      using dget_set [OF assms(1), THEN iffD2] by (auto simp: cnt_def dget_or_def)
    ultimately have "sum_list (map snd (filter (P \<circ> fst) d)) = sum (cnt d) (set (map fst (filter (P \<circ> fst) d)))"
      by (simp only: sum_list_distinct_conv_sum_set)
    moreover have "set (map fst (filter (P \<circ> fst) d)) = {k \<in> fst ` set d. P k}" by auto
    ultimately show ?thesis using assms(2) by simp
  qed
  also have "\<dots> = length (filter (\<lambda>x. P (g x) \<and> g x \<in> fst ` set d) xs)"
  proof (induction xs)
    case (Cons x xs)
    have "(\<Sum>k \<in> {k \<in> fst ` set d. P k}. length (filter (\<lambda>x. g x = k) (x # xs)))
        = (\<Sum>k \<in> {k \<in> fst ` set d. P k}. length (filter (\<lambda>x. g x = k) xs) + (if k = g x then 1 else 0))"
      by (intro sum.cong) auto
    also have "\<dots> = (\<Sum>k \<in> {k \<in> fst ` set d. P k}. length (filter (\<lambda>x. g x = k) xs)) + (if g x \<in> fst ` set d \<and> P (g x) then 1 else 0)"
      by (simp add: sum.distrib sum.delta)
    finally show ?case using Cons by auto
  qed simp
  finally show ?thesis .
qed


text \<open>
  C37. The percentile that is computed from the bucket counts is the middle of the very bucket the exact
  percentile (of the sorted latencies, the first that covers the share) lies in: the estimate is off by less
  than the width of one bucket, and never in a wrong one.
\<close>

theorem percentile_in_exact_bucket:
  assumes "xs \<noteq> []" and "0 < p" and "p \<le> 1"
  shows "percentile_from_buckets (counts_of xs) p = bucket_middle (lat_key (sort xs ! (nat \<lceil>p * real (length xs)\<rceil> - 1)))"
proof -
  let ?n = "length xs" and ?d = "counts_of xs" and ?f = "\<lambda>x. key_order (lat_key x)"
  let ?t = "p * real ?n" and ?j = "nat \<lceil>p * real (length xs)\<rceil> - 1"
  let ?kvs = "sort_key (\<lambda>kv. key_order (fst kv)) ?d"
  note facts = counts_of_facts [of xs]
  have sum: "sum_list (map snd (filter (P \<circ> fst) ?d)) = length (filter (\<lambda>x. P (lat_key x)) xs)" for P
  proof -
    have "filter (\<lambda>x. P (lat_key x) \<and> lat_key x \<in> fst ` set ?d) xs = filter (\<lambda>x. P (lat_key x)) xs"
      unfolding facts(3) by (intro filter_cong) auto
    then show ?thesis using sum_filter_keys [OF facts(1), of lat_key xs P] facts(2) by simp
  qed
  have total: "sum_list (map snd ?d) = ?n" using sum [of "\<lambda>k. True"] by simp
  have n: "0 < ?n" using assms(1) by simp
  have t: "0 < ?t" "?t \<le> real ?n" using n assms by (simp_all add: mult_left_le_one_le)
  have perm: "mset ?kvs = mset ?d" by simp
  have sums: "sum_list (map snd as) = sum_list (map snd bs)" if "mset as = mset bs" for as bs :: "(string \<times> nat) list"
    using arg_cong [OF that, of "\<lambda>m. sum_mset (image_mset snd m)"] by (simp flip: mset_map add: sum_mset_sum_list)
  have "sum_list (map snd ?kvs) = ?n" using sums [OF perm] total by simp
  moreover have "?d \<noteq> []" using total n by auto
  ultimately have "first_reaching ?t 0 ?kvs \<noteq> None" using first_reaching_Some [of ?kvs ?t 0] t(2) perm
    by (metis add_0 mset_zero_iff)
  then obtain k where k: "first_reaching ?t 0 ?kvs = Some k" by blast
  from first_reaching_split [OF k] obtain pre v post where kvs: "?kvs = pre @ (k, v) # post"
    and up: "?t \<le> real (sum_list (map snd pre) + v)" and low: "pre \<noteq> [] \<longrightarrow> real (sum_list (map snd pre)) < ?t" by auto
  have low: "real (sum_list (map snd pre)) < ?t" using low t(1) by (cases pre) auto
  obtain y where y: "k = lat_key y"
  proof -
    have "(k, v) \<in> set ?kvs" by (simp add: kvs)
    then have "k \<in> fst ` set ?d" by (force simp: set_sort)
    then show thesis using that facts(3) by auto
  qed
  have sorted: "sorted (map (\<lambda>kv. key_order (fst kv)) (pre @ (k, v) # post))" using sorted_sort_key [of "\<lambda>kv. key_order (fst kv)" ?d] kvs by simp
  have keys: "\<exists>z. fst kv = lat_key z" if "kv \<in> set ?kvs" for kv
  proof -
    have "fst kv \<in> lat_key ` set xs" using that facts(3) by (metis image_eqI set_sort)
    then show ?thesis by blast
  qed
  have dist: "distinct (map fst ?kvs)"
    using facts(1) perm unfolding dict_ok_def by (metis mset_map mset_eq_imp_distinct_iff)
  have strict: "key_order (fst kv) < key_order k" if "kv \<in> set pre" for kv
  proof -
    have "key_order (fst kv) \<le> key_order k" using sorted that by (auto simp: sorted_append)
    moreover have "fst kv \<noteq> k" using dist that unfolding kvs by force
    moreover have "\<exists>z. fst kv = lat_key z" using keys [of kv] that kvs by simp
    ultimately show ?thesis using y lat_key_inj by (metis order_le_less)
  qed
  have above: "key_order k \<le> key_order (fst kv)" if "kv \<in> set post" for kv using sorted that by (auto simp: sorted_append)
  have "filter ((\<lambda>j. key_order j < key_order k) \<circ> fst) (pre @ (k, v) # post) = pre"
    using strict above by (simp add: filter_id_conv filter_empty_conv) (meson leD)
  moreover have "mset (filter ((\<lambda>j. key_order j < key_order k) \<circ> fst) ?kvs) = mset (filter ((\<lambda>j. key_order j < key_order k) \<circ> fst) ?d)"
    using perm by (metis mset_filter)
  ultimately have pre: "sum_list (map snd pre) = length (filter (\<lambda>x. ?f x < key_order k) xs)"
    using sum [of "\<lambda>j. key_order j < key_order k"] kvs sums by metis
  then have below: "real (length (filter (\<lambda>x. ?f x < key_order k) (sort xs))) < ?t"
    using low by (simp add: filter_sort)
  have "v = cnt ?d k"
  proof -
    have "(k, v) \<in> set ?d" using kvs by (metis in_set_conv_decomp set_sort)
    then have "dget ?d k = Some v" using dget_set [OF facts(1)] by blast
    then show ?thesis by (simp add: cnt_def dget_or_def)
  qed
  then have v: "v = length (filter (\<lambda>x. lat_key x = k) xs)" using facts(2) by simp
  have split: "length (filter (\<lambda>x. ?f x \<le> key_order k) xs) = length (filter (\<lambda>x. ?f x < key_order k) xs) + length (filter (\<lambda>x. lat_key x = k) xs)"
  proof (induction xs)
    case (Cons z zs)
    have "?f z = key_order k \<longleftrightarrow> lat_key z = k" using lat_key_inj y by simp
    with Cons show ?case by (auto simp: order_le_less)
  qed simp
  have reach: "?t \<le> real (length (filter (\<lambda>x. ?f x \<le> key_order k) (sort xs)))"
    using up v split pre by (simp add: filter_sort)
  have j: "real ?j < ?t" "?t \<le> real (?j + 1)" "?j < length (sort xs)"
  proof -
    have c: "0 < \<lceil>?t\<rceil>" "\<lceil>?t\<rceil> \<le> int ?n" using t by (simp_all add: ceiling_le_iff)
    then have jc: "int ?j = \<lceil>?t\<rceil> - 1" by linarith
    then have "?j < ?n" using c(2) by linarith
    then show "?j < length (sort xs)" by simp
    have "real ?j = of_int \<lceil>?t\<rceil> - 1" using jc by (metis of_int_diff of_int_of_nat_eq of_int_1)
    then show "real ?j < ?t" "?t \<le> real (?j + 1)" using le_of_int_ceiling [of ?t] ceiling_correct [of ?t] by simp_all
  qed
  let ?x = "sort xs ! ?j"
  have mono: "?f x \<le> ?f y" if "x \<le> y" for x y using that by (rule metrics_bucket_mono)
  have "\<not> ?f ?x < key_order k"
  proof
    assume "?f ?x < key_order k"
    then have "?j < length (filter (\<lambda>x. ?f x < key_order k) (sort xs))"
      by (rule iffD1 [OF count_below [OF sorted_sort _ j(3)], rotated]) (use mono order_le_less_trans in blast)
    with below j(2) show False by linarith
  qed
  moreover have "?f ?x \<le> key_order k"
  proof -
    have "?j < length (filter (\<lambda>x. ?f x \<le> key_order k) (sort xs))" using reach j(1) by linarith
    then show ?thesis by (rule iffD2 [OF count_below [OF sorted_sort _ j(3)], rotated]) (use mono order_trans in blast)
  qed
  ultimately have "lat_key ?x = k" using lat_key_inj y by (metis order_le_less)
  moreover have "percentile_from_buckets ?d p = Option.bind (first_reaching ?t 0 ?kvs) bucket_middle"
    using total n unfolding percentile_from_buckets_def Let_def by simp
  ultimately show ?thesis using k by simp
qed


lemma sample_bucket: "lat_key 120 = ''200''"
proof -
  have "metrics_bucket 120 = Some 200"
    by (simp add: metrics_bucket_def LATENCY_BUCKETS_def bisect_left.simps Let_def)
  then show ?thesis by (simp add: lat_key_def bucket_key_def dec.simps digit_def char_of_def bit_Suc_0_iff)
qed

theorem percentile_in_exact_bucket_witness: "percentile_from_buckets (counts_of [120]) 0.95 = Some 150"
proof -
  have "percentile_from_buckets (counts_of [120]) 0.95 = bucket_middle ''200''"
    using percentile_in_exact_bucket [of "[120]" "0.95"] by (simp add: sample_bucket)
  then show ?thesis by (simp add: bucket_middle_def key_bound_def undec_def byte_def LATENCY_BUCKETS_def upt_rec)
qed

section \<open>The totals of a range\<close>

definition agg_ok :: "daily_agg \<Rightarrow> bool" where
  "agg_ok a \<longleftrightarrow> dict_ok (ag_by_status a) \<and> dict_ok (ag_latency a) \<and> dict_ok (ag_pii_by_type a) \<and> dict_ok (ag_by_verdict a)
     \<and> dict_ok (ag_by_rule a)"

lemma agg_ok_init [simp]: "agg_ok daily_init"
  by (simp add: agg_ok_def daily_init_def hourly_init_def hourly_agg.defs)

lemma agg_ok_row [simp]: "agg_ok (row a) = agg_ok a"
  by (simp add: agg_ok_def row_def)

lemma read_add_day: "agg_ok a \<Longrightarrow> read (add_day_row a r) k = read r k + read a k"
  by (cases k) (simp_all add: agg_ok_def add_day_row_def add_hour_row_def cnt_merge Let_def)

interpretation rows: additive add_day_row agg_ok "\<lambda>r. True" "\<lambda>r. read r k" "\<lambda>a. read a k" for k
  by unfold_locales (simp_all add: read_add_day)

text \<open>What the days of a window hold together.\<close>

definition tot :: "(agg_key \<Rightarrow> bool) \<Rightarrow> (agg_key, daily_agg) dict \<Rightarrow> counter \<Rightarrow> nat" where
  "tot P d k = sum_list (map (\<lambda>(key, a). read a k) (filter (P \<circ> fst) d))"

lemma tot_dset:
  "dict_ok d \<Longrightarrow> tot P (dset key v d) k + (if P key then read (dget_or d key daily_init) k else 0)
    = tot P d k + (if P key then read v k else 0)"
proof (induction d)
  case (Cons p d)
  obtain j a where p: "p = (j, a)" by (cases p)
  have "dict_ok d" using Cons.prems by (simp add: dict_ok_def)
  show ?case
  proof (cases "j = key")
    case True
    then show ?thesis by (simp add: p tot_def dget_or_def)
  next
    case False
    then have "dget_or (p # d) key daily_init = dget_or d key daily_init" by (simp add: p dget_or_def)
    with Cons.IH [OF \<open>dict_ok d\<close>] False show ?thesis by (auto simp: p tot_def split: if_splits)
  qed
qed (simp add: tot_def dget_or_def)

lemma effective_upstream: "ea_upstream (effective ctx e) = ea_upstream e"
  by (simp add: effective_def Let_def split: option.split)

lemma do_op_dset: "mc_daily (do_op im env p c) = dset (op_key p) (daily_of (do_op im env p c) (op_key p)) (mc_daily c)"
  by (cases p) (simp_all add: incr_event_def Let_def on_daily_def on_hourly_def daily_of_def dget_or_def incr_lru_evictions_def
      incr_placeholder_injected_def incr_truncated_def incr_sync_pii_cache_def accumulate_pii_cache_def
      incr_sync_pii_detected_def accumulate_pii_detected_def incr_sync_cred_def incr_sync_audit_def effective_upstream)

lemma tot_op:
  assumes "dict_ok (mc_daily c)" "op_ok p"
  shows "tot P (mc_daily (do_op im env p c)) k = tot P (mc_daily c) k + (if P (op_key p) then adds p k else 0)"
proof -
  have "read (daily_of (do_op im env p c) (op_key p)) k = read (dget_or (mc_daily c) (op_key p) daily_init) k + adds p k"
    using do_op_daily [OF assms(2), of im env c "op_key p" k] by (simp add: daily_of_def)
  with tot_dset [OF assms(1), of P "op_key p" "daily_of (do_op im env p c) (op_key p)" k] do_op_dset [of im env p c]
  show ?thesis by (cases "P (op_key p)") auto
qed

interpretation window: additive "do_op im env" op_ok "\<lambda>c. dict_ok (mc_daily c)" "\<lambda>c. tot P (mc_daily c) k"
    "\<lambda>p. if P (op_key p) then adds p k else 0" for im env P k
proof unfold_locales
  fix c :: "'b collector_scheme" and p
  assume c: "dict_ok (mc_daily c)" "op_ok p"
  then show "tot P (mc_daily (do_op im env p c)) k = tot P (mc_daily c) k + (if P (op_key p) then adds p k else 0)" by (rule tot_op)
  show "dict_ok (mc_daily (do_op im env p c))" using c(1) do_op_dset [of im env p c] by simp
qed

text \<open>The aggregates in memory stay well-formed.\<close>

definition all_ok :: "(agg_key, daily_agg) dict \<Rightarrow> bool" where
  "all_ok d \<longleftrightarrow> (\<forall>key a. dget d key = Some a \<longrightarrow> agg_ok a)"

lemma daily_event_ok: "agg_ok d \<Longrightarrow> agg_ok (daily_event e delta d)"
  by (auto simp: agg_ok_def daily_event_def hourly_event_def bump_if_def Let_def split: option.split)

lemma all_ok_get: "all_ok (mc_daily c) \<Longrightarrow> agg_ok (daily_of c key)"
  by (cases key) (auto simp: all_ok_def daily_of_def dget_or_def split: option.split)

lemma do_op_agg_ok: "all_ok (mc_daily c) \<Longrightarrow> agg_ok (daily_of (do_op im env p c) (op_key p))"
proof (cases p)
  case (Request now ctx e)
  assume "all_ok (mc_daily c)"
  then show ?thesis using Request all_ok_get [of c "(day_key now, ea_upstream e)"] by (simp add: incr_event_def Let_def effective_upstream daily_event_ok)
next
  case (Types now d)
  assume "all_ok (mc_daily c)"
  then show ?thesis using Types all_ok_get [of c "(day_key now, ''other'')"]
    by (simp add: incr_sync_pii_detected_def accumulate_pii_detected_def add_types_def agg_ok_def)
next
  case (Cache now h m)
  assume "all_ok (mc_daily c)"
  then show ?thesis using Cache all_ok_get [of c "(day_key now, ''other'')"]
    by (simp add: incr_sync_pii_cache_def accumulate_pii_cache_def add_hits_def agg_ok_def)
next
  case (Lru now a b)
  assume "all_ok (mc_daily c)"
  then show ?thesis using Lru all_ok_get [of c "(day_key now, ''other'')"]
    by (simp add: incr_lru_evictions_def add_lru_def agg_ok_def)
next
  case (Injected now)
  assume "all_ok (mc_daily c)"
  then show ?thesis using Injected all_ok_get [of c "(day_key now, ''other'')"]
    by (simp add: incr_placeholder_injected_def agg_ok_def)
next
  case (Truncated now)
  assume "all_ok (mc_daily c)"
  then show ?thesis using Truncated all_ok_get [of c "(day_key now, ''other'')"]
    by (simp add: incr_truncated_def agg_ok_def)
next
  case (Cred now a b)
  assume "all_ok (mc_daily c)"
  then show ?thesis using Cred all_ok_get [of c "(day_key now, ''other'')"]
    by (simp add: incr_sync_cred_def agg_ok_def)
next
  case (Audit_Count now v r)
  assume "all_ok (mc_daily c)"
  then show ?thesis using Audit_Count all_ok_get [of c "(day_key now, ''other'')"]
    by (simp add: incr_sync_audit_def agg_ok_def)
qed

lemma run_ops_all_ok: "all_ok (mc_daily c) \<Longrightarrow> all_ok (mc_daily (run_ops im env ops c))"
proof (induction ops arbitrary: c)
  case (Cons p ops)
  have "all_ok (mc_daily (do_op im env p c))"
    using Cons.prems do_op_agg_ok [OF Cons.prems, of im env p] do_op_dset [of im env p c] by (simp add: all_ok_def)
  with Cons.IH show ?case by (simp add: run_ops_def)
qed (simp add: run_ops_def)

text \<open>Two dictionaries with the same entries hold the same together.\<close>

lemma tot_same:
  assumes "dict_ok d" "dict_ok e" "\<And>key. P key \<Longrightarrow> dget d key = map_option row (dget e key)"
  shows "tot P d k = tot P e k"
proof -
  have w: "tot P d k = (\<Sum>key \<in> {key. P key \<and> dget d key \<noteq> None}. read (the (dget d key)) k)" if "dict_ok d" for d
  proof -
    have "map (\<lambda>(key, a). read a k) (filter (P \<circ> fst) d) = map (\<lambda>key. read (the (dget d key)) k) (map fst (filter (P \<circ> fst) d))"
      using dget_set [OF that, THEN iffD2] by auto
    moreover have "distinct (map fst (filter (P \<circ> fst) d))" using that by (simp add: dict_ok_def distinct_map_filter)
    moreover have "set (map fst (filter (P \<circ> fst) d)) = {key. P key \<and> dget d key \<noteq> None}"
      by (auto simp: map_of_eq_None_iff image_iff)
    ultimately show ?thesis by (simp only: tot_def sum_list_distinct_conv_sum_set)
  qed
  have "{key. P key \<and> dget d key \<noteq> None} = {key. P key \<and> dget e key \<noteq> None}" using assms(3) by auto
  moreover have "read (the (dget d key)) k = read (the (dget e key)) k" if "P key \<and> dget e key \<noteq> None" for key
    using assms(3) [of key] that by auto
  ultimately show ?thesis using w [OF assms(1)] w [OF assms(2)] by simp
qed


lemma flush_sync_db:
  assumes "ms_sqlite_ok st" "ms_conn st" "ms_debounce st + FLUSH_DEBOUNCE_S \<le> now"
  shows "ms_db (flush_sync env no_fault now st) = foldl (\<lambda>d s. write_snapshot env now s d) (ms_db st) (snapshots st)"
    "ms_conn (flush_sync env no_fault now st)"
    "mc_daily (flush_sync env no_fault now st) = keep_from (day_cutoff now) (mc_daily st)"
    "ms_last_flush (flush_sync env no_fault now st) = now"
  using assms write_all [of "fst (take_snapshot now True True st)" env now "snapshots st"]
  by (simp_all add: flush_sync_def take_snapshot_def trim_memory_def Let_def)

lemma written_ok: "dict_ok (db_daily d) \<Longrightarrow> dict_ok (db_daily (foldl (\<lambda>d s. write_snapshot env now s d) d ss))"
  by (induction ss arbitrary: d) (simp_all add: write_snapshot_ok)

lemma cutoff_30d: "day_key (now - real 720 * 3600) = day_cutoff now"
  by (simp add: day_cutoff_def DAILY_RETENTION_DAYS_def)

text \<open>
  C31. The first report of thirty days is exact, end to end: in a process that started with empty tables and
  has neither flushed nor answered a query, after any operations and without failures, the report that a query
  computes from the tables (the flush it starts with, the overwriting inserts, the retention and the sums over
  the rows included) is, counter by counter, the sum over the operations whose day is in the window and whose
  upstream passes the filter.  (After further flushes it can fall short: \<open>stale_snapshot_wins\<close>,
  \<open>flush_drops_days\<close>.)
\<close>

theorem dashboard_exact:
  assumes "\<forall>p \<in> set ops. op_ok p" and "sane_clock now" and "2 \<le> now"
  shows "read (rp_totals (snd (query_db env no_fault True now 720 None upstream (run_ops im env ops (new_store t0 None db_init))))) k
    = sum_list (map (\<lambda>p. adds p k) (filter (\<lambda>p. in_window (day_cutoff now) upstream (op_key p)) ops))"
proof -
  let ?init = "new_store t0 None db_init"
  let ?st = "run_ops im env ops ?init" and ?W = "in_window (day_cutoff now) upstream"
  have store: "same_store ?st ?init" by (rule run_ops_store)
  have mem0: "mc_daily ?init = []"
    by (simp add: new_store_def load_existing_today_def collector_init_def collector.defs Let_def db_init_def)
  have deb: "ms_debounce ?st = 0"
  proof -
    have "ms_debounce (do_op im env p st) = ms_debounce st" for p and st :: store
      by (cases p) (simp_all add: incr_event_def Let_def on_daily_def on_hourly_def incr_lru_evictions_def
          incr_placeholder_injected_def incr_truncated_def incr_sync_pii_cache_def accumulate_pii_cache_def
          incr_sync_pii_detected_def accumulate_pii_detected_def incr_sync_cred_def incr_sync_audit_def)
    then have "ms_debounce (run_ops im env ops st) = ms_debounce st" for st :: store
      unfolding run_ops_def by (induction ops arbitrary: st) simp_all
    then show ?thesis by (simp add: new_store_def load_existing_today_def Let_def collector.defs)
  qed
  have fields: "ms_sqlite_ok ?st" "ms_conn ?st" "ms_db ?st = db_init" "dict_ok (mc_daily ?st)"
    using store new_store_fields [of t0 db_init] by (simp_all add: same_store_def)
  have ok: "all_ok (mc_daily ?st)" by (rule run_ops_all_ok) (simp add: mem0 all_ok_def)
  define d where "d = foldl (\<lambda>d s. write_snapshot env now s d) db_init (snapshots ?st)"
  have d: "ms_db (flush_sync env no_fault now ?st) = d" "ms_conn (flush_sync env no_fault now ?st)"
    using flush_sync_db [of ?st now env] fields deb assms(3) by (simp_all add: d_def FLUSH_DEBOUNCE_S_def)
  have dok: "dict_ok (db_daily d)" unfolding d_def by (rule written_ok) (simp add: db_init_def)
  have same: "dget (db_daily d) key = map_option row (dget (mc_daily ?st) key)" if "?W key" for key
  proof -
    have "\<not> text_less (fst key) (day_cutoff now)" using that by (simp add: in_window_def)
    from write_days [OF this] write_hours [OF this] show ?thesis
      using dget_rev [OF fields(4)] by (simp add: d_def snapshots_def db_init_def split: option.split)
  qed
  let ?rows = "select (day_cutoff now) upstream (db_daily d)"
  have rows: "list_all agg_ok ?rows"
  proof -
    have "agg_ok a" if m: "(key, a) \<in> set (db_daily d)" and w: "?W key" for key a
    proof -
      have "dget (db_daily d) key = Some a" using dget_set [OF dok] m by blast
      then obtain b where "dget (mc_daily ?st) key = Some b" "a = row b" using same [OF w] by auto
      then show ?thesis using ok by (cases key) (simp add: all_ok_def)
    qed
    then show ?thesis by (auto simp: select_def list_all_iff)
  qed
  have "rp_totals (snd (query_db env no_fault True now 720 None upstream ?st)) = foldl (\<lambda>r a. add_day_row a r) daily_init ?rows"
    using d cutoff_30d [of now] by (simp add: query_db_def query_db_with_def bucket_report_def only_model_def Let_def)
  then have "read (rp_totals (snd (query_db env no_fault True now 720 None upstream ?st))) k = sum_list (map (\<lambda>a. read a k) ?rows)"
    using rows.run_adds [of ?rows daily_init k] rows by simp
  also have "map (\<lambda>a. read a k) ?rows = map (\<lambda>(key, a). read a k) (filter (?W \<circ> fst) (db_daily d))"
    by (simp add: select_def comp_def case_prod_unfold)
  also have "sum_list \<dots> = tot ?W (db_daily d) k" by (simp only: tot_def)
  also have "\<dots> = tot ?W (mc_daily ?st) k" by (rule tot_same [OF dok fields(4) same])
  also have "\<dots> = sum_list (map (\<lambda>p. adds p k) (filter (\<lambda>p. ?W (op_key p)) ops))"
    using window.run_adds [where im = im and env = env and P = ?W and k = k and s = ?init and ps = ops] assms(1) mem0
    by (simp add: run_ops_def tot_def sum_if_filter list_all_iff)
  finally show ?thesis .
qed

theorem dashboard_exact_witness:
  "read (rp_totals (snd (query_db \<lparr>se_enabled = None, se_persist = None\<rparr> no_fault True 60 720 None None
     (run_ops True \<lparr>se_enabled = None, se_persist = None\<rparr> [Cred 0 2 1, Injected 60, Cred 60 3 0] (new_store 0 None db_init))))) Cred_Hits = 5"
proof -
  have "\<not> text_less (date_text 0) (day_cutoff 60)" by (simp add: day_cutoff_text secs_def)
  then show ?thesis
    by (subst dashboard_exact) (simp_all add: sane_clock_def in_window_def day_texts)
qed

section \<open>Where the numbers are wrong\<close>

text \<open>Without a database every range shows everything in memory: the number of hours is not looked at.\<close>

lemma fallback_ignores_range: "query_memory_fallback 24 model upstream c = query_memory_fallback 720 model upstream c"
  by (simp add: query_memory_fallback_def)

text \<open>
  The last hour includes the rows of three clock hours: two hours before the current one count in full.
\<close>

lemma last_hour_takes_three:
  assumes "sane_clock now" "secs now div 3600 = h + 2"
  shows "in_window (hour_key (now - 2 * 3600)) None (hour_text h, up)"
    and "in_window (hour_key (now - 2 * 3600)) None (hour_text (h + 1), up)"
    and "in_window (hour_key (now - 2 * 3600)) None (hour_text (h + 2), up)"
proof -
  have "secs now div 3600 \<le> 250000000000 div 3600" using secs_bound [OF assms(1)] by (intro div_le_mono) simp
  then have h: "h + 2 < 70320000" using assms(2) by simp
  have "secs (now - 2 * 3600) div 3600 = h"
    using secs_minus [of now 7200] div_minus [of 3600 "secs now" 2] assms(2) by simp
  then have "hour_key (now - 2 * 3600) = hour_text h" by (simp add: hour_key_def)
  then show "in_window (hour_key (now - 2 * 3600)) None (hour_text h, up)"
    "in_window (hour_key (now - 2 * 3600)) None (hour_text (h + 1), up)"
    "in_window (hour_key (now - 2 * 3600)) None (hour_text (h + 2), up)"
    using h hour_text_order [of _ h] by (simp_all add: in_window_def)
qed

text \<open>
  An event reads the clock before it takes the lock, and a flush does as well: an event with the later
  reading that gets the lock first is in the snapshot and still counts as newer than the flush, so the last
  hour counts it twice.
\<close>

lemma flush_race_counts_twice:
  assumes "ms_sqlite_ok st" "ms_conn st" "ms_debounce st + FLUSH_DEBOUNCE_S \<le> now" "e \<in> set (mc_ring st)" "now \<le> ev_ts e"
    "now - 3600 \<le> ev_ts e"
  shows "e \<in> set (ring_delta (ms_last_flush (flush_sync env no_fault now st)) (now - 3600) None None (mc_ring st))"
  using assms flush_sync_db(4) [OF assms(1-3), of env] by (simp add: ring_delta_def passes_def)

end
