(* ===== verification/Admin_Metrics.thy ===== *)
theory Admin_Metrics
  imports Admin Metrics_Query
begin

text \<open>
  What the admin API answers from the collector (\<open>_admin.py\<close>): the parameters of the requests, the four
  answers and the stream of events.  A request's query is a dictionary; \<open>fails\<close> says that the collector
  raised.  An answer is the value that is printed as JSON; every one has the headers \<open>NO_STORE_HEADERS\<close>.
\<close>

section \<open>Parameters\<close>

definition NO_STORE_HEADERS :: "(string \<times> string) list" where
  "NO_STORE_HEADERS = [(''Cache-Control'', ''no-store, no-cache, must-revalidate, private''), (''Pragma'', ''no-cache''),
     (''X-Content-Type-Options'', ''nosniff''), (''X-Frame-Options'', ''DENY''), (''Referrer-Policy'', ''no-referrer''),
     (''Permissions-Policy'', ''camera=(), microphone=(), geolocation=()'')]"

type_synonym url_query = "(string, string) dict"

definition range_param :: "string \<Rightarrow> url_query \<Rightarrow> string" where
  "range_param dflt q = (let r = dget_or q ''range'' dflt in if r \<in> {''1h'', ''24h'', ''7d'', ''30d''} then r else dflt)"

text \<open>\<open>query.get(k) or None\<close>\<close>

definition filter_param :: "string \<Rightarrow> url_query \<Rightarrow> string option" where
  "filter_param k q = (case dget q k of None \<Rightarrow> None | Some v \<Rightarrow> if v = [] then None else Some v)"

definition limit_param :: "url_query \<Rightarrow> nat" where
  "limit_param q = (let n = (case py_int (dget_or q ''limit'' ''50'') of None \<Rightarrow> 50 | Some i \<Rightarrow> i) in nat (max 1 (min n 200)))"

definition no_filter :: "string option \<Rightarrow> string" where
  "no_filter f = (case f of None \<Rightarrow> [] | Some v \<Rightarrow> v)"

section \<open>Answers\<close>

datatype admin_data =
    Metrics_Data report sample_report
  | Series_Data "point list" bool
  | Events_Data "event list" bool
  | Health_Data health_report bool bool
  | Metrics_Unavailable string sample_report
  | Series_Unavailable string
  | Health_Unavailable bool bool

definition handle_metrics ::
  "sample_env \<Rightarrow> (snapshot \<Rightarrow> db_fault option) \<Rightarrow> bool \<Rightarrow> bool \<Rightarrow> real \<Rightarrow> url_query \<Rightarrow> store \<Rightarrow> store \<times> admin_data" where
  "handle_metrics env fault readable fails now q st =
     (let rng = range_param ''1h'' q
      in if fails then (st, Metrics_Unavailable rng no_samples)
         else case query_range env fault readable now rng (filter_param ''model'' q) (filter_param ''upstream'' q) st of
           (st1, base, samples) \<Rightarrow> (st1, Metrics_Data base samples))"

definition handle_series ::
  "sample_env \<Rightarrow> (snapshot \<Rightarrow> db_fault option) \<Rightarrow> bool \<Rightarrow> bool \<Rightarrow> real \<Rightarrow> url_query \<Rightarrow> store \<Rightarrow> store \<times> admin_data" where
  "handle_series env fault readable fails now q st =
     (let rng = range_param ''24h'' q
      in if fails then (st, Series_Unavailable rng)
         else case series env fault readable now rng (filter_param ''model'' q) (filter_param ''upstream'' q) st of
           (st1, points, precise) \<Rightarrow> (st1, Series_Data points precise))"

text \<open>The parameter \<open>verdict\<close> is accepted and only answered by a flag.\<close>

definition handle_events :: "url_query \<Rightarrow> store \<Rightarrow> admin_data" where
  "handle_events q st =
     Events_Data (recent_events (limit_param q) (no_filter (filter_param ''kind'' q)) (no_filter (filter_param ''upstream'' q))
       (no_filter (filter_param ''model'' q)) (mc_ring st)) (filter_param ''verdict'' q \<noteq> None)"

definition handle_health :: "sample_env \<Rightarrow> bool \<Rightarrow> real \<Rightarrow> store \<Rightarrow> admin_data" where
  "handle_health env fails now st =
     (let persist = (se_persist env = Some ''1''); enabled = (se_enabled env = Some ''1'' \<or> persist)
      in if fails then Health_Unavailable enabled persist else Health_Data (health now st) enabled persist)"

section \<open>The stream of events\<close>

definition SSE_PING_S :: real where "SSE_PING_S = 60"
definition SSE_MAX_S :: real where "SSE_MAX_S = 300"
definition SENT_MAX :: nat where "SENT_MAX = 2000"

text \<open>The stream's memory: the identifiers sent (a set, and the newest of them in order), its clocks.\<close>

record sse =
  ss_sent :: "string list"
  ss_ids :: "string list"
  ss_last_push :: real
  ss_last_ping :: real
  ss_last_metrics :: real
  ss_start :: real

definition last_n :: "nat \<Rightarrow> 'a list \<Rightarrow> 'a list" where
  "last_n n xs = drop (length xs - n) xs"

text \<open>\<open>sent_set.add\<close> and \<open>sent_ids.append\<close> of a deque with \<open>maxlen\<close>; a full deque replaces the set.\<close>

definition remember_history :: "sse \<Rightarrow> event \<Rightarrow> sse" where
  "remember_history s e =
     (if ev_id e \<noteq> [] \<and> ev_id e \<notin> set (ss_sent s)
      then s\<lparr>ss_sent := ev_id e # ss_sent s, ss_ids := last_n SENT_MAX (ss_ids s @ [ev_id e])\<rparr> else s)"

definition remember_sent :: "sse \<Rightarrow> event \<Rightarrow> sse" where
  "remember_sent s e =
     (if ev_id e \<noteq> [] \<and> ev_id e \<notin> set (ss_sent s)
      then let ids = last_n SENT_MAX (ss_ids s @ [ev_id e])
        in s\<lparr>ss_ids := ids, ss_sent := (if SENT_MAX \<le> length ids then ids else ev_id e # ss_sent s)\<rparr> else s)"

text \<open>The opening: the newest fifty events, the oldest first; \<open>now\<close> is read after they are written.\<close>

definition sse_open :: "real \<Rightarrow> string \<Rightarrow> string \<Rightarrow> event list \<Rightarrow> sse \<times> event list" where
  "sse_open now upstream model ring =
     (let history = rev (recent_events 50 [] upstream model ring);
          s = \<lparr>ss_sent = [], ss_ids = [], ss_last_push = now, ss_last_ping = now, ss_last_metrics = now, ss_start = now\<rparr>
      in (foldl remember_history s history, history))"

text \<open>New events, the oldest first; a clock that went back restarts the window.\<close>

definition sse_push :: "real \<Rightarrow> string \<Rightarrow> string \<Rightarrow> event list \<Rightarrow> sse \<Rightarrow> sse \<times> event list" where
  "sse_push now upstream model ring s =
     (let evs = recent_events 200 [] upstream model ring;
          last_push = (if now + 1 < ss_last_push s then now else ss_last_push s);
          new = filter (\<lambda>e. last_push \<le> ev_ts e \<and> ev_id e \<notin> set (ss_sent s)) evs;
          s1 = foldl remember_sent (s\<lparr>ss_last_push := last_push\<rparr>) (rev new)
      in (if new = [] then s1 else s1\<lparr>ss_last_push := Max (ev_ts ` set new)\<rparr>, rev new))"

datatype frame = Event_Frame event | Metrics_Frame admin_data admin_data admin_data | Done_Frame | Ping_Frame

text \<open>The readings of the clock in one turn, in order.\<close>

record sse_clocks =
  ck_metrics :: real
  ck_metrics_done :: real
  ck_push :: real
  ck_end :: real
  ck_ping :: real
  ck_ping_done :: real

text \<open>One turn of the loop; \<open>None\<close> when the stream is closed after its five minutes.\<close>

definition sse_turn ::
  "sse_clocks \<Rightarrow> admin_data \<times> admin_data \<times> admin_data \<Rightarrow> string \<Rightarrow> string \<Rightarrow> event list \<Rightarrow> sse \<Rightarrow> sse option \<times> frame list" where
  "sse_turn ck snap upstream model ring s =
     (let due = 15 \<le> ck_metrics ck - ss_last_metrics s;
          f1 = (if due then [Metrics_Frame (fst snap) (fst (snd snap)) (snd (snd snap))] else []);
          s1 = (if due then s\<lparr>ss_last_metrics := ck_metrics_done ck\<rparr> else s);
          (s2, pushed) = sse_push (ck_push ck) upstream model ring s1;
          f2 = f1 @ map Event_Frame pushed
      in if SSE_MAX_S \<le> ck_end ck - ss_start s2 then (None, f2 @ [Done_Frame])
         else if SSE_PING_S \<le> ck_ping ck - ss_last_ping s2
         then (Some (s2\<lparr>ss_last_ping := ck_ping_done ck\<rparr>), f2 @ [Ping_Frame])
         else (Some s2, f2))"

section \<open>Every event once\<close>

text \<open>
  A run of polls: before each the collector appended \<open>N\<close> and its ring had lost the oldest \<open>k\<close> events.
\<close>

fun sse_run :: "string \<Rightarrow> string \<Rightarrow> sse \<Rightarrow> event list \<Rightarrow> (real \<times> nat \<times> event list) list \<Rightarrow> sse \<times> event list" where
  "sse_run upstream model s P [] = (s, [])"
| "sse_run upstream model s P ((now, k, N) # polls) =
     (case sse_push now upstream model (drop k P @ N) s of
        (s1, out1) \<Rightarrow> (case sse_run upstream model s1 (P @ N) polls of (s2, out2) \<Rightarrow> (s2, out1 @ out2)))"

definition wanted :: "string \<Rightarrow> string \<Rightarrow> event list \<Rightarrow> event list" where
  "wanted upstream model es = filter (event_wanted [] upstream model) es"

lemma last_n_snoc: "last_n n (last_n n xs @ [x]) = last_n n (xs @ [x])"
  by (cases "length xs \<le> n") (auto simp: last_n_def Suc_diff_le)

lemma set_last_n: "set (last_n n xs) \<subseteq> set xs"
  by (auto simp: last_n_def dest: in_set_dropD)

lemma recent_rev: "0 < n \<Longrightarrow> recent_events n [] up m ring = take n (rev (wanted up m ring))"
proof -
  assume "0 < n"
  then have "max n 1 = n" by simp
  then show ?thesis by (simp only: recent_events_def wanted_def rev_filter)
qed

text \<open>The memory after the identifiers \<open>ids\<close>: the newest of them, and in the set no other.\<close>

definition remembers :: "string list \<Rightarrow> sse \<Rightarrow> bool" where
  "remembers ids s \<longleftrightarrow> ss_ids s = last_n SENT_MAX ids \<and> set (last_n SENT_MAX ids) \<subseteq> set (ss_sent s) \<and> set (ss_sent s) \<subseteq> set ids"

lemma last_n_cover: "set (last_n n (xs @ [x])) \<subseteq> insert x (set (last_n n xs))"
proof -
  have "set (drop (Suc (length xs - n)) xs) \<subseteq> set (drop (length xs - n) xs)" by (rule set_drop_subset_set_drop) simp
  then show ?thesis by (cases "length xs < n") (auto simp: last_n_def Suc_diff_le dest: in_set_dropD)
qed

lemma remember_sent_step:
  assumes "remembers ids s" and "ev_id e \<noteq> []" "ev_id e \<notin> set ids"
  shows "remembers (ids @ [ev_id e]) (remember_sent s e) \<and> ss_last_push (remember_sent s e) = ss_last_push s"
proof -
  have n: "ev_id e \<notin> set (ss_sent s)" using assms(1,3) by (auto simp: remembers_def)
  have i: "last_n SENT_MAX (ss_ids s @ [ev_id e]) = last_n SENT_MAX (ids @ [ev_id e])"
    using assms(1) last_n_snoc by (simp add: remembers_def)
  have u: "remember_sent s e = s\<lparr>ss_ids := last_n SENT_MAX (ids @ [ev_id e]),
      ss_sent := (if SENT_MAX \<le> length (last_n SENT_MAX (ids @ [ev_id e])) then last_n SENT_MAX (ids @ [ev_id e]) else ev_id e # ss_sent s)\<rparr>"
    using assms(2) n by (simp add: remember_sent_def Let_def i)
  have "set (last_n SENT_MAX (ids @ [ev_id e])) \<subseteq> set (ids @ [ev_id e])" by (rule set_last_n)
  moreover have "set (last_n SENT_MAX ids) \<subseteq> set (ss_sent s)" "set (ss_sent s) \<subseteq> set ids" using assms(1) by (simp_all add: remembers_def)
  ultimately show ?thesis using last_n_cover [of SENT_MAX ids "ev_id e"] by (auto simp: u remembers_def)
qed

lemma remember_sent_list:
  "remembers ids s \<Longrightarrow> \<forall>e \<in> set es. ev_id e \<noteq> [] \<Longrightarrow> distinct (ids @ map ev_id es) \<Longrightarrow>
     remembers (ids @ map ev_id es) (foldl remember_sent s es) \<and> ss_last_push (foldl remember_sent s es) = ss_last_push s"
proof (induction es arbitrary: ids s)
  case (Cons e es)
  have "remembers (ids @ [ev_id e]) (remember_sent s e)" "ss_last_push (remember_sent s e) = ss_last_push s"
    using remember_sent_step [of ids s e] Cons.prems by auto
  with Cons.IH [of "ids @ [ev_id e]" "remember_sent s e"] Cons.prems show ?case by simp
qed simp

lemma remember_history_list:
  "remembers ids s \<Longrightarrow> \<forall>e \<in> set es. ev_id e \<noteq> [] \<Longrightarrow> distinct (ids @ map ev_id es) \<Longrightarrow>
     remembers (ids @ map ev_id es) (foldl remember_history s es) \<and> ss_last_push (foldl remember_history s es) = ss_last_push s"
proof (induction es arbitrary: ids s)
  case (Cons e es)
  have n: "ev_id e \<notin> set (ss_sent s)" using Cons.prems by (auto simp: remembers_def)
  have i: "last_n SENT_MAX (ss_ids s @ [ev_id e]) = last_n SENT_MAX (ids @ [ev_id e])"
    using Cons.prems(1) last_n_snoc by (simp add: remembers_def)
  have u: "remember_history s e = s\<lparr>ss_ids := last_n SENT_MAX (ids @ [ev_id e]), ss_sent := ev_id e # ss_sent s\<rparr>"
    using Cons.prems(2) n by (simp add: remember_history_def i)
  have r: "set (last_n SENT_MAX ids) \<subseteq> set (ss_sent s)" "set (ss_sent s) \<subseteq> set ids" using Cons.prems(1) by (simp_all add: remembers_def)
  have "remembers (ids @ [ev_id e]) (remember_history s e)" "ss_last_push (remember_history s e) = ss_last_push s"
    using r last_n_cover [of SENT_MAX ids "ev_id e"] by (auto simp: u remembers_def)
  with Cons.IH [of "ids @ [ev_id e]" "remember_history s e"] Cons.prems show ?case by simp
qed simp

text \<open>One poll sends what was appended, no more and no less.\<close>

lemma push_new:
  assumes "remembers (map ev_id (H @ wanted up m Q)) s" and "\<forall>e \<in> set P. ev_ts e < ss_last_push s"
    and "distinct (map ev_id (P @ Q @ N))" and "set H \<subseteq> set P" and "\<forall>e \<in> set N. ev_id e \<noteq> [] \<and> ss_last_push s \<le> ev_ts e"
    and "length (wanted up m N) \<le> 200" and "ss_last_push s \<le> now + 1" and "distinct (map ev_id H)"
  shows "snd (sse_push now up m (drop k (P @ Q) @ N) s) = wanted up m N
    \<and> remembers (map ev_id (H @ wanted up m (Q @ N))) (fst (sse_push now up m (drop k (P @ Q) @ N) s))
    \<and> ss_last_push (fst (sse_push now up m (drop k (P @ Q) @ N) s))
        = (if wanted up m N = [] then ss_last_push s else Max (ev_ts ` set (wanted up m N)))"
proof -
  let ?N = "wanted up m N" and ?O = "wanted up m (drop k (P @ Q))" and ?Q = "wanted up m Q" and ?lp = "ss_last_push s"
  let ?test = "\<lambda>e. ?lp \<le> ev_ts e \<and> ev_id e \<notin> set (ss_sent s)"
  have sub: "set ?N \<subseteq> set N" "set ?Q \<subseteq> set Q" by (auto simp: wanted_def)
  have evs: "recent_events 200 [] up m (drop k (P @ Q) @ N) = rev ?N @ take (200 - length ?N) (rev ?O)"
    using assms(6) by (simp add: recent_rev) (simp add: wanted_def)
  have fresh: "?test e" if "e \<in> set ?N" for e
  proof -
    have i: "ev_id e \<in> ev_id ` set N" using that sub(1) by blast
    have "ev_id ` set P \<inter> ev_id ` set N = {}" "ev_id ` set Q \<inter> ev_id ` set N = {}" using assms(3) by auto
    with i have "ev_id e \<notin> ev_id ` set P" "ev_id e \<notin> ev_id ` set Q" by blast+
    then have "ev_id e \<notin> set (map ev_id (H @ ?Q))" using assms(4) sub(2) by auto
    with assms(1,5) that sub show ?thesis by (auto simp: remembers_def)
  qed
  have old: "\<not> ?test e" if e: "e \<in> set (take (200 - length ?N) (rev ?O))" for e
  proof (cases "e \<in> set P")
    case True
    with assms(2) show ?thesis by auto
  next
    case False
    have suf: "suffix ?O (wanted up m P @ ?Q)"
    proof -
      have "wanted up m (P @ Q) = wanted up m (take k (P @ Q)) @ ?O"
        unfolding wanted_def by (metis append_take_drop_id filter_append)
      then show ?thesis by (auto simp: suffix_def wanted_def)
    qed
    from e have "e \<in> set (take 200 (rev ?O))" by (metis diff_le_self set_take_subset_set_take subsetD)
    moreover obtain zs where "wanted up m P @ ?Q = zs @ ?O" using suf by (auto simp: suffix_def)
    then have "rev (wanted up m P @ ?Q) = rev ?O @ rev zs" by simp
    ultimately have "e \<in> set (take 200 (rev (wanted up m P @ ?Q)))" by auto
    then have "e \<in> set (take 200 (rev ?Q)) \<or> e \<in> set (wanted up m P)" by (auto dest: in_set_takeD)
    with False have "e \<in> set (take 200 (rev ?Q))" by (auto simp: wanted_def)
    then have "e \<in> set (last_n 200 ?Q)" by (simp add: take_rev last_n_def)
    then have "ev_id e \<in> set (last_n 200 (map ev_id ?Q))" by (simp add: last_n_def drop_map)
    moreover have "set (last_n 200 (map ev_id ?Q)) \<subseteq> set (last_n SENT_MAX (map ev_id (H @ ?Q)))"
    proof -
      have "set (drop (length ?Q - 200) (map ev_id ?Q)) \<subseteq> set (drop (length H + length ?Q - SENT_MAX - length H) (map ev_id ?Q))"
        by (rule set_drop_subset_set_drop) (simp add: SENT_MAX_def)
      then show ?thesis by (auto simp: last_n_def)
    qed
    ultimately show ?thesis using assms(1) by (auto simp: remembers_def)
  qed
  have new: "filter ?test (rev ?N @ take (200 - length ?N) (rev ?O)) = rev ?N"
    using fresh old by (simp add: filter_empty_conv)
  have ids: "distinct (map ev_id (H @ ?Q) @ map ev_id ?N)"
  proof -
    have "distinct (map ev_id ?N)" "distinct (map ev_id ?Q)" using assms(3) by (simp_all add: wanted_def distinct_map_filter)
    with assms(3,4,8) sub show ?thesis by (auto 4 3)
  qed
  have keep: "remembers (map ev_id (H @ ?Q) @ map ev_id ?N) (foldl remember_sent s ?N) \<and> ss_last_push (foldl remember_sent s ?N) = ?lp"
    by (rule remember_sent_list [OF assms(1) _ ids]) (use assms(5) sub in auto)
  have lp: "(if now + 1 < ?lp then now else ?lp) = ?lp" using assms(7) by simp
  have q: "wanted up m (Q @ N) = ?Q @ ?N" by (simp add: wanted_def)
  show ?thesis
    unfolding sse_push_def evs Let_def lp new using keep by (auto simp: q remembers_def)
qed

type_synonym poll = "real \<times> nat \<times> event list"

abbreviation arrived :: "poll list \<Rightarrow> event list" where
  "arrived polls \<equiv> concat (map (\<lambda>p. snd (snd p)) polls)"

text \<open>
  No poll finds more than the two hundred events it asks for, and the clock of a poll is not more than a
  second behind the opening and the events before it.
\<close>

fun polls_ok :: "string \<Rightarrow> string \<Rightarrow> real \<Rightarrow> event list \<Rightarrow> poll list \<Rightarrow> bool" where
  "polls_ok up m t0 Q [] = True"
| "polls_ok up m t0 Q ((now, k, N) # polls) \<longleftrightarrow>
     length (wanted up m N) \<le> 200 \<and> t0 \<le> now + 1 \<and> (\<forall>e \<in> set Q. ev_ts e \<le> now + 1) \<and> polls_ok up m t0 (Q @ N) polls"

lemma run_new:
  assumes "\<forall>e \<in> set P. ev_ts e < t0" and "set H \<subseteq> set P" and "distinct (map ev_id H)"
  shows "remembers (map ev_id (H @ wanted up m Q)) s \<Longrightarrow> t0 \<le> ss_last_push s \<Longrightarrow>
    ss_last_push s = t0 \<or> ss_last_push s \<in> ev_ts ` set Q \<Longrightarrow> distinct (map ev_id (P @ Q @ arrived polls)) \<Longrightarrow>
    \<forall>e \<in> set (arrived polls). ev_id e \<noteq> [] \<and> t0 \<le> ev_ts e \<Longrightarrow> sorted (map ev_ts (Q @ arrived polls)) \<Longrightarrow>
    polls_ok up m t0 Q polls \<Longrightarrow> snd (sse_run up m s (P @ Q) polls) = wanted up m (arrived polls)"
proof (induction polls arbitrary: Q s)
  case Nil
  then show ?case by (simp add: wanted_def)
next
  case (Cons p polls)
  obtain now k N where p: "p = (now, k, N)" by (metis prod_cases3)
  let ?N = "wanted up m N"
  let ?r = "sse_push now up m (drop k (P @ Q) @ N) s"
  have d: "distinct (map ev_id (P @ Q @ N))" using Cons.prems(4) by (auto simp: p)
  have late: "ss_last_push s \<le> ev_ts e" if "e \<in> set N" for e
    using Cons.prems(3,5,6) that by (auto simp: p sorted_append)
  have now: "ss_last_push s \<le> now + 1" using Cons.prems(3,7) by (auto simp: p)
  have r: "snd ?r = ?N" "remembers (map ev_id (H @ wanted up m (Q @ N))) (fst ?r)"
    "ss_last_push (fst ?r) = (if ?N = [] then ss_last_push s else Max (ev_ts ` set ?N))"
    using push_new [OF Cons.prems(1) _ d assms(2) _ _ now assms(3), of k] assms(1) Cons.prems(2,5,7) late
    by (force simp: p)+
  have sub: "set ?N \<subseteq> set N" by (auto simp: wanted_def)
  have mx: "?N \<noteq> [] \<Longrightarrow> Max (ev_ts ` set ?N) \<in> ev_ts ` set N"
    using Max_in [of "ev_ts ` set ?N"] sub by fastforce
  have "t0 \<le> ss_last_push (fst ?r)" using r(3) Cons.prems(2,5) mx by (auto simp: p split: if_splits)
  moreover have "ss_last_push (fst ?r) = t0 \<or> ss_last_push (fst ?r) \<in> ev_ts ` set (Q @ N)"
    using r(3) Cons.prems(3) mx by (auto split: if_splits)
  ultimately have "snd (sse_run up m (fst ?r) (P @ Q @ N) polls) = wanted up m (arrived polls)"
    using Cons.IH [OF r(2)] Cons.prems(4-7) by (simp add: p)
  then show ?case using r(1) by (simp add: p wanted_def case_prod_beta del: drop_append)
qed

text \<open>
  C34. A stream that is opened with an upstream and a model sends the newest fifty matching events of the ring,
  the oldest first, and from then on every matching event that arrives exactly once, in the order of arrival:
  when the identifiers are distinct and not empty, the events of the ring are older than the opening and the
  later ones not, in the order of their times, no more than two hundred matching events arrive between two
  polls, and the clock does not go back by more than a second.
\<close>

theorem stream_exactly_once:
  assumes "sse_open t0 up m P = (s, history)"
    and "distinct (map ev_id (P @ arrived polls))" and "\<forall>e \<in> set (P @ arrived polls). ev_id e \<noteq> []"
    and "\<forall>e \<in> set P. ev_ts e < t0" and "\<forall>e \<in> set (arrived polls). t0 \<le> ev_ts e"
    and "sorted (map ev_ts (arrived polls))" and "polls_ok up m t0 [] polls"
  shows "history = last_n 50 (wanted up m P) \<and> snd (sse_run up m s P polls) = wanted up m (arrived polls)"
proof -
  let ?s0 = "\<lparr>ss_sent = [], ss_ids = [], ss_last_push = t0, ss_last_ping = t0, ss_last_metrics = t0, ss_start = t0\<rparr>"
  have h: "history = last_n 50 (wanted up m P)" "s = foldl remember_history ?s0 history"
    using assms(1) by (auto simp: sse_open_def Let_def recent_rev take_rev last_n_def)
  have sub: "set history \<subseteq> set P" using set_last_n [of 50 "wanted up m P"] by (auto simp: h(1) wanted_def)
  have d: "distinct (map ev_id history)"
    using assms(2) by (simp add: h(1) last_n_def wanted_def drop_map [symmetric] distinct_map_filter distinct_drop)
  have "remembers (map ev_id history) s \<and> ss_last_push s = t0"
    using remember_history_list [of "[]" ?s0 history] d sub assms(3) by (force simp: h(2) remembers_def last_n_def)
  then have "remembers (map ev_id (history @ wanted up m [])) s" "ss_last_push s = t0" by (simp_all add: wanted_def)
  from run_new [OF assms(4) sub d this(1), of polls] this(2) assms(2,3,5-7) h(1) show ?thesis by simp
qed

text \<open>
  What is older than the last push is not sent any more while the clock does not go back: an event that arrives
  while the history is written has a time before the opening's last reading of the clock, and this stream
  never gets it.
\<close>

theorem older_never_sent:
  assumes "e \<in> set (arrived polls)" and "ev_ts e < ss_last_push s"
    and "\<forall>p \<in> set polls. \<forall>x \<in> insert (ss_last_push s) (ev_ts ` set (P @ arrived polls)). x \<le> fst p + 1"
  shows "e \<notin> set (snd (sse_run up m s P polls))"
  using assms
proof -
  have "\<forall>x \<in> set (snd (sse_run up m u Q ps)). ss_last_push u \<le> ev_ts x"
    if "\<forall>p \<in> set ps. \<forall>x \<in> insert (ss_last_push u) (ev_ts ` set (Q @ arrived ps)). x \<le> fst p + 1" for u Q ps
    using that
  proof (induction ps arbitrary: u Q)
    case (Cons p ps)
    obtain now k N where p: "p = (now, k, N)" by (metis prod_cases3)
    let ?r = "sse_push now up m (drop k Q @ N) u"
    let ?evs = "recent_events 200 [] up m (drop k Q @ N)"
    let ?new = "filter (\<lambda>e. ss_last_push u \<le> ev_ts e \<and> ev_id e \<notin> set (ss_sent u)) ?evs"
    have lp: "(if now + 1 < ss_last_push u then now else ss_last_push u) = ss_last_push u" using Cons.prems by (auto simp: p)
    have rs: "ss_last_push (remember_sent v x) = ss_last_push v" for v x by (simp add: remember_sent_def Let_def)
    have fl: "ss_last_push (foldl remember_sent v xs) = ss_last_push v" for v xs by (induction xs arbitrary: v) (simp_all add: rs)
    have r: "snd ?r = rev ?new" "ss_last_push (fst ?r) = (if ?new = [] then ss_last_push u else Max (ev_ts ` set ?new))"
      unfolding sse_push_def Let_def lp by (simp_all add: fl)
    have ev: "set ?evs \<subseteq> set (Q @ N)"
      using set_take_subset [of 200 "rev (wanted up m (drop k Q @ N))"] set_drop_subset [of k Q]
      by (auto simp: recent_rev wanted_def)
    have mx: "?new \<noteq> [] \<Longrightarrow> Max (ev_ts ` set ?new) \<in> ev_ts ` set ?new"
      by (rule Max_in) (simp_all only: finite_imageI finite_set image_is_empty set_empty not_False_eq_True)
    have ge: "ss_last_push u \<le> ss_last_push (fst ?r)" using r(2) mx by auto
    have "ss_last_push (fst ?r) = ss_last_push u \<or> ss_last_push (fst ?r) \<in> ev_ts ` set (Q @ N)"
      using r(2) mx ev by (auto split: if_splits)
    then have "insert (ss_last_push (fst ?r)) (ev_ts ` set ((Q @ N) @ arrived ps))
        \<subseteq> insert (ss_last_push u) (ev_ts ` set (Q @ arrived (p # ps)))"
      by (auto simp: p simp del: drop_append)
    with Cons.prems have "\<forall>q \<in> set ps. \<forall>x \<in> insert (ss_last_push (fst ?r)) (ev_ts ` set ((Q @ N) @ arrived ps)). x \<le> fst q + 1"
      by (meson list.set_intros(2) subsetD)
    from Cons.IH [OF this] ge have "\<forall>x \<in> set (snd (sse_run up m (fst ?r) (Q @ N) ps)). ss_last_push u \<le> ev_ts x" by fastforce
    moreover have "\<forall>x \<in> set (snd ?r). ss_last_push u \<le> ev_ts x" using r(1) by simp
    ultimately show ?case by (auto simp: p split: prod.split)
  qed simp
  from this [OF assms(3)] assms(2) show ?thesis by fastforce
qed

text \<open>A stream opened at time 10 with one old event, and two polls with one new event each.\<close>

definition tick :: "real \<Rightarrow> string \<Rightarrow> event" where
  "tick t i = \<lparr>ev_ts = t, ev_id = i, ev_upstream = [], ev_model = [], ev_tail = [], ev_status = ''200'', ev_latency = None,
     ev_pii_hits = 0, ev_pii_miss = 0, ev_pii_found = False, ev_cred_hits = 0, ev_cred_miss = 0, ev_tokens = [],
     ev_verdict = [], ev_summary = [], ev_client_gone = False, ev_exception = False, ev_samples = []\<rparr>"

definition ticks :: "poll list" where
  "ticks = [(12, 0, [tick 11 ''b'']), (14, 1, [tick 13 ''c''])]"

lemma tick_sel [simp]: "ev_ts (tick t i) = t" "ev_id (tick t i) = i" "event_wanted [] [] [] (tick t i)"
  by (simp_all add: tick_def event_wanted_def)

theorem stream_exactly_once_witness:
  "snd (sse_open 10 [] [] [tick 5 ''a'']) = [tick 5 ''a'']
   \<and> snd (sse_run [] [] (fst (sse_open 10 [] [] [tick 5 ''a''])) [tick 5 ''a''] ticks) = [tick 11 ''b'', tick 13 ''c'']"
proof -
  obtain s history where o1: "sse_open 10 [] [] [tick 5 ''a''] = (s, history)" by fastforce
  have "history = last_n 50 (wanted [] [] [tick 5 ''a''])
      \<and> snd (sse_run [] [] s [tick 5 ''a''] ticks) = wanted [] [] (arrived ticks)"
    by (rule stream_exactly_once [OF o1]) (simp_all add: ticks_def wanted_def)
  with o1 show ?thesis by (simp add: ticks_def wanted_def last_n_def)
qed

theorem older_never_sent_witness:
  "tick 9 ''x'' \<notin> set (snd (sse_run [] [] (fst (sse_open 10 [] [] [])) [] [(12, 0, [tick 9 ''x''])]))"
proof -
  have l: "ss_last_push (fst (sse_open 10 [] [] [])) = 10"
    by (simp add: sse_open_def recent_events_def Let_def)
  show ?thesis by (rule older_never_sent) (simp_all add: l)
qed

end
