(* ===== verification/Spec2Isabelle.thy ===== *)
theory Spec2Isabelle
  imports Proxy_Runs Cred_Json Pii_Vault Admin Tool_Gate Pii_Host Pii_Config Pii_Prompt Pii_Response Metrics_Facts Admin_Metrics
begin

text \<open>
  A verification library for credential-proxy, a Python service that keeps passwords and personal data
  away from a language model.  It has two sides.  One hands out KeePass credentials: a caller asks over
  HTTP, an operator approves by a reaction in a Matrix room (or the caller is registered for automatic
  approval), a TPM unseals the master key, and the answer can carry a token instead of the password.  The
  other is a reverse proxy to model providers: it replaces passwords and personal data in requests by
  tokens, restores them in answers, and audits the tool calls a model asks for.  A collector counts what
  happens and a dashboard shows it.

  \<^bold>\<open>Conventions.\<close>  A Python string is its UTF-8 encoding, a list of byte characters (theory Prelude);
  lengths and positions the code counts in code points are counted in code points (\<open>cps\<close>, \<open>py_take\<close> of
  Py_Text).  A dictionary is an association list in insertion order with \<open>dget\<close>, \<open>dset\<close>, \<open>ddel\<close>; an
  integer of Python is an \<open>int\<close> or, where it counts, a \<open>nat\<close>; times are reals.  An exception is the left
  side of a sum (\<open>py_result\<close>) or a reply.  A class is a record of its fields, a method a function of the
  record that returns it changed.  Clock readings, random numbers and message identifiers are arguments,
  and so is every library that is not in the repository: orjson and json (\<open>json_lib\<close>), SHA-256, the
  pattern compiler, \<open>pykeepass\<close>, the TPM, the file system.  What a theorem needs of them is a hypothesis
  of that theorem, and its witness names a concrete function for which it holds.

  \<^bold>\<open>Shared theories.\<close>  Prelude (text, dictionaries, the collections of simplification rules), Json
  (\<open>json.loads\<close> values), Py_Text (code points, case, white space, numbers), Unicode_Tab (the ranges of
  \<open>str.isalnum\<close>), Ip_Addr (\<open>ipaddress\<close>), Regex and Regex_Facts (the patterns of \<open>re\<close> with their
  backtracking meaning), Token_Text (substitution of tokens, as one locale for
  both vaults), Rate_Limits (the contract of a minimum-interval limiter), Clock_Keys (\<open>strftime\<close> of days
  and hours).

  \<^bold>\<open>The credential side.\<close>
  \<^item> Registry (\<open>_registry.py\<close>): registered scripts, their hashes, paths and states, automatic approval,
    the persisted file.  The invariant \<open>registry_wf\<close> relates the table to its two indexes and is kept by
    every operation.
  \<^item> Cred_Vault and Cred_Json (\<open>_token.py\<close>, \<open>TokenMixin\<close>): passwords and their tokens, eviction, redaction
    and restoration of text and of JSON; Json_Walk (\<open>utils/json_walk.py\<close>) is the walk they share with the
    detector, with the leaf fallback, the check of the result and the recursion limit.
  \<^item> Proxy_State, Approvals, Keepass_Query, Credential_Api, Caller_Api (\<open>proxy.py\<close>, \<open>_matrix.py\<close>,
    \<open>_tpm.py\<close>, \<open>_credential.py\<close>): the proxy object, the Matrix commands and reactions, the KeePass query, and
    the HTTP handlers cut at their suspension points.
  \<^item> Proxy_Steps composes them into a transition system whose steps start or continue a handler or
    deliver a Matrix event; Proxy_Safety and Proxy_Once hold its invariants over all interleavings (who can
    be handed a credential, and how often), Proxy_Runs an executable driver with three scenarios, two of
    which are defects.

  \<^bold>\<open>Personal data.\<close>
  \<^item> Pii_Vault (\<open>GlobalPiiTokens\<close> of \<open>_token.py\<close>): values and tokens, one table for requests and one for
    answers, the search for a free index, exact and case-insensitive restoration.
  \<^item> Pii_Check, Pii_Scan, Pii_Rules, Pii_Redact, Pii_Host, Pii_Config, Pii_Prompt (\<open>_pii.py\<close>): the check
    digits and addresses, the built-in patterns, the custom rules with their time budget, the choice among
    overlapping places and the replacement, the counts and samples, the configuration, and the explanation
    that is added to a request.

  \<^bold>\<open>Answers of a model.\<close>
  \<^item> Stream_Text, Stream_Events, Tool_Gate (\<open>_llm.py\<close>, \<open>_sse.py\<close>): what of a streamed text can be sent
    although a token may be cut in two, the events of the three protocols, and the gate that holds the
    events of a tool call back until its arguments are complete and judged.
  \<^item> Audit_Text, Audit_Policy, Audit_Verdict, Audit_Log (\<open>_audit.py\<close>): normalisation of arguments, the
    policy file, the verdict of a call, the log with its rotation; Audit_Approval: the approval of a
    denied call over Matrix, with all interleavings of requests, reactions and the sweeper.
  \<^item> Pii_Response (\<open>_llm.py\<close>): the text of an answer: restoration with the marks of the restored values,
    masking of what the model itself wrote, the lines of an event stream.

  \<^bold>\<open>Observation.\<close>
  \<^item> Metrics_Redact, Metrics_Agg, Metrics_Store, Metrics_Query, Metrics_Facts (\<open>_metrics.py\<close>): the summary of
    a request, the counters of days and hours, snapshots, queue, database tables and retention, the
    queries of the dashboard, and what its numbers are worth.
  \<^item> Admin and Admin_Metrics (\<open>_admin.py\<close>): the start-up check of the token, loopback addresses, the
    limiter, the order of checks of a request, the answers, and the stream of events.

  \<^bold>\<open>Locales.\<close>  \<open>token_vault\<close> (Token_Text) states what a vault must guarantee about its tokens and proves the
  round trip once; both vaults are interpretations (\<open>cred\<close>, \<open>pii\<close>).  \<open>interval_limiter\<close> (Rate_Limits) is
  interpreted for the automatic approvals of the registry and for the credential handler.  \<open>tool_gate\<close>
  holds what keeps refused arguments back, interpreted for both streaming handlers.  \<open>additive\<close> (counters
  that every operation adds to) is interpreted for the aggregates of the days, for the rows a query sums
  and for a window of days.

  \<^bold>\<open>What the theorems show.\<close>  Safety over all runs: which approvals and which registrations lead to a
  release, that a request is released at most as often as it was opened, that the arguments of a refused
  tool call stay back within the bounds of the buffers, that admin data needs the token or the loopback
  grace.  Round trips: redaction followed by restoration, for text and JSON, for both vaults, and the
  registry's file.  Completeness and exactness of redaction: no registered secret survives in a text, the
  replaced places are disjoint and overlap whatever else was found, what the summary shows.  Refinement
  and equivalence: the limiter against a sliding window, the percentile of buckets against the sorted
  list, the first totals of the dashboard against the sum over all operations, every event of a stream
  once.  Invariants: registry, approvals, stored totals over restarts.  Termination, bounds and liveness
  where the code loops or waits.  Several theorems state a defect; the findings of the manifest name them.

  \<^bold>\<open>Limits of the statements.\<close>  Request and message identifiers are not assumed to be distinct in the
  transition system, so the theorem on single use counts openings; the registry's own theorems take a
  new registration identifier (64 random bits) to be unused.  The round trips of personal data need
  a text without beginnings of tokens, at most a thousand values and exact restoration
  (\<open>PII_FUZZY_RESTORE\<close> off).  The theorems on JSON need a nesting below the recursion limit and a library
  whose dumps parse.  The theorems on tool calls need a policy with values of the right types, calls that
  can be extracted and log lines that can be encoded; the lemmas \<open>malformed_choice_skips_audit\<close>,
  \<open>surrogate_skips_audit\<close>, \<open>overflown_hold_still_sent\<close> and \<open>empty_call_not_audited\<close> show what happens
  otherwise.  The exact totals of the dashboard are those of a process that started with empty tables and
  has not flushed before; \<open>stale_snapshot_wins\<close> and \<open>flush_drops_days\<close> show what later flushes can lose.
  Values of a request body that have another type than the code expects are read as missing or empty
  where the code would raise later (\<open>register_args\<close>, \<open>body_entries\<close>), and a failed write of the registry's
  file is not modelled.

  \<^bold>\<open>Bounds and fuel.\<close>  The JSON walk takes the number of free stack frames as an argument, as the recursion
  limit of Python is visible in the code (it catches \<open>RecursionError\<close>).  The repetitions of a pattern run
  on fuel, one more than the text is long; \<open>rx_iter_enough\<close> and \<open>rx_rep_enough\<close> show that more changes
  nothing.  The search of a free index runs on fuel and its theorem shows that as many steps as there are
  tokens suffice.  The audit log's file operations draw on a budget of failures.  The order of the day keys
  is proved for clocks from 1970 to the year 9891, where the year has four digits in all cutoffs.
  Everything else recurses structurally or on a measure.

  \<^bold>\<open>Not modelled.\<close>  Network and file input and output as such: the Matrix sync loop, aiohttp, the clients
  of the providers, SQLite's file (its tables are modelled), file modes, timers, thread pools.  Of
  \<open>_llm.py\<close> the handler that forwards a request (routing, headers, retries, compression, the debugging
  dumps, the guards against empty answers) and the rewriting of chat and Responses streams beyond the text
  cut, the events and the gate: it is one function of several thousand lines over sockets, whose pure
  parts are the theories above.  The start-up code of the entry points, memory locking, the message texts
  for the Matrix room, the HTML page, the Go client under \<open>get/\<close> and the tests.
\<close>

end
